(* ===== verification/Rust_Prelude.thy ===== *)
theory Rust_Prelude
  imports Main "HOL-Library.Char_ord" "HOL-Library.List_Lexorder"
begin

text \<open>
  The vocabulary shared by every component theory: what the Rust sources use of the
  language and of its standard library.

  \<^item> \<open>'a result\<close> is \<^verbatim>\<open>anyhow::Result<T>\<close>: an \<open>Inl\<close> carries the message chain that
    \<^verbatim>\<open>bail!\<close>, \<^verbatim>\<open>anyhow!\<close> and \<^verbatim>\<open>.context(..)\<close> build; \<open>rbind\<close> is the \<^verbatim>\<open>?\<close> operator.
  \<^item> \<open>string\<close> is the UTF-8 byte sequence of a \<^verbatim>\<open>&str\<close>. Every separator the sources
    split on is ASCII, so splitting bytes and splitting \<^verbatim>\<open>char\<close>s give the same pieces;
    \<open>trim\<close> removes ASCII white space.
  \<^item> \<open>bt_insert\<close> is insertion into a \<^verbatim>\<open>BTreeMap\<close>, represented by its entries in key order
    (the order in which the sources iterate over it).
  The locale \<open>keyed_store\<close> states what the clients of such a map rely on; it is
  interpreted on \<open>bt_insert\<close> below.
\<close>

named_theorems result_simps "evaluation of fallible computations"
named_theorems str_simps "evaluation of the string functions of the standard library"

section \<open>Fallible computations\<close>

datatype error = Bail string | Context string error

type_synonym 'a result = "error + 'a"

definition rbind :: "'a result \<Rightarrow> ('a \<Rightarrow> 'b result) \<Rightarrow> 'b result" where
  "rbind m f = (case m of Inl e \<Rightarrow> Inl e | Inr x \<Rightarrow> f x)"

definition with_context :: "string \<Rightarrow> 'a result \<Rightarrow> 'a result" where
  "with_context msg m = (case m of Inl e \<Rightarrow> Inl (Context msg e) | Inr x \<Rightarrow> Inr x)"

definition ok_or :: "error \<Rightarrow> 'a option \<Rightarrow> 'a result" where
  "ok_or e x = (case x of None \<Rightarrow> Inl e | Some y \<Rightarrow> Inr y)"

fun is_ok :: "'a result \<Rightarrow> bool" where
  "is_ok (Inr _) = True"
| "is_ok (Inl _) = False"

lemma rbind_simps [simp, result_simps]:
  "rbind (Inl e) f = Inl e"
  "rbind (Inr x) f = f x"
  by (simp_all add: rbind_def)

lemma with_context_simps [simp, result_simps]:
  "with_context msg (Inr x) = Inr x"
  "with_context msg (Inl e) = Inl (Context msg e)"
  by (simp_all add: with_context_def)

lemma ok_or_simps [simp, result_simps]:
  "ok_or e None = Inl e"
  "ok_or e (Some y) = Inr y"
  by (simp_all add: ok_or_def)

lemma rbind_Inr_iff: "rbind m f = Inr y \<longleftrightarrow> (\<exists>x. m = Inr x \<and> f x = Inr y)"
  by (cases m) simp_all

lemma guard_Inr_iff: "(if b then Inl e else m) = Inr y \<longleftrightarrow> \<not> b \<and> m = Inr y"
  by simp

lemma list_case_Inr_iff:
  "(case xs of [] \<Rightarrow> Inl e | y # ys \<Rightarrow> f y ys) = Inr z \<longleftrightarrow> (\<exists>y ys. xs = y # ys \<and> f y ys = Inr z)"
  by (cases xs) simp_all

lemma option_case_Inr_iff:
  "(case x of None \<Rightarrow> Inl e | Some y \<Rightarrow> f y) = Inr z \<longleftrightarrow> (\<exists>y. x = Some y \<and> f y = Inr z)"
  by (cases x) simp_all

lemmas run_iffs = rbind_Inr_iff split_paired_Ex case_prod_conv guard_Inr_iff list_case_Inr_iff option_case_Inr_iff

lemma rbind_InrE:
  assumes "rbind m f = Inr y"
  obtains x where "m = Inr x" "f x = Inr y"
  using assms by (auto simp: rbind_Inr_iff)

lemma rbind_Inl_iff: "rbind m f = Inl e \<longleftrightarrow> m = Inl e \<or> (\<exists>x. m = Inr x \<and> f x = Inl e)"
  by (cases m) simp_all

lemma with_context_Inr_iff [simp]: "with_context msg m = Inr x \<longleftrightarrow> m = Inr x"
  by (cases m) simp_all

lemma ok_or_Inr_iff [simp]: "ok_or e x = Inr y \<longleftrightarrow> x = Some y"
  by (cases x) simp_all

lemma is_ok_iff: "is_ok m \<longleftrightarrow> (\<exists>x. m = Inr x)"
  by (cases m) simp_all

text \<open>\<^verbatim>\<open>iter.map(f).collect::<Result<Vec<_>>>()\<close> and \<^verbatim>\<open>for x in xs { state.step(x)?; }\<close>.\<close>

text \<open>State passing with failure: the state is kept when an operation fails.\<close>

definition sbind :: "'s \<times> 'a result \<Rightarrow> ('s \<Rightarrow> 'a \<Rightarrow> 's \<times> 'b result) \<Rightarrow> 's \<times> 'b result" where
  "sbind m f = (case snd m of Inl e \<Rightarrow> (fst m, Inl e) | Inr x \<Rightarrow> f (fst m) x)"

lemma sbind_simps [simp]:
  "sbind (s, Inr x) f = f s x"
  "sbind (s, Inl e) f = (s, Inl e)"
  by (simp_all add: sbind_def)

lemma sbind_InrE:
  assumes "sbind m f = (s', Inr y)"
  obtains s x where "m = (s, Inr x)" "f s x = (s', Inr y)"
  using assms by (cases m; cases "snd m") (auto simp: sbind_def)

fun traverse :: "('a \<Rightarrow> 'b result) \<Rightarrow> 'a list \<Rightarrow> 'b list result" where
  "traverse f [] = Inr []"
| "traverse f (x # xs) = rbind (f x) (\<lambda>y. rbind (traverse f xs) (\<lambda>ys. Inr (y # ys)))"

fun fold_result :: "('s \<Rightarrow> 'a \<Rightarrow> 's result) \<Rightarrow> 's \<Rightarrow> 'a list \<Rightarrow> 's result" where
  "fold_result f s [] = Inr s"
| "fold_result f s (x # xs) = rbind (f s x) (\<lambda>s'. fold_result f s' xs)"

lemma traverse_Inr_iff:
  "traverse f xs = Inr ys \<longleftrightarrow> list_all2 (\<lambda>x y. f x = Inr y) xs ys"
  by (induction xs arbitrary: ys) (auto simp: rbind_Inr_iff list_all2_Cons1)

lemma fold_result_invariant:
  assumes "fold_result f s xs = Inr s'" and "P s"
    and "\<And>s x s'. x \<in> set xs \<Longrightarrow> P s \<Longrightarrow> f s x = Inr s' \<Longrightarrow> P s'"
  shows "P s'"
  using assms
proof (induction xs arbitrary: s)
  case Nil
  then show ?case by simp
next
  case (Cons x xs)
  then obtain t where t: "f s x = Inr t" and rest: "fold_result f t xs = Inr s'"
    by (auto simp: rbind_Inr_iff)
  from Cons.prems(3) [OF _ Cons.prems(2) t] have "P t" by simp
  with rest show ?case by (rule Cons.IH) (use Cons.prems(3) in auto)
qed

lemma fold_result_total:
  assumes "P s" and "\<And>s x. x \<in> set xs \<Longrightarrow> P s \<Longrightarrow> \<exists>s'. f s x = Inr s' \<and> P s'"
  shows "\<exists>s'. fold_result f s xs = Inr s' \<and> P s'"
  using assms
proof (induction xs arbitrary: s)
  case Nil
  then show ?case by simp
next
  case (Cons x xs)
  from Cons.prems(2) [of x s] Cons.prems(1) obtain t where t: "f s x = Inr t" "P t" by auto
  have "\<exists>s'. fold_result f t xs = Inr s' \<and> P s'"
    by (rule Cons.IH [OF t(2)]) (use Cons.prems(2) in auto)
  with t(1) show ?case by simp
qed

lemma fold_result_append:
  "fold_result f s (xs @ ys) = rbind (fold_result f s xs) (\<lambda>t. fold_result f t ys)"
  by (induction xs arbitrary: s) (auto simp: rbind_def split: sum.splits)

section \<open>Characters\<close>

definition is_ascii_digit :: "char \<Rightarrow> bool" where
  "is_ascii_digit c \<longleftrightarrow> 48 \<le> (of_char c :: nat) \<and> (of_char c :: nat) \<le> 57"

definition is_ascii_alphabetic :: "char \<Rightarrow> bool" where
  "is_ascii_alphabetic c \<longleftrightarrow>
     65 \<le> (of_char c :: nat) \<and> (of_char c :: nat) \<le> 90 \<or>
     97 \<le> (of_char c :: nat) \<and> (of_char c :: nat) \<le> 122"

definition is_ascii_alphanumeric :: "char \<Rightarrow> bool" where
  "is_ascii_alphanumeric c \<longleftrightarrow> is_ascii_alphabetic c \<or> is_ascii_digit c"

definition is_whitespace :: "char \<Rightarrow> bool" where
  "is_whitespace c \<longleftrightarrow> (of_char c :: nat) \<in> {9, 10, 11, 12, 13, 32}"

definition is_control :: "char \<Rightarrow> bool" where
  "is_control c \<longleftrightarrow> (of_char c :: nat) < 32 \<or> (of_char c :: nat) = 127"

abbreviation newline :: char where "newline \<equiv> CHR 0x0A"
abbreviation carriage_return :: char where "carriage_return \<equiv> CHR 0x0D"
abbreviation tab :: char where "tab \<equiv> CHR 0x09"
abbreviation slash :: char where "slash \<equiv> CHR ''/''"

lemmas char_class_defs = is_ascii_digit_def is_ascii_alphabetic_def is_ascii_alphanumeric_def
  is_whitespace_def is_control_def

section \<open>Strings\<close>

text \<open>\<^verbatim>\<open>str::split(c)\<close>: always at least one piece.\<close>

fun split_on :: "'a \<Rightarrow> 'a list \<Rightarrow> 'a list list" where
  "split_on c [] = [[]]"
| "split_on c (x # xs) =
     (if x = c then [] # split_on c xs
      else (case split_on c xs of [] \<Rightarrow> [[x]] | w # ws \<Rightarrow> (x # w) # ws))"

text \<open>\<^verbatim>\<open>[T]::join(sep)\<close>.\<close>

fun join_with :: "'a list \<Rightarrow> 'a list list \<Rightarrow> 'a list" where
  "join_with sep [] = []"
| "join_with sep [w] = w"
| "join_with sep (w # v # ws) = w @ sep @ join_with sep (v # ws)"

text \<open>\<^verbatim>\<open>str::split_once(c)\<close> and \<^verbatim>\<open>str::rsplit_once(c)\<close>.\<close>

fun split_once :: "'a \<Rightarrow> 'a list \<Rightarrow> ('a list \<times> 'a list) option" where
  "split_once c [] = None"
| "split_once c (x # xs) =
     (if x = c then Some ([], xs) else map_option (\<lambda>(a, b). (x # a, b)) (split_once c xs))"

definition rsplit_once :: "'a \<Rightarrow> 'a list \<Rightarrow> ('a list \<times> 'a list) option" where
  "rsplit_once c s = map_option (\<lambda>(a, b). (rev b, rev a)) (split_once c (rev s))"

definition starts_with :: "'a list \<Rightarrow> 'a list \<Rightarrow> bool" where
  "starts_with s p \<longleftrightarrow> take (length p) s = p"

definition ends_with :: "'a list \<Rightarrow> 'a list \<Rightarrow> bool" where
  "ends_with s p \<longleftrightarrow> starts_with (rev s) (rev p)"

definition strip_prefix :: "'a list \<Rightarrow> 'a list \<Rightarrow> 'a list option" where
  "strip_prefix s p = (if starts_with s p then Some (drop (length p) s) else None)"

definition strip_suffix :: "'a list \<Rightarrow> 'a list \<Rightarrow> 'a list option" where
  "strip_suffix s p = (if ends_with s p then Some (take (length s - length p) s) else None)"

definition trim :: "string \<Rightarrow> string" where
  "trim s = rev (dropWhile is_whitespace (rev (dropWhile is_whitespace s)))"

text \<open>
  \<^verbatim>\<open>str::lines()\<close>: a final empty piece is not a line, and a carriage return is removed
  only before a line feed.
\<close>

definition lines :: "string \<Rightarrow> string list" where
  "lines s =
     (let ws = split_on newline s;
          strip_cr = (\<lambda>w. case strip_suffix w [carriage_return] of None \<Rightarrow> w | Some v \<Rightarrow> v)
      in map strip_cr (butlast ws) @ (if last ws = [] then [] else [last ws]))"

lemma split_on_not_Nil [simp]: "split_on c s \<noteq> []"
  by (cases s) (auto split: list.splits)

lemma split_on_obtain: obtains w ws where "split_on c s = w # ws"
  using split_on_not_Nil by (cases "split_on c s") auto

lemma split_on_no_sep: "w \<in> set (split_on c s) \<Longrightarrow> c \<notin> set w"
proof (induction s arbitrary: w)
  case (Cons x xs)
  obtain v vs where "split_on c xs = v # vs" by (rule split_on_obtain)
  with Cons show ?case by (auto split: if_splits)
qed auto

lemma join_with_Cons: "join_with sep (w # ws) = (if ws = [] then w else w @ sep @ join_with sep ws)"
  by (cases ws) simp_all

lemma join_split_on [simp]: "join_with [c] (split_on c s) = s"
proof (induction s)
  case (Cons x xs)
  obtain w ws where "split_on c xs = w # ws" by (rule split_on_obtain)
  with Cons show ?case by (auto simp: join_with_Cons split: if_splits)
qed simp

lemma split_on_no_occurrence [simp]: "c \<notin> set s \<Longrightarrow> split_on c s = [s]"
  by (induction s) auto

lemma split_on_append_sep: "c \<notin> set w \<Longrightarrow> split_on c (w @ c # s) = w # split_on c s"
  by (induction w) auto

lemma split_on_join_with:
  "ws \<noteq> [] \<Longrightarrow> (\<And>w. w \<in> set ws \<Longrightarrow> c \<notin> set w) \<Longrightarrow> split_on c (join_with [c] ws) = ws"
  by (induction ws) (auto simp: join_with_Cons split_on_append_sep)

lemma length_split_on: "length (split_on c s) = Suc (count_list s c)"
  by (induction s) (auto split: list.splits)

lemma split_on_set: "w \<in> set (split_on c s) \<Longrightarrow> set w \<subseteq> set s"
proof (induction s arbitrary: w)
  case (Cons x xs)
  obtain v vs where v: "split_on c xs = v # vs" by (rule split_on_obtain)
  then have "set u \<subseteq> set xs" if "u \<in> set (v # vs)" for u using Cons.IH [of u] that by simp
  with Cons.prems v show ?case by (fastforce split: if_splits)
qed auto

lemma split_once_Some_iff: "split_once c s = Some (a, b) \<longleftrightarrow> s = a @ c # b \<and> c \<notin> set a"
proof (induction s arbitrary: a)
  case (Cons x s)
  then show ?case by (cases a) auto
qed simp

lemma split_once_None_iff [simp]: "split_once c s = None \<longleftrightarrow> c \<notin> set s"
  by (induction s) auto

lemma rsplit_once_Some_iff: "rsplit_once c s = Some (a, b) \<longleftrightarrow> s = a @ c # b \<and> c \<notin> set b"
proof -
  have "rsplit_once c s = Some (a, b) \<longleftrightarrow> split_once c (rev s) = Some (rev b, rev a)"
    by (auto simp: rsplit_once_def)
  also have "\<dots> \<longleftrightarrow> s = a @ c # b \<and> c \<notin> set b"
    by (auto simp: split_once_Some_iff rev_swap)
  finally show ?thesis .
qed

lemma rsplit_once_None_iff [simp]: "rsplit_once c s = None \<longleftrightarrow> c \<notin> set s"
  by (simp add: rsplit_once_def)

lemma starts_with_iff: "starts_with s p \<longleftrightarrow> (\<exists>r. s = p @ r)"
  unfolding starts_with_def by (metis append_eq_conv_conj append_take_drop_id)

lemma ends_with_iff: "ends_with s p \<longleftrightarrow> (\<exists>r. s = r @ p)"
  unfolding ends_with_def starts_with_iff by (metis rev_append rev_rev_ident)

lemma strip_prefix_Some_iff: "strip_prefix s p = Some r \<longleftrightarrow> s = p @ r"
  by (auto simp: strip_prefix_def starts_with_iff)

lemma strip_prefix_None_iff: "strip_prefix s p = None \<longleftrightarrow> \<not> starts_with s p"
  by (simp add: strip_prefix_def)

lemma strip_prefix_append [simp]: "strip_prefix (p @ r) p = Some r"
  by (simp add: strip_prefix_Some_iff)

lemma strip_suffix_Some_iff: "strip_suffix s p = Some r \<longleftrightarrow> s = r @ p"
  by (auto simp: strip_suffix_def ends_with_iff)

lemma trim_set: "set (trim s) \<subseteq> set s"
  by (auto simp: trim_def dest!: set_dropWhileD)

lemma trim_no_whitespace_ends:
  assumes "s \<noteq> []" "\<not> is_whitespace (hd s)" "\<not> is_whitespace (last s)"
  shows "trim s = s"
proof -
  have "dropWhile is_whitespace s = s" using assms by (cases s) auto
  moreover have "dropWhile is_whitespace (rev s) = rev s"
    using assms by (cases "rev s") (auto simp: hd_rev)
  ultimately show ?thesis by (simp add: trim_def)
qed

lemma trim_Nil [simp]: "trim [] = []"
  by (simp add: trim_def)

lemma trim_ends:
  assumes "trim s \<noteq> []"
  shows "\<not> is_whitespace (hd (trim s)) \<and> \<not> is_whitespace (last (trim s))"
proof -
  define t where "t = dropWhile is_whitespace s"
  have t: "trim s = rev (dropWhile is_whitespace (rev t))" by (simp add: trim_def t_def)
  with assms have ne: "dropWhile is_whitespace (rev t) \<noteq> []" by simp
  then have last: "\<not> is_whitespace (last (trim s))"
    using hd_dropWhile [of is_whitespace "rev t"] t by (simp add: last_rev)
  obtain u where u: "rev t = u @ dropWhile is_whitespace (rev t)"
    by (metis takeWhile_dropWhile_id)
  then have "t = trim s @ rev u" using t by (metis rev_append rev_rev_ident)
  with assms have "hd (trim s) = hd t" "t \<noteq> []" by auto
  then have "\<not> is_whitespace (hd (trim s))"
    using hd_dropWhile [of is_whitespace s] by (simp add: t_def)
  with last show ?thesis by simp
qed

lemma trim_trim [simp]: "trim (trim s) = trim s"
  using trim_ends [of s] trim_no_whitespace_ends [of "trim s"] by (cases "trim s = []") auto

text \<open>A loop that rejects at the first element failing a test.\<close>

lemma find_reject_None [simp]: "find (\<lambda>x. \<not> P x) xs = None \<longleftrightarrow> (\<forall>x \<in> set xs. P x)"
  by (induction xs) auto

lemma find_reject_Some: "find (\<lambda>x. \<not> P x) xs = Some y \<Longrightarrow> y \<in> set xs \<and> \<not> P y"
  by (induction xs) (auto split: if_splits)

lemma length_filter_eq [simp]: "length (filter (\<lambda>b. b = c) s) = count_list s c"
  by (induction s) auto

lemma split_on_subset: "w \<in> set (split_on c s) \<Longrightarrow> set w \<subseteq> set s"
proof (induction s arbitrary: w)
  case (Cons x xs)
  obtain v vs where "split_on c xs = v # vs" by (rule split_on_obtain)
  with Cons show ?case by (fastforce split: if_splits)
qed simp

lemma lines_clean: "l \<in> set (lines s) \<Longrightarrow> newline \<notin> set l \<and> set l \<subseteq> set s"
proof -
  assume "l \<in> set (lines s)"
  then consider (last) "l = last (split_on newline s)"
    | (line) w where "w \<in> set (butlast (split_on newline s))"
        "l = (case strip_suffix w [carriage_return] of None \<Rightarrow> w | Some v \<Rightarrow> v)"
    by (auto simp: lines_def Let_def split: if_splits)
  then obtain w where w: "w \<in> set (split_on newline s)"
    "l = w \<or> l = (case strip_suffix w [carriage_return] of None \<Rightarrow> w | Some v \<Rightarrow> v)"
  proof cases
    case last
    show ?thesis by (rule that [of l]) (simp_all add: last)
  next
    case (line w)
    show ?thesis by (rule that [of w]) (use line in \<open>auto dest: in_set_butlastD\<close>)
  qed
  then have "set l \<subseteq> set w" by (auto simp: strip_suffix_Some_iff split: option.splits)
  then show "newline \<notin> set l \<and> set l \<subseteq> set s"
    using split_on_no_sep [OF w(1)] split_on_subset [OF w(1)] by blast
qed

lemma lines_of_terminated_by:
  assumes "\<And>l. l \<in> set ls \<Longrightarrow> newline \<notin> set l \<and> \<not> ends_with l [carriage_return]"
  shows "lines (concat (map (\<lambda>l. l @ [newline]) ls)) = ls"
proof -
  have split: "split_on newline (concat (map (\<lambda>l. l @ [newline]) ls)) = ls @ [[]]"
    using assms by (induction ls) (auto simp: split_on_append_sep)
  have "(case strip_suffix l [carriage_return] of None \<Rightarrow> l | Some v \<Rightarrow> v) = l" if "l \<in> set ls" for l
    using assms [OF that] by (simp add: strip_suffix_def)
  then show ?thesis by (simp add: lines_def split Let_def map_idI)
qed

lemma ends_with_single: "ends_with s [c] \<Longrightarrow> c \<in> set s"
  by (auto simp: ends_with_iff)

lemma lines_of_terminated:
  assumes "\<And>l. l \<in> set ls \<Longrightarrow> newline \<notin> set l \<and> carriage_return \<notin> set l"
  shows "lines (concat (map (\<lambda>l. l @ [newline]) ls)) = ls"
proof (rule lines_of_terminated_by)
  fix l assume "l \<in> set ls"
  from assms [OF this] show "newline \<notin> set l \<and> \<not> ends_with l [carriage_return]"
    by (auto dest: ends_with_single)
qed

section \<open>Ordered maps\<close>

text \<open>
  What the sources rely on when they insert into a map and look up or iterate over it. The
  client lemmas say what a run of insertions leaves behind: the last value written under
  a key wins, every other key keeps its value.
\<close>

locale keyed_store =
  fixes insert_kv :: "'k \<Rightarrow> 'v \<Rightarrow> 'm \<Rightarrow> 'm"
    and lookup :: "'m \<Rightarrow> 'k \<Rightarrow> 'v option"
    and invar :: "'m \<Rightarrow> bool"
  assumes lookup_insert: "invar m \<Longrightarrow> lookup (insert_kv k v m) = (lookup m)(k \<mapsto> v)"
    and invar_insert: "invar m \<Longrightarrow> invar (insert_kv k v m)"
begin

lemma invar_inserts: "invar m \<Longrightarrow> invar (foldl (\<lambda>m (k, v). insert_kv k v m) m kvs)"
  by (induction kvs arbitrary: m) (auto simp: invar_insert)

lemma lookup_inserts:
  "invar m \<Longrightarrow>
   lookup (foldl (\<lambda>m (k, v). insert_kv k v m) m kvs) = lookup m ++ map_of (rev kvs)"
proof (induction kvs arbitrary: m)
  case (Cons kv kvs)
  then show ?case
    by (cases kv) (simp add: invar_insert lookup_insert map_add_assoc [symmetric] fun_eq_iff map_add_def
        split: option.splits)
qed simp

end

fun bt_insert :: "'k :: linorder \<Rightarrow> 'v \<Rightarrow> ('k \<times> 'v) list \<Rightarrow> ('k \<times> 'v) list" where
  "bt_insert k v [] = [(k, v)]"
| "bt_insert k v ((k', v') # m) =
     (if k < k' then (k, v) # (k', v') # m
      else if k = k' then (k, v) # m
      else (k', v') # bt_insert k v m)"

definition bt_sorted :: "('k :: linorder \<times> 'v) list \<Rightarrow> bool" where
  "bt_sorted m \<longleftrightarrow> sorted_wrt (<) (map fst m)"

lemma fst_bt_insert: "fst ` set (bt_insert k v m) = insert k (fst ` set m)"
  by (induction k v m rule: bt_insert.induct) (auto simp del: bt_insert.simps simp: bt_insert.simps)

lemma bt_sorted_insert: "bt_sorted m \<Longrightarrow> bt_sorted (bt_insert k v m)"
  unfolding bt_sorted_def
proof (induction m)
  case (Cons kv m)
  have "set (map fst (bt_insert k v m)) = insert k (set (map fst m))"
    using fst_bt_insert [of k v m] by simp
  with Cons show ?case by (cases kv) (auto simp: image_iff)
qed simp

lemma map_of_bt_insert: "map_of (bt_insert k v m) = (map_of m)(k \<mapsto> v)"
  by (induction m) (auto simp: fun_eq_iff)

lemma set_bt_insert: "set (bt_insert k v m) \<subseteq> insert (k, v) (set m)"
  by (induction k v m rule: bt_insert.induct) auto

lemma bt_sorted_Nil [simp]: "bt_sorted []"
  by (simp add: bt_sorted_def)

lemma bt_sorted_distinct: "bt_sorted m \<Longrightarrow> distinct (map fst m)"
  by (simp add: bt_sorted_def strict_sorted_iff)

interpretation bt: keyed_store bt_insert map_of bt_sorted
  by unfold_locales (auto simp: map_of_bt_insert bt_sorted_insert)

text \<open>\<^verbatim>\<open>sort(); dedup()\<close> on a vector of ordered values.\<close>

definition sort_dedup :: "'a :: linorder list \<Rightarrow> 'a list" where
  "sort_dedup xs = remdups_adj (sort xs)"

lemma set_sort_dedup [simp]: "set (sort_dedup xs) = set xs"
  by (simp add: sort_dedup_def)

lemma sorted_sort_dedup [simp]: "sorted (sort_dedup xs)"
  by (simp add: sort_dedup_def sorted_remdups_adj)

lemma distinct_remdups_adj_sorted: "sorted xs \<Longrightarrow> distinct (remdups_adj xs)"
  by (induction xs rule: remdups_adj.induct) (auto simp: not_less order_le_less)

lemma distinct_sort_dedup [simp]: "distinct (sort_dedup xs)"
  by (simp add: sort_dedup_def distinct_remdups_adj_sorted)

section \<open>Maxima\<close>

text \<open>\<^verbatim>\<open>max_by_key\<close> keeps the last of the maximal elements.\<close>

definition max_by_key :: "('a \<Rightarrow> nat) \<Rightarrow> 'a list \<Rightarrow> 'a option" where
  "max_by_key f xs =
     foldl (\<lambda>best x. case best of None \<Rightarrow> Some x | Some y \<Rightarrow> if f x < f y then Some y else Some x) None xs"

lemma max_by_key_snoc:
  "max_by_key f (xs @ [x]) = (case max_by_key f xs of None \<Rightarrow> Some x | Some y \<Rightarrow> if f x < f y then Some y else Some x)"
  by (simp add: max_by_key_def)

lemma max_by_key_None: "max_by_key f xs = None \<longleftrightarrow> xs = []"
  by (induction xs rule: rev_induct) (auto simp: max_by_key_def split: option.splits)

lemma max_by_key_Some: "max_by_key f xs = Some x \<Longrightarrow> x \<in> set xs \<and> (\<forall>y\<in>set xs. f y \<le> f x)"
proof (induction xs arbitrary: x rule: rev_induct)
  case (snoc z zs)
  show ?case
  proof (cases "max_by_key f zs")
    case None
    have "x = z" using snoc.prems None by (simp add: max_by_key_snoc)
    moreover have "zs = []" using None by (simp add: max_by_key_None)
    ultimately show ?thesis by simp
  next
    case (Some y)
    have y: "y \<in> set zs" "\<forall>w\<in>set zs. f w \<le> f y" using snoc.IH [OF Some] by auto
    show ?thesis
    proof (cases "f z < f y")
      case True
      then show ?thesis using snoc.prems Some y by (simp add: max_by_key_snoc)
    next
      case False
      then have "x = z" using snoc.prems Some by (simp add: max_by_key_snoc)
      then show ?thesis using y(2) False by (auto intro: le_trans)
    qed
  qed
qed (simp add: max_by_key_def)


section \<open>Loops that close a set\<close>

text \<open>
  Several loops of the program repeat a pass over a list of pairs until nothing changes. A pass keeps what is there,
  adds only what an edge leads to, says whether it added anything, and says that it did not only when nothing is
  missing: the loop then computes the reflexive transitive closure.
\<close>

locale closure_loop =
  fixes pass :: "'a list \<Rightarrow> 'a list \<times> bool" and loop :: "'a list \<Rightarrow> 'a list" and edges :: "('a \<times> 'a) set"
  assumes loop: "loop xs = (case pass xs of (ys, changed) \<Rightarrow> if changed then loop ys else ys)"
    and finite_edges: "finite edges"
    and grows: "pass xs = (ys, changed) \<Longrightarrow> set xs \<subseteq> set ys"
    and progress: "pass xs = (ys, True) \<Longrightarrow> set xs \<noteq> set ys"
    and sound: "pass xs = (ys, changed) \<Longrightarrow> set ys \<subseteq> edges\<^sup>* `` set xs"
    and stable: "pass xs = (ys, False) \<Longrightarrow> set ys \<subseteq> set xs \<and> edges `` set xs \<subseteq> set xs"
begin

lemma reachable_targets: "edges\<^sup>* `` A \<subseteq> A \<union> snd ` edges"
proof
  fix y
  assume "y \<in> edges\<^sup>* `` A"
  then obtain x where x: "(x, y) \<in> edges\<^sup>*" "x \<in> A" by (rule ImageE)
  from x(1) show "y \<in> A \<union> snd ` edges" by (cases rule: rtranclE) (use x(2) in \<open>auto intro: rev_image_eqI\<close>)
qed

lemma closure_of_step: "set xs \<subseteq> set ys \<Longrightarrow> set ys \<subseteq> edges\<^sup>* `` set xs \<Longrightarrow> edges\<^sup>* `` set ys = edges\<^sup>* `` set xs"
  by (blast intro: rtrancl_trans)

lemma closure_of_closed: "edges `` A \<subseteq> A \<Longrightarrow> edges\<^sup>* `` A = A"
  by (rule Image_closed_trancl)

lemma closure: "set (loop xs) = edges\<^sup>* `` set xs"
proof (induction "card (snd ` edges - set xs)" arbitrary: xs rule: less_induct)
  case less
  obtain ys changed where p: "pass xs = (ys, changed)" by fastforce
  show ?case
  proof (cases changed)
    case True
    have "set xs \<subset> set ys" using grows [OF p] progress [of xs ys] p True by (simp add: psubset_eq)
    moreover have "set ys \<subseteq> set xs \<union> snd ` edges" using sound [OF p] reachable_targets by blast
    ultimately have "snd ` edges - set ys \<subset> snd ` edges - set xs" by blast
    then have "card (snd ` edges - set ys) < card (snd ` edges - set xs)" using finite_edges by (simp add: psubset_card_mono)
    then have "set (loop ys) = edges\<^sup>* `` set ys" by (rule less)
    moreover have "loop xs = loop ys" using p True by (subst loop) simp
    ultimately show ?thesis using closure_of_step [OF grows [OF p] sound [OF p]] by simp
  next
    case False
    have "loop xs = ys" using p False by (subst loop) simp
    moreover have "set ys = set xs" "edges `` set xs \<subseteq> set xs" using stable grows [OF p] p False by auto
    ultimately show ?thesis using closure_of_closed [of "set xs"] by simp
  qed
qed

end

text \<open>\<^verbatim>\<open>{error:#}\<close> prints the chain of contexts of an error.\<close>

fun display_error :: "error \<Rightarrow> string" where
  "display_error (Bail message) = message"
| "display_error (Context context cause) = context @ '': '' @ display_error cause"

end
