(* ===== verification/Flatpak_Ref.thy ===== *)
theory Flatpak_Ref
  imports Rust_Prelude
begin

text \<open>
  Flatpak references (\<^verbatim>\<open>src/src/flatpak_ref.rs\<close>): the full form \<open>kind/id/arch/branch\<close>, the
  partial form a user types, their validation and the matching of one against the other.
  Validation errors carry the message the program prints.
\<close>

section \<open>Data\<close>

datatype RefKind = App | Runtime

fun as_str :: "RefKind \<Rightarrow> string" where
  "as_str App = ''app''"
| "as_str Runtime = ''runtime''"

record FlatpakRef =
  fr_kind :: RefKind
  fr_id :: string
  fr_arch :: string
  fr_branch :: string

record PartialRef =
  pr_kind :: "RefKind option"
  pr_id :: string
  pr_arch :: "string option"
  pr_branch :: "string option"

definition set_kind_filter :: "RefKind option \<Rightarrow> RefKind \<Rightarrow> RefKind option result" where
  "set_kind_filter target kind =
     (if (\<exists>current \<in> set_option target. current \<noteq> kind)
      then Inl (Bail ''--app and --runtime cannot be used together'')
      else Inr (Some kind))"

definition full_ref :: "FlatpakRef \<Rightarrow> string" where
  "full_ref r = as_str (fr_kind r) @ ''/'' @ fr_id r @ ''/'' @ fr_arch r @ ''/'' @ fr_branch r"

definition partial_ref :: "FlatpakRef \<Rightarrow> string" where
  "partial_ref r = fr_id r @ ''/'' @ fr_arch r @ ''/'' @ fr_branch r"

section \<open>Validation\<close>

definition hex_digit_upper :: "nat \<Rightarrow> char" where
  "hex_digit_upper n = ''0123456789ABCDEF'' ! (n mod 16)"

text \<open>A control character is shown as \<^verbatim>\<open>U+{:04X}\<close>; a \<open>char\<close> is a byte, so two digits are zero.\<close>

definition describe_char :: "char \<Rightarrow> string" where
  "describe_char c =
     (if is_control c
      then ''U+00'' @ [hex_digit_upper (of_char c div 16), hex_digit_upper (of_char c)]
      else [c])"

definition valid_initial_id_char :: "char \<Rightarrow> bool \<Rightarrow> bool" where
  "valid_initial_id_char c allow_dash \<longleftrightarrow>
     is_ascii_alphabetic c \<or> c = CHR ''_'' \<or> (allow_dash \<and> c = CHR ''-'')"

definition valid_id_char :: "char \<Rightarrow> bool \<Rightarrow> bool" where
  "valid_id_char c allow_dash \<longleftrightarrow> valid_initial_id_char c allow_dash \<or> is_ascii_digit c"

text \<open>One turn of the loop over the dot-separated segments.\<close>

definition validate_segment :: "string \<Rightarrow> nat \<Rightarrow> nat \<Rightarrow> string \<Rightarrow> string + unit" where
  "validate_segment ident period_count segment_index segment =
     (case segment of
        [] \<Rightarrow>
          if segment_index = 0 then Inl ''Name can't start with a period''
          else if ends_with ident ''.'' then Inl ''Name can't end with a period''
          else Inl ''Name segment can't start with \".\"''
      | first # characters \<Rightarrow>
          let last_segment = (0 < period_count \<and> segment_index = period_count) in
          if \<not> valid_initial_id_char first last_segment then
            if first = CHR ''-'' then Inl ''Only last name segment can contain -''
            else if segment_index = 0
              then Inl (''Name can't start with \"'' @ describe_char first @ ''\"'')
              else Inl (''Name segment can't start with \"'' @ describe_char first @ ''\"'')
          else
            case find (\<lambda>c. \<not> valid_id_char c last_segment) characters of
              None \<Rightarrow> Inr ()
            | Some c \<Rightarrow>
                if c = CHR ''-'' then Inl ''Only last name segment can contain -''
                else Inl (''Name can't contain \"'' @ describe_char c @ ''\"''))"

fun validate_segments :: "string \<Rightarrow> nat \<Rightarrow> nat \<Rightarrow> string list \<Rightarrow> string + unit" where
  "validate_segments ident period_count i [] = Inr ()"
| "validate_segments ident period_count i (segment # rest) =
     (case validate_segment ident period_count i segment of
        Inl e \<Rightarrow> Inl e
      | Inr _ \<Rightarrow> validate_segments ident period_count (Suc i) rest)"

definition validate_id :: "string \<Rightarrow> string + unit" where
  "validate_id ident =
     (if ident = [] then Inl ''Name can't be empty''
      else if 255 < length ident then Inl ''Name can't be longer than 255 characters''
      else
        let period_count = length (filter (\<lambda>b. b = CHR ''.'') ident) in
        case validate_segments ident period_count 0 (split_on (CHR ''.'') ident) of
          Inl e \<Rightarrow> Inl e
        | Inr _ \<Rightarrow>
            if period_count < 2 then Inl ''Names must contain at least 2 periods'' else Inr ())"

definition validate_arch :: "string \<Rightarrow> string + unit" where
  "validate_arch arch =
     (if list_all (\<lambda>c. is_ascii_alphanumeric c \<or> c = CHR ''_'' \<or> c = CHR ''-'') arch
      then Inr () else Inl ''Architecture contains invalid characters'')"

definition valid_initial_branch_char :: "char \<Rightarrow> bool" where
  "valid_initial_branch_char c \<longleftrightarrow> is_ascii_alphanumeric c \<or> c = CHR ''_'' \<or> c = CHR ''-''"

definition valid_branch_char :: "char \<Rightarrow> bool" where
  "valid_branch_char c \<longleftrightarrow> valid_initial_branch_char c \<or> c = CHR ''.''"

definition validate_branch :: "string \<Rightarrow> string + unit" where
  "validate_branch branch =
     (case branch of
        [] \<Rightarrow> Inl ''Branch can't be empty''
      | first # characters \<Rightarrow>
          if \<not> valid_initial_branch_char first
          then Inl (''Branch can't start with \"'' @ describe_char first @ ''\"'')
          else
            case find (\<lambda>c. \<not> valid_branch_char c) characters of
              Some invalid \<Rightarrow> Inl (''Branch can't contain \"'' @ describe_char invalid @ ''\"'')
            | None \<Rightarrow> Inr ())"

section \<open>Parsing\<close>

text \<open>\<^verbatim>\<open>.map_err(|reason| anyhow!("Invalid <what> <value>: <reason>"))\<close>\<close>

definition invalid :: "string \<Rightarrow> string \<Rightarrow> string + unit \<Rightarrow> unit result" where
  "invalid what v m =
     (case m of Inr u \<Rightarrow> Inr u
      | Inl reason \<Rightarrow> Inl (Bail (''Invalid '' @ what @ '' '' @ v @ '': '' @ reason)))"

text \<open>\<^verbatim>\<open>parts.get(i).filter(|value| !value.is_empty())\<close>\<close>

definition get_nonempty :: "string list \<Rightarrow> nat \<Rightarrow> string option" where
  "get_nonempty parts i = (if i < length parts \<and> parts ! i \<noteq> [] then Some (parts ! i) else None)"

definition split_kind :: "string \<Rightarrow> RefKind option \<times> string" where
  "split_kind v =
     (case strip_prefix v ''app/'' of
        Some rest \<Rightarrow> (Some App, rest)
      | None \<Rightarrow>
          (case strip_prefix v ''runtime/'' of
             Some rest \<Rightarrow> (Some Runtime, rest)
           | None \<Rightarrow> (None, v)))"

definition PartialRef_parse :: "string \<Rightarrow> PartialRef result" where
  "PartialRef_parse v =
     (let (kind, partial) = split_kind v; parts = split_on slash partial in
      if parts = [] \<or> 3 < length parts
      then Inl (Bail (''invalid partial Flatpak ref: '' @ v))
      else
        let ident = parts ! 0; arch = get_nonempty parts 1; branch = get_nonempty parts 2 in
        rbind (invalid ''id'' ident (validate_id ident)) (\<lambda>_.
        rbind (case arch of None \<Rightarrow> Inr () | Some a \<Rightarrow> invalid ''architecture'' a (validate_arch a)) (\<lambda>_.
        rbind (case branch of None \<Rightarrow> Inr () | Some b \<Rightarrow> invalid ''branch'' b (validate_branch b)) (\<lambda>_.
        Inr \<lparr>pr_kind = kind, pr_id = ident, pr_arch = arch, pr_branch = branch\<rparr>))))"

definition FlatpakRef_parse :: "string \<Rightarrow> FlatpakRef result" where
  "FlatpakRef_parse v =
     rbind (PartialRef_parse v) (\<lambda>partial.
     rbind (ok_or (Bail (''full Flatpak ref has no kind: '' @ v)) (pr_kind partial)) (\<lambda>kind.
     rbind (ok_or (Bail (''full Flatpak ref has no architecture: '' @ v)) (pr_arch partial)) (\<lambda>arch.
     rbind (ok_or (Bail (''full Flatpak ref has no branch: '' @ v)) (pr_branch partial)) (\<lambda>branch.
     Inr \<lparr>fr_kind = kind, fr_id = pr_id partial, fr_arch = arch, fr_branch = branch\<rparr>))))"

definition effective_kind :: "PartialRef \<Rightarrow> RefKind option \<Rightarrow> RefKind option result" where
  "effective_kind p flt =
     (case (pr_kind p, flt) of
        (Some own, Some f) \<Rightarrow>
          if own \<noteq> f
          then Inl (Bail (as_str own @ '' ref cannot be used with --'' @ as_str f))
          else Inr (Some own)
      | (Some own, None) \<Rightarrow> Inr (Some own)
      | (None, f) \<Rightarrow> Inr f)"

definition is_none_or :: "'a option \<Rightarrow> ('a \<Rightarrow> bool) \<Rightarrow> bool" where
  "is_none_or x P = (case x of None \<Rightarrow> True | Some y \<Rightarrow> P y)"

definition matches :: "PartialRef \<Rightarrow> FlatpakRef \<Rightarrow> bool" where
  "matches p candidate \<longleftrightarrow>
     is_none_or (pr_kind p) (\<lambda>kind. kind = fr_kind candidate)
     \<and> pr_id p = fr_id candidate
     \<and> is_none_or (pr_arch p) (\<lambda>arch. arch = fr_arch candidate)
     \<and> is_none_or (pr_branch p) (\<lambda>branch. branch = fr_branch candidate)"

definition with_default_branch :: "PartialRef \<Rightarrow> string option \<Rightarrow> PartialRef result" where
  "with_default_branch p branch =
     (if pr_branch p = None then
        case branch of
          None \<Rightarrow> Inr p
        | Some b \<Rightarrow>
            rbind (invalid ''branch'' b (validate_branch b)) (\<lambda>_. Inr (p\<lparr>pr_branch := Some b\<rparr>))
      else Inr p)"

definition validate_partial_ref :: "string \<Rightarrow> string option \<Rightarrow> unit result" where
  "validate_partial_ref v default_branch =
     rbind (PartialRef_parse v) (\<lambda>p. rbind (with_default_branch p default_branch) (\<lambda>_. Inr ()))"

section \<open>What a valid name is\<close>

text \<open>
  The declarative reading of the validators: an identifier is a list of at least three
  non-empty segments joined by dots, at most 255 bytes, whose segments consist of letters,
  digits (not first) and underscores; only the last one may contain dashes.
\<close>

definition valid_segment :: "bool \<Rightarrow> string \<Rightarrow> bool" where
  "valid_segment is_last s \<longleftrightarrow>
     s \<noteq> [] \<and> valid_initial_id_char (hd s) is_last \<and> (\<forall>c \<in> set s. valid_id_char c is_last)"

definition valid_id :: "string \<Rightarrow> bool" where
  "valid_id ident \<longleftrightarrow>
     (let segments = split_on (CHR ''.'') ident in
      length ident \<le> 255 \<and> 3 \<le> length segments
      \<and> list_all (valid_segment False) (butlast segments) \<and> valid_segment True (last segments))"

definition valid_arch :: "string \<Rightarrow> bool" where
  "valid_arch a \<longleftrightarrow> (\<forall>c \<in> set a. is_ascii_alphanumeric c \<or> c = CHR ''_'' \<or> c = CHR ''-'')"

definition valid_branch :: "string \<Rightarrow> bool" where
  "valid_branch b \<longleftrightarrow>
     b \<noteq> [] \<and> valid_initial_branch_char (hd b) \<and> (\<forall>c \<in> set b. valid_branch_char c)"

definition valid_ref :: "FlatpakRef \<Rightarrow> bool" where
  "valid_ref r \<longleftrightarrow>
     valid_id (fr_id r) \<and> fr_arch r \<noteq> [] \<and> valid_arch (fr_arch r) \<and> valid_branch (fr_branch r)"

lemma validate_segment_ok:
  "validate_segment ident n i s = Inr () \<longleftrightarrow> valid_segment (0 < n \<and> i = n) s"
proof (cases s)
  case (Cons c cs)
  have "valid_initial_id_char c b \<Longrightarrow> valid_id_char c b" for b
    by (simp add: valid_id_char_def)
  with Cons show ?thesis
    by (auto simp: validate_segment_def valid_segment_def Let_def split: option.splits
        dest: find_reject_Some)
qed (simp add: validate_segment_def valid_segment_def)

lemma validate_segments_ok:
  "validate_segments ident n i segs = Inr () \<longleftrightarrow>
   (\<forall>k < length segs. valid_segment (0 < n \<and> i + k = n) (segs ! k))"
proof (induction segs arbitrary: i)
  case (Cons s segs)
  have "validate_segments ident n i (s # segs) = Inr () \<longleftrightarrow>
        valid_segment (0 < n \<and> i = n) s \<and>
        (\<forall>k < length segs. valid_segment (0 < n \<and> Suc i + k = n) (segs ! k))"
    using Cons.IH [of "Suc i"] validate_segment_ok [of ident n i s]
    by (auto split: sum.splits)
  then show ?case by (simp add: All_less_Suc2)
qed simp

lemma validate_id_ok: "validate_id ident = Inr () \<longleftrightarrow> valid_id ident"
proof -
  define segs where "segs = split_on (CHR ''.'') ident"
  define n where "n = length (filter (\<lambda>b. b = CHR ''.'') ident)"
  have len: "length segs = Suc n" by (simp add: segs_def n_def length_split_on)
  have segs_ok: "validate_segments ident n 0 segs = Inr () \<longleftrightarrow>
      list_all (valid_segment False) (butlast segs) \<and> valid_segment True (last segs)" if "2 \<le> n"
  proof -
    have "last segs = segs ! n" using len by (simp add: last_conv_nth segs_def)
    moreover have "(\<forall>k < length segs. valid_segment (0 < n \<and> k = n) (segs ! k)) \<longleftrightarrow>
        (\<forall>k < n. valid_segment False (segs ! k)) \<and> valid_segment True (segs ! n)"
      using that len by (auto simp: less_Suc_eq)
    ultimately show ?thesis
      using len by (simp add: validate_segments_ok list_all_length nth_butlast)
  qed
  have "validate_id ident = Inr () \<longleftrightarrow>
      ident \<noteq> [] \<and> length ident \<le> 255 \<and> 2 \<le> n \<and> validate_segments ident n 0 segs = Inr ()"
    by (auto simp: validate_id_def n_def segs_def Let_def split: sum.splits if_splits)
  also have "\<dots> \<longleftrightarrow> valid_id ident"
  proof -
    have "2 \<le> n \<Longrightarrow> ident \<noteq> []" by (auto simp: n_def)
    moreover have "valid_id ident \<longleftrightarrow> length ident \<le> 255 \<and> 3 \<le> length segs
        \<and> list_all (valid_segment False) (butlast segs) \<and> valid_segment True (last segs)"
      by (simp add: valid_id_def segs_def Let_def)
    ultimately show ?thesis using segs_ok len by auto
  qed
  finally show ?thesis .
qed

lemma validate_arch_ok: "validate_arch a = Inr () \<longleftrightarrow> valid_arch a"
  by (simp add: validate_arch_def valid_arch_def list_all_iff)

lemma valid_branch_initial: "valid_initial_branch_char c \<Longrightarrow> valid_branch_char c"
  by (simp add: valid_branch_char_def)

lemma validate_branch_ok: "validate_branch b = Inr () \<longleftrightarrow> valid_branch b"
proof (cases b)
  case (Cons c cs)
  then show ?thesis
    by (auto simp: validate_branch_def valid_branch_def split: option.splits
        dest: find_reject_Some intro: valid_branch_initial)
qed (simp add: validate_branch_def valid_branch_def)

lemma invalid_ok: "invalid what v m = Inr () \<longleftrightarrow> m = Inr ()"
  by (auto simp: invalid_def split: sum.splits)

lemmas validator_ok = invalid_ok validate_id_ok validate_arch_ok validate_branch_ok

section \<open>Properties\<close>

lemma slash_not_id_char: "\<not> valid_id_char slash b"
  by (simp add: valid_id_char_def valid_initial_id_char_def char_class_defs)

lemma valid_segment_no_slash: "valid_segment b s \<Longrightarrow> slash \<notin> set s"
  using slash_not_id_char by (auto simp: valid_segment_def)

lemma valid_id_no_slash:
  assumes "valid_id s"
  shows "slash \<notin> set s"
proof
  assume "slash \<in> set s"
  define segs where "segs = split_on (CHR ''.'') s"
  have ne: "segs \<noteq> []" by (simp add: segs_def)
  have all: "\<exists>b. valid_segment b w" if "w \<in> set segs" for w
  proof -
    from that ne have "w \<in> set (butlast segs) \<or> w = last segs"
      by (metis append_butlast_last_id in_set_conv_decomp rotate1.simps(2) set_ConsD set_rotate1)
    with assms show ?thesis by (auto simp: valid_id_def Let_def segs_def list_all_iff)
  qed
  have sub: "set (join_with [c] ws) \<subseteq> insert c (\<Union> (set ` set ws))" for c :: char and ws
    by (induction ws) (auto simp: join_with_Cons)
  from \<open>slash \<in> set s\<close> sub [of "CHR ''.''" segs] obtain w where "w \<in> set segs" "slash \<in> set w"
    by (auto simp: segs_def)
  with all valid_segment_no_slash show False by blast
qed

lemma valid_arch_no_slash: "valid_arch a \<Longrightarrow> slash \<notin> set a"
  by (auto simp: valid_arch_def char_class_defs)

lemma valid_branch_no_slash: "valid_branch b \<Longrightarrow> slash \<notin> set b"
  by (auto simp: valid_branch_def valid_branch_char_def valid_initial_branch_char_def char_class_defs)

lemma split_kind_full:
  "split_kind (as_str k @ ''/'' @ s) = (Some k, s)"
  by (cases k) (simp_all add: split_kind_def strip_prefix_def starts_with_def)

lemma split_kind_Some: "split_kind v = (Some k, rest) \<Longrightarrow> v = as_str k @ ''/'' @ rest"
  by (auto simp: split_kind_def strip_prefix_Some_iff split: option.splits)

lemma split_on_three:
  assumes "slash \<notin> set a" "slash \<notin> set b" "slash \<notin> set c"
  shows "split_on slash (a @ ''/'' @ b @ ''/'' @ c) = [a, b, c]"
  using assms by (simp add: split_on_append_sep)

lemma split_on_three_conv:
  assumes "split_on slash s = [a, b, c]"
  shows "s = a @ ''/'' @ b @ ''/'' @ c"
  using join_split_on [of slash s] assms by simp

lemma get_nonempty_Some: "get_nonempty ps i = Some v \<longleftrightarrow> i < length ps \<and> ps ! i = v \<and> v \<noteq> []"
  by (auto simp: get_nonempty_def)

lemma FlatpakRef_parse_full_ref:
  assumes "valid_ref r"
  shows "FlatpakRef_parse (full_ref r) = Inr r"
proof -
  let ?rest = "fr_id r @ ''/'' @ fr_arch r @ ''/'' @ fr_branch r"
  have no_slash: "slash \<notin> set (fr_id r)" "slash \<notin> set (fr_arch r)" "slash \<notin> set (fr_branch r)"
    and ok: "validate_id (fr_id r) = Inr ()" "validate_arch (fr_arch r) = Inr ()"
      "validate_branch (fr_branch r) = Inr ()"
    and ne: "fr_arch r \<noteq> []" "fr_branch r \<noteq> []"
    using assms valid_id_no_slash valid_arch_no_slash valid_branch_no_slash
    by (auto simp: valid_ref_def validator_ok valid_branch_def)
  have "split_kind (full_ref r) = (Some (fr_kind r), ?rest)"
    unfolding full_ref_def by (rule split_kind_full)
  with split_on_three [OF no_slash] ok ne show ?thesis
    by (simp add: FlatpakRef_parse_def PartialRef_parse_def Let_def get_nonempty_def invalid_def
        split_def)
qed

lemma PartialRef_parse_valid:
  assumes "PartialRef_parse v = Inr p"
  shows "valid_id (pr_id p)" "\<forall>a \<in> set_option (pr_arch p). a \<noteq> [] \<and> valid_arch a"
    "\<forall>b \<in> set_option (pr_branch p). valid_branch b"
  using assms
  by (auto simp: PartialRef_parse_def Let_def split_def rbind_Inr_iff validator_ok get_nonempty_Some
      split: if_splits option.splits)

lemma FlatpakRef_parse_sound:
  assumes "FlatpakRef_parse v = Inr r"
  shows "full_ref r = v" and "valid_ref r"
proof -
  from assms obtain p where p: "PartialRef_parse v = Inr p" "pr_kind p = Some (fr_kind r)"
      "pr_arch p = Some (fr_arch r)" "pr_branch p = Some (fr_branch r)" "pr_id p = fr_id r"
    by (auto simp: FlatpakRef_parse_def rbind_Inr_iff)
  show "valid_ref r" using PartialRef_parse_valid [OF p(1)] p by (auto simp: valid_ref_def)
  define parts where "parts = split_on slash (snd (split_kind v))"
  from p have "length parts = 3" "parts ! 0 = fr_id r" "parts ! 1 = fr_arch r" "parts ! 2 = fr_branch r"
    and k: "fst (split_kind v) = Some (fr_kind r)"
    by (auto simp: PartialRef_parse_def Let_def split_def rbind_Inr_iff get_nonempty_Some parts_def
        split: if_splits)
  then have "parts = [fr_id r, fr_arch r, fr_branch r]"
    by (auto simp: length_Suc_conv numeral_3_eq_3 numeral_2_eq_2)
  then have "snd (split_kind v) = partial_ref r"
    unfolding partial_ref_def using split_on_three_conv parts_def by metis
  with k have "v = as_str (fr_kind r) @ ''/'' @ partial_ref r"
    by (metis prod.collapse split_kind_Some)
  then show "full_ref r = v" by (simp add: full_ref_def partial_ref_def)
qed

text \<open>
  C24. Parsing and printing of full references are inverse: the strings \<open>FlatpakRef::parse\<close>
  accepts are exactly the printed forms of valid references, and parsing one returns it.
\<close>

theorem FlatpakRef_parse_iff: "FlatpakRef_parse v = Inr r \<longleftrightarrow> valid_ref r \<and> v = full_ref r"
  using FlatpakRef_parse_full_ref FlatpakRef_parse_sound by blast

end
