(* ===== verification/Paths.thy ===== *)
theory Paths
  imports Rust_Prelude "HOL-Library.Product_Lexorder"
begin

text \<open>
  \<^verbatim>\<open>std::path\<close> as the sources use it, and the translation of file arguments
  (\<^verbatim>\<open>src/src/sandbox/file_argument_translation.rs\<close>).

  A \<^verbatim>\<open>Path\<close> is the list of its components: Rust compares, orders and strips paths by
  \<^verbatim>\<open>components()\<close>, so two spellings with the same components are the same path here.
  \<open>parse_path\<close> is \<^verbatim>\<open>Path::new(s).components()\<close> on Unix, \<open>display_path\<close> prints the canonical
  spelling. The environment (\<^verbatim>\<open>HOME\<close>, the current directory) is an argument.
\<close>

section \<open>Components\<close>

datatype component = RootDir | CurDir | ParentDir | Normal string

type_synonym path = "component list"

text \<open>\<^verbatim>\<open>Component\<close>'s derived order: the variant first, then the name.\<close>

fun component_rank :: "component \<Rightarrow> nat" where
  "component_rank RootDir = 0"
| "component_rank CurDir = 1"
| "component_rank ParentDir = 2"
| "component_rank (Normal _) = 3"

fun component_name :: "component \<Rightarrow> string" where
  "component_name (Normal s) = s"
| "component_name _ = []"

lemma component_eqI: "component_rank c = component_rank d \<Longrightarrow> component_name c = component_name d \<Longrightarrow> c = d"
  by (cases c; cases d) simp_all

instantiation component :: linorder
begin

definition less_eq_component :: "component \<Rightarrow> component \<Rightarrow> bool" where
  "less_eq_component c d \<longleftrightarrow>
     (component_rank c, component_name c) \<le> (component_rank d, component_name d)"

definition less_component :: "component \<Rightarrow> component \<Rightarrow> bool" where
  "less_component c d \<longleftrightarrow>
     (component_rank c, component_name c) < (component_rank d, component_name d)"

instance
proof
  fix x y z :: component
  show "(x < y) = (x \<le> y \<and> \<not> y \<le> x)"
    unfolding less_eq_component_def less_component_def by (rule less_le_not_le)
  show "x \<le> x" by (simp add: less_eq_component_def)
  show "x \<le> y \<Longrightarrow> y \<le> z \<Longrightarrow> x \<le> z" unfolding less_eq_component_def by (rule order_trans)
  show "x \<le> y \<Longrightarrow> y \<le> x \<Longrightarrow> x = y"
    unfolding less_eq_component_def by (rule component_eqI) (auto dest: antisym)
  show "x \<le> y \<or> y \<le> x" unfolding less_eq_component_def by (rule linear)
qed

end

section \<open>Paths\<close>

definition segment_component :: "string \<Rightarrow> component" where
  "segment_component s = (if s = ''..'' then ParentDir else Normal s)"

definition segment_components :: "string list \<Rightarrow> path" where
  "segment_components segs = map segment_component (filter (\<lambda>s. s \<noteq> [] \<and> s \<noteq> ''.'') segs)"

definition parse_path :: "string \<Rightarrow> path" where
  "parse_path s =
     (let segs = split_on slash s in
      if starts_with s ''/'' then RootDir # segment_components segs
      else if hd segs = ''.'' then CurDir # segment_components segs
      else segment_components segs)"

fun component_str :: "component \<Rightarrow> string" where
  "component_str RootDir = []"
| "component_str CurDir = ''.''"
| "component_str ParentDir = ''..''"
| "component_str (Normal s) = s"

definition display_path :: "path \<Rightarrow> string" where
  "display_path p =
     (case p of
        RootDir # rest \<Rightarrow> ''/'' @ join_with ''/'' (map component_str rest)
      | _ \<Rightarrow> join_with ''/'' (map component_str p))"

definition is_absolute :: "path \<Rightarrow> bool" where
  "is_absolute p \<longleftrightarrow> p \<noteq> [] \<and> hd p = RootDir"

text \<open>\<^verbatim>\<open>Path::join\<close>: an absolute argument replaces, a leading \<^verbatim>\<open>.\<close> disappears behind a base.\<close>

definition path_join :: "path \<Rightarrow> path \<Rightarrow> path" where
  "path_join p q =
     (if is_absolute q \<or> p = [] then q
      else p @ (if q \<noteq> [] \<and> hd q = CurDir then tl q else q))"

abbreviation path_starts_with :: "path \<Rightarrow> path \<Rightarrow> bool" where
  "path_starts_with \<equiv> starts_with"

abbreviation path_strip_prefix :: "path \<Rightarrow> path \<Rightarrow> path option" where
  "path_strip_prefix \<equiv> strip_prefix"

definition file_name :: "path \<Rightarrow> string option" where
  "file_name p = (if p = [] then None else case last p of Normal s \<Rightarrow> Some s | _ \<Rightarrow> None)"

definition path_parent :: "path \<Rightarrow> path option" where
  "path_parent p = (if p = [] \<or> last p = RootDir then None else Some (butlast p))"

text \<open>A clean absolute path: the root followed by ordinary names.\<close>

definition is_normal :: "component \<Rightarrow> bool" where
  "is_normal c = (case c of Normal _ \<Rightarrow> True | _ \<Rightarrow> False)"

definition clean_name :: "string \<Rightarrow> bool" where
  "clean_name s \<longleftrightarrow> s \<noteq> [] \<and> slash \<notin> set s \<and> s \<noteq> ''.'' \<and> s \<noteq> ''..''"

definition clean_component :: "component \<Rightarrow> bool" where
  "clean_component c = (case c of Normal s \<Rightarrow> clean_name s | _ \<Rightarrow> False)"

lemma is_normal_simps [simp]:
  "is_normal (Normal s)" "\<not> is_normal RootDir" "\<not> is_normal CurDir" "\<not> is_normal ParentDir"
  by (simp_all add: is_normal_def)

lemma clean_component_simps [simp]:
  "clean_component (Normal s) = clean_name s" "\<not> clean_component RootDir"
  "\<not> clean_component CurDir" "\<not> clean_component ParentDir"
  by (simp_all add: clean_component_def)

lemma path_starts_with_refl [simp]: "starts_with p p"
  by (simp add: starts_with_def)

lemma starts_with_append [simp]: "starts_with (p @ q) p"
  by (auto simp: starts_with_iff)

lemma starts_with_trans: "starts_with p q \<Longrightarrow> starts_with q r \<Longrightarrow> starts_with p r"
  by (auto simp: starts_with_iff)

lemma parse_path_components: "c \<in> set (parse_path s) \<Longrightarrow> c = RootDir \<or> c = CurDir \<or> c = ParentDir \<or> clean_component c"
proof -
  have "segment_component w = ParentDir \<or> clean_component (segment_component w)"
    if "w \<in> set (split_on slash s)" "w \<noteq> []" "w \<noteq> ''.''" for w
    using that split_on_no_sep [OF that(1)] by (auto simp: segment_component_def clean_name_def)
  then show "c \<in> set (parse_path s) \<Longrightarrow> c = RootDir \<or> c = CurDir \<or> c = ParentDir \<or> clean_component c"
    by (auto simp: parse_path_def Let_def segment_components_def split: if_splits)
qed

lemma segment_components_clean:
  "list_all clean_component p \<Longrightarrow> segment_components (map component_str p) = p"
proof (induction p)
  case (Cons c p)
  then show ?case by (cases c) (auto simp: segment_components_def segment_component_def clean_name_def)
qed (simp add: segment_components_def)

lemma component_str_no_slash: "list_all clean_component p \<Longrightarrow> w \<in> set (map component_str p) \<Longrightarrow> slash \<notin> set w"
proof -
  have "clean_component c \<Longrightarrow> slash \<notin> set (component_str c)" for c
    by (cases c) (simp_all add: clean_name_def)
  then show "list_all clean_component p \<Longrightarrow> w \<in> set (map component_str p) \<Longrightarrow> slash \<notin> set w"
    by (auto simp: list_all_iff)
qed

lemma parse_display_absolute:
  assumes "list_all clean_component p"
  shows "parse_path (display_path (RootDir # p)) = RootDir # p"
proof (cases "p = []")
  case False
  have "split_on slash (join_with ''/'' (map component_str p)) = map component_str p"
    by (rule split_on_join_with) (use False component_str_no_slash [OF assms] in auto)
  then show ?thesis
    using segment_components_clean [OF assms]
    by (simp add: parse_path_def display_path_def starts_with_def segment_components_def)
qed (simp add: parse_path_def display_path_def starts_with_def segment_components_def)

section \<open>File arguments\<close>

fun hex_value :: "char \<Rightarrow> nat option" where
  "hex_value c =
     (let b = of_char c :: nat in
      if 48 \<le> b \<and> b \<le> 57 then Some (b - 48)
      else if 97 \<le> b \<and> b \<le> 102 then Some (b - 97 + 10)
      else if 65 \<le> b \<and> b \<le> 70 then Some (b - 65 + 10)
      else None)"

text \<open>\<^verbatim>\<open>String::from_utf8\<close> accepts exactly the well-formed UTF-8 byte sequences.\<close>

definition continuation :: "nat \<Rightarrow> bool" where
  "continuation b \<longleftrightarrow> 128 \<le> b \<and> b \<le> 191"

function valid_utf8 :: "nat list \<Rightarrow> bool" where
  "valid_utf8 bs =
     (case bs of
        [] \<Rightarrow> True
      | b0 # r \<Rightarrow>
          if b0 < 128 then valid_utf8 r
          else if 194 \<le> b0 \<and> b0 \<le> 223 then
            (case r of b1 # r' \<Rightarrow> continuation b1 \<and> valid_utf8 r' | _ \<Rightarrow> False)
          else if 224 \<le> b0 \<and> b0 \<le> 239 then
            (case r of
               b1 # b2 # r' \<Rightarrow>
                 continuation b1 \<and> (b0 = 224 \<longrightarrow> 160 \<le> b1) \<and> (b0 = 237 \<longrightarrow> b1 \<le> 159)
                 \<and> continuation b2 \<and> valid_utf8 r'
             | _ \<Rightarrow> False)
          else if 240 \<le> b0 \<and> b0 \<le> 244 then
            (case r of
               b1 # b2 # b3 # r' \<Rightarrow>
                 continuation b1 \<and> (b0 = 240 \<longrightarrow> 144 \<le> b1) \<and> (b0 = 244 \<longrightarrow> b1 \<le> 143)
                 \<and> continuation b2 \<and> continuation b3 \<and> valid_utf8 r'
             | _ \<Rightarrow> False)
          else False)"
  by pat_completeness auto
termination
  by (relation "measure length") auto

declare valid_utf8.simps [simp del]

definition utf8_ok :: "string \<Rightarrow> bool" where
  "utf8_ok s \<longleftrightarrow> valid_utf8 (map of_char s)"

text \<open>
  The index loop of \<^verbatim>\<open>percent_decode\<close>, on the remaining bytes. A \<^verbatim>\<open>%\<close> with fewer than two bytes
  behind it, or with a byte that is no hexadecimal digit, is an error.
\<close>

fun percent_decode_bytes :: "string \<Rightarrow> string \<Rightarrow> string result" where
  "percent_decode_bytes v [] = Inr []"
| "percent_decode_bytes v (c # cs) =
     (if c = CHR ''%'' then
        (case cs of
           h # l # rest \<Rightarrow>
             (case (hex_value h, hex_value l) of
                (Some hi, Some lo) \<Rightarrow>
                  rbind (percent_decode_bytes v rest) (\<lambda>d. Inr (char_of (hi * 16 + lo) # d))
              | _ \<Rightarrow> Inl (Bail (''invalid percent escape in file URI: '' @ v)))
         | _ \<Rightarrow> Inl (Bail (''invalid percent escape in file URI: '' @ v)))
      else rbind (percent_decode_bytes v cs) (\<lambda>d. Inr (c # d)))"

definition percent_decode :: "string \<Rightarrow> string result" where
  "percent_decode v =
     rbind (percent_decode_bytes v v) (\<lambda>d.
       if utf8_ok d then Inr d else Inl (Bail ''file URI path is not valid UTF-8''))"

definition percent_keep :: "char \<Rightarrow> bool" where
  "percent_keep b \<longleftrightarrow>
     is_ascii_alphanumeric b \<or> b = CHR ''/'' \<or> b = CHR ''-'' \<or> b = CHR ''_'' \<or> b = CHR ''.'' \<or> b = CHR ''~''"

definition hex_upper :: "nat \<Rightarrow> char" where
  "hex_upper n = ''0123456789ABCDEF'' ! (n mod 16)"

fun percent_encode :: "string \<Rightarrow> string" where
  "percent_encode [] = []"
| "percent_encode (b # bs) =
     (if percent_keep b then [b]
      else [CHR ''%'', hex_upper (of_char b div 16), hex_upper (of_char b)]) @ percent_encode bs"

definition percent_encode_path :: "path \<Rightarrow> string" where
  "percent_encode_path p = percent_encode (display_path p)"

definition local_file_uri_path :: "string \<Rightarrow> path result" where
  "local_file_uri_path uri =
     rbind (ok_or (Bail ''file URI must start with file://'') (strip_prefix uri ''file://'')) (\<lambda>rest.
     rbind (case strip_prefix rest ''localhost/'' of
              Some path \<Rightarrow> Inr (''/'' @ path)
            | None \<Rightarrow>
                if starts_with rest ''/'' then Inr rest
                else Inl (Bail (''unsupported non-local file URI: '' @ uri))) (\<lambda>path_part.
     let no_fragment = (case split_once (CHR ''#'') path_part of Some (path, _) \<Rightarrow> path | None \<Rightarrow> path_part);
         no_query = (case split_once (CHR ''?'') no_fragment of Some (path, _) \<Rightarrow> path | None \<Rightarrow> path_part)
     in rbind (percent_decode no_query) (\<lambda>d. Inr (parse_path d))))"

definition host_path_from_arg :: "path option \<Rightarrow> path result \<Rightarrow> string \<Rightarrow> path result" where
  "host_path_from_arg home cwd arg =
     (case strip_prefix arg ''~/'' of
        Some rest \<Rightarrow>
          rbind (ok_or (Bail ''HOME must be set to expand ~/ file argument'') home) (\<lambda>h.
            Inr (path_join h (parse_path rest)))
      | None \<Rightarrow>
          let path = parse_path arg in
          if is_absolute path then Inr path
          else rbind (with_context ''determine current directory for relative file argument'' cwd) (\<lambda>d.
            Inr (path_join d path)))"

fun normalize_step :: "path \<Rightarrow> component \<Rightarrow> path" where
  "normalize_step normalized RootDir = [RootDir]"
| "normalize_step normalized (Normal part) = normalized @ [Normal part]"
| "normalize_step normalized CurDir = normalized"
| "normalize_step normalized ParentDir =
     (if normalized \<noteq> [RootDir] then butlast normalized else normalized)"

definition normalize_absolute_path :: "path result \<Rightarrow> path \<Rightarrow> path result" where
  "normalize_absolute_path cwd path =
     rbind (if is_absolute path then Inr path
            else rbind (with_context ''determine current directory for path normalization'' cwd) (\<lambda>d.
              Inr (path_join d path))) (\<lambda>absolute.
     let normalized = foldl normalize_step [] absolute
     in Inr (if normalized = [] then [RootDir] else normalized))"

definition looks_like_path_arg :: "string \<Rightarrow> bool" where
  "looks_like_path_arg arg \<longleftrightarrow>
     starts_with arg ''/'' \<or> starts_with arg ''./'' \<or> starts_with arg ''../'' \<or> starts_with arg ''~/''"

definition is_sandbox_internal_path :: "path \<Rightarrow> bool" where
  "is_sandbox_internal_path path \<longleftrightarrow>
     list_ex (\<lambda>p. path_starts_with path (parse_path p))
       [''/app'', ''/bin'', ''/dev'', ''/etc'', ''/lib'', ''/lib64'', ''/proc'', ''/run'', ''/sys'',
        ''/tmp'', ''/usr'', ''/var'']"

definition is_standalone_desktop_field_code :: "string \<Rightarrow> bool" where
  "is_standalone_desktop_field_code arg \<longleftrightarrow>
     arg \<in> set [''%f'', ''%F'', ''%u'', ''%U'', ''%i'', ''%c'', ''%k'', ''%%'']"

section \<open>Properties\<close>

lemma hex_upper_value: "n < 16 \<Longrightarrow> hex_value (hex_upper n) = Some n"
proof -
  have "\<forall>k \<in> set [0..<16]. hex_value (hex_upper k) = Some k" by code_simp
  then show "n < 16 \<Longrightarrow> hex_value (hex_upper n) = Some n" by simp
qed

lemma hex_upper_mod: "hex_upper (n mod 16) = hex_upper n"
  by (simp add: hex_upper_def)

lemma of_char_nibbles: "char_of (of_char b div 16 * 16 + of_char b mod 16 :: nat) = b"
  by (simp add: mult.commute)

lemma percent_decode_encode_bytes: "percent_decode_bytes v (percent_encode s) = Inr s"
proof (induction s)
  case (Cons b s)
  have lt: "(of_char b :: nat) div 16 < 16"
    using nat_of_char_less_256 [of b] by (simp add: less_mult_imp_div_less)
  have hi: "hex_value (hex_upper (of_char b div 16)) = Some (of_char b div 16)"
    by (rule hex_upper_value [OF lt])
  have lo: "hex_value (hex_upper (of_char b)) = Some (of_char b mod 16)"
    using hex_upper_value [of "of_char b mod 16"] by (simp add: hex_upper_mod)
  have "b \<noteq> CHR ''%''" if "percent_keep b" using that by (auto simp: percent_keep_def char_class_defs)
  with Cons hi lo show ?case by (simp add: of_char_nibbles del: hex_value.simps)
qed simp

text \<open>
  Percent encoding is lossless: decoding the encoding of any UTF-8 text gives the text back.
\<close>

theorem percent_decode_encode: "utf8_ok s \<Longrightarrow> percent_decode (percent_encode s) = Inr s"
  by (simp add: percent_decode_def percent_decode_encode_bytes)

theorem percent_decode_encode_witness:
  "utf8_ok ''/a b'' \<and> percent_decode (percent_encode ''/a b'') = Inr ''/a b''"
proof -
  have "utf8_ok ''/a b''" by code_simp
  then show ?thesis using percent_decode_encode by blast
qed

text \<open>
  Normalisation works on a stack of components; it stays empty or is the root followed by
  ordinary names.
\<close>

definition normal_form :: "path \<Rightarrow> bool" where
  "normal_form p \<longleftrightarrow> (\<exists>q. p = RootDir # q \<and> list_all is_normal q)"

lemma normalize_step_normal_form: "normal_form p \<Longrightarrow> normal_form (normalize_step p c)"
proof -
  assume "normal_form p"
  then obtain q where q: "p = RootDir # q" "list_all is_normal q" by (auto simp: normal_form_def)
  then have "list_all is_normal (butlast q)" by (auto simp: list_all_iff dest: in_set_butlastD)
  with q show ?thesis by (cases c) (auto simp: normal_form_def)
qed

lemma normalize_fold_normal_form: "normal_form p \<Longrightarrow> normal_form (foldl normalize_step p cs)"
  by (induction cs arbitrary: p) (simp_all add: normalize_step_normal_form)

lemma normalize_fold_append: "list_all is_normal q \<Longrightarrow> foldl normalize_step p q = p @ q"
proof (induction q arbitrary: p)
  case (Cons c q)
  then show ?case by (cases c) simp_all
qed simp

lemma is_absolute_join: "is_absolute p \<Longrightarrow> is_absolute (path_join p q)"
  by (auto simp: is_absolute_def path_join_def)

lemma normalize_absolute_normal_form:
  assumes "is_absolute p"
  shows "normal_form (foldl normalize_step [] p)"
proof -
  from assms obtain q where "p = RootDir # q" by (cases p) (auto simp: is_absolute_def)
  moreover have "normal_form [RootDir]" by (simp add: normal_form_def)
  ultimately show ?thesis by (simp add: normalize_fold_normal_form)
qed

lemma normalize_id: "normal_form p \<Longrightarrow> normalize_absolute_path cwd p = Inr p"
  by (auto simp: normal_form_def normalize_absolute_path_def is_absolute_def normalize_fold_append)

text \<open>
  With an absolute current directory, normalising a path always succeeds, and the result is
  the root followed by ordinary names: no \<^verbatim>\<open>..\<close> survives, whatever the argument, so a
  prefix test on the result cannot be escaped; normalising again changes nothing.
\<close>

theorem normalize_absolute_path_clean:
  assumes "is_absolute cwd"
  shows "\<exists>p. normalize_absolute_path (Inr cwd) path = Inr p \<and> normal_form p
           \<and> normalize_absolute_path (Inr cwd) p = Inr p"
proof -
  define a where "a = (if is_absolute path then path else path_join cwd path)"
  have "is_absolute a" using assms by (simp add: a_def is_absolute_join)
  then have nf: "normal_form (foldl normalize_step [] a)" by (rule normalize_absolute_normal_form)
  then have "foldl normalize_step [] a \<noteq> []" by (auto simp: normal_form_def)
  then have "normalize_absolute_path (Inr cwd) path = Inr (foldl normalize_step [] a)"
    by (simp add: normalize_absolute_path_def a_def Let_def split: if_splits)
  with nf normalize_id show ?thesis by blast
qed

theorem normalize_absolute_path_clean_witness:
  "is_absolute (parse_path ''/home/u'') \<and>
   (\<exists>p. normalize_absolute_path (Inr (parse_path ''/home/u'')) (parse_path ''../../../etc'') = Inr p
        \<and> normal_form p \<and> normalize_absolute_path (Inr (parse_path ''/home/u'')) p = Inr p)"
proof -
  have "is_absolute (parse_path ''/home/u'')"
    by (simp add: is_absolute_def parse_path_def starts_with_def)
  then show ?thesis using normalize_absolute_path_clean by blast
qed

lemma percent_decode_plain:
  assumes "CHR ''%'' \<notin> set s" "utf8_ok s"
  shows "percent_decode s = Inr s"
proof -
  have "CHR ''%'' \<notin> set t \<Longrightarrow> percent_decode_bytes v t = Inr t" for t v by (induction t) auto
  with assms show ?thesis by (simp add: percent_decode_def)
qed

text \<open>
  The fragment of a file URI without a query is kept in the host path: the second
  \<^verbatim>\<open>unwrap_or\<close> falls back to the part before the fragment was cut off.
\<close>

theorem local_file_uri_keeps_fragment:
  assumes "starts_with p ''/''" "CHR ''#'' \<notin> set p" "CHR ''?'' \<notin> set p"
    and "CHR ''%'' \<notin> set (p @ ''#'' @ f)" "utf8_ok (p @ ''#'' @ f)"
  shows "local_file_uri_path (''file://'' @ p @ ''#'' @ f) = Inr (parse_path (p @ ''#'' @ f))"
proof -
  have "split_once (CHR ''#'') (p @ CHR ''#'' # f) = Some (p, f)"
    using assms(2) by (simp add: split_once_Some_iff)
  moreover have "split_once (CHR ''?'') p = None" using assms(3) by simp
  moreover from assms(1) obtain q where q: "p = CHR ''/'' # q" by (auto simp: starts_with_iff)
  moreover have "strip_prefix (''file://'' @ p @ ''#'' @ f) ''file://'' = Some (p @ ''#'' @ f)"
    by (rule strip_prefix_append)
  moreover have "strip_prefix (p @ ''#'' @ f) ''localhost/'' = None"
    using q by (simp add: strip_prefix_def starts_with_def)
  moreover have "starts_with (p @ ''#'' @ f) ''/''" using q by (simp add: starts_with_def)
  moreover have "percent_decode (p @ ''#'' @ f) = Inr (p @ ''#'' @ f)"
    using assms(4,5) by (rule percent_decode_plain)
  ultimately show ?thesis
    unfolding local_file_uri_path_def by (simp only: ok_or_simps rbind_simps option.case prod.case Let_def if_True append.simps)
qed

theorem local_file_uri_keeps_fragment_witness:
  "starts_with ''/tmp/x'' ''/'' \<and>
   local_file_uri_path ''file:///tmp/x#top'' = Inr (parse_path ''/tmp/x#top'')"
proof -
  have "utf8_ok ''/tmp/x#top''" by code_simp
  then show ?thesis
    using local_file_uri_keeps_fragment [of "''/tmp/x''" "''top''"] by (simp add: starts_with_def)
qed

end
