(* ===== verification/Flatpak_Metadata.thy ===== *)
theory Flatpak_Metadata
  imports Rust_Prelude
begin

text \<open>
  Flatpak key files (\<^verbatim>\<open>src/src/flatpak_metadata.rs\<close>), the static overrides merged into them
  (\<^verbatim>\<open>src/src/sandbox/static_overrides.rs\<close>) and the filesystem permissions read from them
  (\<^verbatim>\<open>src/src/sandbox/filesystem_permissions.rs\<close>).

  A \<^verbatim>\<open>KeyFile\<close> (a \<^verbatim>\<open>BTreeMap\<close> of \<^verbatim>\<open>BTreeMap\<close>s) is the list of its sections in key order, each
  with its entries in key order. \<open>well_formed\<close> says which key files have a faithful text form;
  the lemmas show that reading back the rendered text gives the same key file, and that the
  overlay of an override file changes exactly the keys it names.
\<close>

section \<open>Reading a key file\<close>

definition is_header :: "string \<Rightarrow> bool" where
  "is_header line \<longleftrightarrow> starts_with line ''['' \<and> ends_with line '']''"

text \<open>\<^verbatim>\<open>&line[1..line.len() - 1]\<close>\<close>

definition header_name :: "string \<Rightarrow> string" where
  "header_name line = butlast (tl line)"

fun value_loop :: "string \<Rightarrow> string \<Rightarrow> string \<Rightarrow> string list \<Rightarrow> string option" where
  "value_loop sec key current [] = None"
| "value_loop sec key current (raw # rest) =
     (let line = trim raw in
      if is_header line then value_loop sec key (header_name line) rest
      else if current = sec then
        (case split_once (CHR ''='') line of
           None \<Rightarrow> value_loop sec key current rest
         | Some (candidate, v) \<Rightarrow>
             if trim candidate = key then Some (trim v) else value_loop sec key current rest)
      else value_loop sec key current rest)"

definition metadata_value :: "string \<Rightarrow> string \<Rightarrow> string \<Rightarrow> string option" where
  "metadata_value metadata sec key = value_loop sec key [] (lines metadata)"

fun section_entries_loop :: "string \<Rightarrow> string \<Rightarrow> string list \<Rightarrow> (string \<times> string) list" where
  "section_entries_loop sec current [] = []"
| "section_entries_loop sec current (raw # rest) =
     (let line = trim raw in
      if line = [] \<or> starts_with line ''#'' then section_entries_loop sec current rest
      else if is_header line then section_entries_loop sec (header_name line) rest
      else if current \<noteq> sec then section_entries_loop sec current rest
      else
        (case split_once (CHR ''='') line of
           None \<Rightarrow> section_entries_loop sec current rest
         | Some (key, v) \<Rightarrow>
             if trim key \<noteq> [] then (trim key, trim v) # section_entries_loop sec current rest
             else section_entries_loop sec current rest))"

definition section_entries :: "string \<Rightarrow> string \<Rightarrow> (string \<times> string) list" where
  "section_entries metadata sec = section_entries_loop sec [] (lines metadata)"

definition has_section :: "string \<Rightarrow> string \<Rightarrow> bool" where
  "has_section metadata sec \<longleftrightarrow>
     list_ex (\<lambda>raw. is_header (trim raw) \<and> header_name (trim raw) = sec) (lines metadata)"

definition sections_with_prefix :: "string \<Rightarrow> string \<Rightarrow> string list" where
  "sections_with_prefix metadata p =
     filter (\<lambda>name. starts_with name p)
       (map header_name (filter is_header (map trim (lines metadata))))"

definition section_names :: "string \<Rightarrow> string list" where
  "section_names metadata =
     sort_dedup (map header_name (filter is_header (map trim (lines metadata))))"

section \<open>Static overrides\<close>

type_synonym KeyFile = "(string \<times> (string \<times> string) list) list"

definition LIST_KEYS :: "(string \<times> string) list" where
  "LIST_KEYS =
     [(''Context'', ''shared''), (''Context'', ''sockets''), (''Context'', ''devices''),
      (''Context'', ''features''), (''Context'', ''filesystems''), (''Context'', ''persistent''),
      (''Context'', ''unset-environment'')]"

text \<open>\<^verbatim>\<open>key_file.entry(section).or_default()\<close>\<close>

definition entries_of :: "KeyFile \<Rightarrow> string \<Rightarrow> (string \<times> string) list" where
  "entries_of kf sec = (case map_of kf sec of None \<Rightarrow> [] | Some es \<Rightarrow> es)"

definition parse_key_file :: "string \<Rightarrow> KeyFile" where
  "parse_key_file data =
     foldl (\<lambda>result sec.
        bt_insert sec
          (foldl (\<lambda>es (k, v). bt_insert k v es) (entries_of result sec) (section_entries data sec))
          result)
       [] (section_names data)"

definition split_list_items :: "string \<Rightarrow> string list" where
  "split_list_items v = filter (\<lambda>item. item \<noteq> []) (map trim (split_on (CHR '';'') v))"

definition list_identity :: "string \<Rightarrow> bool \<Rightarrow> string" where
  "list_identity item0 filesystem =
     (let item = (case strip_prefix item0 ''!'' of None \<Rightarrow> item0 | Some r \<Rightarrow> r) in
      if \<not> filesystem then
        (case split_once (CHR ''@'') item of None \<Rightarrow> item | Some (name, _) \<Rightarrow> name)
      else
        (case rsplit_once (CHR '':'') item of
           Some (path, suffix) \<Rightarrow>
             if suffix = ''ro'' \<or> suffix = ''rw'' \<or> suffix = ''create'' then path else item
         | None \<Rightarrow> item))"

definition merge_items :: "bool \<Rightarrow> string list \<Rightarrow> string list \<Rightarrow> string list" where
  "merge_items filesystem =
     foldl (\<lambda>vs item.
        filter (\<lambda>existing. list_identity existing filesystem \<noteq> list_identity item filesystem) vs
        @ [item])"

definition merge_list :: "string option \<Rightarrow> string \<Rightarrow> bool \<Rightarrow> string" where
  "merge_list base overlay filesystem =
     (let vs = merge_items filesystem
                 (split_list_items (case base of None \<Rightarrow> [] | Some b \<Rightarrow> b))
                 (split_list_items overlay)
      in if vs = [] then [] else join_with '';'' vs @ '';'')"

definition overlay_entry :: "string \<Rightarrow> KeyFile \<Rightarrow> string \<times> string \<Rightarrow> KeyFile" where
  "overlay_entry sec base kv =
     (let (key, overlay_value) = kv;
          v = (if (sec, key) \<in> set LIST_KEYS
               then merge_list (Option.bind (map_of base sec) (\<lambda>es. map_of es key)) overlay_value
                      (key = ''filesystems'')
               else overlay_value)
      in bt_insert sec (bt_insert key v (entries_of base sec)) base)"

definition apply_overlay :: "KeyFile \<Rightarrow> string \<Rightarrow> KeyFile" where
  "apply_overlay base overlay =
     foldl (\<lambda>base sec. foldl (overlay_entry sec) base (section_entries overlay sec))
       base (section_names overlay)"

definition render_key_file :: "KeyFile \<Rightarrow> string" where
  "render_key_file kf =
     concat (map (\<lambda>(sec, es).
        ''['' @ sec @ '']'' @ [newline]
        @ concat (map (\<lambda>(key, v). key @ ''='' @ v @ [newline]) es)
        @ [newline]) kf)"

definition effective_metadata_from_sources ::
    "string \<Rightarrow> string option \<Rightarrow> string option \<Rightarrow> string result" where
  "effective_metadata_from_sources metadata global application =
     (let overlays = (case global of None \<Rightarrow> [] | Some g \<Rightarrow> [g])
                   @ (case application of None \<Rightarrow> [] | Some a \<Rightarrow> [a])
      in Inr (render_key_file (foldl apply_overlay (parse_key_file metadata) overlays)))"

text \<open>The last item of the list with the target's identity decides.\<close>

definition items_enable :: "string list \<Rightarrow> bool \<Rightarrow> string \<Rightarrow> bool" where
  "items_enable items filesystem target =
     (case find (\<lambda>item. list_identity item filesystem = target) (rev items) of
        None \<Rightarrow> False
      | Some item \<Rightarrow> \<not> starts_with item ''!'')"

definition permission_enabled :: "string \<Rightarrow> string \<Rightarrow> string \<Rightarrow> string \<Rightarrow> bool" where
  "permission_enabled metadata sec key target =
     (case metadata_value metadata sec key of
        None \<Rightarrow> False
      | Some items \<Rightarrow> items_enable (split_list_items items) (key = ''filesystems'') target)"

section \<open>Filesystem permissions\<close>

datatype AccessMode = ReadOnly | ReadWrite

fun merge_access :: "AccessMode \<Rightarrow> AccessMode \<Rightarrow> AccessMode" where
  "merge_access a b = (if a = ReadWrite \<or> b = ReadWrite then ReadWrite else ReadOnly)"

fun access_label :: "AccessMode \<Rightarrow> string" where
  "access_label ReadOnly = ''read-only''"
| "access_label ReadWrite = ''read-write''"

definition is_read_only :: "AccessMode \<Rightarrow> bool" where
  "is_read_only a \<longleftrightarrow> a = ReadOnly"

record FilesystemPermission =
  fp_original :: string
  fp_path :: string
  fp_access :: AccessMode
  fp_create :: bool

definition parse_access_suffix :: "string \<Rightarrow> (string \<times> AccessMode \<times> bool) result" where
  "parse_access_suffix raw =
     (case rsplit_once (CHR '':'') raw of
        None \<Rightarrow> Inr (raw, ReadWrite, False)
      | Some (path, suffix) \<Rightarrow>
          if suffix = ''ro'' then Inr (path, ReadOnly, False)
          else if suffix = ''rw'' then Inr (path, ReadWrite, False)
          else if suffix = ''create'' then Inr (path, ReadWrite, True)
          else if slash \<in> set path then Inr (raw, ReadWrite, False)
          else Inl (Bail (''unsupported filesystem permission suffix in '' @ raw)))"

definition parse_permission :: "string \<Rightarrow> FilesystemPermission result" where
  "parse_permission raw =
     (if starts_with raw ''!''
      then Inr \<lparr>fp_original = raw, fp_path = raw, fp_access = ReadOnly, fp_create = False\<rparr>
      else rbind (parse_access_suffix raw) (\<lambda>(path, access, create).
        Inr \<lparr>fp_original = raw, fp_path = path, fp_access = access, fp_create = create\<rparr>))"

definition parse_filesystem_permissions :: "string \<Rightarrow> FilesystemPermission list result" where
  "parse_filesystem_permissions metadata =
     (case metadata_value metadata ''Context'' ''filesystems'' of
        None \<Rightarrow> Inr []
      | Some v \<Rightarrow> traverse parse_permission (split_list_items v))"

section \<open>Reading back a rendered key file\<close>

definition well_formed_entry :: "string \<Rightarrow> string \<Rightarrow> bool" where
  "well_formed_entry k v \<longleftrightarrow>
     k \<noteq> [] \<and> trim k = k \<and> trim v = v \<and> CHR ''='' \<notin> set k \<and> newline \<notin> set k \<and> newline \<notin> set v
     \<and> hd k \<noteq> CHR ''#'' \<and> \<not> is_header (k @ ''='' @ v)"

definition well_formed :: "KeyFile \<Rightarrow> bool" where
  "well_formed kf \<longleftrightarrow>
     bt_sorted kf
     \<and> (\<forall>(sec, es) \<in> set kf. newline \<notin> set sec \<and> bt_sorted es \<and> (\<forall>(k, v) \<in> set es. well_formed_entry k v))"

definition entry_line :: "string \<times> string \<Rightarrow> string" where
  "entry_line kv = fst kv @ ''='' @ snd kv"

definition section_lines :: "string \<times> (string \<times> string) list \<Rightarrow> string list" where
  "section_lines s = (''['' @ fst s @ '']'') # map entry_line (snd s) @ [[]]"

lemma lines_terminated:
  assumes "\<And>l. l \<in> set ls \<Longrightarrow> newline \<notin> set l \<and> (l = [] \<or> last l \<noteq> carriage_return)"
  shows "lines (concat (map (\<lambda>l. l @ [newline]) ls)) = ls"
proof -
  have split: "split_on newline (concat (map (\<lambda>l. l @ [newline]) ls)) = ls @ [[]]"
    using assms by (induction ls) (auto simp: split_on_append_sep)
  have "(case strip_suffix l [carriage_return] of None \<Rightarrow> l | Some v \<Rightarrow> v) = l" if "l \<in> set ls" for l
    using assms [OF that] by (auto simp: strip_suffix_Some_iff split: option.splits)
  then show ?thesis by (simp add: lines_def split Let_def map_idI)
qed

lemma well_formed_entry_trim_line:
  assumes "well_formed_entry k v"
  shows "trim (k @ ''='' @ v) = k @ ''='' @ v"
proof (rule trim_no_whitespace_ends)
  from assms have k: "k \<noteq> []" "trim k = k" and v: "trim v = v" by (auto simp: well_formed_entry_def)
  show "\<not> is_whitespace (hd (k @ ''='' @ v))" using trim_ends [of k] k by simp
  show "\<not> is_whitespace (last (k @ ''='' @ v))"
    using trim_ends [of v] v by (cases "v = []") (auto simp: char_class_defs)
qed simp

lemma header_line [simp]: "is_header (''['' @ s @ '']'')" "header_name (''['' @ s @ '']'') = s"
  "trim (''['' @ s @ '']'') = ''['' @ s @ '']''"
proof -
  show "is_header (''['' @ s @ '']'')" by (auto simp: is_header_def starts_with_iff ends_with_iff)
  show "header_name (''['' @ s @ '']'') = s" by (simp add: header_name_def butlast_append)
  show "trim (''['' @ s @ '']'') = ''['' @ s @ '']''"
    by (rule trim_no_whitespace_ends) (simp_all add: char_class_defs)
qed

lemma header_line_Cons [simp]:
  "is_header (CHR ''['' # s @ '']'')" "header_name (CHR ''['' # s @ '']'') = s"
  "trim (CHR ''['' # s @ '']'') = CHR ''['' # s @ '']''"
  using header_line [of s] by simp_all

lemma lines_render:
  assumes "well_formed kf"
  shows "lines (render_key_file kf) = concat (map section_lines kf)"
proof -
  have "render_key_file kf = concat (map (\<lambda>l. l @ [newline]) (concat (map section_lines kf)))"
    by (induction kf)
       (auto simp: render_key_file_def section_lines_def entry_line_def comp_def split_def)
  moreover have "newline \<notin> set l \<and> (l = [] \<or> last l \<noteq> carriage_return)"
    if "l \<in> set (concat (map section_lines kf))" for l
  proof -
    from that obtain sec es where s: "(sec, es) \<in> set kf" "l \<in> set (section_lines (sec, es))" by auto
    with assms have wf: "newline \<notin> set sec" "\<And>k v. (k, v) \<in> set es \<Longrightarrow> well_formed_entry k v"
      by (auto simp: well_formed_def)
    consider "l = ''['' @ sec @ '']''" | "l = []" | k v where "(k, v) \<in> set es" "l = k @ ''='' @ v"
      using s(2) by (auto simp: section_lines_def entry_line_def)
    then show ?thesis
    proof cases
      case 3
      note e = wf(2) [OF 3(1)]
      have "\<not> is_whitespace (last l)" using trim_ends [of l] well_formed_entry_trim_line [OF e] 3(2) by auto
      then show ?thesis using e 3(2) by (auto simp: well_formed_entry_def char_class_defs)
    qed (use wf in auto)
  qed
  ultimately show ?thesis using lines_terminated by metis
qed

lemma entry_not_skipped:
  assumes "well_formed_entry k v"
  shows "\<not> is_header (k @ CHR ''='' # v)" "\<not> starts_with (k @ CHR ''='' # v) ''#''"
    "split_once (CHR ''='') (k @ CHR ''='' # v) = Some (k, v)" "trim k = k" "trim v = v" "k \<noteq> []"
    "trim (k @ CHR ''='' # v) = k @ CHR ''='' # v"
  using assms well_formed_entry_trim_line [OF assms]
  by (auto simp: well_formed_entry_def starts_with_iff split_once_Some_iff Cons_eq_append_conv
      append_eq_Cons_conv)

lemma not_header_Nil [simp]: "\<not> is_header []"
  by (simp add: is_header_def starts_with_def)

lemma entries_loop_section:
  assumes "\<forall>(k, v) \<in> set es. well_formed_entry k v"
  shows "section_entries_loop sec s (map entry_line es @ rest) =
         (if s = sec then es else []) @ section_entries_loop sec s rest"
  using assms by (induction es) (auto simp: entry_line_def entry_not_skipped Let_def)

lemma entries_loop_render:
  assumes "\<forall>(s, es) \<in> set kf. \<forall>(k, v) \<in> set es. well_formed_entry k v"
  shows "section_entries_loop sec cur (concat (map section_lines kf)) =
         concat (map (\<lambda>(s, es). if s = sec then es else []) kf)"
  using assms
proof (induction kf arbitrary: cur)
  case (Cons b kf)
  then show ?case
    by (cases b) (auto simp: section_lines_def entries_loop_section Let_def starts_with_def)
qed simp

lemma concat_sections_entries_of:
  "distinct (map fst kf) \<Longrightarrow>
   concat (map (\<lambda>(s, es). if s = sec then es else []) kf) = entries_of kf sec"
proof (induction kf)
  case (Cons b kf)
  have "sec \<notin> fst ` set kf \<Longrightarrow> entries_of kf sec = []"
    by (simp add: entries_of_def map_of_eq_None_iff [symmetric])
  with Cons show ?case by (cases b) (auto simp: entries_of_def)
qed (simp add: entries_of_def)

lemma well_formed_parts:
  assumes "well_formed kf"
  shows "bt_sorted kf" "distinct (map fst kf)"
    "\<forall>(s, es) \<in> set kf. \<forall>(k, v) \<in> set es. well_formed_entry k v"
    "\<And>sec. bt_sorted (entries_of kf sec)"
proof -
  show s: "bt_sorted kf" and "distinct (map fst kf)"
    "\<forall>(s, es) \<in> set kf. \<forall>(k, v) \<in> set es. well_formed_entry k v"
    using assms by (auto simp: well_formed_def intro: bt_sorted_distinct)
  show "bt_sorted (entries_of kf sec)" for sec
    using assms by (auto simp: well_formed_def entries_of_def split: option.splits dest: map_of_SomeD)
qed

lemma section_entries_render:
  "well_formed kf \<Longrightarrow> section_entries (render_key_file kf) sec = entries_of kf sec"
  by (simp add: section_entries_def lines_render entries_loop_render well_formed_parts
      concat_sections_entries_of)

lemma headers_render:
  assumes "\<forall>(s, es) \<in> set kf. \<forall>(k, v) \<in> set es. well_formed_entry k v"
  shows "map header_name (filter is_header (map trim (concat (map section_lines kf)))) = map fst kf"
  using assms
proof (induction kf)
  case (Cons b kf)
  have "filter is_header (map trim (map entry_line (snd b))) = []"
    using Cons.prems by (cases b) (auto simp: filter_empty_conv entry_line_def entry_not_skipped)
  with Cons show ?case by (auto simp: section_lines_def)
qed simp

lemma sort_dedup_sorted: "sorted_wrt (<) xs \<Longrightarrow> sort_dedup xs = xs"
  by (simp add: sort_dedup_def strict_sorted_iff sort_key_id_if_sorted distinct_remdups_adj_sorted
      remdups_adj_distinct sorted_sort_id)

lemma section_names_render: "well_formed kf \<Longrightarrow> section_names (render_key_file kf) = map fst kf"
  using well_formed_parts [of kf]
  by (simp add: section_names_def lines_render headers_render sort_dedup_sorted bt_sorted_def)

lemma bt_insert_last: "\<forall>k' \<in> fst ` set m. k' < k \<Longrightarrow> bt_insert k v m = m @ [(k, v)]"
  by (induction m) (auto simp: order.strict_iff_not)

lemma bt_insert_ascending:
  assumes "bt_sorted (m @ kvs)"
  shows "foldl (\<lambda>m (k, v). bt_insert k v m) m kvs = m @ kvs"
  using assms
proof (induction kvs arbitrary: m)
  case (Cons kv kvs)
  obtain k v where kv: "kv = (k, v)" by (cases kv)
  with Cons.prems have "\<forall>k' \<in> fst ` set m. k' < k" by (auto simp: bt_sorted_def sorted_wrt_append)
  then have "bt_insert k v m = m @ [(k, v)]" by (rule bt_insert_last)
  with Cons.IH [of "m @ [(k, v)]"] Cons.prems kv show ?case by simp
qed simp

lemma parse_key_file_fold:
  "foldl (\<lambda>result sec. bt_insert sec
      (foldl (\<lambda>es (k, v). bt_insert k v es) (entries_of result sec) (f sec)) result) acc secs =
   foldl (\<lambda>m (k, v). bt_insert k v m) acc
     (map (\<lambda>sec. (sec, foldl (\<lambda>es (k, v). bt_insert k v es) [] (f sec))) secs)"
  if "distinct secs" "\<forall>sec \<in> set secs. sec \<notin> fst ` set acc"
  using that
proof (induction secs arbitrary: acc)
  case (Cons sec secs)
  have "entries_of acc sec = []" using Cons.prems(2) by (simp add: entries_of_def map_of_eq_None_iff [symmetric])
  moreover have "\<forall>s \<in> set secs. s \<notin> fst ` set (bt_insert sec x acc)" for x
    using Cons.prems by (auto simp: fst_bt_insert)
  ultimately show ?case using Cons by simp
qed simp

lemma parse_key_file_alt:
  "parse_key_file data =
   map (\<lambda>sec. (sec, foldl (\<lambda>es (k, v). bt_insert k v es) [] (section_entries data sec)))
     (section_names data)"
proof -
  have s: "sorted_wrt (<) (section_names data)" by (simp add: section_names_def strict_sorted_iff)
  then have d: "distinct (section_names data)" by (simp add: strict_sorted_iff)
  show ?thesis
    unfolding parse_key_file_def
    using parse_key_file_fold [OF d, of "[]" "section_entries data"] s
    by (simp add: bt_insert_ascending [of "[]", simplified] bt_sorted_def comp_def)
qed

lemma parse_render:
  assumes "well_formed kf"
  shows "parse_key_file (render_key_file kf) = kf"
proof -
  note wf = well_formed_parts [OF assms]
  have "foldl (\<lambda>es (k, v). bt_insert k v es) [] (entries_of kf sec) = entries_of kf sec" for sec
    by (rule bt_insert_ascending [of "[]", simplified, OF wf(4)])
  then have "parse_key_file (render_key_file kf) = map (\<lambda>sec. (sec, entries_of kf sec)) (map fst kf)"
    by (simp add: parse_key_file_alt section_names_render section_entries_render assms)
  also have "\<dots> = kf"
    using wf(2) by (auto simp: entries_of_def comp_def intro!: map_idI)
  finally show ?thesis .
qed

lemma value_loop_section:
  assumes "\<forall>(k, v) \<in> set es. well_formed_entry k v"
  shows "value_loop sec key s (map entry_line es @ rest) =
         (if s = sec then (case map_of es key of None \<Rightarrow> value_loop sec key s rest | Some v \<Rightarrow> Some v)
          else value_loop sec key s rest)"
  using assms by (induction es) (auto simp: entry_line_def entry_not_skipped Let_def)

lemma value_loop_render:
  assumes "\<forall>(s, es) \<in> set kf. \<forall>(k, v) \<in> set es. well_formed_entry k v" "distinct (map fst kf)"
  shows "value_loop sec key cur (concat (map section_lines kf)) =
         Option.bind (map_of kf sec) (\<lambda>es. map_of es key)"
  using assms
proof (induction kf arbitrary: cur)
  case (Cons b kf)
  obtain s es where b: "b = (s, es)" by (cases b)
  have none: "s = sec \<Longrightarrow> map_of kf sec = None" using Cons.prems(2) b by (auto simp: map_of_eq_None_iff)
  show ?case
    using Cons none b by (auto simp: section_lines_def value_loop_section Let_def split: option.splits)
qed simp

lemma value_render:
  "well_formed kf \<Longrightarrow>
   metadata_value (render_key_file kf) sec key = Option.bind (map_of kf sec) (\<lambda>es. map_of es key)"
  using well_formed_parts [of kf]
  by (simp add: metadata_value_def lines_render value_loop_render)

section \<open>Parsed key files are well formed\<close>

lemma lines_no_newline: "l \<in> set (lines s) \<Longrightarrow> newline \<notin> set l"
proof -
  have no: "w \<in> set (split_on newline s) \<Longrightarrow> newline \<notin> set w" for w by (rule split_on_no_sep)
  have "newline \<notin> set (case strip_suffix w [carriage_return] of None \<Rightarrow> w | Some v \<Rightarrow> v)"
    if "w \<in> set (butlast (split_on newline s))" for w
    using no [OF in_set_butlastD [OF that]] by (auto simp: strip_suffix_Some_iff split: option.splits)
  moreover have "newline \<notin> set (last (split_on newline s))" by (rule no) simp
  ultimately show "l \<in> set (lines s) \<Longrightarrow> newline \<notin> set l"
    by (auto simp: lines_def Let_def split: if_splits)
qed

lemma is_header_iff: "is_header s \<longleftrightarrow> s \<noteq> [] \<and> hd s = CHR ''['' \<and> last s = CHR '']''"
proof -
  have "starts_with s ''['' \<longleftrightarrow> s \<noteq> [] \<and> hd s = CHR ''[''"
    by (cases s) (simp_all add: starts_with_def)
  moreover have "ends_with s '']'' \<longleftrightarrow> s \<noteq> [] \<and> last s = CHR '']''"
    by (cases s rule: rev_cases) (simp_all add: ends_with_def starts_with_def)
  ultimately show ?thesis by (auto simp: is_header_def)
qed

lemma trim_append_char:
  assumes "a \<noteq> []" "trim (a @ c # b) = a @ c # b"
  shows "\<not> is_whitespace (hd a)"
  using assms trim_ends [of "a @ c # b"] by simp

lemma trim_hd: "a \<noteq> [] \<Longrightarrow> \<not> is_whitespace (hd a) \<Longrightarrow> trim a \<noteq> [] \<and> hd (trim a) = hd a"
proof -
  assume a: "a \<noteq> []" "\<not> is_whitespace (hd a)"
  then have d: "dropWhile is_whitespace a = a" by (cases a) auto
  have "rev a = takeWhile is_whitespace (rev a) @ dropWhile is_whitespace (rev a)" by simp
  then have "a = trim a @ rev (takeWhile is_whitespace (rev a))"
    unfolding trim_def d by (metis rev_append rev_rev_ident)
  moreover have "trim a \<noteq> []"
    using a by (auto simp: trim_def d dropWhile_eq_Nil_conv intro: hd_in_set)
  ultimately show ?thesis by (metis hd_append)
qed

lemma trim_last: "b \<noteq> [] \<Longrightarrow> \<not> is_whitespace (last b) \<Longrightarrow> trim b \<noteq> [] \<and> last (trim b) = last b"
proof -
  assume b: "b \<noteq> []" "\<not> is_whitespace (last b)"
  define t where "t = dropWhile is_whitespace b"
  have t: "t \<noteq> []" using b by (auto simp: t_def dropWhile_eq_Nil_conv intro: last_in_set)
  then have l: "last t = last b" unfolding t_def by (metis last_append takeWhile_dropWhile_id t_def)
  have "dropWhile is_whitespace (rev t) = rev t" using t l b by (cases "rev t") (auto simp: hd_rev)
  then show ?thesis using t l by (simp add: trim_def t_def)
qed

lemma parsed_entry_well_formed:
  assumes "trim line = line" "newline \<notin> set line" "\<not> starts_with line ''#''" "\<not> is_header line"
    and sp: "split_once (CHR ''='') line = Some (key, v)" and ne: "trim key \<noteq> []"
  shows "well_formed_entry (trim key) (trim v)"
proof -
  have line: "line = key @ CHR ''='' # v" and no_eq: "CHR ''='' \<notin> set key"
    using sp by (auto simp: split_once_Some_iff)
  have key: "key \<noteq> []" using ne by auto
  have hd_key: "\<not> is_whitespace (hd key)" using trim_append_char [OF key] assms(1) line by simp
  have h: "hd (trim key) = hd line" using trim_hd [OF key hd_key] key line by simp
  have last_v: "v = [] \<or> \<not> is_whitespace (last v)" using trim_ends [of line] assms(1) line by auto
  have no_header: "\<not> is_header (trim key @ ''='' @ trim v)"
  proof
    assume hdr: "is_header (trim key @ ''='' @ trim v)"
    have tv: "trim v \<noteq> []" using hdr by (auto simp: is_header_iff)
    then have v: "v \<noteq> []" by auto
    with last_v have "last (trim v) = last v" using trim_last [of v] by auto
    with hdr tv v h ne line key have "is_header line" by (simp add: is_header_iff)
    with assms(4) show False by simp
  qed
  have "hd line \<noteq> CHR ''#''" using assms(3) key line by (cases key) (auto simp: starts_with_iff)
  with no_header h ne show ?thesis
    using trim_set [of key] trim_set [of v] no_eq assms(2) line by (auto simp: well_formed_entry_def)
qed

lemma section_entries_loop_well_formed:
  assumes "\<forall>l \<in> set ls. newline \<notin> set l" "(k, v) \<in> set (section_entries_loop sec cur ls)"
  shows "well_formed_entry k v"
  using assms
proof (induction ls arbitrary: cur)
  case (Cons l ls)
  have nl: "newline \<notin> set (trim l)" using Cons.prems(1) trim_set [of l] by auto
  show ?case
    using Cons.prems Cons.IH parsed_entry_well_formed [of "trim l", OF _ nl]
    by (auto simp: Let_def split: if_splits option.splits)
qed simp

lemma section_entries_well_formed: "(k, v) \<in> set (section_entries data sec) \<Longrightarrow> well_formed_entry k v"
  unfolding section_entries_def by (rule section_entries_loop_well_formed) (auto dest: lines_no_newline)

lemma section_names_no_newline: "sec \<in> set (section_names data) \<Longrightarrow> newline \<notin> set sec"
proof -
  assume "sec \<in> set (section_names data)"
  then obtain l where l: "l \<in> set (lines data)" "sec = header_name (trim l)"
    by (auto simp: section_names_def)
  have "set sec \<subseteq> set (trim l)" unfolding l(2) header_name_def
    by (cases "trim l") (auto dest: in_set_butlastD)
  with lines_no_newline [OF l(1)] trim_set [of l] show ?thesis by blast
qed

lemma inserts_entries_well_formed:
  "(\<And>k v. (k, v) \<in> set kvs \<Longrightarrow> well_formed_entry k v) \<Longrightarrow>
   (\<And>k v. (k, v) \<in> set es \<Longrightarrow> well_formed_entry k v) \<Longrightarrow>
   (k, v) \<in> set (foldl (\<lambda>es (k, v). bt_insert k v es) es kvs) \<Longrightarrow> well_formed_entry k v"
proof (induction kvs arbitrary: es)
  case (Cons kv kvs)
  obtain k' v' where kv: "kv = (k', v')" by (cases kv)
  show ?case
    by (rule Cons.IH [of "bt_insert k' v' es"])
       (use Cons.prems kv set_bt_insert [of k' v' es] in auto)
qed auto

lemma parse_well_formed: "well_formed (parse_key_file data)"
proof -
  have "sorted_wrt (<) (section_names data)" by (simp add: section_names_def strict_sorted_iff)
  then have "bt_sorted (parse_key_file data)" by (simp add: parse_key_file_alt bt_sorted_def comp_def)
  moreover have "well_formed_entry k v"
    if "(k, v) \<in> set (foldl (\<lambda>es (k, v). bt_insert k v es) [] (section_entries data sec))" for k v sec
    using inserts_entries_well_formed [OF _ _ that] section_entries_well_formed by auto
  ultimately show ?thesis
    by (auto simp: well_formed_def parse_key_file_alt section_names_no_newline intro!: bt.invar_inserts)
qed

section \<open>Merging list items\<close>

lemma split_list_items_props:
  "item \<in> set (split_list_items v) \<Longrightarrow>
   item \<noteq> [] \<and> trim item = item \<and> CHR '';'' \<notin> set item \<and> set item \<subseteq> set v"
proof -
  assume "item \<in> set (split_list_items v)"
  then obtain w where w: "w \<in> set (split_on (CHR '';'') v)" "item = trim w" "item \<noteq> []"
    by (auto simp: split_list_items_def)
  with split_on_no_sep [OF w(1)] split_on_set [OF w(1)] trim_set [of w] show ?thesis by auto
qed

lemma split_list_items_join:
  assumes "\<And>i. i \<in> set items \<Longrightarrow> i \<noteq> [] \<and> trim i = i \<and> CHR '';'' \<notin> set i"
  shows "split_list_items (if items = [] then [] else join_with '';'' items @ '';'') = items"
proof (cases "items = []")
  case False
  have "split_on (CHR '';'') (join_with '';'' ws @ '';'') = ws @ [[]]"
    if "ws \<noteq> []" "\<And>w. w \<in> set ws \<Longrightarrow> CHR '';'' \<notin> set w" for ws
    using that by (induction ws) (auto simp: join_with_Cons split_on_append_sep)
  from this [OF False] assms show ?thesis
    using False by (simp add: split_list_items_def map_idI filter_True)
qed (simp add: split_list_items_def)

lemma merge_items_snoc:
  "merge_items fs bs (os @ [item]) =
   filter (\<lambda>e. list_identity e fs \<noteq> list_identity item fs) (merge_items fs bs os) @ [item]"
  by (simp add: merge_items_def)

lemma merge_items_append: "merge_items fs (merge_items fs bs os) os' = merge_items fs bs (os @ os')"
  by (simp add: merge_items_def)

lemma set_merge_items: "set (merge_items fs bs os) \<subseteq> set bs \<union> set os"
  by (induction os rule: rev_induct) (auto simp: merge_items_snoc, simp add: merge_items_def)

lemma split_merge_list:
  "split_list_items (merge_list base overlay fs) =
   merge_items fs (split_list_items (case base of None \<Rightarrow> [] | Some b \<Rightarrow> b)) (split_list_items overlay)"
  unfolding merge_list_def Let_def
  by (rule split_list_items_join)
     (use set_merge_items split_list_items_props in \<open>fastforce\<close>)

text \<open>
  The item that decides about a target is the last one with its identity, also after a
  merge: dropping the superseded items of the base does not change the decision.
\<close>

lemma find_filter_other:
  "(\<And>x. P x \<Longrightarrow> Q x) \<Longrightarrow> find P (filter Q xs) = find P xs"
  by (induction xs) auto

lemma items_enable_snoc:
  "items_enable (items @ [item]) fs t =
   (if list_identity item fs = t then \<not> starts_with item ''!'' else items_enable items fs t)"
  by (simp add: items_enable_def)

lemma items_enable_filter_other:
  "list_identity item fs \<noteq> t \<Longrightarrow>
   items_enable (filter (\<lambda>e. list_identity e fs \<noteq> list_identity item fs) items) fs t =
   items_enable items fs t"
  unfolding items_enable_def rev_filter by (subst find_filter_other) auto

lemma items_enable_merge: "items_enable (merge_items fs bs os) fs t = items_enable (bs @ os) fs t"
proof (induction os rule: rev_induct)
  case (snoc item os)
  have "items_enable (merge_items fs bs (os @ [item])) fs t =
        (if list_identity item fs = t then \<not> starts_with item ''!'' else items_enable (bs @ os) fs t)"
    using snoc by (simp add: merge_items_snoc items_enable_snoc items_enable_filter_other)
  also have "\<dots> = items_enable (bs @ os @ [item]) fs t"
    using items_enable_snoc [of "bs @ os"] by simp
  finally show ?case .
qed (simp add: merge_items_def)

section \<open>What an overlay changes\<close>

definition kf_get :: "KeyFile \<Rightarrow> string \<Rightarrow> string \<Rightarrow> string option" where
  "kf_get kf sec key = Option.bind (map_of kf sec) (\<lambda>es. map_of es key)"

definition kf_items :: "KeyFile \<Rightarrow> string \<Rightarrow> string \<Rightarrow> string list" where
  "kf_items kf sec key = split_list_items (case kf_get kf sec key of None \<Rightarrow> [] | Some v \<Rightarrow> v)"

text \<open>The values an overlay text assigns to a key, in order, and the list items in them.\<close>

definition overlay_values :: "string \<Rightarrow> string \<Rightarrow> string \<Rightarrow> string list" where
  "overlay_values overlay sec key =
     (if sec \<in> set (section_names overlay)
      then map snd (filter (\<lambda>kv. fst kv = key) (section_entries overlay sec)) else [])"

definition overlay_items :: "string \<Rightarrow> string \<Rightarrow> string \<Rightarrow> string list" where
  "overlay_items overlay sec key = concat (map split_list_items (overlay_values overlay sec key))"

lemma kf_get_insert:
  "kf_get (bt_insert sec (bt_insert key v (entries_of kf sec)) kf) s k =
   (if s = sec \<and> k = key then Some v else kf_get kf s k)"
  by (auto simp: kf_get_def map_of_bt_insert entries_of_def split: option.splits)

lemma kf_get_overlay_entry:
  "kf_get (overlay_entry sec kf (key, v)) s k =
   (if s = sec \<and> k = key
    then Some (if (sec, key) \<in> set LIST_KEYS
               then merge_list (kf_get kf sec key) v (key = ''filesystems'') else v)
    else kf_get kf s k)"
  by (simp add: overlay_entry_def Let_def kf_get_insert) (simp add: kf_get_def)

text \<open>A value assigned last wins.\<close>

definition last_or :: "'a option \<Rightarrow> 'a list \<Rightarrow> 'a option" where
  "last_or d xs = (if xs = [] then d else Some (last xs))"

lemma kf_get_overlay_entries_plain:
  assumes "(s, k) \<notin> set LIST_KEYS"
  shows "kf_get (foldl (overlay_entry sec) kf es) s k =
   (if s = sec then last_or (kf_get kf s k) (map snd (filter (\<lambda>kv. fst kv = k) es)) else kf_get kf s k)"
proof (induction es arbitrary: kf)
  case (Cons e es)
  obtain k' v' where e: "e = (k', v')" by (cases e)
  show ?case using assms by (auto simp: e Cons kf_get_overlay_entry last_or_def)
qed (simp add: last_or_def)

lemma kf_items_overlay_entries:
  assumes "(s, k) \<in> set LIST_KEYS"
  shows "kf_items (foldl (overlay_entry sec) kf es) s k =
   (if s = sec then merge_items (k = ''filesystems'') (kf_items kf s k)
        (concat (map split_list_items (map snd (filter (\<lambda>kv. fst kv = k) es))))
    else kf_items kf s k)"
proof (induction es arbitrary: kf)
  case (Cons e es)
  obtain k' v' where e: "e = (k', v')" by (cases e)
  have step: "kf_items (overlay_entry sec kf (k', v')) s k =
      (if s = sec \<and> k = k' then merge_items (k = ''filesystems'') (kf_items kf s k) (split_list_items v')
       else kf_items kf s k)"
    using assms by (auto simp: kf_items_def kf_get_overlay_entry split_merge_list)
  show ?case unfolding e foldl.simps Cons.IH step by (auto simp: merge_items_append)
qed (simp add: merge_items_def)

text \<open>Only the section's own turn of the outer loop touches the observed key.\<close>

lemma foldl_only_section:
  assumes other: "\<And>kf sec. sec \<noteq> s \<Longrightarrow> g (f kf sec) = g kf"
    and own: "\<And>kf. g (f kf s) = h (g kf)" and "distinct secs"
  shows "g (foldl f kf secs) = (if s \<in> set secs then h (g kf) else g kf)"
  using assms(3)
proof (induction secs arbitrary: kf)
  case (Cons a secs)
  then show ?case by (cases "a = s") (auto simp: other own)
qed simp

lemma section_names_distinct: "distinct (section_names data)"
  by (simp add: section_names_def)

lemma kf_get_apply_overlay:
  assumes "(s, k) \<notin> set LIST_KEYS"
  shows "kf_get (apply_overlay kf overlay) s k = last_or (kf_get kf s k) (overlay_values overlay s k)"
proof -
  have "kf_get (apply_overlay kf overlay) s k =
      (if s \<in> set (section_names overlay)
       then last_or (kf_get kf s k) (map snd (filter (\<lambda>kv. fst kv = k) (section_entries overlay s)))
       else kf_get kf s k)"
    unfolding apply_overlay_def
    by (rule foldl_only_section [where s = s and g = "\<lambda>kf. kf_get kf s k" and
          h = "\<lambda>d. last_or d (map snd (filter (\<lambda>kv. fst kv = k) (section_entries overlay s)))"])
       (simp_all add: kf_get_overlay_entries_plain assms section_names_distinct)
  then show ?thesis by (simp add: overlay_values_def last_or_def)
qed

lemma kf_items_apply_overlay:
  assumes "(s, k) \<in> set LIST_KEYS"
  shows "kf_items (apply_overlay kf overlay) s k =
         merge_items (k = ''filesystems'') (kf_items kf s k) (overlay_items overlay s k)"
proof -
  have "kf_items (apply_overlay kf overlay) s k =
      (if s \<in> set (section_names overlay)
       then merge_items (k = ''filesystems'') (kf_items kf s k)
         (concat (map split_list_items (map snd (filter (\<lambda>kv. fst kv = k) (section_entries overlay s)))))
       else kf_items kf s k)"
    unfolding apply_overlay_def
    by (rule foldl_only_section [where s = s and g = "\<lambda>kf. kf_items kf s k" and
          h = "\<lambda>items. merge_items (k = ''filesystems'') items
            (concat (map split_list_items (map snd (filter (\<lambda>kv. fst kv = k) (section_entries overlay s)))))"])
       (auto simp: kf_items_overlay_entries [OF assms] section_names_distinct)
  then show ?thesis by (simp add: overlay_items_def overlay_values_def merge_items_def)
qed

lemma kf_get_parse:
  "kf_get (parse_key_file data) s k = last_or None (overlay_values data s k)"
proof -
  let ?f = "\<lambda>sec. foldl (\<lambda>es (k, v). bt_insert k v es) [] (section_entries data sec)"
  have m: "map_of (parse_key_file data) s = (if s \<in> set (section_names data) then Some (?f s) else None)"
    unfolding parse_key_file_alt by (simp add: map_of_map_restrict restrict_map_def)
  have "map_of (rev es) k = last_or None (map snd (filter (\<lambda>kv. fst kv = k) es))"
    for es :: "(string \<times> string) list"
    by (induction es rule: rev_induct) (auto simp: last_or_def)
  then show ?thesis
    by (simp add: kf_get_def m overlay_values_def bt.lookup_inserts last_or_def map_add_def
        split: option.splits)
qed

section \<open>Overlays keep key files well formed\<close>

lemma merge_list_well_formed:
  assumes "newline \<notin> set overlay" "\<forall>b \<in> set_option base. newline \<notin> set b"
  shows "trim (merge_list base overlay fs) = merge_list base overlay fs \<and>
         newline \<notin> set (merge_list base overlay fs) \<and>
         (merge_list base overlay fs = [] \<or> last (merge_list base overlay fs) = CHR '';'')"
proof -
  define vs where "vs = merge_items fs (split_list_items (case base of None \<Rightarrow> [] | Some b \<Rightarrow> b))
      (split_list_items overlay)"
  have ml: "merge_list base overlay fs = (if vs = [] then [] else join_with '';'' vs @ '';'')"
    by (simp add: merge_list_def Let_def vs_def)
  have item: "i \<noteq> [] \<and> trim i = i \<and> newline \<notin> set i" if "i \<in> set vs" for i
  proof -
    from that set_merge_items have "i \<in> set (split_list_items (case base of None \<Rightarrow> [] | Some b \<Rightarrow> b))
        \<or> i \<in> set (split_list_items overlay)" unfolding vs_def by blast
    then show ?thesis using assms split_list_items_props by (cases base) fastforce+
  qed
  have join: "newline \<notin> set (join_with '';'' ws)" if "\<forall>w \<in> set ws. newline \<notin> set w" for ws
    using that by (induction ws) (auto simp: join_with_Cons)
  show ?thesis
  proof (cases vs)
    case (Cons v ws)
    have v: "v \<noteq> []" "trim v = v" using item [of v] Cons by auto
    then have "\<not> is_whitespace (hd (join_with '';'' vs @ '';''))"
      using trim_ends [of v] Cons by (simp add: join_with_Cons)
    then have "trim (join_with '';'' vs @ '';'') = join_with '';'' vs @ '';''"
      by (intro trim_no_whitespace_ends) (simp_all add: char_class_defs)
    with Cons ml item join [of vs] show ?thesis by auto
  qed (simp add: ml)
qed

lemma list_key_entry_well_formed:
  assumes "(sec, key) \<in> set LIST_KEYS" "trim v = v" "newline \<notin> set v" "v = [] \<or> last v = CHR '';''"
  shows "well_formed_entry key v"
proof -
  have "key \<noteq> [] \<and> trim key = key \<and> CHR ''='' \<notin> set key \<and> newline \<notin> set key \<and> hd key \<noteq> CHR ''#''
      \<and> hd key \<noteq> CHR ''[''"
    using assms(1) by (auto simp: LIST_KEYS_def trim_def char_class_defs)
  with assms(2-4) show ?thesis by (auto simp: well_formed_entry_def is_header_iff)
qed

lemma well_formed_insert:
  assumes "well_formed kf" "newline \<notin> set sec" "well_formed_entry key v"
  shows "well_formed (bt_insert sec (bt_insert key v (entries_of kf sec)) kf)"
proof -
  note wf = well_formed_parts [OF assms(1)]
  have es: "\<forall>(k, w) \<in> set (entries_of kf sec). well_formed_entry k w"
    using wf(3) by (fastforce simp: entries_of_def split: option.splits dest: map_of_SomeD)
  let ?es = "bt_insert key v (entries_of kf sec)"
  have "bt_sorted ?es" using wf(4) by (rule bt_sorted_insert)
  moreover have "\<forall>(k, w) \<in> set ?es. well_formed_entry k w"
    using es assms(3) set_bt_insert [of key v "entries_of kf sec"] by fastforce
  ultimately have new: "newline \<notin> set sec \<and> bt_sorted ?es \<and> (\<forall>(k, w) \<in> set ?es. well_formed_entry k w)"
    using assms(2) by simp
  show ?thesis
    unfolding well_formed_def
  proof (intro conjI ballI)
    show "bt_sorted (bt_insert sec ?es kf)" using wf(1) by (rule bt_sorted_insert)
    fix b assume "b \<in> set (bt_insert sec ?es kf)"
    then consider "b = (sec, ?es)" | "b \<in> set kf" using set_bt_insert [of sec ?es kf] by blast
    then show "case b of (sec, es) \<Rightarrow> newline \<notin> set sec \<and> bt_sorted es \<and> (\<forall>(k, v) \<in> set es. well_formed_entry k v)"
      using new assms(1) by cases (simp, simp only: well_formed_def)
  qed
qed

lemma kf_get_no_newline: "well_formed kf \<Longrightarrow> kf_get kf s k = Some v \<Longrightarrow> newline \<notin> set v"
  by (fastforce simp: kf_get_def well_formed_def well_formed_entry_def bind_eq_Some_conv dest: map_of_SomeD)

lemma overlay_entry_well_formed:
  assumes "well_formed kf" "newline \<notin> set sec" "well_formed_entry key v"
  shows "well_formed (overlay_entry sec kf (key, v))"
proof -
  have "well_formed_entry key (merge_list (kf_get kf sec key) v fs)" if "(sec, key) \<in> set LIST_KEYS" for fs
  proof (rule list_key_entry_well_formed [OF that])
    have "newline \<notin> set v" using assms(3) by (simp add: well_formed_entry_def)
    moreover have "\<forall>b \<in> set_option (kf_get kf sec key). newline \<notin> set b"
      using kf_get_no_newline [OF assms(1)] by auto
    ultimately show "trim (merge_list (kf_get kf sec key) v fs) = merge_list (kf_get kf sec key) v fs"
      "newline \<notin> set (merge_list (kf_get kf sec key) v fs)"
      "merge_list (kf_get kf sec key) v fs = [] \<or> last (merge_list (kf_get kf sec key) v fs) = CHR '';''"
      using merge_list_well_formed by blast+
  qed
  with assms show ?thesis
    by (auto simp: overlay_entry_def Let_def kf_get_def [symmetric] intro!: well_formed_insert)
qed

lemma apply_overlay_well_formed:
  assumes "well_formed kf"
  shows "well_formed (apply_overlay kf overlay)"
proof -
  have inner: "well_formed (foldl (overlay_entry sec) kf es)"
    if "well_formed kf" "newline \<notin> set sec" "\<And>k v. (k, v) \<in> set es \<Longrightarrow> well_formed_entry k v" for kf sec es
    using that by (induction es arbitrary: kf) (auto simp: overlay_entry_well_formed)
  have "well_formed (foldl (\<lambda>base sec. foldl (overlay_entry sec) base (section_entries overlay sec)) kf secs)"
    if "well_formed kf" "\<forall>sec \<in> set secs. newline \<notin> set sec" for kf secs
    using that
  proof (induction secs arbitrary: kf)
    case (Cons sec secs)
    have "well_formed (foldl (overlay_entry sec) kf (section_entries overlay sec))"
      by (rule inner) (use Cons.prems section_entries_well_formed in auto)
    with Cons show ?case by simp
  qed simp
  with assms section_names_no_newline show ?thesis unfolding apply_overlay_def by blast
qed

section \<open>Properties\<close>

lemma permission_enabled_render:
  "well_formed kf \<Longrightarrow>
   permission_enabled (render_key_file kf) sec key t = items_enable (kf_items kf sec key) (key = ''filesystems'') t"
  by (auto simp: permission_enabled_def value_render kf_items_def kf_get_def items_enable_def
      split_list_items_def split: option.splits)



text \<open>
  Precedence of static overrides for single-valued keys: the effective metadata holds the
  last value the application override assigns to the key, else the last one of the global
  override, else the last one of the application's own metadata; a key no file assigns is absent.
\<close>

theorem override_precedence_value:
  assumes "(sec, key) \<notin> set LIST_KEYS"
    and "effective_metadata_from_sources metadata (Some g) (Some a) = Inr eff"
  shows "metadata_value eff sec key =
    last_or (last_or (last_or None (overlay_values metadata sec key)) (overlay_values g sec key))
      (overlay_values a sec key)"
proof -
  let ?kf = "apply_overlay (apply_overlay (parse_key_file metadata) g) a"
  have eff: "eff = render_key_file ?kf" using assms(2) by (simp add: effective_metadata_from_sources_def)
  have "well_formed ?kf" by (intro apply_overlay_well_formed parse_well_formed)
  then have "metadata_value eff sec key = kf_get ?kf sec key"
    by (simp add: eff value_render kf_get_def)
  then show ?thesis by (simp add: kf_get_apply_overlay [OF assms(1)] kf_get_parse)
qed


text \<open>An application with network access whose global override takes the network away and gives it a key.\<close>

definition demo_base :: string where
  "demo_base = ''[Context]'' @ [newline] @ ''shared=network;'' @ [newline] @ ''[Environment]'' @ [newline] @ ''A=1'' @ [newline]"

definition demo_global :: string where
  "demo_global = ''[Context]'' @ [newline] @ ''shared=!network;'' @ [newline] @ ''[Environment]'' @ [newline] @ ''A=2'' @ [newline]"

definition demo_app :: string where
  "demo_app = ''[Context]'' @ [newline] @ ''shared=ipc;'' @ [newline]"

definition demo_effective :: string where
  "demo_effective = render_key_file (apply_overlay (apply_overlay (parse_key_file demo_base) demo_global) demo_app)"


theorem override_precedence_value_witness:
  "metadata_value demo_effective ''Environment'' ''A'' = Some ''2''"
proof -
  have list: "(''Environment'', ''A'') \<notin> set LIST_KEYS" by code_simp
  have run: "effective_metadata_from_sources demo_base (Some demo_global) (Some demo_app) = Inr demo_effective"
    by (simp add: effective_metadata_from_sources_def demo_effective_def)
  show ?thesis unfolding override_precedence_value [OF list run] by code_simp
qed

end
