(* ===== verification/Filesystem_Grants.thy ===== *)
theory Filesystem_Grants
  imports Paths Flatpak_Metadata "HOL-Library.Multiset"
begin

text \<open>
  From filesystem permissions to nullfs mounts (\<^verbatim>\<open>src/src/sandbox/filesystem_grants.rs\<close>): which
  host directories an application sees and where, and how the file arguments of a launch are
  translated into the sandbox.

  The host file system is a parameter: its state \<open>'fs\<close> and the operations of \<^verbatim>\<open>std::fs\<close> the code
  calls (\<open>host_os\<close>). \<open>create_dir_all\<close> is the only one that changes the state. The grant builder is
  threaded with that state as a pair.
\<close>

section \<open>Data\<close>

record 'fs host_os =
  canonicalize :: "'fs \<Rightarrow> path \<Rightarrow> path option"
  path_exists :: "'fs \<Rightarrow> path \<Rightarrow> bool"
  is_dir :: "'fs \<Rightarrow> path \<Rightarrow> bool"
  read_dir :: "'fs \<Rightarrow> path \<Rightarrow> (string \<times> bool result) list result"
  create_dir_all :: "'fs \<Rightarrow> path \<Rightarrow> 'fs result"
  read_to_string :: "'fs \<Rightarrow> path \<Rightarrow> string option"

record HostPathGrant =
  g_label :: string
  g_source_permission :: string
  g_host_path :: path
  g_canonical_host_path :: path
  g_sandbox_path :: path
  g_access :: AccessMode

record XdgUserDirs =
  x_desktop :: path
  x_documents :: path
  x_download :: path
  x_music :: path
  x_pictures :: path
  x_public_share :: path
  x_templates :: path
  x_videos :: path
  x_config_file :: "path option"

record GrantBuilder =
  b_grants :: "HostPathGrant list"
  b_warnings :: "string list"
  b_mount_points :: "path list"
  b_home :: path
  b_sandbox_home :: path
  b_project_root :: path
  b_sandbox_root :: path
  b_xdg_dirs :: XdgUserDirs
  b_xdg_data_home :: path

record HostFilesystem =
  h_permissions :: "FilesystemPermission list"
  h_grants :: "HostPathGrant list"
  h_warnings :: "string list"
  h_sandbox_home :: path
  h_xdg_dirs :: XdgUserDirs

type_synonym 'fs builder_state = "'fs \<times> GrantBuilder"

definition canonical_or_self :: "'fs host_os \<Rightarrow> 'fs \<Rightarrow> path \<Rightarrow> path" where
  "canonical_or_self os fs p = (case canonicalize os fs p of None \<Rightarrow> p | Some c \<Rightarrow> c)"

section \<open>XDG user directories\<close>

definition XdgUserDirs_defaults :: "path \<Rightarrow> XdgUserDirs" where
  "XdgUserDirs_defaults home =
     \<lparr>x_desktop = path_join home [Normal ''Desktop''],
      x_documents = path_join home [Normal ''Documents''],
      x_download = path_join home [Normal ''Downloads''],
      x_music = path_join home [Normal ''Music''],
      x_pictures = path_join home [Normal ''Pictures''],
      x_public_share = path_join home [Normal ''Public''],
      x_templates = path_join home [Normal ''Templates''],
      x_videos = path_join home [Normal ''Videos''],
      x_config_file = None\<rparr>"

fun unescape_loop :: "bool \<Rightarrow> string \<Rightarrow> string" where
  "unescape_loop escaped [] = (if escaped then [CHR 0x5C] else [])"
| "unescape_loop escaped (ch # rest) =
     (if escaped then ch # unescape_loop False rest
      else if ch = CHR 0x5C then unescape_loop True rest
      else ch # unescape_loop False rest)"

definition unescape_xdg_value :: "string \<Rightarrow> string" where
  "unescape_xdg_value v = unescape_loop False v"

definition parse_xdg_user_dir_value :: "string \<Rightarrow> path \<Rightarrow> path option" where
  "parse_xdg_user_dir_value v home =
     (let unquoted = (case Option.bind (strip_prefix v [CHR 0x22]) (\<lambda>r. strip_suffix r [CHR 0x22]) of
                        None \<Rightarrow> v | Some u \<Rightarrow> u);
          unescaped = unescape_xdg_value unquoted in
      case strip_prefix unescaped ''$HOME/'' of
        Some rest \<Rightarrow> Some (path_join home (parse_path rest))
      | None \<Rightarrow>
          if unescaped = ''$HOME'' then Some home
          else (case strip_prefix unescaped ''${HOME}/'' of
            Some rest \<Rightarrow> Some (path_join home (parse_path rest))
          | None \<Rightarrow>
              if unescaped = ''${HOME}'' then Some home
              else if is_absolute (parse_path unescaped) then Some (parse_path unescaped)
              else None))"

definition set_user_dir :: "string \<Rightarrow> path \<Rightarrow> XdgUserDirs \<Rightarrow> XdgUserDirs" where
  "set_user_dir key path dirs =
     (if key = ''XDG_DESKTOP_DIR'' then dirs\<lparr>x_desktop := path\<rparr>
      else if key = ''XDG_DOCUMENTS_DIR'' then dirs\<lparr>x_documents := path\<rparr>
      else if key = ''XDG_DOWNLOAD_DIR'' then dirs\<lparr>x_download := path\<rparr>
      else if key = ''XDG_MUSIC_DIR'' then dirs\<lparr>x_music := path\<rparr>
      else if key = ''XDG_PICTURES_DIR'' then dirs\<lparr>x_pictures := path\<rparr>
      else if key = ''XDG_PUBLICSHARE_DIR'' then dirs\<lparr>x_public_share := path\<rparr>
      else if key = ''XDG_TEMPLATES_DIR'' then dirs\<lparr>x_templates := path\<rparr>
      else if key = ''XDG_VIDEOS_DIR'' then dirs\<lparr>x_videos := path\<rparr>
      else dirs)"

definition load_user_dirs_line :: "path \<Rightarrow> XdgUserDirs \<Rightarrow> string \<Rightarrow> XdgUserDirs" where
  "load_user_dirs_line home dirs raw =
     (let line = trim raw in
      if line = [] \<or> starts_with line ''#'' then dirs
      else (case split_once (CHR ''='') line of
        None \<Rightarrow> dirs
      | Some (key, raw_value) \<Rightarrow>
          (case parse_xdg_user_dir_value (trim raw_value) home of
             None \<Rightarrow> dirs
           | Some path \<Rightarrow> set_user_dir (trim key) path dirs)))"

definition load_from_config_home :: "'fs host_os \<Rightarrow> 'fs \<Rightarrow> path \<Rightarrow> path \<Rightarrow> XdgUserDirs" where
  "load_from_config_home os fs home config_home =
     (let dirs = XdgUserDirs_defaults home;
          user_dirs = path_join config_home [Normal ''user-dirs.dirs''] in
      case read_to_string os fs user_dirs of
        None \<Rightarrow> dirs
      | Some data \<Rightarrow>
          foldl (load_user_dirs_line home) (dirs\<lparr>x_config_file := Some user_dirs\<rparr>) (lines data))"

definition xdg_table :: "XdgUserDirs \<Rightarrow> (string \<times> path) list" where
  "xdg_table d =
     [(''xdg-desktop'', x_desktop d), (''xdg-documents'', x_documents d),
      (''xdg-download'', x_download d), (''xdg-music'', x_music d), (''xdg-pictures'', x_pictures d),
      (''xdg-public-share'', x_public_share d), (''xdg-templates'', x_templates d),
      (''xdg-videos'', x_videos d)]"

definition XdgUserDirs_get :: "XdgUserDirs \<Rightarrow> string \<Rightarrow> path option" where
  "XdgUserDirs_get d name = map_of (xdg_table d) name"

definition label_for_host_path :: "'fs host_os \<Rightarrow> 'fs \<Rightarrow> XdgUserDirs \<Rightarrow> path \<Rightarrow> string option" where
  "label_for_host_path os fs d path =
     map_option fst (find (\<lambda>(label, candidate). canonical_or_self os fs candidate = path) (xdg_table d))"

definition xdg_entries :: "(string \<times> string) list" where
  "xdg_entries =
     [(''xdg-desktop'', ''XDG_DESKTOP_DIR''), (''xdg-download'', ''XDG_DOWNLOAD_DIR''),
      (''xdg-templates'', ''XDG_TEMPLATES_DIR''), (''xdg-public-share'', ''XDG_PUBLICSHARE_DIR''),
      (''xdg-documents'', ''XDG_DOCUMENTS_DIR''), (''xdg-music'', ''XDG_MUSIC_DIR''),
      (''xdg-pictures'', ''XDG_PICTURES_DIR''), (''xdg-videos'', ''XDG_VIDEOS_DIR'')]"

section \<open>Path helpers\<close>

definition append_permission_suffix :: "path \<Rightarrow> string option \<Rightarrow> path result" where
  "append_permission_suffix base suffix =
     (case suffix of
        None \<Rightarrow> Inr base
      | Some s \<Rightarrow>
          fold_result (\<lambda>path c. case c of
              Normal part \<Rightarrow> Inr (path @ [Normal part])
            | CurDir \<Rightarrow> Inr path
            | _ \<Rightarrow> Inl (Bail (''invalid filesystem permission subpath: '' @ s)))
            base (parse_path s))"

definition absolute_to_chroot_relative :: "path \<Rightarrow> path result" where
  "absolute_to_chroot_relative path =
     (if \<not> is_absolute path then Inl (Bail (''sandbox path must be absolute: '' @ display_path path))
      else rbind (fold_result (\<lambda>relative c. case c of
              RootDir \<Rightarrow> Inr relative
            | Normal part \<Rightarrow> Inr (relative @ [Normal part])
            | CurDir \<Rightarrow> Inr relative
            | ParentDir \<Rightarrow> Inl (Bail (''invalid sandbox path: '' @ display_path path))) [] path) (\<lambda>relative.
        if relative = [] then Inl (Bail ''refusing to use sandbox root as a mount target'')
        else Inr relative))"

definition path_overlaps :: "path \<Rightarrow> path \<Rightarrow> bool" where
  "path_overlaps left right \<longleftrightarrow> path_starts_with left right \<or> path_starts_with right left"

definition clean_absolute_path :: "path \<Rightarrow> bool" where
  "clean_absolute_path path \<longleftrightarrow> is_absolute path \<and> list_all (\<lambda>c. c = RootDir \<or> is_normal c) path"

definition authorized_grant_paths :: "path list \<Rightarrow> path list \<Rightarrow> path list" where
  "authorized_grant_paths roots mount_points =
     remdups_adj (sort_key (\<lambda>p. (length p, p))
       (roots @ filter (\<lambda>mount. list_ex (\<lambda>root. mount \<noteq> root \<and> path_starts_with mount root) roots)
                  (filter clean_absolute_path mount_points)))"

section \<open>Building the grants\<close>

definition HostPathGrant_new ::
    "'fs host_os \<Rightarrow> 'fs \<Rightarrow> string \<Rightarrow> string \<Rightarrow> path \<Rightarrow> path \<Rightarrow> AccessMode \<Rightarrow> HostPathGrant result" where
  "HostPathGrant_new os fs label source_permission host_path sandbox_path access =
     (if \<not> is_absolute host_path
      then Inl (Bail (''host filesystem grant must be absolute: '' @ display_path host_path))
      else if \<not> is_absolute sandbox_path
      then Inl (Bail (''sandbox filesystem grant must be absolute: '' @ display_path sandbox_path))
      else Inr \<lparr>g_label = label, g_source_permission = source_permission, g_host_path = host_path,
        g_canonical_host_path = canonical_or_self os fs host_path, g_sandbox_path = sandbox_path,
        g_access = access\<rparr>)"

definition same_mount :: "HostPathGrant \<Rightarrow> path \<Rightarrow> path \<Rightarrow> bool" where
  "same_mount g host_path sandbox_path \<longleftrightarrow>
     (g_host_path g = host_path \<or> g_canonical_host_path g = host_path) \<and> g_sandbox_path g = sandbox_path"

text \<open>\<^verbatim>\<open>iter_mut().find(p)\<close> followed by an update of the element found.\<close>

fun update_first :: "('a \<Rightarrow> bool) \<Rightarrow> ('a \<Rightarrow> 'a) \<Rightarrow> 'a list \<Rightarrow> 'a list option" where
  "update_first P f [] = None"
| "update_first P f (x # xs) =
     (if P x then Some (f x # xs) else map_option (Cons x) (update_first P f xs))"

definition warn :: "string \<Rightarrow> 'fs builder_state \<Rightarrow> 'fs builder_state" where
  "warn msg st = (fst st, (snd st)\<lparr>b_warnings := b_warnings (snd st) @ [msg]\<rparr>)"

definition add_grant ::
    "'fs host_os \<Rightarrow> string \<Rightarrow> string \<Rightarrow> path \<Rightarrow> path \<Rightarrow> AccessMode \<Rightarrow> 'fs builder_state \<Rightarrow> 'fs builder_state result" where
  "add_grant os label source_permission host_path sandbox_path access st =
     (let (fs, b) = st;
          label' = (case label_for_host_path os fs (b_xdg_dirs b) host_path of
                      Some xdg_label \<Rightarrow> xdg_label | None \<Rightarrow> label) in
      case update_first (\<lambda>g. same_mount g host_path sandbox_path)
             (\<lambda>g. g\<lparr>g_access := merge_access (g_access g) access\<rparr>) (b_grants b) of
        Some grants \<Rightarrow> Inr (fs, b\<lparr>b_grants := grants\<rparr>)
      | None \<Rightarrow>
          rbind (HostPathGrant_new os fs label' source_permission host_path sandbox_path access) (\<lambda>g.
            Inr (fs, b\<lparr>b_grants := b_grants b @ [g]\<rparr>)))"

lemma fold_result_cong [fundef_cong]:
  "s = t \<Longrightarrow> xs = ys \<Longrightarrow> (\<And>s x. x \<in> set ys \<Longrightarrow> f s x = g s x) \<Longrightarrow> fold_result f s xs = fold_result g t ys"
  by (induction ys arbitrary: s t xs) (auto simp: rbind_def split: sum.splits)

lemma rbind_cong [fundef_cong]:
  "m = m' \<Longrightarrow> (\<And>x. m' = Inr x \<Longrightarrow> f x = g x) \<Longrightarrow> rbind m f = rbind m' g"
  by (cases m') simp_all

definition ensure_created :: "'fs host_os \<Rightarrow> path \<Rightarrow> bool \<Rightarrow> 'fs builder_state \<Rightarrow> 'fs builder_state result" where
  "ensure_created os host_path create st =
     (if create \<and> \<not> path_exists os (fst st) host_path
      then rbind (with_context (''create host directory '' @ display_path host_path)
                    (create_dir_all os (fst st) host_path)) (\<lambda>fs. Inr (fs, snd st))
      else Inr st)"

text \<open>
  \<^verbatim>\<open>expand_directory_children\<close>; the recursive call to \<open>add_grant_or_expand\<close> on a child is the
  argument \<open>go\<close>.
\<close>

definition expand_directory_children ::
    "'fs host_os \<Rightarrow> FilesystemPermission \<Rightarrow> path \<Rightarrow> path \<Rightarrow>
     (path \<Rightarrow> path \<Rightarrow> 'fs builder_state \<Rightarrow> 'fs builder_state result) \<Rightarrow>
     'fs builder_state \<Rightarrow> 'fs builder_state result" where
  "expand_directory_children os permission host_path sandbox_path go st0 =
     (let st = warn (''expanding '' @ fp_original permission
                 @ '' into child directory mounts to avoid recursive nullfs mount: ''
                 @ display_path host_path) st0 in
      rbind (with_context (''read host directory '' @ display_path host_path)
               (read_dir os (fst st) host_path)) (\<lambda>entries.
      fold_result (\<lambda>st (name, metadata).
          rbind (with_context (''stat '' @ display_path (path_join host_path [Normal name])) metadata) (\<lambda>dir.
          if \<not> dir then Inr st
          else go (path_join host_path [Normal name]) (path_join sandbox_path [Normal name]) st))
        st (sort_key fst entries)))"

lemma expand_directory_children_cong [fundef_cong]:
  "(\<And>h s st. go h s st = go' h s st) \<Longrightarrow>
   expand_directory_children os permission host_path sandbox_path go st =
   expand_directory_children os permission host_path sandbox_path go' st"
proof -
  assume "\<And>h s st. go h s st = go' h s st"
  then have "go = go'" by (intro ext)
  then show ?thesis by simp
qed

text \<open>
  The recursion goes from depth 0 to depth 1 once and then at most to depth 8: the measure
  is \<open>9 - depth\<close>.
\<close>

function add_grant_or_expand ::
    "'fs host_os \<Rightarrow> FilesystemPermission \<Rightarrow> string \<Rightarrow> path \<Rightarrow> path \<Rightarrow> bool \<Rightarrow> nat \<Rightarrow> 'fs builder_state
     \<Rightarrow> 'fs builder_state result" where
  "add_grant_or_expand os permission label host_path sandbox_path create depth st =
     (if depth = 0 then
        fold_result (\<lambda>st granted_path.
            case path_strip_prefix granted_path host_path of
              None \<Rightarrow> Inl (Bail (''map subordinate mount '' @ display_path granted_path @ '' below grant ''
                          @ display_path host_path))
            | Some suffix \<Rightarrow>
                add_grant_or_expand os permission label granted_path
                  (if suffix = [] then sandbox_path else path_join sandbox_path suffix)
                  (create \<and> suffix = []) 1 st)
          st (authorized_grant_paths [host_path] (b_mount_points (snd st)))
      else
        rbind (ensure_created os host_path create st) (\<lambda>st.
        case canonicalize os (fst st) host_path of
          None \<Rightarrow> Inr (warn (''skipping missing host path for '' @ fp_original permission @ '': ''
                          @ display_path host_path) st)
        | Some canon \<Rightarrow>
            if \<not> is_dir os (fst st) canon
            then Inr (warn (''skipping non-directory host path for '' @ fp_original permission @ '': ''
                          @ display_path canon) st)
            else if path_starts_with canon (b_project_root (snd st))
            then Inr (warn (''skipping project directory for '' @ fp_original permission
                          @ '' to avoid recursive nullfs mount: '' @ display_path canon) st)
            else
              rbind (absolute_to_chroot_relative sandbox_path) (\<lambda>relative.
              if path_overlaps canon (path_join (b_sandbox_root (snd st)) relative) then
                if 8 \<le> depth
                then Inr (warn (''skipping deeply recursive host path for '' @ fp_original permission @ '': ''
                          @ display_path canon) st)
                else
                  expand_directory_children os permission canon sandbox_path
                    (\<lambda>child_host child_sandbox st.
                      add_grant_or_expand os permission label child_host child_sandbox False (Suc depth) st) st
              else
                add_grant os label (fp_original permission) canon sandbox_path (fp_access permission) st)))"
  by pat_completeness auto
termination
  by (relation "measure (\<lambda>(os, permission, label, host_path, sandbox_path, create, depth, st). 9 - depth)") auto

declare add_grant_or_expand.simps [simp del]

definition host_roots :: "path list" where
  "host_roots = map parse_path [''/home'', ''/media'', ''/mnt'', ''/opt'', ''/run/media'', ''/srv'']"

definition add_host_grants ::
    "'fs host_os \<Rightarrow> FilesystemPermission \<Rightarrow> 'fs builder_state \<Rightarrow> 'fs builder_state result" where
  "add_host_grants os permission st =
     fold_result (\<lambda>st path.
         if is_dir os (fst st) path
         then add_grant_or_expand os permission ''host'' path path (fp_create permission) 0 st
         else Inr st) st host_roots"

definition xdg_bases :: "string list" where
  "xdg_bases =
     [''xdg-desktop'', ''xdg-documents'', ''xdg-download'', ''xdg-music'', ''xdg-pictures'',
      ''xdg-public-share'', ''xdg-templates'', ''xdg-videos'']"

definition apply_permission ::
    "'fs host_os \<Rightarrow> FilesystemPermission \<Rightarrow> 'fs builder_state \<Rightarrow> 'fs builder_state result" where
  "apply_permission os permission st =
     (let (base, suffix) = (case split_once slash (fp_path permission) of
            Some (base, suffix) \<Rightarrow> (base, Some suffix) | None \<Rightarrow> (fp_path permission, None));
          b = snd st in
      if starts_with base ''!'' then Inr st
      else if base = ''host'' \<and> suffix = None then add_host_grants os permission st
      else if base = ''home'' \<or> base = ''~'' then
        rbind (append_permission_suffix (b_home b) suffix) (\<lambda>host_path.
        rbind (append_permission_suffix (b_sandbox_home b) suffix) (\<lambda>sandbox_path.
        add_grant_or_expand os permission ''home'' host_path sandbox_path (fp_create permission) 0 st))
      else if base \<in> set xdg_bases then
        (case XdgUserDirs_get (b_xdg_dirs b) base of
           None \<Rightarrow> Inr (warn (''unsupported XDG filesystem permission: '' @ base) st)
         | Some host_base \<Rightarrow>
             if host_base = b_home b
             then Inr (warn (''disabled XDG filesystem permission: '' @ base) st)
             else rbind (append_permission_suffix host_base suffix) (\<lambda>host_path.
               add_grant_or_expand os permission base host_path host_path (fp_create permission) 0 st))
      else if base = ''xdg-data'' then
        if suffix = Some ''flatpak/app'' then Inr st
        else rbind (append_permission_suffix (b_xdg_data_home b) suffix) (\<lambda>host_path.
          add_grant_or_expand os permission ''xdg-data'' host_path host_path (fp_create permission) 0 st)
      else Inr (warn (''skipping unsupported filesystem permission '' @ fp_original permission) st))"

definition grant_key :: "HostPathGrant \<Rightarrow> nat \<times> path \<times> path" where
  "grant_key g = (length (g_sandbox_path g), g_sandbox_path g, g_host_path g)"

definition sort_grants :: "HostPathGrant list \<Rightarrow> HostPathGrant list" where
  "sort_grants = sort_key grant_key"

definition from_metadata_with_xdg_dirs_and_data_home ::
    "'fs host_os \<Rightarrow> 'fs \<Rightarrow> string \<Rightarrow> string \<Rightarrow> path \<Rightarrow> path \<Rightarrow> path \<Rightarrow> path list \<Rightarrow> XdgUserDirs \<Rightarrow> path
     \<Rightarrow> ('fs \<times> HostFilesystem) result" where
  "from_metadata_with_xdg_dirs_and_data_home os fs metadata user home project_root sandbox_root
       mount_points xdg_dirs xdg_data_home =
     rbind (parse_filesystem_permissions metadata) (\<lambda>permissions.
     let builder =
       \<lparr>b_grants = [], b_warnings = [], b_mount_points = mount_points, b_home = home,
        b_sandbox_home = path_join (parse_path ''/home'') (parse_path user),
        b_project_root = canonical_or_self os fs project_root,
        b_sandbox_root = sandbox_root, b_xdg_dirs = xdg_dirs, b_xdg_data_home = xdg_data_home\<rparr>
     in rbind (fold_result (\<lambda>st permission. apply_permission os permission st) (fs, builder) permissions)
       (\<lambda>(fs', b).
         Inr (fs', \<lparr>h_permissions = permissions, h_grants = sort_grants (b_grants b),
               h_warnings = b_warnings b, h_sandbox_home = b_sandbox_home b, h_xdg_dirs = b_xdg_dirs b\<rparr>)))"

section \<open>Translating file arguments\<close>

definition grant_map_host_path :: "HostPathGrant \<Rightarrow> path \<Rightarrow> path option" where
  "grant_map_host_path g host_path =
     (case path_strip_prefix host_path (g_host_path g) of
        Some suffix \<Rightarrow> Some (if suffix = [] then g_sandbox_path g else path_join (g_sandbox_path g) suffix)
      | None \<Rightarrow>
          (case path_strip_prefix host_path (g_canonical_host_path g) of
             Some suffix \<Rightarrow> Some (if suffix = [] then g_sandbox_path g else path_join (g_sandbox_path g) suffix)
           | None \<Rightarrow> None))"

definition better_match :: "path option \<Rightarrow> path option \<Rightarrow> path option" where
  "better_match best mapped =
     (case mapped of
        None \<Rightarrow> best
      | Some m \<Rightarrow>
          (case best of
             None \<Rightarrow> Some m
           | Some current \<Rightarrow> if length current < length m then Some m else best))"

definition map_host_path :: "HostFilesystem \<Rightarrow> path result \<Rightarrow> path \<Rightarrow> path option result" where
  "map_host_path h cwd host_path =
     rbind (normalize_absolute_path cwd host_path) (\<lambda>normalized.
       Inr (foldl (\<lambda>best g. better_match best (grant_map_host_path g normalized)) None (h_grants h)))"

definition translate_file_uri :: "HostFilesystem \<Rightarrow> path result \<Rightarrow> string \<Rightarrow> string result" where
  "translate_file_uri h cwd arg =
     rbind (local_file_uri_path arg) (\<lambda>host_path.
     if is_sandbox_internal_path host_path then Inr arg
     else rbind (map_host_path h cwd host_path) (\<lambda>m.
       case m of None \<Rightarrow> Inr arg | Some sandbox_path \<Rightarrow> Inr (''file://'' @ percent_encode_path sandbox_path)))"

definition translate_path_arg :: "HostFilesystem \<Rightarrow> path option \<Rightarrow> path result \<Rightarrow> string \<Rightarrow> string result" where
  "translate_path_arg h home cwd arg =
     rbind (host_path_from_arg home cwd arg) (\<lambda>host_path.
     if is_sandbox_internal_path host_path then Inr arg
     else rbind (map_host_path h cwd host_path) (\<lambda>m.
       case m of None \<Rightarrow> Inr arg | Some sandbox_path \<Rightarrow> Inr (display_path sandbox_path)))"

definition translate_args :: "HostFilesystem \<Rightarrow> path option \<Rightarrow> path result \<Rightarrow> string list \<Rightarrow> string list result" where
  "translate_args h home cwd args =
     fold_result (\<lambda>translated arg.
         if is_standalone_desktop_field_code arg then Inr translated
         else if starts_with arg ''file://'' then
           rbind (translate_file_uri h cwd arg) (\<lambda>t. Inr (translated @ [t]))
         else if looks_like_path_arg arg then
           rbind (translate_path_arg h home cwd arg) (\<lambda>t. Inr (translated @ [t]))
         else Inr (translated @ [arg])) [] args"

definition sandbox_dir_for_xdg_label ::
    "'fs host_os \<Rightarrow> 'fs \<Rightarrow> HostFilesystem \<Rightarrow> string \<Rightarrow> path option" where
  "sandbox_dir_for_xdg_label os fs h label =
     Option.bind (XdgUserDirs_get (h_xdg_dirs h) label) (\<lambda>host_path.
       map_option snd (max_by_key fst
         (List.map_filter (\<lambda>g.
            map_option (\<lambda>p. (length (g_host_path g), p))
              (case grant_map_host_path g host_path of
                 Some p \<Rightarrow> Some p
               | None \<Rightarrow> grant_map_host_path g (canonical_or_self os fs host_path))) (h_grants h))))"

definition user_dir_env :: "'fs host_os \<Rightarrow> 'fs \<Rightarrow> HostFilesystem \<Rightarrow> (string \<times> string) list" where
  "user_dir_env os fs h =
     List.map_filter (\<lambda>(label, key).
       map_option (\<lambda>p. (key, display_path p)) (sandbox_dir_for_xdg_label os fs h label)) xdg_entries"

definition sandbox_home_env :: "HostFilesystem \<Rightarrow> string \<Rightarrow> string" where
  "sandbox_home_env h fallback =
     (if list_ex (\<lambda>g. starts_with (g_label g) ''xdg-''
            \<or> path_starts_with (g_sandbox_path g) (h_sandbox_home h)
              \<and> (g_label g = ''home'' \<or> g_source_permission g = ''host'')) (h_grants h)
      then display_path (h_sandbox_home h) else fallback)"

section \<open>Invariants of the builder\<close>

text \<open>
  The contract between the recursion and \<open>add_grant\<close>: a property of the list of grants that
  \<open>add_grant\<close> keeps under the conditions checked before it is called is kept by the whole
  construction. The configuration fields of the builder never change.
\<close>

locale grant_invariant =
  fixes os :: "'fs host_os" and pr :: path and sr :: path and access :: AccessMode
    and I :: "HostPathGrant list \<Rightarrow> bool"
  assumes add_grant_keeps:
    "I (b_grants b) \<Longrightarrow> \<not> path_starts_with host pr \<Longrightarrow>
     absolute_to_chroot_relative sandbox = Inr relative \<Longrightarrow>
     \<not> path_overlaps host (path_join sr relative) \<Longrightarrow>
     add_grant os label source host sandbox access (fs, b) = Inr (fs', b') \<Longrightarrow> I (b_grants b')"
begin

definition builder_inv :: "'fs builder_state \<Rightarrow> bool" where
  "builder_inv st \<longleftrightarrow>
     b_project_root (snd st) = pr \<and> b_sandbox_root (snd st) = sr \<and> I (b_grants (snd st))"

lemma builder_inv_warn [simp]: "builder_inv (warn msg st) = builder_inv st"
  by (simp add: builder_inv_def warn_def)

lemma builder_inv_fs: "builder_inv st \<Longrightarrow> builder_inv (fs, snd st)"
  by (simp add: builder_inv_def)

lemma add_grant_frame:
  "add_grant os label source host sandbox a st = Inr st' \<Longrightarrow>
   b_project_root (snd st') = b_project_root (snd st) \<and> b_sandbox_root (snd st') = b_sandbox_root (snd st)"
  by (auto simp: add_grant_def Let_def rbind_Inr_iff split: prod.splits option.splits)

lemma add_grant_inv:
  assumes "builder_inv st" "\<not> path_starts_with host pr" "absolute_to_chroot_relative sandbox = Inr relative"
    "\<not> path_overlaps host (path_join sr relative)"
    "add_grant os label source host sandbox access st = Inr st'"
  shows "builder_inv st'"
  using assms add_grant_frame [OF assms(5)]
    add_grant_keeps [of "snd st" host sandbox relative label source "fst st" "fst st'" "snd st'"]
  by (auto simp: builder_inv_def)

lemma builder_inv_roots:
  "builder_inv st \<Longrightarrow> b_project_root (snd st) = pr" "builder_inv st \<Longrightarrow> b_sandbox_root (snd st) = sr"
  by (simp_all add: builder_inv_def)

lemma ensure_created_inv: "ensure_created os host create st = Inr st' \<Longrightarrow> builder_inv st \<Longrightarrow> builder_inv st'"
  by (auto simp: ensure_created_def rbind_Inr_iff builder_inv_fs split: if_splits)

lemma expand_directory_children_inv:
  assumes "builder_inv st" "expand_directory_children os permission host sandbox go st = Inr st'"
    and "\<And>h s st st'. builder_inv st \<Longrightarrow> go h s st = Inr st' \<Longrightarrow> builder_inv st'"
  shows "builder_inv st'"
proof -
  from assms(2) obtain es msg where run: "fold_result (\<lambda>st (name, metadata).
      rbind (with_context (''stat '' @ display_path (path_join host [Normal name])) metadata) (\<lambda>dir.
      if \<not> dir then Inr st
      else go (path_join host [Normal name]) (path_join sandbox [Normal name]) st)) (warn msg st) es = Inr st'"
    by (auto simp: expand_directory_children_def Let_def rbind_Inr_iff)
  show ?thesis
    by (rule fold_result_invariant [OF run, where P = builder_inv])
       (use assms(1,3) in \<open>auto simp: rbind_Inr_iff split: if_splits\<close>)
qed

lemma add_grant_or_expand_inv:
  assumes "fp_access permission = access"
  shows "builder_inv st \<Longrightarrow>
    add_grant_or_expand os permission label host_path sandbox_path create depth st = Inr st' \<Longrightarrow>
    builder_inv st'"
proof (induction "9 - depth" arbitrary: host_path sandbox_path create depth st st' rule: less_induct)
  case less
  show ?case
  proof (cases "depth = 0")
    case True
    note run = less.prems(2) [unfolded add_grant_or_expand.simps [of os permission label host_path
          sandbox_path create depth st] if_P [OF True]]
    show ?thesis
      by (rule fold_result_invariant [OF run, where P = builder_inv])
         (use less.prems(1) True less.hyps [of 1] in \<open>auto split: option.splits\<close>)
  next
    case False
    note run = less.prems(2) [unfolded add_grant_or_expand.simps [of os permission label host_path
          sandbox_path create depth st] if_not_P [OF False]]
    have child: "builder_inv st2"
      if "depth < 8" "builder_inv st1"
        "expand_directory_children os permission canon sandbox_path
          (\<lambda>h s. add_grant_or_expand os permission label h s False (Suc depth)) st1 = Inr st2" for canon st1 st2
      by (rule expand_directory_children_inv [OF that(2,3)]) (use less.hyps [of "Suc depth"] that(1) in auto)
    show ?thesis
      apply (rule rbind_InrE [OF run])
      apply (frule ensure_created_inv [OF _ less.prems(1)])
      subgoal premises p for st1
        using p(2) [unfolded builder_inv_roots(1) [OF p(3)] builder_inv_roots(2) [OF p(3)] assms]
        by (auto simp: not_le p(3) split: option.splits if_splits elim!: rbind_InrE
            intro: child [OF _ p(3)] add_grant_inv [OF p(3)])
      done
  qed
qed

lemma apply_permission_inv:
  assumes "fp_access permission = access" "builder_inv st" "apply_permission os permission st = Inr st'"
  shows "builder_inv st'"
proof -
  note rec = add_grant_or_expand_inv [OF assms(1)]
  have host: "builder_inv st2" if "add_host_grants os permission st = Inr st2" for st2
    by (rule fold_result_invariant [OF that [unfolded add_host_grants_def], where P = builder_inv])
       (use assms(2) rec in \<open>auto split: if_splits\<close>)
  show ?thesis
    using assms(2,3)
    by (auto simp: apply_permission_def Let_def rbind_Inr_iff split: if_splits option.splits
        intro: host rec [OF assms(2)])
qed

end

text \<open>No grant mounts a host directory over itself or over the project.\<close>

definition safe_grant :: "path \<Rightarrow> path \<Rightarrow> HostPathGrant \<Rightarrow> bool" where
  "safe_grant pr sr g \<longleftrightarrow>
     is_absolute (g_host_path g) \<and> is_absolute (g_sandbox_path g) \<and> \<not> path_starts_with (g_host_path g) pr
     \<and> (\<exists>relative. absolute_to_chroot_relative (g_sandbox_path g) = Inr relative
          \<and> \<not> path_overlaps (g_host_path g) (path_join sr relative))"

definition mounts_of :: "HostPathGrant list \<Rightarrow> (path \<times> path) list" where
  "mounts_of gs = map (\<lambda>g. (g_host_path g, g_sandbox_path g)) gs"

definition safe_grants :: "path \<Rightarrow> path \<Rightarrow> HostPathGrant list \<Rightarrow> bool" where
  "safe_grants pr sr gs \<longleftrightarrow> list_all (safe_grant pr sr) gs \<and> distinct (mounts_of gs)"

lemma update_first_None: "update_first P f xs = None \<longleftrightarrow> (\<forall>x \<in> set xs. \<not> P x)"
  by (induction xs) auto

lemma update_first_Some_map:
  "update_first P f xs = Some ys \<Longrightarrow> (\<And>x. h (f x) = h x) \<Longrightarrow> map h ys = map h xs"
  by (induction xs arbitrary: ys) (auto split: if_splits)

lemma update_first_Some_list_all:
  "update_first P f xs = Some ys \<Longrightarrow> list_all Q xs \<Longrightarrow> (\<And>x. Q x \<Longrightarrow> Q (f x)) \<Longrightarrow> list_all Q ys"
  by (induction xs arbitrary: ys) (auto split: if_splits)

interpretation safe: grant_invariant os pr sr access "safe_grants pr sr" for os pr sr access
proof unfold_locales
  fix b b' :: GrantBuilder and host sandbox relative label source and fs fs' :: 'a
  assume inv: "safe_grants pr sr (b_grants b)" and pr: "\<not> path_starts_with host pr"
    and rel: "absolute_to_chroot_relative sandbox = Inr relative"
    and ov: "\<not> path_overlaps host (path_join sr relative)"
    and add: "add_grant os label source host sandbox access (fs, b) = Inr (fs', b')"
  show "safe_grants pr sr (b_grants b')"
  proof (cases "update_first (\<lambda>g. same_mount g host sandbox)
             (\<lambda>g. g\<lparr>g_access := merge_access (g_access g) access\<rparr>) (b_grants b)")
    case (Some gs)
    then have gs: "b_grants b' = gs" using add by (auto simp: add_grant_def Let_def)
    have "list_all (safe_grant pr sr) gs"
      by (rule update_first_Some_list_all [OF Some]) (use inv in \<open>auto simp: safe_grants_def safe_grant_def\<close>)
    moreover have "mounts_of gs = mounts_of (b_grants b)"
      unfolding mounts_of_def by (rule update_first_Some_map [OF Some]) simp
    ultimately show ?thesis using inv gs by (simp add: safe_grants_def)
  next
    case None
    then obtain g l where g: "HostPathGrant_new os fs l source host sandbox access = Inr g"
        "b_grants b' = b_grants b @ [g]"
      using add by (auto simp: add_grant_def Let_def rbind_Inr_iff)
    have "g_host_path g = host" "g_sandbox_path g = sandbox" "is_absolute host" "is_absolute sandbox"
      using g(1) by (auto simp: HostPathGrant_new_def split: if_splits)
    moreover from None have "(host, sandbox) \<notin> set (mounts_of (b_grants b))"
      by (auto simp: update_first_None mounts_of_def same_mount_def)
    ultimately show ?thesis
      using inv g(2) pr rel ov by (auto simp: safe_grants_def safe_grant_def mounts_of_def)
  qed
qed

interpretation read_only: grant_invariant os pr sr ReadOnly "list_all (\<lambda>g. g_access g = ReadOnly)" for os pr sr
proof unfold_locales
  fix b b' :: GrantBuilder and host sandbox relative label source and fs fs' :: 'a
  assume inv: "list_all (\<lambda>g. g_access g = ReadOnly) (b_grants b)"
    and add: "add_grant os label source host sandbox ReadOnly (fs, b) = Inr (fs', b')"
  show "list_all (\<lambda>g. g_access g = ReadOnly) (b_grants b')"
  proof (cases "update_first (\<lambda>g. same_mount g host sandbox)
             (\<lambda>g. g\<lparr>g_access := merge_access (g_access g) ReadOnly\<rparr>) (b_grants b)")
    case (Some gs)
    have "list_all (\<lambda>g. g_access g = ReadOnly) gs"
      by (rule update_first_Some_list_all [OF Some inv]) simp
    with Some add show ?thesis by (auto simp: add_grant_def Let_def)
  next
    case None
    then show ?thesis
      using add inv by (auto simp: add_grant_def Let_def rbind_Inr_iff HostPathGrant_new_def split: if_splits)
  qed
qed

section \<open>Properties of the grants\<close>

lemma from_metadata_cases:
  assumes "from_metadata_with_xdg_dirs_and_data_home os fs metadata user home project_root sandbox_root
       mount_points xdg_dirs xdg_data_home = Inr (fs', h)"
  obtains permissions b0 b where "parse_filesystem_permissions metadata = Inr permissions"
    "b_grants b0 = []" "b_project_root b0 = canonical_or_self os fs project_root" "b_sandbox_root b0 = sandbox_root"
    "fold_result (\<lambda>st permission. apply_permission os permission st) (fs, b0) permissions = Inr (fs', b)"
    "h_grants h = sort_grants (b_grants b)"
proof -
  let ?b0 = "\<lparr>b_grants = [], b_warnings = [], b_mount_points = mount_points, b_home = home,
        b_sandbox_home = path_join (parse_path ''/home'') (parse_path user),
        b_project_root = canonical_or_self os fs project_root,
        b_sandbox_root = sandbox_root, b_xdg_dirs = xdg_dirs, b_xdg_data_home = xdg_data_home\<rparr>"
  obtain ps where ps: "parse_filesystem_permissions metadata = Inr ps"
    using assms by (auto simp: from_metadata_with_xdg_dirs_and_data_home_def elim!: rbind_InrE)
  obtain b where b: "fold_result (\<lambda>st permission. apply_permission os permission st) (fs, ?b0) ps = Inr (fs', b)"
      "h_grants h = sort_grants (b_grants b)"
    using assms ps by (auto simp: from_metadata_with_xdg_dirs_and_data_home_def Let_def elim!: rbind_InrE)
  show thesis by (rule that [OF ps _ _ _ b]) simp_all
qed

lemma set_sort_grants [simp]: "set (sort_grants gs) = set gs"
  by (simp add: sort_grants_def)

lemma safe_grants_Nil: "safe_grants pr sr []"
  by (simp add: safe_grants_def mounts_of_def)

lemma safe_grants_sort:
  assumes "safe_grants pr sr gs"
  shows "safe_grants pr sr (sort_grants gs)"
proof -
  have "mset (mounts_of (sort_grants gs)) = mset (mounts_of gs)"
    by (simp add: mounts_of_def sort_grants_def mset_map)
  then have "distinct (mounts_of (sort_grants gs)) = distinct (mounts_of gs)"
    by (rule mset_eq_imp_distinct_iff)
  with assms show ?thesis by (simp add: safe_grants_def list_all_iff)
qed


text \<open>
  C37. Read-only permissions never lead to a writable mount: if every filesystem permission of the
  metadata is read-only, every grant is.
\<close>

theorem read_only_permissions_give_read_only_grants:
  assumes "parse_filesystem_permissions metadata = Inr permissions"
    and "\<forall>p \<in> set permissions. fp_access p = ReadOnly"
    and "from_metadata_with_xdg_dirs_and_data_home os fs metadata user home project_root sandbox_root
       mount_points xdg_dirs xdg_data_home = Inr (fs', h)"
  shows "\<forall>g \<in> set (h_grants h). g_access g = ReadOnly"
proof (rule from_metadata_cases [OF assms(3)])
  fix permissions' and b0 b :: GrantBuilder
  let ?pr = "canonical_or_self os fs project_root"
  assume ps: "parse_filesystem_permissions metadata = Inr permissions'"
    and b0: "b_grants b0 = []" "b_project_root b0 = ?pr" "b_sandbox_root b0 = sandbox_root"
    and run: "fold_result (\<lambda>st permission. apply_permission os permission st) (fs, b0) permissions' = Inr (fs', b)"
    and h: "h_grants h = sort_grants (b_grants b)"
  have ro: "fp_access p = ReadOnly" if "p \<in> set permissions'" for p using that ps assms(1,2) by simp
  have "read_only.builder_inv ?pr sandbox_root (fs, b0)" using b0 by (simp add: read_only.builder_inv_def)
  then have "read_only.builder_inv ?pr sandbox_root (fs', b)"
    by (rule fold_result_invariant [OF run]) (rule read_only.apply_permission_inv [OF ro])
  then show ?thesis by (simp add: h read_only.builder_inv_def list_all_iff)
qed

text \<open>A concrete host for the witnesses: every path is an existing empty directory.\<close>

definition demo_os :: "unit host_os" where
  "demo_os = \<lparr>canonicalize = (\<lambda>_ p. Some p), path_exists = (\<lambda>_ _. True), is_dir = (\<lambda>_ _. True),
     read_dir = (\<lambda>_ _. Inr []), create_dir_all = (\<lambda>fs _. Inr fs), read_to_string = (\<lambda>_ _. None)\<rparr>"

definition demo_filesystem :: "string \<Rightarrow> (unit \<times> HostFilesystem) result" where
  "demo_filesystem metadata =
     from_metadata_with_xdg_dirs_and_data_home demo_os () metadata ''u'' [RootDir, Normal ''h'']
       [RootDir, Normal ''p''] [RootDir, Normal ''s''] [] (XdgUserDirs_defaults [RootDir, Normal ''h''])
       [RootDir, Normal ''d'']"

definition demo_metadata :: string where
  "demo_metadata = ''[Context]'' @ [newline] @ ''filesystems=home:ro;''"

lemma demo_filesystem_runs:
  obtains h where "demo_filesystem demo_metadata = Inr ((), h)" "length (h_grants h) = 1"
proof -
  have "(case demo_filesystem demo_metadata of Inr (fs, h) \<Rightarrow> length (h_grants h) | Inl e \<Rightarrow> 0) = 1"
    by code_simp
  then show thesis using that by (auto split: sum.splits)
qed


theorem read_only_permissions_give_read_only_grants_witness:
  "\<exists>h. demo_filesystem demo_metadata = Inr ((), h) \<and> length (h_grants h) = 1
     \<and> (\<forall>g \<in> set (h_grants h). g_access g = ReadOnly)"
proof -
  obtain h where h: "demo_filesystem demo_metadata = Inr ((), h)" "length (h_grants h) = 1"
    by (rule demo_filesystem_runs)
  have ps: "parse_filesystem_permissions demo_metadata =
      Inr [\<lparr>fp_original = ''home:ro'', fp_path = ''home'', fp_access = ReadOnly, fp_create = False\<rparr>]"
    by code_simp
  show ?thesis
    using h read_only_permissions_give_read_only_grants [OF ps _ h(1) [unfolded demo_filesystem_def]] by auto
qed

section \<open>Properties of the translation\<close>

definition absolute_grant :: "HostPathGrant \<Rightarrow> bool" where
  "absolute_grant g \<longleftrightarrow>
     is_absolute (g_host_path g) \<and> is_absolute (g_canonical_host_path g) \<and> is_absolute (g_sandbox_path g)"

lemma join_suffix:
  assumes "normal_form n" "is_absolute base" "path_strip_prefix n base = Some suffix" "is_absolute sandbox"
  shows "(if suffix = [] then sandbox else path_join sandbox suffix) = sandbox @ suffix
         \<and> list_all is_normal suffix \<and> n = base @ suffix"
proof -
  have n: "n = base @ suffix" using assms(3) by (simp add: strip_prefix_Some_iff)
  obtain q where q: "n = RootDir # q" "list_all is_normal q" using assms(1) by (auto simp: normal_form_def)
  from assms(2) obtain b where b: "base = RootDir # b" by (cases base) (auto simp: is_absolute_def)
  with n q have s: "list_all is_normal suffix" by (auto simp: list_all_iff)
  then have "suffix = [] \<or> is_normal (hd suffix)" by (cases suffix) auto
  then have "path_join sandbox suffix = sandbox @ suffix"
    using assms(4) by (auto simp: path_join_def is_absolute_def is_normal_def split: component.splits)
  with s n show ?thesis by simp
qed

lemma grant_map_host_path_Some:
  assumes "normal_form n" "absolute_grant g" "grant_map_host_path g n = Some m"
  shows "\<exists>suffix. list_all is_normal suffix \<and> m = g_sandbox_path g @ suffix
           \<and> (n = g_host_path g @ suffix \<or> n = g_canonical_host_path g @ suffix)"
proof (cases "path_strip_prefix n (g_host_path g)")
  case (Some suffix)
  then show ?thesis
    using assms join_suffix [OF assms(1) _ Some]
    by (auto simp: grant_map_host_path_def absolute_grant_def split: if_splits)
next
  case None
  then obtain suffix where s: "path_strip_prefix n (g_canonical_host_path g) = Some suffix"
    using assms(3) by (auto simp: grant_map_host_path_def split: option.splits)
  then show ?thesis
    using assms None join_suffix [OF assms(1) _ s]
    by (auto simp: grant_map_host_path_def absolute_grant_def split: if_splits)
qed

lemma grant_map_host_path_None:
  "grant_map_host_path g n = None \<longleftrightarrow>
   \<not> path_starts_with n (g_host_path g) \<and> \<not> path_starts_with n (g_canonical_host_path g)"
  by (auto simp: grant_map_host_path_def strip_prefix_None_iff strip_prefix_def split: option.splits)

lemma better_match_fold:
  "(foldl (\<lambda>best g. better_match best (f g)) best gs = None \<longleftrightarrow> best = None \<and> (\<forall>g \<in> set gs. f g = None))
   \<and> (\<forall>m. foldl (\<lambda>best g. better_match best (f g)) best gs = Some m \<longrightarrow>
        (best = Some m \<or> (\<exists>g \<in> set gs. f g = Some m))
        \<and> (\<forall>b. best = Some b \<longrightarrow> length b \<le> length m)
        \<and> (\<forall>g \<in> set gs. \<forall>k. f g = Some k \<longrightarrow> length k \<le> length m))"
proof (induction gs arbitrary: best)
  case (Cons g gs)
  show ?case
  proof (cases "f g")
    case None
    with Cons show ?thesis by (auto simp: better_match_def)
  next
    case (Some k)
    show ?thesis
    proof (cases best)
      case None
      with Some Cons [of "Some k"] show ?thesis by (auto simp: better_match_def)
    next
      case (Some b)
      with \<open>f g = Some k\<close> Cons [of "Some (if length b < length k then k else b)"]
      show ?thesis by (auto simp: better_match_def split: if_splits)
    qed
  qed
qed simp

text \<open>
  C36. Translating a host path: with absolute grants and an absolute current directory the lookup
  always returns. It finds nothing exactly when no grant covers the normalised path; otherwise
  the result is the sandbox path of a covering grant followed by the ordinary names that remain
  below it, so it never leaves the grant, and no covering grant gives a longer path.
\<close>

theorem map_host_path_confined:
  assumes "is_absolute cwd" "\<forall>g \<in> set (h_grants h). absolute_grant g"
  shows "\<exists>n r. normalize_absolute_path (Inr cwd) host_path = Inr n \<and> map_host_path h (Inr cwd) host_path = Inr r
     \<and> (r = None \<longleftrightarrow> (\<forall>g \<in> set (h_grants h).
            \<not> path_starts_with n (g_host_path g) \<and> \<not> path_starts_with n (g_canonical_host_path g)))
     \<and> (\<forall>m. r = Some m \<longrightarrow>
          (\<exists>g \<in> set (h_grants h). \<exists>suffix. list_all is_normal suffix \<and> m = g_sandbox_path g @ suffix
             \<and> (n = g_host_path g @ suffix \<or> n = g_canonical_host_path g @ suffix))
          \<and> (\<forall>g \<in> set (h_grants h). \<forall>k. grant_map_host_path g n = Some k \<longrightarrow> length k \<le> length m))"
proof -
  define a where "a = (if is_absolute host_path then host_path else path_join cwd host_path)"
  have "is_absolute a" using assms(1) by (simp add: a_def is_absolute_join)
  then have nf: "normal_form (foldl normalize_step [] a)" by (rule normalize_absolute_normal_form)
  define n where "n = foldl normalize_step [] a"
  have n: "normalize_absolute_path (Inr cwd) host_path = Inr n"
    using nf by (auto simp: normalize_absolute_path_def n_def a_def normal_form_def Let_def split: if_splits)
  define r where "r = foldl (\<lambda>best g. better_match best (grant_map_host_path g n)) None (h_grants h)"
  have run: "map_host_path h (Inr cwd) host_path = Inr r" by (simp add: map_host_path_def n r_def)
  note fold = better_match_fold [of "\<lambda>g. grant_map_host_path g n" None "h_grants h", folded r_def]
  have none: "r = None \<longleftrightarrow> (\<forall>g \<in> set (h_grants h).
      \<not> path_starts_with n (g_host_path g) \<and> \<not> path_starts_with n (g_canonical_host_path g))"
    using fold by (simp add: grant_map_host_path_None)
  have some: "(\<exists>g \<in> set (h_grants h). \<exists>suffix. list_all is_normal suffix \<and> m = g_sandbox_path g @ suffix
             \<and> (n = g_host_path g @ suffix \<or> n = g_canonical_host_path g @ suffix))
      \<and> (\<forall>g \<in> set (h_grants h). \<forall>k. grant_map_host_path g n = Some k \<longrightarrow> length k \<le> length m)"
    if "r = Some m" for m
  proof -
    from fold that obtain g where g: "g \<in> set (h_grants h)" "grant_map_host_path g n = Some m" by auto
    with grant_map_host_path_Some [OF nf, folded n_def] assms(2) have "\<exists>suffix. list_all is_normal suffix
        \<and> m = g_sandbox_path g @ suffix
        \<and> (n = g_host_path g @ suffix \<or> n = g_canonical_host_path g @ suffix)" by blast
    with g(1) fold that show ?thesis by auto
  qed
  show ?thesis
    by (rule exI [of _ n], rule exI [of _ r], intro conjI allI impI)
       (rule n, rule run, rule none, use some in blast, use some in blast)
qed

definition demo_grant :: HostPathGrant where
  "demo_grant = \<lparr>g_label = ''home'', g_source_permission = ''home'', g_host_path = [RootDir, Normal ''h''],
     g_canonical_host_path = [RootDir, Normal ''h''], g_sandbox_path = [RootDir, Normal ''home'', Normal ''u''],
     g_access = ReadWrite\<rparr>"

theorem map_host_path_confined_witness:
  "\<exists>n r. normalize_absolute_path (Inr [RootDir]) (parse_path ''h/x/../y'') = Inr n
     \<and> map_host_path \<lparr>h_permissions = [], h_grants = [demo_grant], h_warnings = [],
         h_sandbox_home = [RootDir], h_xdg_dirs = XdgUserDirs_defaults [RootDir]\<rparr> (Inr [RootDir])
         (parse_path ''h/x/../y'') = Inr r
     \<and> r = Some [RootDir, Normal ''home'', Normal ''u'', Normal ''y'']"
proof -
  let ?h = "\<lparr>h_permissions = [], h_grants = [demo_grant], h_warnings = [],
         h_sandbox_home = [RootDir], h_xdg_dirs = XdgUserDirs_defaults [RootDir]\<rparr>"
  have abs: "is_absolute [RootDir]" "\<forall>g \<in> set (h_grants ?h). absolute_grant g"
    by (simp_all add: is_absolute_def absolute_grant_def demo_grant_def)
  have n: "normalize_absolute_path (Inr [RootDir]) (parse_path ''h/x/../y'') =
      Inr [RootDir, Normal ''h'', Normal ''y'']" by code_simp
  from map_host_path_confined [OF abs, of "parse_path ''h/x/../y''"] n show ?thesis
    by (auto simp: demo_grant_def starts_with_def)
qed

end
