(* ===== verification/Wire.thy ===== *)
theory Wire
  imports Rust_Prelude "HOL-Library.Word"
begin

text \<open>
  Encodings shared by the components that talk to other processes: decimal numbers as Rust's
  \<^verbatim>\<open>to_string\<close> and \<^verbatim>\<open>str::parse\<close> have them, big-endian integers
  (\<^verbatim>\<open>to_be_bytes\<close>, \<^verbatim>\<open>from_be_bytes\<close>), byte slices with bounds, and checked \<^verbatim>\<open>usize\<close> addition.
  A byte string is a \<^typ>\<open>string\<close>.
\<close>

type_synonym u16 = "16 word"
type_synonym u32 = "32 word"

section \<open>Decimal numbers\<close>

fun nat_digits :: "nat \<Rightarrow> string" where
  "nat_digits n =
     (if n < 10 then [char_of (48 + n)] else nat_digits (n div 10) @ [char_of (48 + n mod 10)])"

declare nat_digits.simps [simp del]

definition digit_value :: "char \<Rightarrow> nat" where
  "digit_value c = of_char c - 48"

definition digits_value :: "string \<Rightarrow> nat" where
  "digits_value s = foldl (\<lambda>n c. n * 10 + digit_value c) 0 s"

definition parse_digits :: "nat \<Rightarrow> string \<Rightarrow> nat option" where
  "parse_digits bound s =
     (if s = [] \<or> list_ex (\<lambda>c. \<not> is_ascii_digit c) s then None
      else if digits_value s \<le> bound then Some (digits_value s) else None)"

text \<open>\<^verbatim>\<open>str::parse\<close> at an unsigned type with the given largest value: one leading plus sign is accepted.\<close>

definition parse_uint :: "nat \<Rightarrow> string \<Rightarrow> nat option" where
  "parse_uint bound s = parse_digits bound (case s of c # cs \<Rightarrow> if c = CHR ''+'' then cs else s | [] \<Rightarrow> s)"

text \<open>\<^verbatim>\<open>str::parse\<close> at a signed type of the given width.\<close>

definition parse_sint :: "nat \<Rightarrow> string \<Rightarrow> int option" where
  "parse_sint width s =
     (case s of
        [] \<Rightarrow> None
      | c # cs \<Rightarrow>
          if c = CHR ''-'' then map_option (\<lambda>n. - int n) (parse_digits (2 ^ (width - 1)) cs)
          else map_option int (parse_uint (2 ^ (width - 1) - 1) s))"

definition int_digits :: "int \<Rightarrow> string" where
  "int_digits i = (if i < 0 then CHR ''-'' # nat_digits (nat (- i)) else nat_digits (nat i))"

abbreviation "u32_max \<equiv> 2 ^ 32 - 1 :: nat"
abbreviation "u64_max \<equiv> 2 ^ 64 - 1 :: nat"

lemma digit_char:
  assumes "d < 10"
  shows "is_ascii_digit (char_of (48 + d))" "digit_value (char_of (48 + d)) = d"
proof -
  have "of_char (char_of (48 + d) :: char) = (48 + d :: nat)" using assms by simp
  then show "is_ascii_digit (char_of (48 + d))" "digit_value (char_of (48 + d)) = d"
    using assms by (simp_all add: char_class_defs digit_value_def)
qed

lemma digits_value_snoc [simp]: "digits_value (s @ [c]) = digits_value s * 10 + digit_value c"
  by (simp add: digits_value_def)

lemma nat_digits_props:
  "nat_digits n \<noteq> [] \<and> list_all is_ascii_digit (nat_digits n) \<and> digits_value (nat_digits n) = n"
proof (induction n rule: nat_digits.induct)
  case (1 n)
  show ?case
  proof (cases "n < 10")
    case True
    then show ?thesis using digit_char [OF True]
      by (subst (1 2 3) nat_digits.simps) (simp add: digits_value_def)
  next
    case False
    have "n mod 10 < 10" by simp
    note d = digit_char [OF this]
    have "nat_digits n = nat_digits (n div 10) @ [char_of (48 + n mod 10)]"
      using False by (subst nat_digits.simps) simp
    then show ?thesis using 1 [OF False] d by (simp add: mult.commute)
  qed
qed

lemma nat_digits_not_Nil [simp]: "nat_digits n \<noteq> []"
  and digits_value_nat_digits [simp]: "digits_value (nat_digits n) = n"
  using nat_digits_props [of n] by simp_all

lemma nat_digits_digit: "c \<in> set (nat_digits n) \<Longrightarrow> is_ascii_digit c"
  using nat_digits_props [of n] by (simp add: list_all_iff)

lemma nat_digits_inj [simp]: "nat_digits n = nat_digits m \<longleftrightarrow> n = m"
  by (metis digits_value_nat_digits)

lemma parse_digits_nat_digits: "parse_digits bound (nat_digits n) = (if n \<le> bound then Some n else None)"
  using nat_digits_digit by (auto simp: parse_digits_def list_ex_iff)

lemma nat_digits_hd: "is_ascii_digit (hd (nat_digits n))"
  by (rule nat_digits_digit [of _ n]) simp

lemma parse_uint_nat_digits [simp]: "parse_uint bound (nat_digits n) = (if n \<le> bound then Some n else None)"
proof -
  have "hd (nat_digits n) \<noteq> CHR ''+''" using nat_digits_hd [of n] by (auto simp: char_class_defs)
  then show ?thesis
    by (cases "nat_digits n") (simp_all add: parse_uint_def parse_digits_nat_digits [symmetric])
qed

lemma parse_sint_int_digits:
  assumes "- (2 ^ (width - 1)) \<le> i" "i < 2 ^ (width - 1)"
  shows "parse_sint width (int_digits i) = Some i"
proof (cases "i < 0")
  case True
  have "nat (- i) \<le> 2 ^ (width - 1)" using assms(1) by (simp add: nat_le_iff)
  then show ?thesis using True by (simp add: parse_sint_def int_digits_def parse_digits_nat_digits)
next
  case False
  have "hd (nat_digits (nat i)) \<noteq> CHR ''-''" using nat_digits_hd [of "nat i"] by (auto simp: char_class_defs)
  moreover have "nat i \<le> 2 ^ (width - 1) - 1" using assms(2) False
    by (simp add: nat_le_iff of_nat_diff)
  moreover obtain c cs where "nat_digits (nat i) = c # cs" by (cases "nat_digits (nat i)") auto
  ultimately show ?thesis using False parse_uint_nat_digits [of "2 ^ (width - 1) - 1" "nat i"]
    by (simp add: parse_sint_def int_digits_def)
qed

section \<open>Big-endian integers\<close>

fun be_bytes :: "nat \<Rightarrow> nat \<Rightarrow> string" where
  "be_bytes 0 n = []"
| "be_bytes (Suc k) n = be_bytes k (n div 256) @ [char_of n]"

definition from_be :: "string \<Rightarrow> nat" where
  "from_be s = foldl (\<lambda>n c. n * 256 + of_char c) 0 s"

lemma length_be_bytes [simp]: "length (be_bytes k n) = k"
  by (induction k arbitrary: n) simp_all

lemma from_be_snoc: "from_be (s @ [c]) = from_be s * 256 + of_char c"
  by (simp add: from_be_def)

lemma from_be_be_bytes: "from_be (be_bytes k n) = n mod 256 ^ k"
proof (induction k arbitrary: n)
  case (Suc k)
  have "of_char (char_of n :: char) = n mod 256" by simp
  then show ?case
    by (simp add: from_be_snoc Suc mod_mult2_eq [of n 256 "256 ^ k"] mult.commute)
qed (simp add: from_be_def)

lemma from_be_bound: "from_be s < 256 ^ length s"
proof (induction s rule: rev_induct)
  case (snoc c s)
  have "from_be s * 256 + of_char c < (from_be s + 1) * 256" using nat_of_char_less_256 [of c]
    by simp
  also have "\<dots> \<le> 256 ^ length s * 256" using snoc by (intro mult_right_mono) simp_all
  finally show ?case by (simp add: from_be_snoc mult.commute)
qed (simp add: from_be_def)

lemma be_bytes_from_be: "be_bytes (length s) (from_be s) = s"
proof (induction s rule: rev_induct)
  case (snoc c s)
  have "(from_be s * 256 + of_char c) div 256 = from_be s" "char_of (from_be s * 256 + of_char c) = c"
    using nat_of_char_less_256 [of c]
    by (simp, metis char_of_mod_256 char_of_char mod_mult_self3 of_char_mod_256)
  then show ?case by (simp add: from_be_snoc snoc)
qed (simp add: from_be_def)

definition u32_bytes :: "u32 \<Rightarrow> string" where
  "u32_bytes w = be_bytes 4 (unat w)"

definition u16_bytes :: "u16 \<Rightarrow> string" where
  "u16_bytes w = be_bytes 2 (unat w)"

definition u32_from :: "string \<Rightarrow> u32" where
  "u32_from s = word_of_nat (from_be s)"

definition u16_from :: "string \<Rightarrow> u16" where
  "u16_from s = word_of_nat (from_be s)"


lemma length_u32_bytes [simp]: "length (u32_bytes w) = 4"
  by (simp add: u32_bytes_def)

lemma length_u16_bytes [simp]: "length (u16_bytes w) = 2"
  by (simp add: u16_bytes_def)

lemma u32_from_bytes [simp]: "u32_from (u32_bytes w) = w"
  using unsigned_less [where ?'a = nat, of w] by (simp add: u32_from_def u32_bytes_def from_be_be_bytes)

lemma u16_from_bytes [simp]: "u16_from (u16_bytes w) = w"
  using unsigned_less [where ?'a = nat, of w] by (simp add: u16_from_def u16_bytes_def from_be_be_bytes)

lemma u32_bytes_from: "length s = 4 \<Longrightarrow> u32_bytes (u32_from s) = s"
  using from_be_bound [of s] be_bytes_from_be [of s]
  by (simp add: u32_from_def u32_bytes_def unat_of_nat take_bit_eq_mod)

lemma u16_bytes_from: "length s = 2 \<Longrightarrow> u16_bytes (u16_from s) = s"
  using from_be_bound [of s] be_bytes_from_be [of s]
  by (simp add: u16_from_def u16_bytes_def unat_of_nat take_bit_eq_mod)

section \<open>Slices\<close>

text \<open>\<^verbatim>\<open>slice.get(i..j)\<close> and \<^verbatim>\<open>usize::checked_add\<close>.\<close>

definition get_slice :: "'a list \<Rightarrow> nat \<Rightarrow> nat \<Rightarrow> 'a list option" where
  "get_slice xs i j = (if i \<le> j \<and> j \<le> length xs then Some (take (j - i) (drop i xs)) else None)"

definition checked_add :: "nat \<Rightarrow> nat \<Rightarrow> nat option" where
  "checked_add a b = (if a + b \<le> u64_max then Some (a + b) else None)"

lemma get_slice_at:
  "get_slice (xs @ ys @ zs) (length xs) (length xs + length ys) = Some ys"
  by (simp add: get_slice_def)

lemma get_slice_SomeD:
  assumes "get_slice xs i j = Some ys"
  shows "i \<le> j \<and> j \<le> length xs \<and> length ys = j - i \<and> take j xs = take i xs @ ys"
proof -
  have *: "i \<le> j" "j \<le> length xs" "ys = take (j - i) (drop i xs)"
    using assms by (auto simp: get_slice_def split: if_splits)
  then have "take j xs = take i xs @ ys"
    by (metis le_add_diff_inverse take_add)
  with * show ?thesis by simp
qed


section \<open>Decoding at an offset\<close>

text \<open>The bytes \<open>s\<close> are what the packet holds between two offsets.\<close>

definition reads :: "string \<Rightarrow> nat \<Rightarrow> string \<Rightarrow> nat \<Rightarrow> bool" where
  "reads p i s j \<longleftrightarrow> j = i + length s \<and> j \<le> length p \<and> take j p = take i p @ s"

lemma reads_Nil [simp]: "reads p i [] j \<longleftrightarrow> j = i \<and> i \<le> length p"
  by (auto simp: reads_def)

lemma get_slice_reads: "get_slice p i j = Some s \<longleftrightarrow> reads p i s j"
proof
  assume "get_slice p i j = Some s"
  from get_slice_SomeD [OF this] show "reads p i s j" by (auto simp: reads_def)
next
  assume r: "reads p i s j"
  then have "drop i (take j p) = s" by (auto simp: reads_def)
  then have "take (j - i) (drop i p) = s" by (simp add: drop_take)
  then show "get_slice p i j = Some s" using r by (simp add: get_slice_def reads_def)
qed

lemma reads_append: "reads p i (s @ s') k \<longleftrightarrow> (\<exists>j. reads p i s j \<and> reads p j s' k)"
proof
  assume r: "reads p i (s @ s') k"
  let ?j = "i + length s"
  have "take ?j (take k p) = take ?j ((take i p @ s) @ s')"
  proof -
    have "take k p = take i p @ s @ s'" using r by (auto simp only: reads_def)
    then show ?thesis by (simp only: append_assoc)
  qed
  also have "\<dots> = take i p @ s" using r by (subst take_append) (auto simp: reads_def)
  finally have "reads p i s ?j" using r by (auto simp: reads_def min_def)
  moreover have "reads p ?j s' k"
  proof -
    have "take k p = (take i p @ s) @ s'" "k = ?j + length s'" "k \<le> length p"
      using r by (auto simp only: reads_def append_assoc length_append add.assoc)
    then show ?thesis using calculation by (simp only: reads_def)
  qed
  ultimately show "\<exists>j. reads p i s j \<and> reads p j s' k" by blast
qed (auto simp: reads_def)

lemma reads_all: "reads p 0 s (length p) \<longleftrightarrow> p = s"
  by (auto simp: reads_def)

lemma reads_le: "reads p i s j \<Longrightarrow> j \<le> length p \<and> length s \<le> length p"
  by (auto simp: reads_def)

definition decode_u32 :: "string \<Rightarrow> nat \<Rightarrow> (u32 \<times> nat) option" where
  "decode_u32 p i =
     Option.bind (checked_add i 4) (\<lambda>j. Option.bind (get_slice p i j) (\<lambda>s. Some (u32_from s, j)))"

text \<open>A packet that fits into \<^verbatim>\<open>u32\<close> lengths.\<close>

abbreviation small_packet :: "string \<Rightarrow> bool" where
  "small_packet p \<equiv> length p \<le> u32_max"

lemma checked_add_small: "i + n \<le> length p \<Longrightarrow> small_packet p \<Longrightarrow> checked_add i n = Some (i + n)"
  by (simp add: checked_add_def)

lemma decode_u32_iff:
  assumes "small_packet p"
  shows "decode_u32 p i = Some (w, j) \<longleftrightarrow> reads p i (u32_bytes w) j"
proof
  assume "decode_u32 p i = Some (w, j)"
  then obtain s where s: "j = i + 4" "reads p i s j" "w = u32_from s"
    by (auto simp: decode_u32_def checked_add_def bind_eq_Some_conv get_slice_reads split: if_splits)
  then have "length s = 4" by (simp add: reads_def)
  then show "reads p i (u32_bytes w) j" using s by (simp add: u32_bytes_from)
next
  assume r: "reads p i (u32_bytes w) j"
  then have "j = i + 4" "j \<le> length p" by (auto simp: reads_def)
  then show "decode_u32 p i = Some (w, j)"
    using r assms checked_add_small [of i 4 p] by (simp add: decode_u32_def get_slice_reads [symmetric])
qed

text \<open>A byte string behind its length.\<close>

definition field :: "string \<Rightarrow> string" where
  "field v = u32_bytes (word_of_nat (length v)) @ v"

lemma unat_word_of_nat32: "n \<le> u32_max \<Longrightarrow> unat (word_of_nat n :: u32) = n"
  by (simp add: unat_of_nat take_bit_eq_mod)

fun decode_many :: "(string \<Rightarrow> nat \<Rightarrow> ('a \<times> nat) result) \<Rightarrow> nat \<Rightarrow> string \<Rightarrow> nat \<Rightarrow> ('a list \<times> nat) result" where
  "decode_many dec 0 p i = Inr ([], i)"
| "decode_many dec (Suc n) p i =
     rbind (dec p i) (\<lambda>(x, j). rbind (decode_many dec n p j) (\<lambda>(xs, k). Inr (x # xs, k)))"

text \<open>
  A decoder reads exactly the encodings of its valid values. What holds for one value holds for a
  counted sequence of them.
\<close>

locale wire_decoder =
  fixes dec :: "string \<Rightarrow> nat \<Rightarrow> ('a \<times> nat) result"
    and enc :: "'a \<Rightarrow> string"
    and ok :: "'a \<Rightarrow> bool"
  assumes dec_iff: "small_packet p \<Longrightarrow> dec p i = Inr (x, j) \<longleftrightarrow> reads p i (enc x) j \<and> ok x"
begin

lemma decode_many_iff:
  assumes "small_packet p" "i \<le> length p"
  shows "decode_many dec n p i = Inr (xs, k)
    \<longleftrightarrow> reads p i (concat (map enc xs)) k \<and> length xs = n \<and> list_all ok xs"
  using assms(2)
proof (induction n arbitrary: i xs)
  case 0
  then show ?case by auto
next
  case (Suc n)
  have "decode_many dec (Suc n) p i = Inr (xs, k)
      \<longleftrightarrow> (\<exists>x j ys. dec p i = Inr (x, j) \<and> decode_many dec n p j = Inr (ys, k) \<and> xs = x # ys)"
    by (auto simp: rbind_Inr_iff)
  also have "\<dots> \<longleftrightarrow> (\<exists>x j ys. reads p i (enc x) j \<and> ok x \<and> reads p j (concat (map enc ys)) k
      \<and> length ys = n \<and> list_all ok ys \<and> xs = x # ys)"
    using dec_iff [OF assms(1)] Suc.IH reads_le by blast
  also have "\<dots> \<longleftrightarrow> reads p i (concat (map enc xs)) k \<and> length xs = Suc n \<and> list_all ok xs"
    by (cases xs) (auto simp: reads_append)
  finally show ?case .
qed

end

end
