(* ===== verification/Checkout_Activation.thy ===== *)
theory Checkout_Activation
  imports Paths Wire
begin

text \<open>
  Deployment transactions (\<^verbatim>\<open>src/src/ostree/checkout_activation.rs\<close>): checkouts are staged beside
  their destinations, recorded in a transaction file, activated by renames, and completed by
  \<^verbatim>\<open>recover_activation_file\<close> after an interruption.

  The disk is a map from paths to entries: a whole checkout tree or a regular file. Checkout trees
  are moved and removed as a unit; what the code reads of one (the \<^verbatim>\<open>metadata\<close> file, the
  \<^verbatim>\<open>files\<close> directory, the marker) is in \<open>tree\<close>, the rest of its content is one value. libostree
  (pull, checkout, installed size) is a parameter. \<^verbatim>\<open>sync_parent\<close> is the identity on the map; an
  operation that fails leaves the disk as it is.

  The second half gives the same code as a sequence of atomic disk operations, an inductive relation
  for the states an interruption can leave behind, and the proof that recovery makes the
  transaction all-or-nothing.
\<close>

section \<open>Disk\<close>

record tree =
  t_metadata_is_file :: bool
  t_files_is_dir :: bool
  t_marker :: "string option"
  t_payload :: string

datatype entry = Tree tree | File string

type_synonym disk = "path \<Rightarrow> entry option"

type_synonym 'a io_result = "disk \<times> 'a result"

definition io_bind :: "'a io_result \<Rightarrow> (disk \<Rightarrow> 'a \<Rightarrow> 'b io_result) \<Rightarrow> 'b io_result" where
  "io_bind m f = (case snd m of Inl e \<Rightarrow> (fst m, Inl e) | Inr x \<Rightarrow> f (fst m) x)"

definition io_context :: "string \<Rightarrow> 'a io_result \<Rightarrow> 'a io_result" where
  "io_context msg m = (fst m, with_context msg (snd m))"

lemma io_bind_simps [simp]:
  "io_bind (d, Inr x) f = f d x"
  "io_bind (d, Inl e) f = (d, Inl e)"
  by (simp_all add: io_bind_def)

lemma io_context_simps [simp]:
  "io_context msg (d, Inr x) = (d, Inr x)"
  "io_context msg (d, Inl e) = (d, Inl (Context msg e))"
  by (simp_all add: io_context_def)

definition remove_path_if_exists :: "path \<Rightarrow> disk \<Rightarrow> disk" where
  "remove_path_if_exists p d = d(p := None)"

text \<open>\<^verbatim>\<open>fs::rename\<close>: an existing directory at the target, or a directory over a file, is refused.\<close>

definition rename_entry :: "path \<Rightarrow> path \<Rightarrow> disk \<Rightarrow> unit io_result" where
  "rename_entry src dst d =
     (case d src of
        None \<Rightarrow> (d, Inl (Bail ''No such file or directory''))
      | Some e \<Rightarrow>
          (case (e, d dst) of
             (_, None) \<Rightarrow> (d(src := None, dst := Some e), Inr ())
           | (File _, Some (File _)) \<Rightarrow> (d(src := None, dst := Some e), Inr ())
           | _ \<Rightarrow> (d, Inl (Bail ''Directory not empty''))))"

definition remove_file :: "path \<Rightarrow> disk \<Rightarrow> unit io_result" where
  "remove_file p d =
     (case d p of
        Some (File _) \<Rightarrow> (d(p := None), Inr ())
      | _ \<Rightarrow> (d, Inl (Bail ''No such file or directory'')))"

section \<open>Staging\<close>

record Deployment =
  d_remote :: string
  d_kind :: string
  d_ref_name :: string
  d_checksum :: string
  d_destination :: path
  d_force :: bool

record Activation =
  destination :: path
  staging :: path
  backup :: path

text \<open>libostree: the tree of a commit and its installed size.\<close>

record repository =
  checkout_at :: "string \<Rightarrow> tree result"
  installed_size :: "string \<Rightarrow> nat result"
  pull_exact :: "string \<Rightarrow> (string \<times> string) list \<Rightarrow> unit result"

definition validate_tree :: "path \<Rightarrow> tree \<Rightarrow> unit result" where
  "validate_tree p t =
     (if \<not> t_metadata_is_file t \<or> \<not> t_files_is_dir t
      then Inl (Bail (''incomplete OSTree checkout at '' @ display_path p)) else Inr ())"

definition validate_checkout :: "path \<Rightarrow> disk \<Rightarrow> unit result" where
  "validate_checkout p d =
     (case d p of
        Some (Tree t) \<Rightarrow> validate_tree p t
      | _ \<Rightarrow> Inl (Bail (''incomplete OSTree checkout at '' @ display_path p)))"

text \<open>\<^verbatim>\<open>marker.lines().nth(1)\<close>\<close>

definition marker_checksum :: "string \<Rightarrow> string option" where
  "marker_checksum m = (case lines m of _ # c # _ \<Rightarrow> Some c | _ \<Rightarrow> None)"

definition checkout_matches :: "path \<Rightarrow> string \<Rightarrow> disk \<Rightarrow> bool" where
  "checkout_matches p checksum d =
     (if \<not> is_ok (validate_checkout p d) then False
      else (case d p of
        Some (Tree t) \<Rightarrow> Option.bind (t_marker t) marker_checksum = Some checksum
      | _ \<Rightarrow> False))"

definition with_file_name :: "path \<Rightarrow> string \<Rightarrow> path" where
  "with_file_name p s = butlast p @ [Normal s]"

definition marker_text :: "Deployment \<Rightarrow> nat \<Rightarrow> string" where
  "marker_text dep bytes =
     d_ref_name dep @ [newline] @ d_checksum dep @ [newline] @ nat_digits bytes @ [newline]
     @ d_remote dep @ [newline]"

definition staging_path :: "path \<Rightarrow> string \<Rightarrow> string \<Rightarrow> path" where
  "staging_path dest name checksum =
     with_file_name dest (''.'' @ name @ ''.ostree-'' @ take (min (length checksum) 12) checksum @ ''.staging'')"

definition backup_path :: "path \<Rightarrow> string \<Rightarrow> path" where
  "backup_path dest name = with_file_name dest (''.'' @ name @ ''.ostree-previous'')"

definition stage_checkout :: "repository \<Rightarrow> Deployment \<Rightarrow> disk \<Rightarrow> Activation io_result" where
  "stage_checkout repo dep d =
     (case file_name (d_destination dep) of
        None \<Rightarrow> (d, Inl (Bail ''checkout destination has no UTF-8 file name''))
      | Some name \<Rightarrow>
          let stg = staging_path (d_destination dep) name (d_checksum dep);
              bak = backup_path (d_destination dep) name;
              d1 = remove_path_if_exists stg d in
          (case checkout_at repo (d_checksum dep) of
             Inl e \<Rightarrow>
               (remove_path_if_exists stg d1,
                Inl (Context (''checkout '' @ d_ref_name dep @ '' at '' @ display_path (d_destination dep)) e))
           | Inr t \<Rightarrow>
               let d2 = d1(stg \<mapsto> Tree t) in
               (case validate_checkout stg d2 of
                  Inl e \<Rightarrow> (d2, Inl e)
                | Inr _ \<Rightarrow>
                    (case installed_size repo (d_checksum dep) of
                       Inl e \<Rightarrow> (d2, Inl e)
                     | Inr bytes \<Rightarrow>
                         (d2(stg \<mapsto> Tree (t\<lparr>t_marker := Some (marker_text dep bytes)\<rparr>)),
                          Inr \<lparr>destination = d_destination dep, staging = stg, backup = bak\<rparr>)))))"

section \<open>Activation\<close>

definition activation_line :: "Activation \<Rightarrow> string" where
  "activation_line a =
     display_path (destination a) @ [tab] @ display_path (staging a) @ [tab] @ display_path (backup a)"

definition transaction_text :: "Activation list \<Rightarrow> string" where
  "transaction_text as = ''1'' @ [newline] @ concat (map (\<lambda>a. activation_line a @ [newline]) as)"

text \<open>\<^verbatim>\<open>Path::with_extension\<close>: the part behind the last dot is replaced, unless the dot is the first byte.\<close>

definition with_extension :: "path \<Rightarrow> string \<Rightarrow> path" where
  "with_extension p ext =
     (case file_name p of
        None \<Rightarrow> p
      | Some name \<Rightarrow>
          let stem = (case rsplit_once (CHR ''.'') name of Some (a, _) \<Rightarrow> if a = [] then name else a | None \<Rightarrow> name)
          in with_file_name p (stem @ ''.'' @ ext))"

definition write_transaction :: "path \<Rightarrow> Activation list \<Rightarrow> disk \<Rightarrow> unit io_result" where
  "write_transaction transaction_path as d =
     (let partial = with_extension transaction_path ''transaction.part'';
          d1 = d(partial \<mapsto> File (transaction_text as))
      in io_context (''publish '' @ display_path transaction_path) (rename_entry partial transaction_path d1))"

definition activate_one :: "Activation \<Rightarrow> disk \<Rightarrow> unit io_result" where
  "activate_one a d =
     (let d1 = remove_path_if_exists (backup a) d in
      io_bind (if d1 (destination a) \<noteq> None
               then io_context (''preserve current deployment '' @ display_path (destination a))
                      (rename_entry (destination a) (backup a) d1)
               else (d1, Inr ())) (\<lambda>d2 _.
      io_context (''activate deployment '' @ display_path (destination a))
        (rename_entry (staging a) (destination a) d2)))"

fun activate_all :: "Activation list \<Rightarrow> disk \<Rightarrow> unit io_result" where
  "activate_all [] d = (d, Inr ())"
| "activate_all (a # as) d = io_bind (activate_one a d) (\<lambda>d' _. activate_all as d')"

definition remove_backups :: "Activation list \<Rightarrow> disk \<Rightarrow> disk" where
  "remove_backups as d = foldl (\<lambda>d a. remove_path_if_exists (backup a) d) d as"

definition finish_activation :: "path \<Rightarrow> Activation list \<Rightarrow> disk \<Rightarrow> unit io_result" where
  "finish_activation transaction_path as d =
     io_bind (activate_all as d) (\<lambda>d1 _.
     io_context (''complete '' @ display_path transaction_path)
       (remove_file transaction_path (remove_backups as d1)))"

definition parse_activation :: "string \<Rightarrow> Activation result" where
  "parse_activation line =
     (case split_on tab line of
        [a, b, c] \<Rightarrow> Inr \<lparr>destination = parse_path a, staging = parse_path b, backup = parse_path c\<rparr>
      | _ \<Rightarrow> Inl (Bail ''invalid storage transaction entry''))"

definition parse_transaction :: "string \<Rightarrow> Activation list result" where
  "parse_transaction text =
     (case lines text of
        [] \<Rightarrow> Inl (Bail ''unsupported storage transaction format'')
      | l # ls \<Rightarrow>
          if l \<noteq> ''1'' then Inl (Bail ''unsupported storage transaction format'')
          else traverse parse_activation ls)"

definition resume_one :: "Activation \<Rightarrow> disk \<Rightarrow> unit io_result" where
  "resume_one a d =
     (if d (staging a) \<noteq> None then
        io_bind (if d (destination a) \<noteq> None
                 then io_context (''preserve deployment while resuming '' @ display_path (destination a))
                        (rename_entry (destination a) (backup a) (remove_path_if_exists (backup a) d))
                 else (d, Inr ())) (\<lambda>d1 _.
        io_context (''resume deployment '' @ display_path (destination a))
          (rename_entry (staging a) (destination a) d1))
      else if d (destination a) \<noteq> None then (d, Inr ())
      else if d (backup a) \<noteq> None then
        io_bind (io_context (''restore deployment '' @ display_path (destination a))
                   (rename_entry (backup a) (destination a) d)) (\<lambda>d1 _.
        (d1, Inl (Bail ''deployment transaction was incomplete; restored previous deployment'')))
      else (d, Inl (Bail (''cannot recover deployment '' @ display_path (destination a)
                     @ ''; staging and backup are missing''))))"

fun resume_all :: "Activation list \<Rightarrow> disk \<Rightarrow> unit io_result" where
  "resume_all [] d = (d, Inr ())"
| "resume_all (a # as) d = io_bind (resume_one a d) (\<lambda>d' _. resume_all as d')"

definition recover_activation_file :: "path \<Rightarrow> disk \<Rightarrow> unit io_result" where
  "recover_activation_file transaction_path d =
     (case d transaction_path of
        Some (File text) \<Rightarrow>
          (case parse_transaction text of
             Inl e \<Rightarrow> (d, Inl e)
           | Inr as \<Rightarrow>
               io_bind (resume_all as d) (\<lambda>d1 _.
                 remove_file transaction_path (remove_backups as d1)))
      | _ \<Rightarrow> (d, Inr ()))"

fun stage_all :: "repository \<Rightarrow> Deployment list \<Rightarrow> disk \<Rightarrow> Activation list io_result" where
  "stage_all repo [] d = (d, Inr [])"
| "stage_all repo (dep # deps) d =
     io_bind (stage_checkout repo dep d) (\<lambda>d1 a.
     io_bind (stage_all repo deps d1) (\<lambda>d2 as. (d2, Inr (a # as))))"

definition pull_sources :: "repository \<Rightarrow> string list \<Rightarrow> Deployment list \<Rightarrow> unit result" where
  "pull_sources repo sources pending =
     fold_result (\<lambda>_ source.
         let refs = map (\<lambda>dep. (d_ref_name dep, d_checksum dep)) (filter (\<lambda>dep. d_remote dep = source) pending)
         in if refs \<noteq> [] then pull_exact repo source refs else Inr ()) () sources"

definition deploy_from_sources ::
    "repository \<Rightarrow> path \<Rightarrow> string list \<Rightarrow> Deployment list \<Rightarrow> disk \<Rightarrow> unit io_result" where
  "deploy_from_sources repo transaction_path sources deployments d =
     (let pending = filter (\<lambda>dep. d_force dep \<or> \<not> checkout_matches (d_destination dep) (d_checksum dep) d) deployments
      in if pending = [] then (d, Inr ())
         else (case pull_sources repo sources pending of
           Inl e \<Rightarrow> (d, Inl e)
         | Inr _ \<Rightarrow>
             if list_ex (\<lambda>dep. d_remote dep \<notin> set sources) pending
             then (d, Inl (Bail ''deployment transaction is missing remote summary data''))
             else
               io_bind (stage_all repo pending d) (\<lambda>d1 as.
               io_bind (write_transaction transaction_path as d1) (\<lambda>d2 _.
               finish_activation transaction_path as d2))))"

definition deploy :: "repository \<Rightarrow> path \<Rightarrow> Deployment list \<Rightarrow> disk \<Rightarrow> unit io_result" where
  "deploy repo transaction_path deployments d =
     (case deployments of
        [] \<Rightarrow> (d, Inl (Bail ''deployment list is empty''))
      | dep # _ \<Rightarrow> deploy_from_sources repo transaction_path [d_remote dep] deployments d)"

section \<open>The transaction file\<close>

definition text_safe :: "path \<Rightarrow> bool" where
  "text_safe p \<longleftrightarrow>
     parse_path (display_path p) = p
     \<and> (\<forall>c \<in> {tab, newline, carriage_return}. c \<notin> set (display_path p))"

definition safe_activation :: "Activation \<Rightarrow> bool" where
  "safe_activation a \<longleftrightarrow> text_safe (destination a) \<and> text_safe (staging a) \<and> text_safe (backup a)"

lemma parse_activation_line:
  assumes "safe_activation a"
  shows "parse_activation (activation_line a) = Inr a"
proof -
  have "split_on tab (activation_line a) =
      [display_path (destination a), display_path (staging a), display_path (backup a)]"
    using assms by (simp add: activation_line_def safe_activation_def text_safe_def split_on_append_sep)
  then show ?thesis
    using assms by (cases a) (simp add: parse_activation_def safe_activation_def text_safe_def)
qed

lemma parse_transaction_text:
  assumes "\<forall>a \<in> set as. safe_activation a"
  shows "parse_transaction (transaction_text as) = Inr as"
proof -
  have "lines (transaction_text as) = ''1'' # map activation_line as"
  proof -
    have "transaction_text as = concat (map (\<lambda>l. l @ [newline]) (''1'' # map activation_line as))"
      by (simp add: transaction_text_def comp_def)
    moreover have "newline \<notin> set l \<and> carriage_return \<notin> set l" if "l \<in> set (''1'' # map activation_line as)" for l
      using that assms by (auto simp: activation_line_def safe_activation_def text_safe_def)
    ultimately show ?thesis using lines_of_terminated by metis
  qed
  moreover have "traverse parse_activation (map activation_line as) = Inr as"
    using assms by (induction as) (auto simp: parse_activation_line)
  ultimately show ?thesis by (simp add: parse_transaction_def)
qed

section \<open>Atomic operations and interruptions\<close>

datatype op =
    WriteFile path string
  | RemoveIfExists path
  | RenameIfExists path path
  | Rename path path
  | RemoveFile path

fun exec_op :: "op \<Rightarrow> disk \<Rightarrow> unit io_result" where
  "exec_op (WriteFile p s) d = (d(p \<mapsto> File s), Inr ())"
| "exec_op (RemoveIfExists p) d = (remove_path_if_exists p d, Inr ())"
| "exec_op (RenameIfExists p q) d = (if d p \<noteq> None then rename_entry p q d else (d, Inr ()))"
| "exec_op (Rename p q) d = rename_entry p q d"
| "exec_op (RemoveFile p) d = remove_file p d"

fun exec_ops :: "op list \<Rightarrow> disk \<Rightarrow> unit io_result" where
  "exec_ops [] d = (d, Inr ())"
| "exec_ops (x # xs) d = io_bind (exec_op x d) (\<lambda>d' _. exec_ops xs d')"

definition write_ops :: "path \<Rightarrow> Activation list \<Rightarrow> op list" where
  "write_ops tp as =
     (let partial = with_extension tp ''transaction.part''
      in [WriteFile partial (transaction_text as), Rename partial tp])"

definition activate_ops :: "Activation \<Rightarrow> op list" where
  "activate_ops a =
     [RemoveIfExists (backup a), RenameIfExists (destination a) (backup a), Rename (staging a) (destination a)]"

definition finish_ops :: "path \<Rightarrow> Activation list \<Rightarrow> op list" where
  "finish_ops tp as =
     concat (map activate_ops as) @ map (\<lambda>a. RemoveIfExists (backup a)) as @ [RemoveFile tp]"

text \<open>The operation lists are the code: they run to the same disk and succeed alike.\<close>

lemma fst_io_context [simp]: "fst (io_context msg m) = fst m"
  by (simp add: io_context_def)

lemma is_ok_io_context [simp]: "is_ok (snd (io_context msg m)) = is_ok (snd m)"
  by (cases "snd m") (simp_all add: io_context_def)

lemma io_result_cases:
  fixes m :: "unit io_result"
  obtains d' where "m = (d', Inr ())" | d' e where "m = (d', Inl e)"
  by (cases m; cases "snd m") auto

definition io_same :: "unit io_result \<Rightarrow> unit io_result \<Rightarrow> bool" where
  "io_same m m' \<longleftrightarrow> fst m = fst m' \<and> is_ok (snd m) = is_ok (snd m')"

lemma io_same_bind:
  "io_same m m' \<Longrightarrow> (\<And>d. io_same (f d ()) (g d ())) \<Longrightarrow> io_same (io_bind m f) (io_bind m' g)"
  by (cases m rule: io_result_cases; cases m' rule: io_result_cases) (auto simp: io_same_def)

lemma io_same_refl [simp]: "io_same m m"
  by (simp add: io_same_def)

lemma io_same_context [simp]: "io_same (io_context msg m) m' = io_same m m'"
  by (simp add: io_same_def)

lemma exec_ops_append: "exec_ops (xs @ ys) d = io_bind (exec_ops xs d) (\<lambda>d' _. exec_ops ys d')"
proof (induction xs arbitrary: d)
  case (Cons x xs)
  then show ?case by (cases "exec_op x d" rule: io_result_cases) simp_all
qed simp

lemma activate_one_ops: "io_same (activate_one a d) (exec_ops (activate_ops a) d)"
  unfolding activate_one_def activate_ops_def Let_def
  by (auto simp: io_same_def io_bind_def io_context_def with_context_def split: sum.splits)

lemma activate_all_ops: "io_same (activate_all as d) (exec_ops (concat (map activate_ops as)) d)"
  by (induction as arbitrary: d) (auto simp: exec_ops_append intro!: io_same_bind activate_one_ops)

lemma remove_backups_ops:
  "exec_ops (map (\<lambda>a. RemoveIfExists (backup a)) as) d = (remove_backups as d, Inr ())"
  by (induction as arbitrary: d) (simp_all add: remove_backups_def)

lemma finish_activation_ops: "io_same (finish_activation tp as d) (exec_ops (finish_ops tp as) d)"
proof -
  have "exec_ops [RemoveFile tp] d = remove_file tp d" for d
    by (cases "remove_file tp d" rule: io_result_cases) simp_all
  then show ?thesis
    unfolding finish_activation_def finish_ops_def exec_ops_append
    by (auto simp: remove_backups_ops simp del: exec_ops.simps intro!: io_same_bind activate_all_ops)
qed

lemma write_transaction_ops: "io_same (write_transaction tp as d) (exec_ops (write_ops tp as) d)"
  by (auto simp: write_transaction_def write_ops_def Let_def io_same_def io_bind_def io_context_def
      with_context_def split: sum.splits)

text \<open>
  An interruption stops the sequence between two operations, in the middle of a recursive
  removal (some of the tree is left) or in the middle of writing a file (some text is there).
\<close>

inductive interrupted :: "op list \<Rightarrow> disk \<Rightarrow> disk \<Rightarrow> bool" where
  stop: "interrupted ops d d"
| torn_removal: "d p = Some (Tree t) \<Longrightarrow> interrupted (RemoveIfExists p # ops) d (d(p \<mapsto> Tree t'))"
| torn_write: "interrupted (WriteFile p s # ops) d (d(p \<mapsto> File s'))"
| step: "exec_op x d = (d1, Inr ()) \<Longrightarrow> interrupted ops d1 d2 \<Longrightarrow> interrupted (x # ops) d d2"

inductive_cases interrupted_NilE: "interrupted [] d d'"
inductive_cases interrupted_RemoveE: "interrupted (RemoveIfExists p # ops) d d'"
inductive_cases interrupted_RenameIfE: "interrupted (RenameIfExists p q # ops) d d'"
inductive_cases interrupted_RenameE: "interrupted (Rename p q # ops) d d'"
inductive_cases interrupted_WriteE: "interrupted (WriteFile p s # ops) d d'"
inductive_cases interrupted_RemoveFileE: "interrupted (RemoveFile p # ops) d d'"

lemma interrupted_complete: "exec_ops ops d = (d', Inr ()) \<Longrightarrow> interrupted ops d d'"
proof (induction ops arbitrary: d)
  case (Cons x ops)
  then show ?case by (cases "exec_op x d" rule: io_result_cases) (auto intro: interrupted.step)
qed (auto intro: interrupted.stop)

section \<open>Recovery\<close>

definition paths_of :: "Activation \<Rightarrow> path list" where
  "paths_of a = [destination a, staging a, backup a]"

definition managed :: "Activation list \<Rightarrow> path set" where
  "managed as = set (concat (map paths_of as))"

text \<open>An activation is still staged, or its new tree is in place.\<close>

definition resumable :: "entry \<Rightarrow> Activation \<Rightarrow> disk \<Rightarrow> bool" where
  "resumable new a d \<longleftrightarrow> d (staging a) = Some new \<or> d (staging a) = None \<and> d (destination a) = Some new"

definition activated :: "entry \<Rightarrow> Activation \<Rightarrow> disk \<Rightarrow> bool" where
  "activated new a d \<longleftrightarrow> d (staging a) = None \<and> d (destination a) = Some new"

definition agree_off :: "path set \<Rightarrow> disk \<Rightarrow> disk \<Rightarrow> bool" where
  "agree_off ps d d' \<longleftrightarrow> (\<forall>p. p \<notin> ps \<longrightarrow> d' p = d p)"

lemma agree_off_refl [simp]: "agree_off ps d d"
  by (simp add: agree_off_def)

lemma agree_off_trans: "agree_off ps d d1 \<Longrightarrow> agree_off qs d1 d2 \<Longrightarrow> agree_off (ps \<union> qs) d d2"
  by (simp add: agree_off_def)

lemma agree_off_mono: "agree_off ps d d' \<Longrightarrow> ps \<subseteq> qs \<Longrightarrow> agree_off qs d d'"
  by (auto simp: agree_off_def)

lemma resumable_agree:
  "agree_off ps d d' \<Longrightarrow> set (paths_of a) \<inter> ps = {} \<Longrightarrow> resumable new a d' = resumable new a d"
  by (auto simp: agree_off_def resumable_def paths_of_def)

lemma activated_agree:
  "agree_off ps d d' \<Longrightarrow> set (paths_of a) \<inter> ps = {} \<Longrightarrow> activated new a d' = activated new a d"
  by (auto simp: agree_off_def activated_def paths_of_def)

lemma rename_entry_free:
  "d src = Some e \<Longrightarrow> d dst = None \<Longrightarrow> rename_entry src dst d = (d(src := None, dst := Some e), Inr ())"
  by (simp add: rename_entry_def split: entry.splits)

lemma resume_one_resumable:
  assumes "distinct (paths_of a)" "resumable new a d"
  shows "\<exists>d'. resume_one a d = (d', Inr ()) \<and> activated new a d' \<and> agree_off (set (paths_of a)) d d'"
proof (cases "d (staging a)")
  case None
  then show ?thesis using assms by (auto simp: resume_one_def resumable_def activated_def)
next
  case (Some e)
  show ?thesis
  proof (cases "d (destination a)")
    case None
    then show ?thesis using assms Some
      by (auto simp: resume_one_def rename_entry_free resumable_def activated_def agree_off_def paths_of_def)
  next
    case (Some old)
    then show ?thesis using assms \<open>d (staging a) = Some e\<close>
      by (auto simp: resume_one_def rename_entry_free resumable_def activated_def agree_off_def paths_of_def
          remove_path_if_exists_def)
  qed
qed

lemma resume_all_resumable:
  assumes "distinct (concat (map paths_of as))" "\<forall>a \<in> set as. resumable (new a) a d"
  shows "\<exists>d'. resume_all as d = (d', Inr ()) \<and> (\<forall>a \<in> set as. activated (new a) a d')
           \<and> agree_off (managed as) d d'"
  using assms
proof (induction as arbitrary: d)
  case (Cons a as)
  then obtain d1 where d1: "resume_one a d = (d1, Inr ())" "activated (new a) a d1"
      "agree_off (set (paths_of a)) d d1"
    using resume_one_resumable [of a "new a" d] by auto
  have disj: "set (paths_of b) \<inter> set (paths_of a) = {}" if "b \<in> set as" for b
    using Cons.prems(1) that by auto
  have "\<forall>b \<in> set as. resumable (new b) b d1"
    using Cons.prems(2) resumable_agree [OF d1(3) disj] by simp
  then obtain d2 where d2: "resume_all as d1 = (d2, Inr ())" "\<forall>b \<in> set as. activated (new b) b d2"
      "agree_off (managed as) d1 d2"
    using Cons.IH [of d1] Cons.prems(1) by auto
  have "set (paths_of a) \<inter> managed as = {}" using Cons.prems(1) by (auto simp: managed_def)
  with d1(2) activated_agree [OF d2(3)] have "activated (new a) a d2" by simp
  moreover have "agree_off (managed (a # as)) d d2"
    using agree_off_trans [OF d1(3) d2(3)] by (simp add: managed_def)
  ultimately show ?case using d1(1) d2(1,2) by auto
qed (simp add: managed_def)

text \<open>The disk after the whole transaction.\<close>

definition completed :: "path \<Rightarrow> Activation list \<Rightarrow> (Activation \<Rightarrow> entry) \<Rightarrow> disk \<Rightarrow> disk \<Rightarrow> bool" where
  "completed tp as new d d' \<longleftrightarrow>
     d' tp = None
     \<and> (\<forall>a \<in> set as. d' (destination a) = Some (new a) \<and> d' (staging a) = None \<and> d' (backup a) = None)
     \<and> agree_off (insert tp (managed as)) d d'"

lemma remove_backups_apply:
  "remove_backups as d p = (if p \<in> backup ` set as then None else d p)"
  by (induction as arbitrary: d) (auto simp: remove_backups_def remove_path_if_exists_def)

lemma backup_not_other:
  assumes "distinct (concat (map paths_of as))" "a \<in> set as" "b \<in> set as"
  shows "backup b \<noteq> destination a" "backup b \<noteq> staging a"
proof -
  have "backup b \<noteq> destination a \<and> backup b \<noteq> staging a"
    using assms by (induction as) (fastforce simp: paths_of_def)+
  then show "backup b \<noteq> destination a" "backup b \<noteq> staging a" by simp_all
qed

lemma finish_from_activated:
  assumes "distinct (concat (map paths_of as))" "tp \<notin> managed as" "d tp = Some (File text)"
    "\<forall>a \<in> set as. activated (new a) a d"
  shows "\<exists>d'. remove_file tp (remove_backups as d) = (d', Inr ()) \<and> completed tp as new d d'"
proof -
  have tp: "tp \<notin> backup ` set as" "\<forall>a \<in> set as. destination a \<noteq> tp \<and> staging a \<noteq> tp"
    using assms(2) by (auto simp: managed_def paths_of_def)
  then have "remove_file tp (remove_backups as d) = ((remove_backups as d)(tp := None), Inr ())"
    using assms(3) by (simp add: remove_file_def remove_backups_apply)
  moreover have "completed tp as new d ((remove_backups as d)(tp := None))"
    using assms(4) tp backup_not_other [OF assms(1)]
    by (fastforce simp: completed_def remove_backups_apply activated_def agree_off_def managed_def paths_of_def)
  ultimately show ?thesis by blast
qed

lemma recover_resumable:
  assumes "distinct (concat (map paths_of as))" "tp \<notin> managed as" "d tp = Some (File (transaction_text as))"
    "\<forall>a \<in> set as. safe_activation a" "\<forall>a \<in> set as. resumable (new a) a d"
  shows "\<exists>d'. recover_activation_file tp d = (d', Inr ()) \<and> completed tp as new d d'"
proof -
  obtain d1 where d1: "resume_all as d = (d1, Inr ())" "\<forall>a \<in> set as. activated (new a) a d1"
      "agree_off (managed as) d d1"
    using resume_all_resumable [OF assms(1,5)] by blast
  have "d1 tp = Some (File (transaction_text as))" using d1(3) assms(2,3) by (simp add: agree_off_def)
  then obtain d2 where d2: "remove_file tp (remove_backups as d1) = (d2, Inr ())" "completed tp as new d1 d2"
    using finish_from_activated [OF assms(1,2) _ d1(2)] by blast
  have "completed tp as new d d2"
    using d2(2) d1(3) by (auto simp: completed_def agree_off_def)
  then show ?thesis
    using d1(1) d2(1) by (auto simp: recover_activation_file_def assms(3) parse_transaction_text [OF assms(4)])
qed

section \<open>Interrupted transactions\<close>


lemma exec_op_Rename_free:
  assumes "d src = Some e" "d dst = None" "exec_op (Rename src dst) d = (d1, Inr ())"
  shows "d1 = d(src := None, dst := Some e)"
  using assms by (simp add: rename_entry_free)

lemma activate_ops_interrupted:
  assumes paths: "distinct (paths_of a)" and staged: "d (staging a) = Some new"
    and run: "interrupted (activate_ops a @ rest) d d'"
  shows "(resumable new a d' \<and> agree_off (set (paths_of a)) d d')
       \<or> (\<exists>d1. activated new a d1 \<and> agree_off (set (paths_of a)) d d1 \<and> interrupted rest d1 d')"
    (is "?stopped d' \<or> ?done")
proof -
  have ne: "destination a \<noteq> staging a" "destination a \<noteq> backup a" "staging a \<noteq> backup a"
    using paths by (auto simp: paths_of_def)
  have stopped: "?stopped x" if "x (staging a) = Some new" "agree_off (set (paths_of a)) d x" for x
    using that by (simp add: resumable_def)
  define d1 where "d1 = d(backup a := None)"
  have d1: "d1 (staging a) = Some new" "d1 (backup a) = None" "agree_off (set (paths_of a)) d d1"
    using staged ne by (simp_all add: d1_def agree_off_def paths_of_def)
  define d2 where "d2 = (if d1 (destination a) \<noteq> None
    then d1(destination a := None, backup a := d1 (destination a)) else d1)"
  have d2: "d2 (staging a) = Some new" "d2 (destination a) = None" "agree_off (set (paths_of a)) d d2"
    using d1 ne by (auto simp: d2_def agree_off_def paths_of_def)
  have last: "interrupted (Rename (staging a) (destination a) # rest) d2 d' \<Longrightarrow> ?stopped d' \<or> ?done"
  proof (erule interrupted_RenameE)
    assume "d' = d2" then show ?thesis using stopped d2 by simp
  next
    fix x assume "exec_op (Rename (staging a) (destination a)) d2 = (x, Inr ())" and x: "interrupted rest x d'"
    then have "x = d2(staging a := None, destination a := Some new)"
      using exec_op_Rename_free d2 by blast
    then have "activated new a x \<and> agree_off (set (paths_of a)) d x"
      using d2(3) ne by (auto simp: activated_def agree_off_def paths_of_def)
    then show ?thesis using x by blast
  qed
  have mid: "interrupted (RenameIfExists (destination a) (backup a) # Rename (staging a) (destination a) # rest) d1 d'
      \<Longrightarrow> ?stopped d' \<or> ?done"
  proof (erule interrupted_RenameIfE)
    assume "d' = d1" then show ?thesis using stopped d1 by simp
  next
    fix x assume "exec_op (RenameIfExists (destination a) (backup a)) d1 = (x, Inr ())"
      and x: "interrupted (Rename (staging a) (destination a) # rest) x d'"
    then have "x = d2" using d1(2) by (auto simp: d2_def rename_entry_free split: if_splits)
    then show ?thesis using x last by simp
  qed
  from run show ?thesis
    unfolding activate_ops_def append_Cons append_Nil
  proof (rule interrupted_RemoveE, goal_cases)
    case 1 then show ?thesis using stopped [of d] staged by simp
  next
    case (2 t t') then show ?thesis using stopped staged ne by (simp add: agree_off_def paths_of_def)
  next
    case (3 x) then show ?thesis using mid by (simp add: d1_def remove_path_if_exists_def)
  qed
qed

lemma activations_interrupted:
  assumes "distinct (concat (map paths_of as))" "\<forall>a \<in> set as. d (staging a) = Some (new a)"
    "interrupted (concat (map activate_ops as) @ rest) d d'"
  shows "((\<forall>a \<in> set as. resumable (new a) a d') \<and> agree_off (managed as) d d')
       \<or> (\<exists>d1. (\<forall>a \<in> set as. activated (new a) a d1) \<and> agree_off (managed as) d d1 \<and> interrupted rest d1 d')"
  using assms
proof (induction as arbitrary: d)
  case Nil
  then show ?case by auto
next
  case (Cons a as)
  have disj: "set (paths_of a) \<inter> managed as = {}" "\<And>b. b \<in> set as \<Longrightarrow> set (paths_of b) \<inter> set (paths_of a) = {}"
    using Cons.prems(1) by (auto simp: managed_def)
  have mono: "agree_off (set (paths_of a)) d x \<Longrightarrow> agree_off (managed (a # as)) d x" for x
    by (erule agree_off_mono) (simp add: managed_def)
  consider "resumable (new a) a d'" "agree_off (set (paths_of a)) d d'"
    | d1 where "activated (new a) a d1" "agree_off (set (paths_of a)) d d1"
        "interrupted (concat (map activate_ops as) @ rest) d1 d'"
    using activate_ops_interrupted [of a d "new a" "concat (map activate_ops as) @ rest" d'] Cons.prems by auto
  then show ?case
  proof cases
    case 1
    have "\<forall>b \<in> set as. resumable (new b) b d'"
      using resumable_agree [OF 1(2) disj(2)] Cons.prems(2) by (simp add: resumable_def)
    then show ?thesis using 1 mono by simp
  next
    case (2 d1)
    have staged: "\<forall>b \<in> set as. d1 (staging b) = Some (new b)"
    proof
      fix b assume b: "b \<in> set as"
      then have "staging b \<notin> set (paths_of a)" using disj(2) [OF b] by (auto simp: paths_of_def)
      then show "d1 (staging b) = Some (new b)" using Cons.prems(2) 2(2) b by (simp add: agree_off_def)
    qed
    have whole: "agree_off (managed (a # as)) d x" if "agree_off (managed as) d1 x" for x
      using agree_off_trans [OF 2(2) that] by (simp add: managed_def)
    have kept: "activated (new a) a x" if "agree_off (managed as) d1 x" for x
      using activated_agree [OF that disj(1)] 2(1) by simp
    then have "resumable (new a) a x" if "agree_off (managed as) d1 x" for x
      using that by (auto simp: activated_def resumable_def)
    note res = this
    have "distinct (concat (map paths_of as))" using Cons.prems(1) by simp
    from Cons.IH [OF this staged 2(3)] show ?thesis
    proof (elim disjE conjE exE)
      assume "\<forall>b \<in> set as. resumable (new b) b d'" "agree_off (managed as) d1 d'"
      then show ?thesis using res whole by simp
    next
      fix x assume "\<forall>b \<in> set as. activated (new b) b x" "agree_off (managed as) d1 x" "interrupted rest x d'"
      then show ?thesis using kept whole by (intro disjI2 exI [of _ x]) simp
    qed
  qed
qed

lemma remove_backups_interrupted:
  assumes "interrupted (map (\<lambda>a. RemoveIfExists (backup a)) as @ rest) d d'"
  shows "agree_off (backup ` set as) d d'
       \<or> (\<exists>d1. agree_off (backup ` set as) d d1 \<and> (\<forall>a \<in> set as. d1 (backup a) = None) \<and> interrupted rest d1 d')"
  using assms
proof (induction as arbitrary: d)
  case Nil
  then show ?case by auto
next
  case (Cons a as)
  from Cons.prems have "interrupted (RemoveIfExists (backup a) # map (\<lambda>a. RemoveIfExists (backup a)) as @ rest) d d'"
    by simp
  then show ?case
  proof (rule interrupted_RemoveE, goal_cases)
    case 1 then show ?thesis by simp
  next
    case 2 then show ?thesis by (simp add: agree_off_def)
  next
    case (3 x)
    then have x: "x = d(backup a := None)" by (simp add: remove_path_if_exists_def)
    from Cons.IH [OF 3(2)] show ?thesis
    proof
      assume "agree_off (backup ` set as) x d'"
      then show ?thesis by (simp add: agree_off_def x)
    next
      assume "\<exists>d1. agree_off (backup ` set as) x d1 \<and> (\<forall>a \<in> set as. d1 (backup a) = None) \<and> interrupted rest d1 d'"
      then obtain d1 where d1: "agree_off (backup ` set as) x d1" "\<forall>a \<in> set as. d1 (backup a) = None"
          "interrupted rest d1 d'" by blast
      have "d1 (backup a) = None" using d1(1,2) by (cases "backup a \<in> backup ` set as") (auto simp: agree_off_def x)
      moreover have "agree_off (backup ` set (a # as)) d d1" using d1(1) by (simp add: agree_off_def x)
      ultimately show ?thesis using d1 by auto
    qed
  qed
qed


lemma finish_interrupted:
  assumes dist: "distinct (concat (map paths_of as))" and tp: "tp \<notin> managed as"
    and staged: "\<forall>a \<in> set as. d (staging a) = Some (new a)"
    and run: "interrupted (finish_ops tp as) d d'"
  shows "((\<forall>a \<in> set as. resumable (new a) a d') \<and> agree_off (managed as) d d') \<or> completed tp as new d d'"
proof -
  have bak: "backup ` set as \<subseteq> managed as" by (auto simp: managed_def paths_of_def)
  have run': "interrupted (concat (map activate_ops as) @ map (\<lambda>a. RemoveIfExists (backup a)) as @ [RemoveFile tp]) d d'"
    using run by (simp add: finish_ops_def)
  consider "\<forall>a \<in> set as. resumable (new a) a d'" "agree_off (managed as) d d'"
    | d1 where "\<forall>a \<in> set as. activated (new a) a d1" "agree_off (managed as) d d1"
        "interrupted (map (\<lambda>a. RemoveIfExists (backup a)) as @ [RemoveFile tp]) d1 d'"
    using activations_interrupted [OF dist staged run'] by blast
  then show ?thesis
  proof cases
    case (2 d1)
    have keep: "(\<forall>a \<in> set as. activated (new a) a x) \<and> agree_off (managed as) d x"
      if "agree_off (backup ` set as) d1 x" for x
    proof
      have "destination a \<notin> backup ` set as \<and> staging a \<notin> backup ` set as" if "a \<in> set as" for a
        using backup_not_other [OF dist that] by (auto simp: eq_commute)
      then show "\<forall>a \<in> set as. activated (new a) a x"
        using 2(1) that by (simp add: activated_def agree_off_def)
      show "agree_off (managed as) d x"
        using agree_off_trans [OF 2(2) that] bak by (simp add: Un_absorb2)
    qed
    have res: "((\<forall>a \<in> set as. resumable (new a) a x) \<and> agree_off (managed as) d x)"
      if "agree_off (backup ` set as) d1 x" for x
      using keep [OF that] by (auto simp: resumable_def activated_def)
    from remove_backups_interrupted [OF 2(3)] show ?thesis
    proof (elim disjE exE conjE)
      assume "agree_off (backup ` set as) d1 d'"
      then show ?thesis using res by blast
    next
      fix x assume x: "agree_off (backup ` set as) d1 x" "\<forall>a \<in> set as. x (backup a) = None"
        "interrupted [RemoveFile tp] x d'"
      from x(3) show ?thesis
      proof (rule interrupted_RemoveFileE)
        assume "d' = x" then show ?thesis using res x(1) by simp
      next
        fix y assume y: "exec_op (RemoveFile tp) x = (y, Inr ())" "interrupted [] y d'"
        then have d': "d' = x(tp := None)"
          by (auto simp: remove_file_def elim!: interrupted_NilE split: option.splits entry.splits)
        have "tp \<noteq> destination a \<and> tp \<noteq> staging a \<and> tp \<noteq> backup a" if "a \<in> set as" for a
          using tp that by (auto simp: managed_def paths_of_def)
        then have "completed tp as new d d'"
          using keep [OF x(1)] x(2) by (auto simp: completed_def d' activated_def agree_off_def)
        then show ?thesis ..
      qed
    qed
  qed simp
qed

text \<open>The path of the partially written transaction file.\<close>

abbreviation part_of :: "path \<Rightarrow> path" where
  "part_of tp \<equiv> with_extension tp ''transaction.part''"

lemma write_interrupted:
  assumes run: "interrupted (write_ops tp as @ rest) d d'" and tp: "d tp = None" "part_of tp \<noteq> tp"
  shows "(d' tp = None \<and> agree_off {part_of tp} d d')
       \<or> interrupted rest (d(part_of tp := None, tp \<mapsto> File (transaction_text as))) d'"
proof -
  have "interrupted (WriteFile (part_of tp) (transaction_text as) # Rename (part_of tp) tp # rest) d d'"
    using run by (simp add: write_ops_def Let_def)
  then show ?thesis
  proof (rule interrupted_WriteE, goal_cases)
    case 1 then show ?case using tp by simp
  next
    case (2 s') then show ?case using tp by (simp add: agree_off_def)
  next
    case (3 d1)
    then have d1: "d1 = d(part_of tp \<mapsto> File (transaction_text as))" by simp
    from 3(2) show ?case
    proof (rule interrupted_RenameE, goal_cases)
      case 1 then show ?case using tp by (simp add: agree_off_def d1)
    next
      case (2 d2)
      have "d2 = d1(part_of tp := None, tp := Some (File (transaction_text as)))"
        by (rule exec_op_Rename_free [OF _ _ 2(1)]) (use d1 tp in simp_all)
      then show ?case using 2(2) by (simp add: d1)
    qed
  qed
qed

text \<open>
  C3. Crash safety of a deployment. Interrupt the sequence \<^verbatim>\<open>write_transaction\<close>,
  \<^verbatim>\<open>finish_activation\<close> anywhere (between two disk operations, in the middle of a recursive
  removal, or while the transaction file is being written), then run
  \<^verbatim>\<open>recover_activation_file\<close>. Recovery succeeds, and the disk is all-or-nothing: either no path but
  the partial transaction file has changed, or every destination holds its newly staged tree, no
  staging or backup tree and no transaction file is left, and nothing else has changed.
\<close>

theorem deployment_all_or_nothing:
  assumes "distinct (tp # part_of tp # concat (map paths_of as))" "\<forall>a \<in> set as. safe_activation a"
    "d tp = None" "\<forall>a \<in> set as. d (staging a) = Some (new a)"
    "interrupted (write_ops tp as @ finish_ops tp as) d d'"
  shows "\<exists>d''. recover_activation_file tp d' = (d'', Inr ())
           \<and> (agree_off {part_of tp} d d'' \<or> completed tp as new (d(part_of tp := None)) d'')"
proof -
  have dist: "distinct (concat (map paths_of as))" and tp: "tp \<notin> managed as" "part_of tp \<noteq> tp"
    and part: "part_of tp \<notin> managed as"
    using assms(1) by (auto simp: managed_def)
  let ?d = "d(part_of tp := None, tp \<mapsto> File (transaction_text as))"
  from write_interrupted [OF assms(5,3) tp(2)] show ?thesis
  proof (elim disjE conjE)
    assume "d' tp = None" "agree_off {part_of tp} d d'"
    then show ?thesis by (simp add: recover_activation_file_def)
  next
    assume run: "interrupted (finish_ops tp as) ?d d'"
    have "staging a \<noteq> tp \<and> staging a \<noteq> part_of tp" if "a \<in> set as" for a
      using that tp(1) part by (auto simp: managed_def paths_of_def)
    then have staged: "\<forall>a \<in> set as. ?d (staging a) = Some (new a)" using assms(4) by simp
    have weaken: "completed tp as new (d(part_of tp := None)) x"
      if "completed tp as new y x" "agree_off (insert tp (managed as)) ?d y" for x y
      using that by (simp add: completed_def agree_off_def)
    from finish_interrupted [OF dist tp(1) staged run] show ?thesis
    proof (elim disjE conjE)
      assume res: "\<forall>a \<in> set as. resumable (new a) a d'" "agree_off (managed as) ?d d'"
      have "d' tp = Some (File (transaction_text as))" using res(2) tp(1) by (simp add: agree_off_def)
      from recover_resumable [OF dist tp(1) this assms(2) res(1)] show ?thesis
        using weaken agree_off_mono [OF res(2), of "insert tp (managed as)"] by blast
    next
      assume comp: "completed tp as new ?d d'"
      then have "recover_activation_file tp d' = (d', Inr ())"
        by (simp add: recover_activation_file_def completed_def)
      then show ?thesis using weaken [OF comp agree_off_refl] by simp
    qed
  qed
qed


text \<open>A crash between the two renames of an update: the new tree is still staged.\<close>

definition example_activation :: Activation where
  "example_activation =
     \<lparr>destination = [RootDir, Normal ''app''], staging = [RootDir, Normal ''.app.staging''],
      backup = [RootDir, Normal ''.app.ostree-previous'']\<rparr>"

definition example_tree :: "string \<Rightarrow> tree" where
  "example_tree s = \<lparr>t_metadata_is_file = True, t_files_is_dir = True, t_marker = None, t_payload = s\<rparr>"

definition example_tp :: path where
  "example_tp = [RootDir, Normal ''active'']"

definition example_disk :: disk where
  "example_disk = (\<lambda>_. None)(staging example_activation \<mapsto> Tree (example_tree ''new''),
      destination example_activation \<mapsto> Tree (example_tree ''old''))"

definition example_progress :: "op list" where
  "example_progress = write_ops example_tp [example_activation]
     @ [RemoveIfExists (backup example_activation),
        RenameIfExists (destination example_activation) (backup example_activation)]"

lemma interrupted_prefix:
  "exec_ops xs d = (d1, Inr ()) \<Longrightarrow> interrupted (xs @ ys) d d1"
proof (induction xs arbitrary: d)
  case (Cons x xs)
  then show ?case by (cases "exec_op x d" rule: io_result_cases) (auto intro: interrupted.step)
qed (auto intro: interrupted.stop)

theorem deployment_all_or_nothing_witness:
  "let d' = fst (exec_ops example_progress example_disk) in
     d' (destination example_activation) = None
     \<and> (\<exists>d''. recover_activation_file example_tp d' = (d'', Inr ())
         \<and> (agree_off {part_of example_tp} example_disk d''
            \<or> completed example_tp [example_activation] (\<lambda>_. Tree (example_tree ''new''))
                (example_disk(part_of example_tp := None)) d''))"
proof -
  obtain d' where d': "exec_ops example_progress example_disk = (d', Inr ())"
  proof -
    have "is_ok (snd (exec_ops example_progress example_disk))" by code_simp
    then show ?thesis using that by (cases "exec_ops example_progress example_disk" rule: io_result_cases) auto
  qed
  have "fst (exec_ops example_progress example_disk) (destination example_activation) = None" by code_simp
  moreover have "write_ops example_tp [example_activation] @ finish_ops example_tp [example_activation]
      = example_progress @ drop 4 (write_ops example_tp [example_activation] @ finish_ops example_tp [example_activation])"
    by (simp add: example_progress_def write_ops_def finish_ops_def activate_ops_def Let_def)
  then have "interrupted (write_ops example_tp [example_activation] @ finish_ops example_tp [example_activation])
      example_disk d'"
    using interrupted_prefix [OF d'] by metis
  then have "\<exists>d''. recover_activation_file example_tp d' = (d'', Inr ())
         \<and> (agree_off {part_of example_tp} example_disk d''
            \<or> completed example_tp [example_activation] (\<lambda>_. Tree (example_tree ''new''))
                (example_disk(part_of example_tp := None)) d'')"
  proof (rule deployment_all_or_nothing [rotated 4])
    show "distinct (example_tp # part_of example_tp # concat (map paths_of [example_activation]))" by code_simp
    show "\<forall>a \<in> set [example_activation]. safe_activation a" by code_simp
    show "example_disk example_tp = None" by code_simp
    show "\<forall>a \<in> set [example_activation]. example_disk (staging a) = Some (Tree (example_tree ''new''))" by code_simp
  qed
  ultimately show ?thesis by (simp add: d' Let_def)
qed

section \<open>Uninterrupted runs\<close>

lemma activate_one_staged:
  assumes "distinct (paths_of a)" "d (staging a) = Some new"
  shows "\<exists>d'. activate_one a d = (d', Inr ()) \<and> activated new a d' \<and> agree_off (set (paths_of a)) d d'"
proof (cases "d (destination a)")
  case None
  then show ?thesis using assms
    by (auto simp: activate_one_def Let_def rename_entry_free remove_path_if_exists_def activated_def
        agree_off_def paths_of_def)
next
  case (Some old)
  then show ?thesis using assms
    by (auto simp: activate_one_def Let_def rename_entry_free remove_path_if_exists_def activated_def
        agree_off_def paths_of_def)
qed

lemma activate_all_staged:
  assumes "distinct (concat (map paths_of as))" "\<forall>a \<in> set as. d (staging a) = Some (new a)"
  shows "\<exists>d'. activate_all as d = (d', Inr ()) \<and> (\<forall>a \<in> set as. activated (new a) a d')
           \<and> agree_off (managed as) d d'"
  using assms
proof (induction as arbitrary: d)
  case (Cons a as)
  obtain d1 where d1: "activate_one a d = (d1, Inr ())" "activated (new a) a d1"
      "agree_off (set (paths_of a)) d d1"
    using activate_one_staged [of a d "new a"] Cons.prems by auto
  have disj: "staging b \<notin> set (paths_of a)" if "b \<in> set as" for b
    using Cons.prems(1) that by (auto simp: paths_of_def)
  have "\<forall>b \<in> set as. d1 (staging b) = Some (new b)"
    using Cons.prems(2) d1(3) disj by (simp add: agree_off_def)
  then obtain d2 where d2: "activate_all as d1 = (d2, Inr ())" "\<forall>b \<in> set as. activated (new b) b d2"
      "agree_off (managed as) d1 d2"
    using Cons.IH [of d1] Cons.prems(1) by auto
  have "set (paths_of a) \<inter> managed as = {}" using Cons.prems(1) by (auto simp: managed_def)
  with d1(2) activated_agree [OF d2(3)] have "activated (new a) a d2" by simp
  moreover have "agree_off (managed (a # as)) d d2"
    using agree_off_trans [OF d1(3) d2(3)] by (simp add: managed_def)
  ultimately show ?case using d1(1) d2(1,2) by auto
qed (simp add: managed_def)

lemma finish_activation_staged:
  assumes "distinct (concat (map paths_of as))" "tp \<notin> managed as" "d tp = Some (File text)"
    "\<forall>a \<in> set as. d (staging a) = Some (new a)"
  shows "\<exists>d'. finish_activation tp as d = (d', Inr ()) \<and> completed tp as new d d'"
proof -
  obtain d1 where d1: "activate_all as d = (d1, Inr ())" "\<forall>a \<in> set as. activated (new a) a d1"
      "agree_off (managed as) d d1"
    using activate_all_staged [OF assms(1,4)] by blast
  have "d1 tp = Some (File text)" using d1(3) assms(2,3) by (simp add: agree_off_def)
  then obtain d2 where d2: "remove_file tp (remove_backups as d1) = (d2, Inr ())" "completed tp as new d1 d2"
    using finish_from_activated [OF assms(1,2) _ d1(2)] by blast
  have "completed tp as new d d2"
    using d2(2) d1(3) by (auto simp: completed_def agree_off_def)
  then show ?thesis using d1(1) d2(1) by (auto simp: finish_activation_def)
qed

text \<open>The activation that \<^verbatim>\<open>stage_checkout\<close> returns is a function of the deployment.\<close>

definition activation_of :: "Deployment \<Rightarrow> Activation" where
  "activation_of dep =
     (let name = the (file_name (d_destination dep)) in
      \<lparr>destination = d_destination dep, staging = staging_path (d_destination dep) name (d_checksum dep),
       backup = backup_path (d_destination dep) name\<rparr>)"

definition staged_for :: "Deployment \<Rightarrow> entry \<Rightarrow> bool" where
  "staged_for dep e \<longleftrightarrow> (\<exists>t n. e = Tree t \<and> t_marker t = Some (marker_text dep n)
      \<and> t_metadata_is_file t \<and> t_files_is_dir t)"

lemma stage_checkout_ok:
  assumes "stage_checkout repo dep d = (d', Inr a)"
  shows "a = activation_of dep" "\<exists>e. d' (staging a) = Some e \<and> staged_for dep e"
    "agree_off {staging (activation_of dep)} d d'"
  using assms
  by (auto simp: stage_checkout_def activation_of_def staged_for_def agree_off_def Let_def
      remove_path_if_exists_def validate_checkout_def validate_tree_def
      split: option.splits sum.splits if_splits)

lemma io_bind_InrE:
  assumes "io_bind m f = (d', Inr y)"
  obtains d1 x where "m = (d1, Inr x)" "f d1 x = (d', Inr y)"
  using assms by (cases m; cases "snd m") (auto simp: io_bind_def)

lemma stage_all_ok:
  assumes "stage_all repo deps d = (d', Inr as)" "distinct (map (staging \<circ> activation_of) deps)"
  shows "as = map activation_of deps
    \<and> (\<forall>dep \<in> set deps. \<exists>e. d' (staging (activation_of dep)) = Some e \<and> staged_for dep e)
    \<and> agree_off ((staging \<circ> activation_of) ` set deps) d d'"
  using assms
proof (induction deps arbitrary: d as)
  case (Cons dep deps)
  from Cons.prems(1) obtain d1 a as' where
      1: "stage_checkout repo dep d = (d1, Inr a)" and 2: "stage_all repo deps d1 = (d', Inr as')" and as: "as = a # as'"
    by (auto elim!: io_bind_InrE)
  note s = stage_checkout_ok [OF 1]
  have ih: "as' = map activation_of deps"
    "\<forall>dep \<in> set deps. \<exists>e. d' (staging (activation_of dep)) = Some e \<and> staged_for dep e"
    "agree_off ((staging \<circ> activation_of) ` set deps) d1 d'"
    using Cons.IH [OF 2] Cons.prems(2) by auto
  have "staging (activation_of dep) \<notin> (staging \<circ> activation_of) ` set deps"
    using Cons.prems(2) by simp
  then have "\<exists>e. d' (staging (activation_of dep)) = Some e \<and> staged_for dep e"
    using s(1,2) ih(3) by (simp add: agree_off_def)
  moreover have "agree_off ((staging \<circ> activation_of) ` set (dep # deps)) d d'"
    using agree_off_trans [OF s(3) ih(3)] by simp
  ultimately show ?case using ih s(1) as by simp
qed simp


definition one_line :: "string \<Rightarrow> bool" where
  "one_line s \<longleftrightarrow> newline \<notin> set s \<and> carriage_return \<notin> set s"

lemma marker_checksum_text:
  assumes "one_line (d_ref_name dep)" "one_line (d_checksum dep)"
  shows "marker_checksum (marker_text dep n) = Some (d_checksum dep)"
proof -
  have "lines (a @ newline # b @ newline # s) = a # b # lines s" if "one_line a" "one_line b" for a b s
  proof -
    have strip: "(case strip_suffix l [carriage_return] of None \<Rightarrow> l | Some v \<Rightarrow> v) = l" if "one_line l" for l
      using that by (auto simp: one_line_def strip_suffix_Some_iff split: option.splits)
    obtain y ys where sp: "split_on newline s = y # ys" by (cases "split_on newline s") auto
    show ?thesis using that strip [OF that(1)] strip [OF that(2)]
      by (auto simp: lines_def split_on_append_sep one_line_def sp Let_def)
  qed
  from this [OF assms] show ?thesis by (simp add: marker_checksum_def marker_text_def)
qed

lemma staged_for_matches:
  assumes "one_line (d_ref_name dep)" "one_line (d_checksum dep)" "staged_for dep e" "d p = Some e"
  shows "checkout_matches p (d_checksum dep) d"
  using assms marker_checksum_text [OF assms(1,2)]
  by (auto simp: staged_for_def checkout_matches_def validate_checkout_def validate_tree_def)

lemma write_transaction_ok:
  assumes "write_transaction tp as d = (d', Inr ())" "part_of tp \<noteq> tp"
  shows "d' = d(part_of tp := None, tp \<mapsto> File (transaction_text as))"
  using assms
  by (auto simp: write_transaction_def Let_def rename_entry_def io_context_def with_context_def
      split: sum.splits option.splits entry.splits)


text \<open>What a deployment list must satisfy: no two of its paths coincide, and the marker fields are single lines.\<close>

definition deployable :: "path \<Rightarrow> Deployment list \<Rightarrow> bool" where
  "deployable tp deps \<longleftrightarrow>
     distinct (tp # part_of tp # concat (map (paths_of \<circ> activation_of) deps))
     \<and> (\<forall>dep \<in> set deps. one_line (d_ref_name dep) \<and> one_line (d_checksum dep))"

lemma deployable_filter:
  assumes "deployable tp deps"
  shows "deployable tp (filter P deps)"
proof -
  have "set (concat (map f (filter P xs))) \<subseteq> set (concat (map f xs))" for f :: "Deployment \<Rightarrow> path list" and xs
    by (induction xs) auto
  then have "distinct (concat (map f xs)) \<Longrightarrow> distinct (concat (map f (filter P xs)))"
    for f :: "Deployment \<Rightarrow> path list" and xs
    by (induction xs) fastforce+
  then show ?thesis using assms unfolding deployable_def by auto
qed

lemma distinct_concat_map_inj:
  assumes "distinct (concat (map f xs))" "x \<in> set xs" "y \<in> set xs" "p \<in> set (f x)" "p \<in> set (f y)"
  shows "x = y"
  using assms by (induction xs) auto

lemma distinct_map_staging:
  "distinct (concat (map (paths_of \<circ> activation_of) deps)) \<Longrightarrow> distinct (map (staging \<circ> activation_of) deps)"
proof (induction deps)
  case (Cons dep deps)
  then have "staging (activation_of dep) \<notin> set (concat (map (paths_of \<circ> activation_of) deps))"
    by (auto simp: paths_of_def)
  then have "staging (activation_of dep) \<notin> (staging \<circ> activation_of) ` set deps"
    by (auto simp: paths_of_def)
  with Cons show ?case by simp
qed simp

lemma deploy_pending:
  assumes ok: "deployable tp deps" and stage: "stage_all repo deps d = (d1, Inr as)"
    and written: "write_transaction tp as d1 = (d2, Inr ())" and finished: "finish_activation tp as d2 = (d', Inr ())"
  shows "(\<forall>dep \<in> set deps. checkout_matches (d_destination dep) (d_checksum dep) d')
    \<and> agree_off (insert tp (insert (part_of tp) (managed as))) d d'"
proof -
  have dist: "distinct (concat (map (paths_of \<circ> activation_of) deps))"
    and tp: "part_of tp \<noteq> tp" "tp \<notin> set (concat (map (paths_of \<circ> activation_of) deps))"
      "part_of tp \<notin> set (concat (map (paths_of \<circ> activation_of) deps))"
    using ok by (auto simp: deployable_def)
  have as: "as = map activation_of deps"
    and staged: "\<forall>dep \<in> set deps. \<exists>e. d1 (staging (activation_of dep)) = Some e \<and> staged_for dep e"
    and agree1: "agree_off ((staging \<circ> activation_of) ` set deps) d d1"
    using stage_all_ok [OF stage distinct_map_staging [OF dist]] by auto
  have managed: "managed as = set (concat (map (paths_of \<circ> activation_of) deps))"
    by (simp add: managed_def as)
  define new where "new a = the (d1 (staging a))" for a :: Activation
  have d2: "d2 = d1(part_of tp := None, tp \<mapsto> File (transaction_text as))"
    by (rule write_transaction_ok [OF written tp(1)])
  have "d2 (staging a) = Some (new a)" if "a \<in> set as" for a
  proof -
    have "staging a \<in> managed as" using that by (auto simp: managed_def paths_of_def)
    then have "staging a \<noteq> tp" "staging a \<noteq> part_of tp" using tp(2,3) managed by metis+
    moreover have "\<exists>e. d1 (staging a) = Some e" using staged that as by auto
    ultimately show ?thesis by (auto simp: d2 new_def)
  qed
  then have "\<exists>x. finish_activation tp as d2 = (x, Inr ()) \<and> completed tp as new d2 x"
    using dist tp(2) managed by (intro finish_activation_staged) (auto simp: as d2 comp_def)
  then have comp: "completed tp as new d2 d'" using finished by simp
  have "checkout_matches (d_destination dep) (d_checksum dep) d'" if dep: "dep \<in> set deps" for dep
  proof -
    obtain e where e: "d1 (staging (activation_of dep)) = Some e" "staged_for dep e" using staged dep by blast
    have "d' (destination (activation_of dep)) = Some (new (activation_of dep))"
      using comp dep by (simp add: completed_def as)
    then have "d' (d_destination dep) = Some e"
      using e(1) by (simp add: new_def activation_of_def Let_def)
    then show ?thesis using staged_for_matches e(2) ok dep by (auto simp: deployable_def)
  qed
  moreover have "agree_off (insert tp (insert (part_of tp) (managed as))) d d'"
  proof -
    have "(staging \<circ> activation_of) ` set deps \<subseteq> managed as"
      by (auto simp: managed_def as paths_of_def)
    then have "agree_off (managed as) d d1" by (rule agree_off_mono [OF agree1])
    then show ?thesis using comp by (simp add: completed_def agree_off_def d2)
  qed
  ultimately show ?thesis by blast
qed

lemma checkout_matches_agree: "d' p = d p \<Longrightarrow> checkout_matches p c d' = checkout_matches p c d"
  by (simp add: checkout_matches_def validate_checkout_def)



definition example_repository :: repository where
  "example_repository =
     \<lparr>checkout_at = (\<lambda>_. Inr (example_tree ''new'')), installed_size = (\<lambda>_. Inr 42),
      pull_exact = (\<lambda>_ _. Inr ())\<rparr>"

definition example_deployment :: Deployment where
  "example_deployment =
     \<lparr>d_remote = ''hub'', d_kind = ''app'', d_ref_name = ''app/a/x/s'', d_checksum = ''0123'',
      d_destination = [RootDir, Normal ''app''], d_force = False\<rparr>"


end
