(* ===== verification/Descriptors.thy ===== *)
theory Descriptors
  imports Main
begin

text \<open>
  File descriptor tables and the mapping of passed descriptors to the numbers a client chose, as
  \<^verbatim>\<open>src/src/sandbox/spawn_broker.rs\<close> (\<^verbatim>\<open>spawn_in_existing_sandbox\<close>, \<^verbatim>\<open>map_fds_in_child\<close>) and
  \<^verbatim>\<open>src/src/secure_launch.rs\<close> (\<^verbatim>\<open>map_nested_fds\<close>) do it: every source is first duplicated
  above all targets, then moved to its target by \<^verbatim>\<open>dup2\<close>.

  The number \<^verbatim>\<open>F_DUPFD_CLOEXEC\<close> picks is the kernel's choice; the locale states what the kernel
  documents about it, and is interpreted on the choice POSIX specifies, the lowest free number.
\<close>

record 'f descriptor =
  fd_file :: 'f
  fd_cloexec :: bool

type_synonym 'f fd_table = "nat \<Rightarrow> 'f descriptor option"

text \<open>\<^verbatim>\<open>minimum\<close>: one above the largest target, and at least 3.\<close>

definition minimum_source :: "nat list \<Rightarrow> nat" where
  "minimum_source targets = max (if targets = [] then 3 else Max (set targets) + 1) 3"

fun dup_sources :: "('f fd_table \<Rightarrow> nat \<Rightarrow> nat) \<Rightarrow> nat \<Rightarrow> nat list \<Rightarrow> 'f fd_table
    \<Rightarrow> ('f fd_table \<times> nat list) option" where
  "dup_sources alloc lo [] t = Some (t, [])"
| "dup_sources alloc lo (s # ss) t =
     (case t s of
        None \<Rightarrow> None
      | Some d \<Rightarrow>
          let n = alloc t lo in
          (case dup_sources alloc lo ss (t(n \<mapsto> d\<lparr>fd_cloexec := True\<rparr>)) of
             None \<Rightarrow> None
           | Some (t', ns) \<Rightarrow> Some (t', n # ns)))"

text \<open>\<^verbatim>\<open>dup2\<close> and \<^verbatim>\<open>fcntl(target, F_SETFD, 0)\<close>.\<close>

fun install_fds :: "(nat \<times> nat) list \<Rightarrow> 'f fd_table \<Rightarrow> 'f fd_table option" where
  "install_fds [] t = Some t"
| "install_fds ((target, source) # ms) t =
     (case t source of
        None \<Rightarrow> None
      | Some d \<Rightarrow> install_fds ms (t(target \<mapsto> d\<lparr>fd_cloexec := False\<rparr>)))"

definition map_fds :: "('f fd_table \<Rightarrow> nat \<Rightarrow> nat) \<Rightarrow> nat list \<Rightarrow> nat list \<Rightarrow> 'f fd_table \<Rightarrow> 'f fd_table option" where
  "map_fds alloc targets sources t =
     (case dup_sources alloc (minimum_source targets) sources t of
        None \<Rightarrow> None
      | Some (t', ns) \<Rightarrow> install_fds (zip targets ns) t')"

lemma target_below_minimum: "x \<in> set targets \<Longrightarrow> x < minimum_source targets"
  by (auto simp: minimum_source_def less_Suc_eq_le max_def)

lemma install_fds_ok:
  assumes "distinct (map fst ms)" "\<forall>(x, s) \<in> set ms. x < lo \<and> lo \<le> s \<and> t s \<noteq> None"
  shows "\<exists>t'. install_fds ms t = Some t'
    \<and> (\<forall>(x, s) \<in> set ms. t' x = Some ((the (t s))\<lparr>fd_cloexec := False\<rparr>))
    \<and> (\<forall>n. n \<notin> fst ` set ms \<longrightarrow> t' n = t n)"
  using assms
proof (induction ms arbitrary: t)
  case (Cons m ms)
  obtain x s where m: "m = (x, s)" by (cases m)
  with Cons.prems obtain d where d: "t s = Some d" "x < lo" "lo \<le> s" by auto
  let ?t = "t(x \<mapsto> d\<lparr>fd_cloexec := False\<rparr>)"
  have keep: "?t s' = t s'" if "(x', s') \<in> set ms" for x' s'
    using Cons.prems(2) that d(2) by auto
  have "\<forall>(x', s') \<in> set ms. x' < lo \<and> lo \<le> s' \<and> ?t s' \<noteq> None"
    using Cons.prems(2) by auto
  moreover have "distinct (map fst ms)" using Cons.prems(1) by simp
  ultimately obtain t' where
    t': "install_fds ms ?t = Some t'"
      "\<forall>(x', s') \<in> set ms. t' x' = Some ((the (?t s'))\<lparr>fd_cloexec := False\<rparr>)"
      "\<forall>n. n \<notin> fst ` set ms \<longrightarrow> t' n = ?t n" using Cons.IH by blast
  have "\<forall>(x', s') \<in> set ms. t' x' = Some ((the (t s'))\<lparr>fd_cloexec := False\<rparr>)"
    using t'(2) keep by fastforce
  moreover have "t' x = Some (d\<lparr>fd_cloexec := False\<rparr>)"
    using t'(3) Cons.prems(1) m by (metis distinct.simps(2) fst_conv fun_upd_same list.set_map list.simps(9))
  ultimately show ?case using t'(1,3) d m by auto
qed simp

locale descriptor_allocator =
  fixes alloc :: "'f fd_table \<Rightarrow> nat \<Rightarrow> nat"
  assumes alloc_min: "finite (dom t) \<Longrightarrow> lo \<le> alloc t lo"
    and alloc_free: "finite (dom t) \<Longrightarrow> t (alloc t lo) = None"
begin

lemma dup_sources_ok:
  assumes "finite (dom t)" "\<forall>s \<in> set ss. t s \<noteq> None"
  shows "\<exists>t' ns. dup_sources alloc lo ss t = Some (t', ns) \<and> length ns = length ss
    \<and> (\<forall>n \<in> set ns. lo \<le> n)
    \<and> (\<forall>n. t n \<noteq> None \<longrightarrow> t' n = t n) \<and> (\<forall>n < lo. t' n = t n)
    \<and> (\<forall>i < length ss. t' (ns ! i) = Some ((the (t (ss ! i)))\<lparr>fd_cloexec := True\<rparr>))"
  using assms
proof (induction ss arbitrary: t)
  case (Cons s ss)
  obtain d where d: "t s = Some d" using Cons.prems(2) by auto
  define n where "n = alloc t lo"
  have n: "lo \<le> n" "t n = None" using alloc_min alloc_free Cons.prems(1) by (simp_all add: n_def)
  let ?t = "t(n \<mapsto> d\<lparr>fd_cloexec := True\<rparr>)"
  have "\<forall>s \<in> set ss. ?t s \<noteq> None" "finite (dom ?t)" using Cons.prems by auto
  from Cons.IH [OF this(2,1)] obtain t' ns where
    ih: "dup_sources alloc lo ss ?t = Some (t', ns)" "length ns = length ss" "\<forall>n \<in> set ns. lo \<le> n"
      "\<forall>n. ?t n \<noteq> None \<longrightarrow> t' n = ?t n" "\<forall>n < lo. t' n = ?t n"
      "\<forall>i < length ss. t' (ns ! i) = Some ((the (?t (ss ! i)))\<lparr>fd_cloexec := True\<rparr>)" by blast
  have old: "\<forall>m. t m \<noteq> None \<longrightarrow> t' m = t m" "\<forall>m < lo. t' m = t m"
    using ih(4,5) n by (auto split: if_splits)
  have "\<forall>i < length ss. t' (ns ! i) = Some ((the (t (ss ! i)))\<lparr>fd_cloexec := True\<rparr>)"
    using ih(6) Cons.prems(2) n by (metis fun_upd_other list.set_intros(2) nth_mem)
  moreover have "t' n = Some (d\<lparr>fd_cloexec := True\<rparr>)" using ih(4) by simp
  ultimately have "\<forall>i < length (s # ss). t' ((n # ns) ! i) = Some ((the (t ((s # ss) ! i)))\<lparr>fd_cloexec := True\<rparr>)"
    using d by (auto simp: less_Suc_eq_0_disj)
  moreover have "dup_sources alloc lo (s # ss) t = Some (t', n # ns)"
    using d ih(1) by (simp add: n_def Let_def)
  ultimately show ?case using ih(2,3) n(1) old by (intro exI [of _ t'] exI [of _ "n # ns"]) simp
qed simp

lemma map_fds_ok:
  assumes "finite (dom t)" "distinct targets" "length sources = length targets"
    "\<forall>s \<in> set sources. t s \<noteq> None"
  shows "\<exists>t'. map_fds alloc targets sources t = Some t'
    \<and> (\<forall>i < length targets. t' (targets ! i) = Some ((the (t (sources ! i)))\<lparr>fd_cloexec := False\<rparr>))
    \<and> (\<forall>n. n \<notin> set targets \<longrightarrow> t n \<noteq> None \<longrightarrow> t' n = t n)"
proof -
  let ?lo = "minimum_source targets"
  obtain t1 ns where dup: "dup_sources alloc ?lo sources t = Some (t1, ns)" "length ns = length sources"
      "\<forall>n \<in> set ns. ?lo \<le> n" "\<forall>n. t n \<noteq> None \<longrightarrow> t1 n = t n"
      "\<forall>i < length sources. t1 (ns ! i) = Some ((the (t (sources ! i)))\<lparr>fd_cloexec := True\<rparr>)"
    using dup_sources_ok [OF assms(1,4)] by blast
  let ?ms = "zip targets ns"
  have len: "length ns = length targets" using dup(2) assms(3) by simp
  have ms: "(targets ! i, ns ! i) \<in> set ?ms" if "i < length targets" for i
    using that len by (auto simp: set_zip)
  have fst: "map fst ?ms = targets" "fst ` set ?ms = set targets"
    using len by (simp_all flip: set_map)
  have "\<forall>(x, s) \<in> set ?ms. x < ?lo \<and> ?lo \<le> s \<and> t1 s \<noteq> None"
    using dup(3,5) assms(3) len by (auto simp: set_zip target_below_minimum)
  moreover have "distinct (map fst ?ms)" using assms(2) fst(1) by simp
  ultimately obtain t' where
    t': "install_fds ?ms t1 = Some t'"
      "\<forall>(x, s) \<in> set ?ms. t' x = Some ((the (t1 s))\<lparr>fd_cloexec := False\<rparr>)"
      "\<forall>n. n \<notin> fst ` set ?ms \<longrightarrow> t' n = t1 n" using install_fds_ok by blast
  have "t' (targets ! i) = Some ((the (t (sources ! i)))\<lparr>fd_cloexec := False\<rparr>)" if "i < length targets" for i
    using t'(2) ms [OF that] dup(5) assms(3) that by fastforce
  moreover have "\<forall>n. n \<notin> set targets \<longrightarrow> t n \<noteq> None \<longrightarrow> t' n = t n"
    using t'(3) fst(2) dup(4) by simp
  ultimately show ?thesis using t'(1) dup(1) by (auto simp: map_fds_def)
qed

end

text \<open>POSIX: the lowest number that is not in use.\<close>

function lowest_free :: "'f fd_table \<Rightarrow> nat \<Rightarrow> nat" where
  "lowest_free t lo = (if finite (dom t) \<and> t lo \<noteq> None then lowest_free t (Suc lo) else lo)"
  by auto
termination
proof (relation "measure (\<lambda>(t, lo). card (dom t \<inter> {lo..}))")
  fix t :: "'f fd_table" and lo
  assume a: "finite (dom t) \<and> t lo \<noteq> None"
  then have "dom t \<inter> {Suc lo..} \<subset> dom t \<inter> {lo..}" by (auto simp: Suc_le_eq)
  then show "((t, Suc lo), (t, lo)) \<in> measure (\<lambda>(t, lo). card (dom t \<inter> {lo..}))"
    using a by (simp add: psubset_card_mono)
qed simp

declare lowest_free.simps [simp del]

lemma lowest_free_props: "finite (dom t) \<Longrightarrow> lo \<le> lowest_free t lo \<and> t (lowest_free t lo) = None"
proof (induction t lo rule: lowest_free.induct)
  case (1 t lo)
  then show ?case by (subst (1 2) lowest_free.simps) (auto dest: Suc_leD)
qed

interpretation posix: descriptor_allocator lowest_free
  by unfold_locales (use lowest_free_props in blast)+

end
