(* ===== verification/Spawn_Broker.thy ===== *)
theory Spawn_Broker
  imports Paths Wire Descriptors
begin

unbundle bit_operations_syntax

text \<open>
  The spawn broker (\<^verbatim>\<open>src/src/sandbox/spawn_broker.rs\<close>): the packet format, the decoder of
  spawn requests, the environment a spawned program gets, the reception of descriptors, the
  registry of connections and the handler of one connection.

  Sockets, processes and the process reaper are outside: what they answer is an argument of the
  definitions, what the broker does to them is a trace of actions.
\<close>

section \<open>Frames\<close>

definition MAGIC :: u32 where "MAGIC = 0x46534250"
definition VERSION :: u16 where "VERSION = 1"
definition HEADER_SIZE :: nat where "HEADER_SIZE = 20"
definition MAX_PAYLOAD :: nat where "MAX_PAYLOAD = 4096"
definition MAX_FDS :: nat where "MAX_FDS = 32"
definition PING :: u16 where "PING = 1"
definition PONG :: u16 where "PONG = 2"
definition FD_TEST :: u16 where "FD_TEST = 3"
definition FD_OK :: u16 where "FD_OK = 4"
definition LIFECYCLE_TEST_START :: u16 where "LIFECYCLE_TEST_START = 5"
definition LIFECYCLE_TEST_ACCEPTED :: u16 where "LIFECYCLE_TEST_ACCEPTED = 6"
definition LIFECYCLE_TEST_EXITED :: u16 where "LIFECYCLE_TEST_EXITED = 7"
definition SPAWN :: u16 where "SPAWN = 8"
definition SPAWN_ACCEPTED :: u16 where "SPAWN_ACCEPTED = 9"
definition SPAWN_EXITED :: u16 where "SPAWN_EXITED = 10"
definition SPAWN_TERMINATE :: u16 where "SPAWN_TERMINATE = 11"
definition SPAWN_STARTED :: u16 where "SPAWN_STARTED = 12"
definition MAX_TARGET_FD :: nat where "MAX_TARGET_FD = 65535"
definition SPAWN_WATCH_BUS :: u32 where "SPAWN_WATCH_BUS = push_bit 4 1"
definition SPAWN_EXPOSE_PIDS :: u32 where "SPAWN_EXPOSE_PIDS = push_bit 5 1"
definition SPAWN_NOTIFY_START :: u32 where "SPAWN_NOTIFY_START = push_bit 6 1"
definition SPAWN_SUPPORTED_FLAGS :: u32 where
  "SPAWN_SUPPORTED_FLAGS = 0x1f OR SPAWN_EXPOSE_PIDS OR SPAWN_NOTIFY_START"

definition frame :: "u16 \<Rightarrow> u32 \<Rightarrow> string \<Rightarrow> u32 \<Rightarrow> string" where
  "frame message request payload fds =
     u32_bytes MAGIC @ u16_bytes VERSION @ u16_bytes message @ u32_bytes request
     @ u32_bytes (word_of_nat (length payload)) @ u32_bytes fds"

definition parse_frame :: "string \<Rightarrow> (u16 \<times> u32 \<times> nat \<times> u32) option" where
  "parse_frame packet =
     (if length packet < HEADER_SIZE then None
      else
        let magic = u32_from (take 4 packet);
            version = u16_from (take 2 (drop 4 packet));
            kind = u16_from (take 2 (drop 6 packet));
            request = u32_from (take 4 (drop 8 packet));
            len = unat (u32_from (take 4 (drop 12 packet)));
            fds = u32_from (take 4 (drop 16 packet))
        in if magic \<noteq> MAGIC \<or> version \<noteq> VERSION \<or> len > MAX_PAYLOAD \<or> length packet \<noteq> HEADER_SIZE + len
           then None else Some (kind, request, len, fds))"

section \<open>Spawn requests\<close>

record SpawnRequest =
  cwd :: "string option"
  flags :: u32
  argv :: "string list"
  caller_pid :: u32
  environment :: "(string \<times> string) list"
  mappings :: "(nat \<times> nat) list"

abbreviation NUL :: char where "NUL \<equiv> CHR 0x00"

definition decode_bytes :: "string \<Rightarrow> nat \<Rightarrow> bool \<Rightarrow> (string \<times> nat) option" where
  "decode_bytes payload offset allow_empty =
     Option.bind (decode_u32 payload offset) (\<lambda>(len, offset).
     Option.bind (checked_add offset (unat len)) (\<lambda>stop.
     Option.bind (get_slice payload offset stop) (\<lambda>value.
       if (\<not> allow_empty \<and> value = []) \<or> NUL \<in> set value then None else Some (value, stop))))"

definition decode_argument :: "string \<Rightarrow> nat \<Rightarrow> (string \<times> nat) result" where
  "decode_argument payload offset = ok_or (Bail ''invalid argument'') (decode_bytes payload offset False)"

definition decode_environment_entry :: "string \<Rightarrow> nat \<Rightarrow> ((string \<times> string) \<times> nat) result" where
  "decode_environment_entry payload offset =
     rbind (ok_or (Bail ''invalid environment key'') (decode_bytes payload offset False)) (\<lambda>(key, offset).
     if CHR ''='' \<in> set key then Inl (Bail ''invalid environment key'')
     else rbind (ok_or (Bail ''invalid environment value'') (decode_bytes payload offset True)) (\<lambda>(value, offset).
     Inr ((key, value), offset)))"

fun decode_mappings :: "nat list \<Rightarrow> nat set \<Rightarrow> string \<Rightarrow> nat \<Rightarrow> ((nat \<times> nat) list \<times> nat) result" where
  "decode_mappings [] targets payload offset = Inr ([], offset)"
| "decode_mappings (source # fds) targets payload offset =
     rbind (ok_or (Bail ''missing fd target'') (decode_u32 payload offset)) (\<lambda>(word, offset).
     if unat word > 2 ^ 31 - 1 then Inl (Bail ''invalid fd target'')
     else if unat word > MAX_TARGET_FD then Inl (Bail ''invalid fd target'')
     else if unat word \<in> targets then Inl (Bail ''duplicate fd target'')
     else rbind (decode_mappings fds (insert (unat word) targets) payload offset) (\<lambda>(ms, offset).
     Inr ((unat word, source) # ms, offset)))"

definition parse_spawn :: "string \<Rightarrow> nat list \<Rightarrow> SpawnRequest result" where
  "parse_spawn payload fds =
     rbind (ok_or (Bail ''invalid cwd'') (decode_bytes payload 0 True)) (\<lambda>(dir, offset).
     rbind (ok_or (Bail ''missing argument count'') (decode_u32 payload offset)) (\<lambda>(argc, offset).
     rbind (ok_or (Bail ''missing environment count'') (decode_u32 payload offset)) (\<lambda>(envc, offset).
     rbind (ok_or (Bail ''missing fd mapping count'') (decode_u32 payload offset)) (\<lambda>(mapping_count, offset).
     rbind (ok_or (Bail ''missing flags'') (decode_u32 payload offset)) (\<lambda>(fl, offset).
     if unat argc = 0 \<or> unat argc > 256 then Inl (Bail ''invalid argument count'')
     else if unat envc > 256 then Inl (Bail ''invalid environment count'')
     else if unat mapping_count \<noteq> length fds then Inl (Bail ''fd mapping count mismatch'')
     else
       rbind (decode_many decode_argument (unat argc) payload offset) (\<lambda>(args, offset).
       rbind (decode_many decode_environment_entry (unat envc) payload offset) (\<lambda>(env, offset).
       rbind (decode_mappings fds {} payload offset) (\<lambda>(ms, offset).
       rbind (ok_or (Bail ''missing caller process id'') (decode_u32 payload offset)) (\<lambda>(pid, offset).
       if offset \<noteq> length payload then Inl (Bail ''trailing payload bytes'')
       else Inr \<lparr>cwd = (if dir = [] then None else Some dir), flags = fl, argv = args, caller_pid = pid,
              environment = env, mappings = ms\<rparr>)))))))))"

section \<open>The packet format\<close>

lemma parse_frame_frame:
  assumes "length payload \<le> MAX_PAYLOAD"
  shows "parse_frame (frame kind request payload fds @ payload) = Some (kind, request, length payload, fds)"
proof -
  have "unat (word_of_nat (length payload) :: u32) = length payload"
    using assms by (intro unat_word_of_nat32) (simp add: MAX_PAYLOAD_def)
  then show ?thesis
    using assms by (simp add: parse_frame_def frame_def HEADER_SIZE_def Let_def)
qed

lemma u32_bytes_take: "i + 4 \<le> length p \<Longrightarrow> u32_bytes (u32_from (take 4 (drop i p))) = take 4 (drop i p)"
  by (rule u32_bytes_from) simp

lemma u16_bytes_take: "i + 2 \<le> length p \<Longrightarrow> u16_bytes (u16_from (take 2 (drop i p))) = take 2 (drop i p)"
  by (rule u16_bytes_from) simp

lemma parse_frame_Some:
  assumes "parse_frame packet = Some (kind, request, len, fds)"
  shows "len \<le> MAX_PAYLOAD \<and> length (drop HEADER_SIZE packet) = len
    \<and> packet = frame kind request (drop HEADER_SIZE packet) fds @ drop HEADER_SIZE packet"
proof -
  define m v where "m = u32_from (take 4 packet)" and "v = u16_from (take 2 (drop 4 packet))"
  define k r where "k = u16_from (take 2 (drop 6 packet))" and "r = u32_from (take 4 (drop 8 packet))"
  define l f where "l = u32_from (take 4 (drop 12 packet))" and "f = u32_from (take 4 (drop 16 packet))"
  note fields = m_def v_def k_def r_def l_def f_def
  have "(if length packet < HEADER_SIZE then None
      else if m \<noteq> MAGIC \<or> v \<noteq> VERSION \<or> unat l > MAX_PAYLOAD \<or> length packet \<noteq> HEADER_SIZE + unat l
           then None else Some (k, r, unat l, f)) = Some (kind, request, len, fds)"
    using assms by (simp only: parse_frame_def Let_def fields)
  then have p: "kind = k" "request = r" "len = unat l" "fds = f" "m = MAGIC" "v = VERSION"
      "len \<le> MAX_PAYLOAD" "length packet = 20 + len"
    by (auto simp: HEADER_SIZE_def split: if_splits)
  have len: "length packet \<ge> 20" using p(8) by simp
  have "frame kind request (drop 20 packet) fds
      = u32_bytes m @ u16_bytes v @ u16_bytes k @ u32_bytes r @ u32_bytes l @ u32_bytes f"
    using p by (simp add: frame_def)
  also have "\<dots> = take 4 packet @ take 2 (drop 4 packet) @ take 2 (drop 6 packet) @ take 4 (drop 8 packet)
        @ take 4 (drop 12 packet) @ take 4 (drop 16 packet)"
  proof -
    have "m = u32_from (take 4 (drop 0 packet))" by (simp add: m_def)
    then have "u32_bytes m = take 4 packet" using u32_bytes_take [of 0 packet] len by simp
    then show ?thesis
      using len unfolding v_def k_def r_def l_def f_def
      by (subst u16_bytes_take u32_bytes_take, simp)+ simp
  qed
  also have "\<dots> = take (4 + (2 + (2 + (4 + (4 + 4))))) packet"
    by (simp only: take_add drop_drop) simp
  finally have "packet = frame kind request (drop 20 packet) fds @ drop 20 packet" by simp
  then show ?thesis using p(7,8) by (simp add: HEADER_SIZE_def)
qed


section \<open>Decoding\<close>

lemma word_of_nat_unat: "word_of_nat (unat w) = w"
  by simp

lemma decode_bytes_iff:
  assumes "small_packet p"
  shows "decode_bytes p i ae = Some (v, j) \<longleftrightarrow> reads p i (field v) j \<and> (ae \<or> v \<noteq> []) \<and> NUL \<notin> set v"
proof
  assume "decode_bytes p i ae = Some (v, j)"
  then obtain w k where w: "decode_u32 p i = Some (w, k)" and j: "checked_add k (unat w) = Some j"
      and v: "get_slice p k j = Some v" "ae \<or> v \<noteq> []" "NUL \<notin> set v"
    by (auto simp: decode_bytes_def bind_eq_Some_conv split: if_splits)
  have r: "reads p i (u32_bytes w) k" "reads p k v j"
    using w v(1) by (simp_all add: decode_u32_iff [OF assms] get_slice_reads)
  have "j = k + unat w" using j by (auto simp: checked_add_def split: if_splits)
  then have "length v = unat w" using r(2) by (simp add: reads_def)
  then have "w = word_of_nat (length v)" by simp
  then show "reads p i (field v) j \<and> (ae \<or> v \<noteq> []) \<and> NUL \<notin> set v"
    using r v by (auto simp: field_def reads_append)
next
  assume r: "reads p i (field v) j \<and> (ae \<or> v \<noteq> []) \<and> NUL \<notin> set v"
  then obtain k where k: "reads p i (u32_bytes (word_of_nat (length v))) k" "reads p k v j"
    by (auto simp: field_def reads_append)
  have len: "unat (word_of_nat (length v) :: u32) = length v"
    using k(2) assms by (intro unat_word_of_nat32) (auto dest: reads_le)
  have j: "j = k + length v" "j \<le> length p" using k(2) by (auto simp: reads_def)
  have "decode_u32 p i = Some (word_of_nat (length v), k)" using k(1) by (simp add: decode_u32_iff [OF assms])
  moreover have "get_slice p k j = Some v" using k(2) by (simp add: get_slice_reads)
  moreover have "checked_add k (length v) = Some j" using checked_add_small [of k "length v" p] j assms by simp
  ultimately show "decode_bytes p i ae = Some (v, j)" using r len by (auto simp: decode_bytes_def)
qed

definition argument_ok :: "string \<Rightarrow> bool" where
  "argument_ok v \<longleftrightarrow> v \<noteq> [] \<and> NUL \<notin> set v"

definition environment_ok :: "string \<times> string \<Rightarrow> bool" where
  "environment_ok = (\<lambda>(k, v). k \<noteq> [] \<and> NUL \<notin> set k \<and> CHR ''='' \<notin> set k \<and> NUL \<notin> set v)"

definition environment_field :: "string \<times> string \<Rightarrow> string" where
  "environment_field = (\<lambda>(k, v). field k @ field v)"

interpretation argument: wire_decoder decode_argument field argument_ok
  by unfold_locales (auto simp: decode_argument_def argument_ok_def decode_bytes_iff)

interpretation entry: wire_decoder decode_environment_entry environment_field environment_ok
proof
  fix p i and x :: "string \<times> string" and j assume small: "small_packet p"
  obtain k v where x: "x = (k, v)" by (cases x)
  show "decode_environment_entry p i = Inr (x, j) \<longleftrightarrow> reads p i (environment_field x) j \<and> environment_ok x"
    by (auto simp: decode_environment_entry_def rbind_Inr_iff decode_bytes_iff [OF small] reads_append
        environment_field_def environment_ok_def x split: if_splits)
qed

definition target_bytes :: "(nat \<times> nat) \<Rightarrow> string" where
  "target_bytes m = u32_bytes (word_of_nat (fst m))"

lemma decode_mappings_iff:
  assumes "small_packet p" "i \<le> length p"
  shows "decode_mappings fds T p i = Inr (ms, j)
    \<longleftrightarrow> reads p i (concat (map target_bytes ms)) j \<and> map snd ms = fds \<and> distinct (map fst ms)
        \<and> set (map fst ms) \<inter> T = {} \<and> (\<forall>x \<in> set (map fst ms). x \<le> MAX_TARGET_FD)"
  using assms(2)
proof (induction fds arbitrary: T i ms)
  case Nil
  then show ?case by auto
next
  case (Cons source fds)
  have small: "x \<le> MAX_TARGET_FD \<Longrightarrow> unat (word_of_nat x :: u32) = x" for x
    by (rule unat_word_of_nat32) (simp add: MAX_TARGET_FD_def)
  have range: "unat w \<le> MAX_TARGET_FD \<Longrightarrow> unat w \<le> 2 ^ 31 - 1" for w :: u32
    by (simp add: MAX_TARGET_FD_def)
  have "decode_mappings (source # fds) T p i = Inr (ms, j) \<longleftrightarrow>
      (\<exists>w k ms'. reads p i (u32_bytes w) k \<and> unat w \<le> MAX_TARGET_FD \<and> unat w \<notin> T
         \<and> decode_mappings fds (insert (unat w) T) p k = Inr (ms', j) \<and> ms = (unat w, source) # ms')"
    unfolding decode_mappings.simps rbind_Inr_iff ok_or_Inr_iff split_paired_Ex case_prod_conv guard_Inr_iff
      decode_u32_iff [OF assms(1)] sum.inject prod.inject not_less
    using range by blast
  also have "\<dots> \<longleftrightarrow> (\<exists>x k ms'. reads p i (u32_bytes (word_of_nat x)) k \<and> x \<le> MAX_TARGET_FD \<and> x \<notin> T
         \<and> decode_mappings fds (insert x T) p k = Inr (ms', j) \<and> ms = (x, source) # ms')"
    using small by (metis word_of_nat_unat)
  also have "\<dots> \<longleftrightarrow> (\<exists>x k ms'. reads p i (u32_bytes (word_of_nat x)) k \<and> x \<le> MAX_TARGET_FD \<and> x \<notin> T
         \<and> (reads p k (concat (map target_bytes ms')) j \<and> map snd ms' = fds \<and> distinct (map fst ms')
           \<and> set (map fst ms') \<inter> insert x T = {} \<and> (\<forall>y \<in> set (map fst ms'). y \<le> MAX_TARGET_FD))
         \<and> ms = (x, source) # ms')"
    using Cons.IH reads_le by (metis (no_types, lifting))
  also have "\<dots> \<longleftrightarrow> reads p i (concat (map target_bytes ms)) j \<and> map snd ms = source # fds \<and> distinct (map fst ms)
        \<and> set (map fst ms) \<inter> T = {} \<and> (\<forall>x \<in> set (map fst ms). x \<le> MAX_TARGET_FD)"
    by (cases ms) (auto simp: reads_append target_bytes_def disjoint_iff simp del: set_map, (auto simp: image_iff)?)
  finally show ?case .
qed

text \<open>The packet of a spawn request.\<close>

definition spawn_payload :: "SpawnRequest \<Rightarrow> string" where
  "spawn_payload r =
     field (case cwd r of None \<Rightarrow> [] | Some dir \<Rightarrow> dir)
     @ u32_bytes (word_of_nat (length (argv r))) @ u32_bytes (word_of_nat (length (environment r)))
     @ u32_bytes (word_of_nat (length (mappings r))) @ u32_bytes (flags r)
     @ concat (map field (argv r)) @ concat (map environment_field (environment r))
     @ concat (map target_bytes (mappings r)) @ u32_bytes (caller_pid r)"

definition valid_spawn :: "SpawnRequest \<Rightarrow> bool" where
  "valid_spawn r \<longleftrightarrow>
     cwd r \<noteq> Some [] \<and> (\<forall>dir. cwd r = Some dir \<longrightarrow> NUL \<notin> set dir)
     \<and> argv r \<noteq> [] \<and> length (argv r) \<le> 256 \<and> list_all argument_ok (argv r)
     \<and> length (environment r) \<le> 256 \<and> list_all environment_ok (environment r)
     \<and> distinct (map fst (mappings r)) \<and> (\<forall>x \<in> set (map fst (mappings r)). x \<le> MAX_TARGET_FD)"

lemma parse_spawn_run:
  assumes small: "small_packet p"
  shows "parse_spawn p fds = Inr r \<longleftrightarrow>
    (\<exists>dir i1 argc i2 envc i3 mapc i4 fl i5 args i6 env i7 ms i8 pid.
       reads p 0 (field dir) i1 \<and> NUL \<notin> set dir \<and> reads p i1 (u32_bytes argc) i2 \<and> reads p i2 (u32_bytes envc) i3
       \<and> reads p i3 (u32_bytes mapc) i4 \<and> reads p i4 (u32_bytes fl) i5
       \<and> unat argc \<noteq> 0 \<and> unat argc \<le> 256 \<and> unat envc \<le> 256 \<and> unat mapc = length fds
       \<and> decode_many decode_argument (unat argc) p i5 = Inr (args, i6)
       \<and> decode_many decode_environment_entry (unat envc) p i6 = Inr (env, i7)
       \<and> decode_mappings fds {} p i7 = Inr (ms, i8) \<and> reads p i8 (u32_bytes pid) (length p)
       \<and> r = \<lparr>cwd = (if dir = [] then None else Some dir), flags = fl, argv = args, caller_pid = pid,
              environment = env, mappings = ms\<rparr>)"
  unfolding parse_spawn_def rbind_Inr_iff ok_or_Inr_iff split_paired_Ex case_prod_conv guard_Inr_iff
    decode_bytes_iff [OF small] decode_u32_iff [OF small] simp_thms not_less de_Morgan_disj
  by blast


lemma parse_spawn_sound:
  assumes small: "small_packet payload" and run: "parse_spawn payload fds = Inr r"
  shows "payload = spawn_payload r \<and> valid_spawn r \<and> map snd (mappings r) = fds"
proof -
  from run obtain dir i1 argc i2 envc i3 mapc i4 fl i5 args i6 env i7 ms i8 pid where
    h: "reads payload 0 (field dir) i1" "NUL \<notin> set dir" "reads payload i1 (u32_bytes argc) i2"
       "reads payload i2 (u32_bytes envc) i3" "reads payload i3 (u32_bytes mapc) i4" "reads payload i4 (u32_bytes fl) i5"
       "unat argc \<noteq> 0" "unat argc \<le> 256" "unat envc \<le> 256" "unat mapc = length fds"
    and a: "decode_many decode_argument (unat argc) payload i5 = Inr (args, i6)"
    and e: "decode_many decode_environment_entry (unat envc) payload i6 = Inr (env, i7)"
    and m: "decode_mappings fds {} payload i7 = Inr (ms, i8)" and pid: "reads payload i8 (u32_bytes pid) (length payload)"
    and r: "r = \<lparr>cwd = (if dir = [] then None else Some dir), flags = fl, argv = args, caller_pid = pid,
            environment = env, mappings = ms\<rparr>"
    unfolding parse_spawn_run [OF small] by blast
  have a: "reads payload i5 (concat (map field args)) i6" "length args = unat argc" "list_all argument_ok args"
    using a argument.decode_many_iff [OF small] reads_le [OF h(6)] by auto
  have e: "reads payload i6 (concat (map environment_field env)) i7" "length env = unat envc" "list_all environment_ok env"
    using e entry.decode_many_iff [OF small] reads_le [OF a(1)] by auto
  have m: "reads payload i7 (concat (map target_bytes ms)) i8" "map snd ms = fds" "distinct (map fst ms)"
      "\<forall>x \<in> set (map fst ms). x \<le> MAX_TARGET_FD"
    using m decode_mappings_iff [OF small] reads_le [OF e(1)] by auto
  have counts: "word_of_nat (length args) = argc" "word_of_nat (length env) = envc" "word_of_nat (length ms) = mapc"
    using a(2) e(2) m(2) h(10) by (simp_all, metis length_map word_of_nat_unat)
  have dir: "(case cwd r of None \<Rightarrow> [] | Some dir \<Rightarrow> dir) = dir" by (simp add: r)
  have "reads payload 0 (spawn_payload r) (length payload)"
    unfolding spawn_payload_def dir reads_append
    unfolding r SpawnRequest.simps counts
    using h(1,3-6) a(1) e(1) m(1) pid by blast
  then have "payload = spawn_payload r" by (simp add: reads_all)
  moreover have "valid_spawn r"
    unfolding valid_spawn_def r using h(2,7-9) a(2,3) e(2,3) m(3,4) by auto
  ultimately show ?thesis
    using m(2) by (simp add: r)
qed

lemma parse_spawn_complete:
  assumes small: "small_packet payload"
    and request: "payload = spawn_payload r \<and> valid_spawn r \<and> map snd (mappings r) = fds"
  shows "parse_spawn payload fds = Inr r"
proof -
  from request have pay: "reads payload 0 (spawn_payload r) (length payload)" and ok: "valid_spawn r"
    and snd: "map snd (mappings r) = fds" by (simp_all add: reads_all)
  define dir where "dir = (case cwd r of None \<Rightarrow> [] | Some dir \<Rightarrow> dir)"
  from pay obtain i1 i2 i3 i4 i5 i6 i7 i8 where h: "reads payload 0 (field dir) i1"
      "reads payload i1 (u32_bytes (word_of_nat (length (argv r)))) i2"
      "reads payload i2 (u32_bytes (word_of_nat (length (environment r)))) i3"
      "reads payload i3 (u32_bytes (word_of_nat (length (mappings r)))) i4"
      "reads payload i4 (u32_bytes (flags r)) i5" "reads payload i5 (concat (map field (argv r))) i6"
      "reads payload i6 (concat (map environment_field (environment r))) i7"
      "reads payload i7 (concat (map target_bytes (mappings r))) i8"
      "reads payload i8 (u32_bytes (caller_pid r)) (length payload)"
    unfolding spawn_payload_def dir_def [symmetric] reads_append by blast
  have "length (concat (map target_bytes ms)) = 4 * length ms" for ms
    by (induction ms) (simp_all add: target_bytes_def)
  then have "length (mappings r) \<le> length payload" using reads_le [OF h(8)] by simp
  then have counts: "unat (word_of_nat (length (argv r)) :: u32) = length (argv r)"
      "unat (word_of_nat (length (environment r)) :: u32) = length (environment r)"
      "unat (word_of_nat (length (mappings r)) :: u32) = length (mappings r)"
    using ok small by (simp_all only: unat_word_of_nat32) (simp_all add: valid_spawn_def unat_word_of_nat32)
  have a: "decode_many decode_argument (length (argv r)) payload i5 = Inr (argv r, i6)"
    using argument.decode_many_iff [OF small] reads_le [OF h(5)] h(6) ok by (simp add: valid_spawn_def)
  have e: "decode_many decode_environment_entry (length (environment r)) payload i6 = Inr (environment r, i7)"
    using entry.decode_many_iff [OF small] reads_le [OF h(6)] h(7) ok by (simp add: valid_spawn_def)
  have m: "decode_mappings fds {} payload i7 = Inr (mappings r, i8)"
    using decode_mappings_iff [OF small] reads_le [OF h(7)] h(8) ok snd by (simp add: valid_spawn_def)
  have dir: "NUL \<notin> set dir" "cwd r = (if dir = [] then None else Some dir)"
    using ok by (auto simp: valid_spawn_def dir_def split: option.splits)
  show ?thesis
    unfolding parse_spawn_run [OF small]
    by (rule exI [of _ dir], rule exI [of _ i1], rule exI [of _ "word_of_nat (length (argv r))"], rule exI [of _ i2],
        rule exI [of _ "word_of_nat (length (environment r))"], rule exI [of _ i3],
        rule exI [of _ "word_of_nat (length (mappings r))"], rule exI [of _ i4], rule exI [of _ "flags r"],
        rule exI [of _ i5], rule exI [of _ "argv r"], rule exI [of _ i6], rule exI [of _ "environment r"],
        rule exI [of _ i7], rule exI [of _ "mappings r"], rule exI [of _ i8], rule exI [of _ "caller_pid r"])
       (use h a e m dir ok snd counts in \<open>auto simp: valid_spawn_def\<close>)
qed

text \<open>
  C13. The spawn request decoder accepts exactly the canonical packets: \<^verbatim>\<open>parse_spawn\<close> succeeds on a
  payload and a list of received descriptors iff the payload is the encoding of a valid request
  whose mappings pair the requested targets with those descriptors in order, and then it returns
  that request. Arguments and environment are free of NUL, no key is empty or holds an equals
  sign, and no two descriptors share a target.
\<close>

theorem parse_spawn_exact:
  assumes "length payload \<le> MAX_PAYLOAD"
  shows "parse_spawn payload fds = Inr r
    \<longleftrightarrow> payload = spawn_payload r \<and> valid_spawn r \<and> map snd (mappings r) = fds"
proof -
  have "small_packet payload" using assms by (simp add: MAX_PAYLOAD_def)
  then show ?thesis using parse_spawn_sound parse_spawn_complete by blast
qed


definition demo_spawn :: SpawnRequest where
  "demo_spawn = \<lparr>cwd = Some ''/app'', flags = 0x44, argv = [''sh''], caller_pid = 7,
     environment = [(''A'', ''b'')], mappings = [(9, 4)]\<rparr>"

lemma demo_spawn_valid: "valid_spawn demo_spawn"
  by (simp add: valid_spawn_def demo_spawn_def argument_ok_def environment_ok_def MAX_TARGET_FD_def)

theorem parse_spawn_exact_witness:
  "parse_spawn (spawn_payload demo_spawn) [4] = Inr demo_spawn"
proof -
  have "length (spawn_payload demo_spawn) \<le> MAX_PAYLOAD"
    by (simp add: spawn_payload_def demo_spawn_def field_def environment_field_def target_bytes_def MAX_PAYLOAD_def)
  from parse_spawn_exact [OF this, of "[4]" demo_spawn] demo_spawn_valid show ?thesis
    by (simp add: demo_spawn_def)
qed

end
