(* ===== verification/Secure_Launch.thy ===== *)
theory Secure_Launch
  imports Paths Wire Descriptors
begin

text \<open>
  The set-user-ID launcher (\<^verbatim>\<open>src/src/secure_launch.rs\<close>): the command line the runner builds, its
  parser, the validation of a request against its caller, the packets between the nested client and
  the nested daemon, and the privileged sequence that enters the sandbox and drops credentials.

  The kernel is a record of what its calls answer. A path argument is kept as the string it is; the
  kernel's \<^verbatim>\<open>canonicalize\<close> gives its components. \<^verbatim>\<open>u32\<close>, \<^verbatim>\<open>u64\<close> and descriptor numbers are naturals within
  the bounds their parsers enforce.
\<close>

definition HELPER_PATH :: string where
  "HELPER_PATH = ''/usr/local/libexec/freebsd-flatpak/secure-launch''"

definition NESTED_CLIENT_PATH :: string where
  "NESTED_CLIENT_PATH = ''/usr/local/libexec/freebsd-flatpak/secure-launch-client''"

definition MAX_MAPPED_FDS :: nat where "MAX_MAPPED_FDS = 32"
definition MAX_LAUNCH_FD :: nat where "MAX_LAUNCH_FD = 65535"
definition MAX_ARGUMENTS :: nat where "MAX_ARGUMENTS = 1024"
definition MAX_ENVIRONMENT :: nat where "MAX_ENVIRONMENT = 512"
definition MAX_NESTED_PACKET :: nat where "MAX_NESTED_PACKET = 65536"
definition NESTED_MAGIC :: u32 where "NESTED_MAGIC = 0x46534C4A"

section \<open>What the kernel answers\<close>

record launch_os =
  canonicalize :: "string \<Rightarrow> path result"
  owner_and_mode :: "path \<Rightarrow> (nat \<times> nat) result"
  directory_identity :: "path \<Rightarrow> (nat \<times> nat) result"
  directory_owner :: "path \<Rightarrow> nat result"
  flatpak_info :: "path \<Rightarrow> (nat \<times> bool) result"
  caller_groups :: "nat list result"
  account_groups :: "nat \<Rightarrow> nat list result"

section \<open>The command line\<close>

record LaunchRequest =
  lr_root :: string
  lr_runtime_root :: string
  lr_uid :: nat
  lr_gid :: nat
  lr_supplementary_gids :: "nat list"
  lr_mapped_fds :: "nat list"
  lr_cwd :: "string option"
  lr_nested_sandbox :: bool
  lr_no_network :: bool
  lr_started_fd :: "nat option"
  lr_environment :: "(string \<times> string) list"
  lr_argv :: "string list"

record Command =
  program :: string
  arguments :: "string list"
  command_env :: "(string \<times> string) list"

definition comma_list :: "nat list \<Rightarrow> string" where
  "comma_list ns = join_with '','' (map nat_digits ns)"

definition environment_entry_ok :: "string \<times> string \<Rightarrow> bool" where
  "environment_entry_ok = (\<lambda>(key, v). \<not> (key = [] \<or> CHR ''='' \<in> set key \<or> CHR 0x00 \<in> set key \<or> CHR 0x00 \<in> set v))"

definition command :: "launch_os \<Rightarrow> LaunchRequest \<Rightarrow> Command result" where
  "command os r =
     (if lr_argv r = [] \<or> length (lr_argv r) > MAX_ARGUMENTS \<or> length (lr_environment r) > MAX_ENVIRONMENT
         \<or> length (lr_mapped_fds r) > MAX_MAPPED_FDS
      then Inl (Bail ''invalid secure launch request size'')
      else
        rbind (with_context (''canonicalize '' @ lr_root r) (canonicalize os (lr_root r))) (\<lambda>root.
        rbind (with_context (''canonicalize '' @ lr_runtime_root r) (canonicalize os (lr_runtime_root r))) (\<lambda>runtime_root.
        rbind (directory_identity os root) (\<lambda>identity.
        let nested = lr_nested_sandbox r \<or> lr_no_network r;
            args = [display_path root, display_path runtime_root, nat_digits (fst identity), nat_digits (snd identity),
                    nat_digits (lr_uid r), nat_digits (lr_gid r), comma_list (lr_supplementary_gids r),
                    (case lr_cwd r of None \<Rightarrow> ''-'' | Some dir \<Rightarrow> dir),
                    (if lr_no_network r then ''no-network'' else if lr_nested_sandbox r then ''sandbox'' else ''direct''),
                    comma_list (lr_mapped_fds r), nat_digits (length (lr_environment r))]
        in if list_ex (\<lambda>e. \<not> environment_entry_ok e) (lr_environment r)
           then Inl (Bail ''invalid launch environment entry'')
           else Inr \<lparr>program = (if nested then NESTED_CLIENT_PATH else HELPER_PATH),
                  arguments = args @ map (\<lambda>(key, v). key @ ''='' @ v) (lr_environment r) @ [''--''] @ lr_argv r,
                  command_env = (case lr_started_fd r of None \<Rightarrow> []
                    | Some fd \<Rightarrow> [(''FREEBSD_FLATPAK_LAUNCH_STARTED_FD'', nat_digits fd)])\<rparr>))))"

section \<open>Requests\<close>

datatype JailMode = Direct | Sandbox | NoNetwork

record Request =
  root :: string
  runtime_root :: string
  root_device :: nat
  root_inode :: nat
  uid :: nat
  gid :: nat
  groups :: "nat list"
  launch_cwd :: "string option"
  jail_mode :: JailMode
  mapped_fds :: "nat list"
  launch_environment :: "string list"
  launch_argv :: "string list"

definition required :: "string \<Rightarrow> string list \<Rightarrow> (string \<times> string list) result" where
  "required label args =
     (case args of [] \<Rightarrow> Inl (Bail (''missing '' @ label)) | a # rest \<Rightarrow> Inr (a, rest))"

definition parse_number :: "nat \<Rightarrow> string \<Rightarrow> string \<Rightarrow> nat result" where
  "parse_number bound v label =
     (if \<not> utf8_ok v then Inl (Bail (label @ '' is not UTF-8''))
      else ok_or (Bail (''invalid '' @ label)) (parse_uint bound v))"

definition parse_jail_mode :: "string \<Rightarrow> JailMode result" where
  "parse_jail_mode v =
     (if v = ''direct'' then Inr Direct
      else if v = ''sandbox'' then Inr Sandbox
      else if v = ''no-network'' then Inr NoNetwork
      else Inl (Bail ''invalid launch isolation mode''))"

fun parse_groups_loop :: "nat set \<Rightarrow> string list \<Rightarrow> nat list result" where
  "parse_groups_loop seen [] = Inr []"
| "parse_groups_loop seen (g # gs) =
     rbind (ok_or (Bail ''invalid supplementary group'') (parse_uint u32_max g)) (\<lambda>n.
     if n \<in> seen then Inl (Bail ''duplicate supplementary group'')
     else rbind (parse_groups_loop (insert n seen) gs) (\<lambda>ns. Inr (n # ns)))"

definition parse_groups :: "string \<Rightarrow> nat list result" where
  "parse_groups v =
     (if \<not> utf8_ok v then Inl (Bail ''supplementary groups are not UTF-8'')
      else if v = [] then Inr [] else parse_groups_loop {} (split_on (CHR '','') v))"

definition parse_mapped_fds :: "string \<Rightarrow> nat list result" where
  "parse_mapped_fds v =
     (if \<not> utf8_ok v then Inl (Bail ''mapped file descriptors are not UTF-8'')
      else if v = [] then Inr []
      else
        rbind (traverse (\<lambda>fd. ok_or (Bail ''invalid mapped file descriptor'') (parse_sint 32 fd)) (split_on (CHR '','') v)) (\<lambda>fds.
        if length fds > MAX_MAPPED_FDS \<or> list_ex (\<lambda>fd. fd < 0 \<or> fd > int MAX_LAUNCH_FD) fds \<or> \<not> distinct fds
        then Inl (Bail ''invalid mapped file descriptors'') else Inr (map nat fds)))"

definition validate_environment :: "string \<Rightarrow> unit result" where
  "validate_environment entry =
     (if (entry \<noteq> [] \<and> hd entry = CHR ''='') \<or> CHR ''='' \<notin> set entry
      then Inl (Bail ''invalid launch environment entry'') else Inr ())"

fun take_environment :: "nat \<Rightarrow> string list \<Rightarrow> (string list \<times> string list) result" where
  "take_environment 0 args = Inr ([], args)"
| "take_environment (Suc n) args =
     rbind (required ''environment entry'' args) (\<lambda>(entry, args).
     rbind (validate_environment entry) (\<lambda>_.
     rbind (take_environment n args) (\<lambda>(es, args). Inr (entry # es, args))))"

definition Request_parse :: "string list \<Rightarrow> Request result" where
  "Request_parse args =
     (let args = tl args in
      rbind (required ''sandbox root'' args) (\<lambda>(rt, args).
      rbind (required ''runtime root'' args) (\<lambda>(runtime, args).
      rbind (required ''sandbox root device'' args) (\<lambda>(v, args).
      rbind (parse_number u64_max v ''sandbox root device'') (\<lambda>device.
      rbind (required ''sandbox root inode'' args) (\<lambda>(v, args).
      rbind (parse_number u64_max v ''sandbox root inode'') (\<lambda>inode.
      rbind (required ''uid'' args) (\<lambda>(v, args).
      rbind (parse_number u32_max v ''uid'') (\<lambda>user.
      rbind (required ''gid'' args) (\<lambda>(v, args).
      rbind (parse_number u32_max v ''gid'') (\<lambda>group.
      rbind (required ''supplementary groups'' args) (\<lambda>(v, args).
      rbind (parse_groups v) (\<lambda>gs.
      rbind (required ''working directory'' args) (\<lambda>(dir, args).
      rbind (required ''launch isolation mode'' args) (\<lambda>(v, args).
      rbind (parse_jail_mode v) (\<lambda>mode.
      rbind (required ''mapped file descriptors'' args) (\<lambda>(v, args).
      rbind (parse_mapped_fds v) (\<lambda>fds.
      rbind (required ''environment count'' args) (\<lambda>(v, args).
      rbind (parse_number u64_max v ''environment count'') (\<lambda>count.
      if count > MAX_ENVIRONMENT then Inl (Bail ''too many launch environment entries'')
      else
        rbind (take_environment count args) (\<lambda>(env, args).
        (case args of
           [] \<Rightarrow> Inl (Bail ''secure launch request is missing argument separator'')
         | sep # prog \<Rightarrow>
             if sep \<noteq> ''--'' then Inl (Bail ''secure launch request is missing argument separator'')
             else if prog = [] \<or> length prog > MAX_ARGUMENTS
             then Inl (Bail ''invalid secure launch program arguments'')
             else Inr \<lparr>root = rt, runtime_root = runtime, root_device = device, root_inode = inode,
                    uid = user, gid = group, groups = gs, launch_cwd = (if dir = ''-'' then None else Some dir),
                    jail_mode = mode, mapped_fds = fds, launch_environment = env, launch_argv = prog\<rparr>))))))))))))))))))))))"

fun jail_mode_name :: "JailMode \<Rightarrow> string" where
  "jail_mode_name Direct = ''direct''"
| "jail_mode_name Sandbox = ''sandbox''"
| "jail_mode_name NoNetwork = ''no-network''"

definition wire_arguments :: "Request \<Rightarrow> string list" where
  "wire_arguments r =
     [''secure-launch'', root r, runtime_root r, nat_digits (root_device r), nat_digits (root_inode r),
      nat_digits (uid r), nat_digits (gid r), comma_list (groups r),
      (case launch_cwd r of None \<Rightarrow> ''-'' | Some dir \<Rightarrow> dir), jail_mode_name (jail_mode r),
      comma_list (mapped_fds r), nat_digits (length (launch_environment r))]
     @ launch_environment r @ [''--''] @ launch_argv r"

section \<open>Validation\<close>

definition validate_cwd :: "string \<Rightarrow> string \<Rightarrow> unit result" where
  "validate_cwd msg dir =
     (let p = parse_path dir in
      if \<not> is_absolute p \<or> list_ex (\<lambda>c. \<not> (c = RootDir \<or> is_normal c)) p
      then Inl (Bail msg) else Inr ())"

definition group_other_bits :: "nat \<Rightarrow> nat" where
  "group_other_bits mode = mode mod 64"

definition validate_sandbox_root :: "launch_os \<Rightarrow> string \<Rightarrow> string \<Rightarrow> nat \<Rightarrow> nat \<Rightarrow> nat \<Rightarrow> unit result" where
  "validate_sandbox_root os rt runtime device inode user =
     rbind (with_context (''canonicalize sandbox root '' @ rt) (canonicalize os rt)) (\<lambda>rt.
     rbind (with_context (''canonicalize runtime root '' @ runtime) (canonicalize os runtime)) (\<lambda>runtime.
     rbind (with_context ''inspect sandbox runtime root'' (owner_and_mode os runtime)) (\<lambda>(owner, mode).
     if owner \<noteq> user \<or> group_other_bits mode \<noteq> 0
     then Inl (Bail ''sandbox runtime root is not private to caller'')
     else
       (case path_strip_prefix rt (path_join runtime (parse_path ''chroots'')) of
          None \<Rightarrow> Inl (Bail ''sandbox root is outside freebsd-flatpak chroots'')
        | Some parts \<Rightarrow>
            if length parts \<noteq> 2 \<or> list_ex (\<lambda>c. case c of Normal name \<Rightarrow> name = [] | _ \<Rightarrow> True) parts
            then Inl (Bail ''sandbox root is not a freebsd-flatpak instance'')
            else
              rbind (directory_identity os rt) (\<lambda>identity.
              if identity \<noteq> (device, inode) then Inl (Bail ''sandbox root identity does not match request'')
              else
                rbind (with_context ''open sandbox .flatpak-info'' (flatpak_info os rt)) (\<lambda>(info_owner, regular).
                rbind (directory_owner os rt) (\<lambda>root_owner.
                if root_owner \<noteq> user \<or> info_owner \<noteq> user \<or> \<not> regular
                then Inl (Bail ''sandbox root or .flatpak-info is not caller-owned and regular'')
                else Inr ())))))))"

definition validate :: "launch_os \<Rightarrow> Request \<Rightarrow> nat \<Rightarrow> nat \<Rightarrow> unit result" where
  "validate os r real_uid real_gid =
     (if uid r \<noteq> real_uid \<or> gid r \<noteq> real_gid then Inl (Bail ''secure launch credentials do not match caller'')
      else
        rbind (caller_groups os) (\<lambda>held.
        if list_ex (\<lambda>g. g \<notin> set (real_gid # held)) (groups r)
        then Inl (Bail ''secure launch requested a group not held by caller'')
        else
          rbind (validate_sandbox_root os (root r) (runtime_root r) (root_device r) (root_inode r) real_uid) (\<lambda>_.
          (case launch_cwd r of
             None \<Rightarrow> Inr ()
           | Some dir \<Rightarrow>
               validate_cwd ''secure launch working directory must be an absolute normalized sandbox path'' dir))))"

definition validate_for_peer :: "launch_os \<Rightarrow> Request \<Rightarrow> nat \<Rightarrow> nat \<Rightarrow> unit result" where
  "validate_for_peer os r peer_uid peer_gid =
     (if uid r \<noteq> peer_uid \<or> gid r \<noteq> peer_gid then Inl (Bail ''nested request credentials do not match socket peer'')
      else
        rbind (account_groups os peer_uid) (\<lambda>held.
        if list_ex (\<lambda>g. g \<notin> set (peer_gid # held)) (groups r)
        then Inl (Bail ''nested request includes a group not held by socket peer'')
        else
          rbind (validate_sandbox_root os (root r) (runtime_root r) (root_device r) (root_inode r) peer_uid) (\<lambda>_.
          (case launch_cwd r of
             None \<Rightarrow> Inr ()
           | Some dir \<Rightarrow>
               validate_cwd ''nested working directory must be an absolute normalized sandbox path'' dir))))"


section \<open>Requests on the wire\<close>

definition valid_request :: "Request \<Rightarrow> bool" where
  "valid_request r \<longleftrightarrow>
     root_device r \<le> u64_max \<and> root_inode r \<le> u64_max \<and> uid r \<le> u32_max \<and> gid r \<le> u32_max
     \<and> (\<forall>g \<in> set (groups r). g \<le> u32_max) \<and> distinct (groups r)
     \<and> (\<forall>fd \<in> set (mapped_fds r). fd \<le> MAX_LAUNCH_FD) \<and> distinct (mapped_fds r) \<and> length (mapped_fds r) \<le> MAX_MAPPED_FDS
     \<and> launch_cwd r \<noteq> Some ''-''
     \<and> (\<forall>e \<in> set (launch_environment r). validate_environment e = Inr ()) \<and> length (launch_environment r) \<le> MAX_ENVIRONMENT
     \<and> launch_argv r \<noteq> [] \<and> length (launch_argv r) \<le> MAX_ARGUMENTS"

lemma utf8_ok_ascii: "\<forall>c \<in> set s. of_char c < (128 :: nat) \<Longrightarrow> utf8_ok s"
proof -
  have "valid_utf8 bs" if "\<forall>b \<in> set bs. b < 128" for bs
    using that by (induction bs) (subst valid_utf8.simps, simp)+
  then show "\<forall>c \<in> set s. of_char c < (128 :: nat) \<Longrightarrow> utf8_ok s" by (simp add: utf8_ok_def)
qed

lemma nat_digits_ascii: "c \<in> set (nat_digits n) \<Longrightarrow> of_char c < (128 :: nat)"
  using nat_digits_digit [of c n] by (auto simp: char_class_defs)

lemma nat_digits_no_comma: "CHR '','' \<notin> set (nat_digits n)"
  using nat_digits_digit [of "CHR '',''" n] by (auto simp: char_class_defs)

lemma parse_number_digits [simp]: "n \<le> bound \<Longrightarrow> parse_number bound (nat_digits n) label = Inr n"
  using utf8_ok_ascii [of "nat_digits n"] nat_digits_ascii by (auto simp: parse_number_def)

lemma utf8_comma_list: "utf8_ok (comma_list ns)"
proof (rule utf8_ok_ascii)
  show "\<forall>c \<in> set (comma_list ns). of_char c < (128 :: nat)"
    unfolding comma_list_def
  proof (induction ns)
    case (Cons n ns)
    then show ?case using nat_digits_ascii [of _ n] by (cases ns) auto
  qed simp
qed

lemma comma_list_Nil [simp]: "comma_list ns = [] \<longleftrightarrow> ns = []"
  by (cases ns; cases "tl ns") (auto simp: comma_list_def)

lemma split_comma_list: "ns \<noteq> [] \<Longrightarrow> split_on (CHR '','') (comma_list ns) = map nat_digits ns"
  unfolding comma_list_def by (rule split_on_join_with) (auto simp: nat_digits_no_comma)

lemma parse_groups_loop_digits:
  "distinct ns \<Longrightarrow> set ns \<inter> seen = {} \<Longrightarrow> \<forall>n \<in> set ns. n \<le> u32_max
    \<Longrightarrow> parse_groups_loop seen (map nat_digits ns) = Inr ns"
  by (induction ns arbitrary: seen) auto

lemma parse_groups_comma_list:
  "distinct ns \<Longrightarrow> \<forall>n \<in> set ns. n \<le> u32_max \<Longrightarrow> parse_groups (comma_list ns) = Inr ns"
  by (simp add: parse_groups_def utf8_comma_list split_comma_list parse_groups_loop_digits)

lemma parse_sint_digits: "n \<le> MAX_LAUNCH_FD \<Longrightarrow> parse_sint 32 (nat_digits n) = Some (int n)"
  using parse_sint_int_digits [of 32 "int n"] by (simp add: int_digits_def MAX_LAUNCH_FD_def)

lemma parse_mapped_fds_comma_list:
  assumes "distinct ns" "\<forall>n \<in> set ns. n \<le> MAX_LAUNCH_FD" "length ns \<le> MAX_MAPPED_FDS"
  shows "parse_mapped_fds (comma_list ns) = Inr ns"
proof (cases "ns = []")
  case False
  have "traverse (\<lambda>fd. ok_or (Bail ''invalid mapped file descriptor'') (parse_sint 32 fd)) (map nat_digits ns)
      = Inr (map int ns)"
    using assms(2) by (induction ns) (auto simp: parse_sint_digits)
  then show ?thesis
    using assms False
    by (auto simp: parse_mapped_fds_def utf8_comma_list split_comma_list list_ex_iff distinct_map comp_def)
next
  case True
  then show ?thesis by (simp add: parse_mapped_fds_def utf8_comma_list [of "[]", simplified comma_list_def, simplified] comma_list_def)
qed

lemma take_environment_append:
  "\<forall>e \<in> set es. validate_environment e = Inr () \<Longrightarrow> take_environment (length es) (es @ args) = Inr (es, args)"
  by (induction es) (simp_all add: required_def)

lemma parse_wire_arguments:
  assumes "valid_request r"
  shows "Request_parse (wire_arguments r) = Inr r"
proof -
  have mode: "parse_jail_mode (jail_mode_name m) = Inr m" for m
    by (cases m) (simp_all add: parse_jail_mode_def)
  have dir: "(if (case launch_cwd r of None \<Rightarrow> ''-'' | Some dir \<Rightarrow> dir) = ''-'' then None
      else Some (case launch_cwd r of None \<Rightarrow> ''-'' | Some dir \<Rightarrow> dir)) = launch_cwd r"
    using assms by (auto simp: valid_request_def split: option.splits)
  have len: "length (launch_environment r) \<le> u64_max"
    using assms by (simp add: valid_request_def MAX_ENVIRONMENT_def)
  show ?thesis
    using assms len take_environment_append [of "launch_environment r" "''--'' # launch_argv r"]
    unfolding Request_parse_def wire_arguments_def Let_def
    by (simp add: required_def mode parse_groups_comma_list parse_mapped_fds_comma_list dir valid_request_def)
qed


lemma parse_number_bound: "parse_number bound v label = Inr n \<Longrightarrow> n \<le> bound"
  by (auto simp: parse_number_def parse_uint_def parse_digits_def split: if_splits)

lemma parse_groups_loop_ok:
  "parse_groups_loop seen gs = Inr ns \<Longrightarrow> distinct ns \<and> set ns \<inter> seen = {} \<and> (\<forall>n \<in> set ns. n \<le> u32_max)"
proof (induction gs arbitrary: seen ns)
  case (Cons g gs)
  then obtain n ms where "parse_uint u32_max g = Some n" "n \<notin> seen" "parse_groups_loop (insert n seen) gs = Inr ms"
      "ns = n # ms"
    by (auto simp: rbind_Inr_iff split: if_splits)
  moreover have "n \<le> u32_max" using calculation(1) by (auto simp: parse_uint_def parse_digits_def split: if_splits)
  ultimately show ?case using Cons.IH [of "insert n seen" ms] by auto
qed simp

lemma parse_groups_ok: "parse_groups v = Inr ns \<Longrightarrow> distinct ns \<and> (\<forall>n \<in> set ns. n \<le> u32_max)"
  using parse_groups_loop_ok by (fastforce simp: parse_groups_def split: if_splits)

lemma parse_mapped_fds_ok:
  "parse_mapped_fds v = Inr ns
    \<Longrightarrow> distinct ns \<and> (\<forall>n \<in> set ns. n \<le> MAX_LAUNCH_FD) \<and> length ns \<le> MAX_MAPPED_FDS"
  unfolding parse_mapped_fds_def
  by (auto simp: rbind_Inr_iff list_ex_iff distinct_map not_less nat_le_iff inj_on_def eq_nat_nat_iff split: if_splits)

lemma take_environment_ok:
  "take_environment n args = Inr (es, rest) \<Longrightarrow> length es = n \<and> (\<forall>e \<in> set es. validate_environment e = Inr ())"
proof (induction n arbitrary: args es rest)
  case (Suc n)
  then show ?case by (fastforce simp: rbind_Inr_iff)
qed simp

lemma Request_parse_valid:
  assumes "Request_parse args = Inr r"
  shows "valid_request r"
proof -
  from assms obtain rt runtime device inode user grp gs dir mode fds count env prog v1 v2 v3 v4 v5 v6 v7 args' where
    p: "parse_number u64_max v1 ''sandbox root device'' = Inr device" "parse_number u64_max v2 ''sandbox root inode'' = Inr inode"
      "parse_number u32_max v3 ''uid'' = Inr user" "parse_number u32_max v4 ''gid'' = Inr grp"
      "parse_groups v5 = Inr gs" "parse_mapped_fds v6 = Inr fds" "parse_number u64_max v7 ''environment count'' = Inr count"
      "count \<le> MAX_ENVIRONMENT" "take_environment count args' = Inr (env, ''--'' # prog)"
      "prog \<noteq> []" "length prog \<le> MAX_ARGUMENTS"
    and r: "r = \<lparr>root = rt, runtime_root = runtime, root_device = device, root_inode = inode,
        uid = user, gid = grp, groups = gs, launch_cwd = (if dir = ''-'' then None else Some dir),
        jail_mode = mode, mapped_fds = fds, launch_environment = env, launch_argv = prog\<rparr>"
    unfolding Request_parse_def Let_def run_iffs not_not sum.inject de_Morgan_disj not_less by metis
  note bounds = p(1-4) [THEN parse_number_bound]
  show ?thesis
    using bounds parse_groups_ok [OF p(5)] parse_mapped_fds_ok [OF p(6)] take_environment_ok [OF p(9)] p(8,10,11)
    by (auto simp: valid_request_def r)
qed


section \<open>Nested requests\<close>

definition append_nested_argument :: "string \<Rightarrow> string \<Rightarrow> string result" where
  "append_nested_argument payload v =
     (if CHR 0x00 \<in> set v \<or> length v > u32_max then Inl (Bail ''invalid nested argument'')
      else Inr (payload @ u32_bytes (word_of_nat (length v)) @ v))"

definition nested_payload :: "string list \<Rightarrow> string result" where
  "nested_payload args =
     rbind (fold_result append_nested_argument (u32_bytes NESTED_MAGIC @ u32_bytes (word_of_nat (length args))) args) (\<lambda>payload.
     if length payload > MAX_NESTED_PACKET then Inl (Bail ''nested request too large'') else Inr payload)"

definition take_wire_u32 :: "string \<Rightarrow> nat \<Rightarrow> (u32 \<times> nat) result" where
  "take_wire_u32 payload i =
     rbind (ok_or (Bail ''nested request overflow'') (checked_add i 4)) (\<lambda>j.
     rbind (ok_or (Bail ''truncated nested request'') (get_slice payload i j)) (\<lambda>bytes.
     Inr (u32_from bytes, j)))"

definition take_nested_argument :: "string \<Rightarrow> nat \<Rightarrow> (string \<times> nat) result" where
  "take_nested_argument payload i =
     rbind (take_wire_u32 payload i) (\<lambda>(len, i).
     rbind (ok_or (Bail ''nested argument overflow'') (checked_add i (unat len))) (\<lambda>j.
     rbind (ok_or (Bail ''truncated nested argument'') (get_slice payload i j)) (\<lambda>v.
     if CHR 0x00 \<in> set v then Inl (Bail ''invalid nested argument'') else Inr (v, j))))"

text \<open>The part of \<^verbatim>\<open>receive_nested_request\<close> that decodes the received bytes.\<close>

definition receive_nested_arguments :: "string \<Rightarrow> string list result" where
  "receive_nested_arguments payload =
     rbind (take_wire_u32 payload 0) (\<lambda>(magic, i).
     if magic \<noteq> NESTED_MAGIC then Inl (Bail ''invalid nested request'')
     else
       rbind (take_wire_u32 payload i) (\<lambda>(count, i).
       if unat count = 0 \<or> unat count > MAX_ARGUMENTS + MAX_ENVIRONMENT + 16
       then Inl (Bail ''invalid nested argument count'')
       else
         rbind (decode_many take_nested_argument (unat count) payload i) (\<lambda>(args, i).
         if i \<noteq> length payload then Inl (Bail ''trailing nested request data'') else Inr args)))"

lemma take_wire_u32_iff:
  assumes "small_packet p"
  shows "take_wire_u32 p i = Inr (w, j) \<longleftrightarrow> reads p i (u32_bytes w) j"
proof -
  have "take_wire_u32 p i = Inr (w, j) \<longleftrightarrow> decode_u32 p i = Some (w, j)"
    by (auto simp: take_wire_u32_def decode_u32_def rbind_Inr_iff bind_eq_Some_conv)
  then show ?thesis by (simp add: decode_u32_iff [OF assms])
qed

lemma take_nested_argument_iff:
  assumes "small_packet p"
  shows "take_nested_argument p i = Inr (v, j) \<longleftrightarrow> reads p i (field v) j \<and> CHR 0x00 \<notin> set v"
proof
  assume "take_nested_argument p i = Inr (v, j)"
  then obtain w k where r: "reads p i (u32_bytes w) k" "checked_add k (unat w) = Some j" "reads p k v j" "CHR 0x00 \<notin> set v"
    by (auto simp: take_nested_argument_def run_iffs take_wire_u32_iff [OF assms] get_slice_reads split: if_splits)
  then have "length v = unat w" by (auto simp: checked_add_def reads_def split: if_splits)
  then have "w = word_of_nat (length v)" by simp
  then show "reads p i (field v) j \<and> CHR 0x00 \<notin> set v" using r by (auto simp: field_def reads_append)
next
  assume r: "reads p i (field v) j \<and> CHR 0x00 \<notin> set v"
  then obtain k where k: "reads p i (u32_bytes (word_of_nat (length v))) k" "reads p k v j"
    by (auto simp: field_def reads_append)
  have len: "unat (word_of_nat (length v) :: u32) = length v"
    using k(2) assms by (intro unat_word_of_nat32) (auto dest: reads_le)
  have "checked_add k (length v) = Some j"
    using checked_add_small [of k "length v" p] k(2) assms by (simp add: reads_def)
  moreover have "take_wire_u32 p i = Inr (word_of_nat (length v), k)" "get_slice p k j = Some v"
    using k by (simp_all add: take_wire_u32_iff [OF assms] get_slice_reads)
  ultimately show "take_nested_argument p i = Inr (v, j)"
    using r len by (simp add: take_nested_argument_def)
qed

interpretation nested_argument: wire_decoder take_nested_argument field "\<lambda>v. CHR 0x00 \<notin> set v"
  by unfold_locales (simp add: take_nested_argument_iff)

lemma fold_append_nested:
  "fold_result append_nested_argument acc args = Inr p
    \<longleftrightarrow> (\<forall>v \<in> set args. CHR 0x00 \<notin> set v \<and> length v \<le> u32_max) \<and> p = acc @ concat (map field args)"
proof (induction args arbitrary: acc)
  case (Cons v args)
  then show ?case
    by (cases "CHR 0x00 \<in> set v \<or> length v > u32_max") (auto simp: append_nested_argument_def field_def)
qed auto

lemma receive_nested_payload:
  assumes run: "nested_payload args = Inr p" and count: "args \<noteq> []" "length args \<le> MAX_ARGUMENTS + MAX_ENVIRONMENT + 16"
  shows "receive_nested_arguments p = Inr args"
proof -
  have p: "p = (u32_bytes NESTED_MAGIC @ u32_bytes (word_of_nat (length args))) @ concat (map field args)"
    and args: "\<forall>v \<in> set args. CHR 0x00 \<notin> set v" and len: "length p \<le> MAX_NESTED_PACKET"
    using run by (auto simp: nested_payload_def rbind_Inr_iff fold_append_nested split: if_splits)
  have small: "small_packet p" using len by (simp add: MAX_NESTED_PACKET_def)
  obtain i j where r: "reads p 0 (u32_bytes NESTED_MAGIC) i" "reads p i (u32_bytes (word_of_nat (length args))) j"
      "reads p j (concat (map field args)) (length p)"
    using reads_all [of p p] unfolding p by (auto simp: reads_append)
  have n: "unat (word_of_nat (length args) :: u32) = length args"
    using count(2) by (intro unat_word_of_nat32) (simp add: MAX_ARGUMENTS_def MAX_ENVIRONMENT_def)
  have "decode_many take_nested_argument (length args) p j = Inr (args, length p)"
    using nested_argument.decode_many_iff [OF small] reads_le [OF r(2)] r(3) args by (simp add: list_all_iff)
  moreover have "take_wire_u32 p 0 = Inr (NESTED_MAGIC, i)" "take_wire_u32 p i = Inr (word_of_nat (length args), j)"
    using r by (simp_all add: take_wire_u32_iff [OF small])
  ultimately show ?thesis
    using count n by (simp add: receive_nested_arguments_def)
qed

text \<open>
  C22. A nested launch request arrives as it was made: when the client's command line parses to a
  request and the packet of its wire arguments is built, the daemon decodes the packet and parses
  the same request.
\<close>

theorem nested_request_roundtrip:
  assumes "Request_parse args = Inr r" "nested_payload (wire_arguments r) = Inr packet"
  shows "rbind (receive_nested_arguments packet) Request_parse = Inr r"
proof -
  have valid: "valid_request r" by (rule Request_parse_valid [OF assms(1)])
  have "length (wire_arguments r) = 13 + length (launch_environment r) + length (launch_argv r)"
    by (simp add: wire_arguments_def)
  also have "\<dots> \<le> MAX_ARGUMENTS + MAX_ENVIRONMENT + 16" using valid by (simp add: valid_request_def)
  finally have "receive_nested_arguments packet = Inr (wire_arguments r)"
    by (intro receive_nested_payload [OF assms(2)]) (simp_all add: wire_arguments_def)
  then show ?thesis by (simp add: parse_wire_arguments [OF valid])
qed

definition demo_request :: Request where
  "demo_request = \<lparr>root = ''/r/chroots/a/i'', runtime_root = ''/r'', root_device = 1, root_inode = 2, uid = 1001,
     gid = 1001, groups = [0, 5], launch_cwd = None, jail_mode = Sandbox, mapped_fds = [7],
     launch_environment = [''A=b''], launch_argv = [''sh'']\<rparr>"

lemma demo_request_valid: "valid_request demo_request"
  by (simp add: valid_request_def demo_request_def validate_environment_def MAX_LAUNCH_FD_def MAX_MAPPED_FDS_def
      MAX_ENVIRONMENT_def MAX_ARGUMENTS_def)

lemma demo_payload: "\<exists>packet. nested_payload (wire_arguments demo_request) = Inr packet"
proof -
  have "list_all (\<lambda>v. CHR 0x00 \<notin> set v \<and> length v \<le> 20) (wire_arguments demo_request)"
    "sum_list (map length (wire_arguments demo_request)) \<le> 100" "length (wire_arguments demo_request) \<le> 15"
    by code_simp+
  moreover have "length (concat (map field vs)) = 4 * length vs + sum_list (map length vs)" for vs
    by (induction vs) (simp_all add: field_def)
  ultimately show ?thesis
    by (auto simp: nested_payload_def rbind_Inr_iff fold_append_nested guard_Inr_iff MAX_NESTED_PACKET_def list_all_iff)
qed

lemma demo_packet: "\<exists>packet. rbind (receive_nested_arguments packet) Request_parse = Inr demo_request"
proof -
  obtain packet where "nested_payload (wire_arguments demo_request) = Inr packet" using demo_payload by blast
  then have "receive_nested_arguments packet = Inr (wire_arguments demo_request)"
    by (rule receive_nested_payload)
       (simp_all add: wire_arguments_def demo_request_def MAX_ARGUMENTS_def MAX_ENVIRONMENT_def)
  then have "rbind (receive_nested_arguments packet) Request_parse = Inr demo_request"
    by (simp add: parse_wire_arguments [OF demo_request_valid])
  then show ?thesis by blast
qed

theorem nested_request_roundtrip_witness:
  "\<exists>packet. nested_payload (wire_arguments demo_request) = Inr packet
     \<and> rbind (receive_nested_arguments packet) Request_parse = Inr demo_request"
proof -
  have "Request_parse (wire_arguments demo_request) = Inr demo_request"
    by (rule parse_wire_arguments [OF demo_request_valid])
  then show ?thesis using nested_request_roundtrip demo_payload by blast
qed

section \<open>Entering the sandbox\<close>

datatype open_file = RootDirectory "nat \<times> nat" | LifecycleSocket | Passed nat | OtherFile nat

record process =
  p_euid :: nat
  p_egid :: nat
  p_groups :: "nat list"
  p_root :: "(nat \<times> nat) option"
  p_anchor :: "(nat \<times> nat) option"
  p_dir :: "string option"
  p_jail :: "bool option"
  p_fds :: "open_file fd_table"
  p_ready :: "open_file option"

datatype syscall =
    SetuidRoot | SetgroupsNone | SetgidRoot | FchdirRoot | CreateJail | AttachJail | ApproveJail
  | Chroot | ChdirSlash | ChdirCwd | SetgroupsCaller | SetgidCaller | SetuidCaller | SendReady

text \<open>What the calls of the privileged sequence answer; the kernel also refuses the calls that need root.\<close>

record exec_os =
  open_root :: "(nat \<times> nat) result"
  syscall_ok :: "syscall \<Rightarrow> bool"
  allocate :: "open_file fd_table \<Rightarrow> nat \<Rightarrow> nat"

definition sys :: "exec_os \<Rightarrow> syscall \<Rightarrow> string \<Rightarrow> (process \<Rightarrow> process) \<Rightarrow> process \<Rightarrow> process \<times> unit result" where
  "sys os c msg f p = (if syscall_ok os c then (f p, Inr ()) else (p, Inl (Bail msg)))"

definition root_sys :: "exec_os \<Rightarrow> syscall \<Rightarrow> string \<Rightarrow> (process \<Rightarrow> process) \<Rightarrow> process \<Rightarrow> process \<times> unit result" where
  "root_sys os c msg f p =
     (if p_euid p = 0 then sys os c msg f p else (p, Inl (Bail msg)))"

definition close_fd :: "nat \<Rightarrow> process \<Rightarrow> process" where
  "close_fd fd p = p\<lparr>p_fds := (p_fds p)(fd := None)\<rparr>"

definition jail_parameters :: "bool \<Rightarrow> (string \<times> string) list" where
  "jail_parameters no_network =
     (let network = (if no_network then ''disable'' else ''inherit'')
      in [(''path'', ''.''), (''host.hostname'', ''freebsd-flatpak''), (''ip4'', network), (''ip6'', network),
          (''persist'', ''true'')])"

text \<open>The jail's parameters become the process's confinement when it attaches.\<close>

definition attach_jail :: "(string \<times> string) list \<Rightarrow> process \<Rightarrow> process" where
  "attach_jail params p =
     p\<lparr>p_root := p_anchor p, p_dir := None,
       p_jail := Some (map_of params ''ip4'' = Some ''disable'' \<and> map_of params ''ip6'' = Some ''disable'')\<rparr>"

definition has_open_directory :: "open_file fd_table \<Rightarrow> bool" where
  "has_open_directory t \<longleftrightarrow> (\<exists>n d i. t n = Some d \<and> fd_file d = RootDirectory i)"

definition enter_jail :: "exec_os \<Rightarrow> Request \<Rightarrow> nat \<Rightarrow> nat \<times> nat \<Rightarrow> nat option \<Rightarrow> process \<Rightarrow> process \<times> unit result" where
  "enter_jail os r root_fd ident lifecycle p =
     (case lifecycle of
        None \<Rightarrow> (p, Inl (Bail ''nested jail requires daemon supervision''))
      | Some _ \<Rightarrow>
          sbind (root_sys os SetuidRoot ''adopt root credentials for nested sandbox jail'' (p_euid_update (\<lambda>_. 0)) p) (\<lambda>p _.
          sbind (root_sys os SetgroupsNone ''adopt root credentials for nested sandbox jail'' (p_groups_update (\<lambda>_. [])) p) (\<lambda>p _.
          sbind (root_sys os SetgidRoot ''adopt root credentials for nested sandbox jail'' (p_egid_update (\<lambda>_. 0)) p) (\<lambda>p _.
          sbind (sys os FchdirRoot ''anchor nested jail root'' (p_anchor_update (\<lambda>_. Some ident)) p) (\<lambda>p _.
          sbind (root_sys os CreateJail ''create nested sandbox jail'' (\<lambda>p. p) p) (\<lambda>p _.
          let p = close_fd root_fd p in
          if has_open_directory (p_fds p) then (p, Inl (Bail ''attach nested sandbox jail''))
          else
            sbind (root_sys os AttachJail ''attach nested sandbox jail''
                     (attach_jail (jail_parameters (jail_mode r = NoNetwork))) p) (\<lambda>p _.
            sys os ApproveJail ''nested jail supervisor rejected launch'' (\<lambda>p. p) p)))))))"

definition enter_chroot :: "exec_os \<Rightarrow> nat \<Rightarrow> nat \<times> nat \<Rightarrow> process \<Rightarrow> process \<times> unit result" where
  "enter_chroot os root_fd ident p =
     sbind (sys os FchdirRoot ''enter sandbox chroot'' (p_anchor_update (\<lambda>_. Some ident)) p) (\<lambda>p _.
     sbind (root_sys os Chroot ''enter sandbox chroot'' (\<lambda>p. p\<lparr>p_root := p_anchor p\<rparr>) p) (\<lambda>p _.
     sbind (sys os ChdirSlash ''enter sandbox root'' (p_dir_update (\<lambda>_. None)) p) (\<lambda>p _.
     (close_fd root_fd p, Inr ()))))"

definition map_nested_fds :: "exec_os \<Rightarrow> nat list \<Rightarrow> nat list \<Rightarrow> process \<Rightarrow> process \<times> unit result" where
  "map_nested_fds os targets sources p =
     (case map_fds (allocate os) targets sources (p_fds p) of
        None \<Rightarrow> (p, Inl (Bail ''map nested descriptor''))
      | Some t \<Rightarrow> (p\<lparr>p_fds := t\<rparr>, Inr ()))"

definition drop_credentials :: "exec_os \<Rightarrow> Request \<Rightarrow> nat \<Rightarrow> nat \<Rightarrow> process \<Rightarrow> process \<times> unit result" where
  "drop_credentials os r real_uid real_gid p =
     sbind (root_sys os SetgroupsCaller ''drop secure launch credentials'' (p_groups_update (\<lambda>_. groups r)) p) (\<lambda>p _.
     sbind (root_sys os SetgidCaller ''drop secure launch credentials'' (p_egid_update (\<lambda>_. real_gid)) p) (\<lambda>p _.
     sbind (root_sys os SetuidCaller ''drop secure launch credentials'' (p_euid_update (\<lambda>_. real_uid)) p) (\<lambda>p _.
     if p_euid p \<noteq> real_uid \<or> p_egid p \<noteq> real_gid then (p, Inl (Bail ''secure launch could not drop privilege''))
     else (p, Inr ()))))"

text \<open>The readiness byte goes to whatever file the lifecycle number names by now.\<close>

definition send_ready :: "exec_os \<Rightarrow> nat option \<Rightarrow> process \<Rightarrow> process \<times> unit result" where
  "send_ready os lifecycle p =
     (case lifecycle of
        None \<Rightarrow> (p, Inr ())
      | Some fd \<Rightarrow>
          (case p_fds p fd of
             None \<Rightarrow> (p, Inl (Bail ''write nested jail lifecycle''))
           | Some d \<Rightarrow> sys os SendReady ''write nested jail lifecycle'' (p_ready_update (\<lambda>_. Some (fd_file d))) p))"

definition split_environment :: "string \<Rightarrow> (string \<times> string) option" where
  "split_environment entry = split_once (CHR ''='') entry"

definition execute_with_mappings ::
    "exec_os \<Rightarrow> Request \<Rightarrow> nat \<Rightarrow> nat \<Rightarrow> nat list \<Rightarrow> nat list \<Rightarrow> nat option \<Rightarrow> process
      \<Rightarrow> process \<times> (string list \<times> (string \<times> string) list) result" where
  "execute_with_mappings os r real_uid real_gid targets sources lifecycle p =
     (case open_root os of
        Inl e \<Rightarrow> (p, Inl e)
      | Inr ident \<Rightarrow>
          let root_fd = allocate os (p_fds p) 0;
              p = p\<lparr>p_fds := (p_fds p)(root_fd \<mapsto> \<lparr>fd_file = RootDirectory ident, fd_cloexec = True\<rparr>)\<rparr> in
          if ident \<noteq> (root_device r, root_inode r)
          then (close_fd root_fd p, Inl (Bail ''sandbox root changed while preparing secure launch''))
          else
            sbind (if jail_mode r \<noteq> Direct then enter_jail os r root_fd ident lifecycle p
                   else enter_chroot os root_fd ident p) (\<lambda>p _.
            sbind (case launch_cwd r of
                     None \<Rightarrow> (p, Inr ())
                   | Some dir \<Rightarrow> sys os ChdirCwd ''change sandbox working directory'' (p_dir_update (\<lambda>_. Some dir)) p) (\<lambda>p _.
            sbind (map_nested_fds os targets sources p) (\<lambda>p _.
            sbind (drop_credentials os r real_uid real_gid p) (\<lambda>p _.
            sbind (send_ready os lifecycle p) (\<lambda>p _.
            (p, Inr (launch_argv r, List.map_filter split_environment (launch_environment r)))))))))"

definition execute :: "exec_os \<Rightarrow> Request \<Rightarrow> nat \<Rightarrow> nat \<Rightarrow> process
    \<Rightarrow> process \<times> (string list \<times> (string \<times> string) list) result" where
  "execute os r real_uid real_gid p = execute_with_mappings os r real_uid real_gid [] [] None p"

lemma sys_InrD: "sys os c msg f p = (p', Inr x) \<Longrightarrow> p' = f p \<and> syscall_ok os c"
  by (auto simp: sys_def split: if_splits)

lemma root_sys_InrD: "root_sys os c msg f p = (p', Inr x) \<Longrightarrow> p' = f p \<and> p_euid p = 0 \<and> syscall_ok os c"
  by (auto simp: root_sys_def dest: sys_InrD split: if_splits)

lemma enter_jail_ok:
  assumes "enter_jail os r root_fd ident lifecycle p = (p', Inr x)"
  shows "p_root p' = Some ident \<and> p_jail p' = Some (jail_mode r = NoNetwork) \<and> p_fds p' = (p_fds p)(root_fd := None)
    \<and> \<not> has_open_directory (p_fds p') \<and> lifecycle \<noteq> None"
  using assms unfolding enter_jail_def
  by (auto elim!: sbind_InrE dest!: sys_InrD root_sys_InrD simp: Let_def close_fd_def attach_jail_def jail_parameters_def
      split: option.splits if_splits)

lemma enter_chroot_ok:
  assumes "enter_chroot os root_fd ident p = (p', Inr x)"
  shows "p_root p' = Some ident \<and> p_jail p' = p_jail p \<and> p_fds p' = (p_fds p)(root_fd := None)"
  using assms unfolding enter_chroot_def
  by (auto elim!: sbind_InrE dest!: sys_InrD root_sys_InrD simp: close_fd_def)

lemma drop_credentials_ok:
  assumes "drop_credentials os r real_uid real_gid p = (p', Inr x)"
  shows "p_euid p' = real_uid \<and> p_egid p' = real_gid \<and> p_groups p' = groups r \<and> p_root p' = p_root p
    \<and> p_jail p' = p_jail p \<and> p_fds p' = p_fds p \<and> p_dir p' = p_dir p"
  using assms unfolding drop_credentials_def
  by (auto elim!: sbind_InrE dest!: root_sys_InrD split: if_splits)


lemma map_nested_fds_ok:
  assumes "map_nested_fds os targets sources p = (p', Inr x)"
  shows "p' = p\<lparr>p_fds := the (map_fds (allocate os) targets sources (p_fds p))\<rparr>"
  using assms by (auto simp: map_nested_fds_def split: option.splits)

lemma send_ready_ok:
  assumes "send_ready os lifecycle p = (p', Inr x)"
  shows "p' = p\<lparr>p_ready := (case lifecycle of None \<Rightarrow> p_ready p | Some fd \<Rightarrow> Some (fd_file (the (p_fds p fd))))\<rparr>"
  using assms by (auto simp: send_ready_def dest!: sys_InrD split: option.splits)

lemma change_dir_ok:
  assumes "(case dir of None \<Rightarrow> (p, Inr ()) | Some d \<Rightarrow> sys os ChdirCwd msg (p_dir_update (\<lambda>_. Some d)) p) = (p', Inr x)"
  shows "p_root p' = p_root p \<and> p_jail p' = p_jail p \<and> p_fds p' = p_fds p"
  using assms by (auto dest!: sys_InrD split: option.splits)

lemma execute_stages:
  assumes "execute_with_mappings os r real_uid real_gid targets sources lifecycle p = (p', Inr out)"
  obtains p1 p2 p3 p4 p5 where
    "p1 = p\<lparr>p_fds := (p_fds p)(allocate os (p_fds p) 0 \<mapsto>
        \<lparr>fd_file = RootDirectory (root_device r, root_inode r), fd_cloexec = True\<rparr>)\<rparr>"
    "(if jail_mode r \<noteq> Direct then enter_jail os r (allocate os (p_fds p) 0) (root_device r, root_inode r) lifecycle p1
      else enter_chroot os (allocate os (p_fds p) 0) (root_device r, root_inode r) p1) = (p2, Inr ())"
    "(case launch_cwd r of None \<Rightarrow> (p2, Inr ())
      | Some dir \<Rightarrow> sys os ChdirCwd ''change sandbox working directory'' (p_dir_update (\<lambda>_. Some dir)) p2) = (p3, Inr ())"
    "map_nested_fds os targets sources p3 = (p4, Inr ())"
    "drop_credentials os r real_uid real_gid p4 = (p5, Inr ())"
    "send_ready os lifecycle p5 = (p', Inr ())"
    "out = (launch_argv r, List.map_filter split_environment (launch_environment r))"
proof -
  obtain ident where ident: "open_root os = Inr ident" "ident = (root_device r, root_inode r)"
    using assms by (auto simp: execute_with_mappings_def Let_def split: sum.splits if_splits)
  show ?thesis
    using assms ident unfolding execute_with_mappings_def Let_def
    by (auto elim!: sbind_InrE intro: that)
qed

lemma execute_ok:
  assumes "execute_with_mappings os r real_uid real_gid targets sources lifecycle p = (p', Inr out)"
  shows "p_euid p' = real_uid \<and> p_egid p' = real_gid \<and> p_groups p' = groups r
    \<and> p_root p' = Some (root_device r, root_inode r)
    \<and> (jail_mode r \<noteq> Direct \<longrightarrow> p_jail p' = Some (jail_mode r = NoNetwork)) \<and> fst out = launch_argv r"
proof -
  obtain p1 p2 p3 p4 p5 where s: "(if jail_mode r \<noteq> Direct
        then enter_jail os r (allocate os (p_fds p) 0) (root_device r, root_inode r) lifecycle p1
        else enter_chroot os (allocate os (p_fds p) 0) (root_device r, root_inode r) p1) = (p2, Inr ())"
      "(case launch_cwd r of None \<Rightarrow> (p2, Inr ())
        | Some dir \<Rightarrow> sys os ChdirCwd ''change sandbox working directory'' (p_dir_update (\<lambda>_. Some dir)) p2) = (p3, Inr ())"
      "map_nested_fds os targets sources p3 = (p4, Inr ())" "drop_credentials os r real_uid real_gid p4 = (p5, Inr ())"
      "send_ready os lifecycle p5 = (p', Inr ())"
      "out = (launch_argv r, List.map_filter split_environment (launch_environment r))"
    using execute_stages [OF assms] .
  have "p_root p2 = Some (root_device r, root_inode r)" "jail_mode r \<noteq> Direct \<longrightarrow> p_jail p2 = Some (jail_mode r = NoNetwork)"
    using s(1) enter_jail_ok enter_chroot_ok by (metis (no_types, lifting))+
  then show ?thesis
    using change_dir_ok [OF s(2)] map_nested_fds_ok [OF s(3)] drop_credentials_ok [OF s(4)] send_ready_ok [OF s(5)] s(6)
    by simp
qed


section \<open>The helper and the daemon\<close>

definition run_helper :: "launch_os \<Rightarrow> exec_os \<Rightarrow> nat \<Rightarrow> nat \<Rightarrow> string list \<Rightarrow> process
    \<Rightarrow> process \<times> (string list \<times> (string \<times> string) list) result" where
  "run_helper los os real_uid real_gid args p =
     (if p_euid p \<noteq> 0 then (p, Inl (Bail ''secure launch helper must run set-user-ID root''))
      else if real_uid = 0 then (p, Inl (Bail ''secure launch helper does not accept root callers''))
      else
        (case Request_parse args of
           Inl e \<Rightarrow> (p, Inl e)
         | Inr r \<Rightarrow>
             (case validate los r real_uid real_gid of
                Inl e \<Rightarrow> (p, Inl e)
              | Inr _ \<Rightarrow> execute os r real_uid real_gid p)))"

text \<open>\<^verbatim>\<open>serve_nested_request\<close> up to the fork, and its child: the request comes from the packet, the
  credentials from the socket peer.\<close>

definition serve_nested_child :: "launch_os \<Rightarrow> exec_os \<Rightarrow> nat \<Rightarrow> nat \<Rightarrow> string \<Rightarrow> nat list \<Rightarrow> nat \<Rightarrow> process
    \<Rightarrow> process \<times> (string list \<times> (string \<times> string) list) result" where
  "serve_nested_child los os peer_uid peer_gid packet fds lifecycle p =
     (case rbind (receive_nested_arguments packet) Request_parse of
        Inl e \<Rightarrow> (p, Inl e)
      | Inr r \<Rightarrow>
          if jail_mode r = Direct then (p, Inl (Bail ''nested daemon refused direct launch request''))
          else
            (case validate_for_peer los r peer_uid peer_gid of
               Inl e \<Rightarrow> (p, Inl e)
             | Inr _ \<Rightarrow>
                 if length (mapped_fds r) \<noteq> length fds
                 then (p, Inl (Bail ''nested request descriptor count does not match mappings''))
                 else execute_with_mappings os r peer_uid peer_gid (mapped_fds r) fds (Some lifecycle) p))"

text \<open>A directory that is a sandbox instance of the given user.\<close>

definition sandbox_instance :: "launch_os \<Rightarrow> nat \<Rightarrow> nat \<times> nat \<Rightarrow> bool" where
  "sandbox_instance los user ident \<longleftrightarrow>
     (\<exists>runtime app inst mode.
        let rt = path_join runtime [Normal ''chroots''] @ [Normal app, Normal inst] in
        directory_identity los rt = Inr ident \<and> owner_and_mode los runtime = Inr (user, mode)
        \<and> group_other_bits mode = 0 \<and> directory_owner los rt = Inr user \<and> flatpak_info los rt = Inr (user, True))"

lemma with_context_Inr [simp]: "with_context msg m = Inr x \<longleftrightarrow> m = Inr x"
  by (cases m) simp_all

lemma parse_chroots: "parse_path ''chroots'' = [Normal ''chroots'']"
  by code_simp

lemma two_components:
  assumes "length parts = 2" "\<not> list_ex (\<lambda>c. case c of Normal name \<Rightarrow> name = [] | _ \<Rightarrow> True) parts"
  obtains app inst where "parts = [Normal app, Normal inst]"
  using assms by (auto simp: numeral_2_eq_2 length_Suc_conv split: component.splits)

lemma validate_sandbox_root_ok:
  assumes "validate_sandbox_root los rt runtime device inode user = Inr x"
  shows "sandbox_instance los user (device, inode)"
proof -
  from assms obtain rt' runtime' mode parts where
    h: "owner_and_mode los runtime' = Inr (user, mode)" "group_other_bits mode = 0"
       "path_strip_prefix rt' (path_join runtime' (parse_path ''chroots'')) = Some parts"
       "length parts = 2" "\<not> list_ex (\<lambda>c. case c of Normal name \<Rightarrow> name = [] | _ \<Rightarrow> True) parts"
       "directory_identity los rt' = Inr (device, inode)" "flatpak_info los rt' = Inr (user, True)"
       "directory_owner los rt' = Inr user"
    unfolding validate_sandbox_root_def run_iffs with_context_Inr de_Morgan_disj not_not by metis
  obtain app inst where "parts = [Normal app, Normal inst]" using two_components [OF h(4,5)] .
  then have "rt' = path_join runtime' [Normal ''chroots''] @ [Normal app, Normal inst]"
    using h(3) by (simp add: strip_prefix_Some_iff parse_chroots)
  then show ?thesis unfolding sandbox_instance_def Let_def using h by metis
qed

text \<open>
  C2. What the set-user-ID helper starts: when \<^verbatim>\<open>run_helper\<close> reaches \<^verbatim>\<open>exec\<close>, whatever the kernel
  answered before, the process runs with the caller's own user and group, only supplementary groups
  the caller holds, and is confined to a directory that is one of the caller's own sandbox
  instances below a private runtime root. Root callers never get there.
\<close>

theorem run_helper_confines:
  assumes "run_helper los os real_uid real_gid args p = (p', Inr out)"
  shows "real_uid \<noteq> 0 \<and> p_euid p' = real_uid \<and> p_egid p' = real_gid
    \<and> (\<exists>held. caller_groups los = Inr held \<and> set (p_groups p') \<subseteq> insert real_gid (set held))
    \<and> (\<exists>ident. p_root p' = Some ident \<and> sandbox_instance los real_uid ident)"
proof -
  obtain r where r: "real_uid \<noteq> 0" "Request_parse args = Inr r" "validate los r real_uid real_gid = Inr ()"
      "execute os r real_uid real_gid p = (p', Inr out)"
    using assms by (auto simp: run_helper_def split: if_splits sum.splits)
  note ok = execute_ok [OF r(4) [unfolded execute_def]]
  obtain held where held: "caller_groups los = Inr held" "\<not> list_ex (\<lambda>g. g \<notin> set (real_gid # held)) (groups r)"
      "validate_sandbox_root los (root r) (runtime_root r) (root_device r) (root_inode r) real_uid = Inr ()"
    using r(3) by (auto simp: validate_def rbind_Inr_iff split: if_splits)
  have "set (groups r) \<subseteq> insert real_gid (set held)" using held(2) by (auto simp: list_ex_iff)
  then show ?thesis using r(1) ok held(1) validate_sandbox_root_ok [OF held(3)] by auto
qed



section \<open>Descriptors across a nested launch\<close>

text \<open>A kernel that grants every call, and a daemon child ready to launch a nested request.\<close>

definition granting :: "exec_os \<Rightarrow> Request \<Rightarrow> bool" where
  "granting os r \<longleftrightarrow> open_root os = Inr (root_device r, root_inode r) \<and> (\<forall>c. syscall_ok os c) \<and> allocate os = lowest_free"

definition launchable :: "Request \<Rightarrow> nat list \<Rightarrow> nat \<Rightarrow> process \<Rightarrow> bool" where
  "launchable r sources lifecycle p \<longleftrightarrow>
     p_euid p = 0 \<and> finite (dom (p_fds p)) \<and> \<not> has_open_directory (p_fds p)
     \<and> jail_mode r \<noteq> Direct \<and> distinct (mapped_fds r) \<and> length sources = length (mapped_fds r)
     \<and> (\<forall>s \<in> set sources. p_fds p s \<noteq> None) \<and> map_option fd_file (p_fds p lifecycle) = Some LifecycleSocket"

lemma enter_jail_granting:
  assumes "granting os r" "p_euid p = 0" "\<not> has_open_directory ((p_fds p)(fd := None))"
  shows "\<exists>p'. enter_jail os r fd ident (Some l) p = (p', Inr ()) \<and> p_euid p' = 0 \<and> p_fds p' = (p_fds p)(fd := None)"
  using assms by (simp add: enter_jail_def granting_def root_sys_def sys_def Let_def close_fd_def attach_jail_def)

lemma drop_credentials_granting:
  assumes "granting os r" "p_euid p = 0"
  shows "\<exists>p'. drop_credentials os r u g p = (p', Inr ()) \<and> p_fds p' = p_fds p"
  using assms by (simp add: drop_credentials_def granting_def root_sys_def sys_def)

lemma nested_launch_runs:
  assumes os: "granting os r" and p: "launchable r sources l p"
  shows "\<exists>p' out. execute_with_mappings os r u g (mapped_fds r) sources (Some l) p = (p', Inr out)
    \<and> (\<forall>i < length (mapped_fds r). p_fds p' (mapped_fds r ! i) = Some ((the (p_fds p (sources ! i)))\<lparr>fd_cloexec := False\<rparr>))
    \<and> p_ready p' = map_option fd_file (p_fds p' l)
    \<and> (l \<notin> set (mapped_fds r) \<longrightarrow> p_fds p' l = p_fds p l)"
proof -
  let ?id = "(root_device r, root_inode r)"
  let ?fd = "allocate os (p_fds p) 0"
  let ?p1 = "p\<lparr>p_fds := (p_fds p)(?fd \<mapsto> \<lparr>fd_file = RootDirectory ?id, fd_cloexec = True\<rparr>)\<rparr>"
  have "p_fds p ?fd = None" using os p lowest_free_props [of "p_fds p" 0] by (simp add: granting_def launchable_def)
  then have same: "(p_fds ?p1)(?fd := None) = p_fds p" by auto
  obtain p2 where p2: "enter_jail os r ?fd ?id (Some l) ?p1 = (p2, Inr ())" "p_euid p2 = 0" "p_fds p2 = p_fds p"
    using enter_jail_granting [OF os, of ?p1 ?fd ?id l] p same by (auto simp: launchable_def)
  obtain p3 where p3: "(case launch_cwd r of None \<Rightarrow> (p2, Inr ())
      | Some dir \<Rightarrow> sys os ChdirCwd ''change sandbox working directory'' (p_dir_update (\<lambda>_. Some dir)) p2) = (p3, Inr ())"
      "p_euid p3 = 0" "p_fds p3 = p_fds p"
    using os p2 by (cases "launch_cwd r") (auto simp: sys_def granting_def)
  obtain t where t: "map_fds lowest_free (mapped_fds r) sources (p_fds p) = Some t"
      "\<forall>i < length (mapped_fds r). t (mapped_fds r ! i) = Some ((the (p_fds p (sources ! i)))\<lparr>fd_cloexec := False\<rparr>)"
      "\<forall>n. n \<notin> set (mapped_fds r) \<longrightarrow> p_fds p n \<noteq> None \<longrightarrow> t n = p_fds p n"
    using posix.map_fds_ok [of "p_fds p" "mapped_fds r" sources] p by (auto simp: launchable_def)
  let ?p4 = "p3\<lparr>p_fds := t\<rparr>"
  have p4: "map_nested_fds os (mapped_fds r) sources p3 = (?p4, Inr ())"
    using t(1) p3(3) os by (simp add: map_nested_fds_def granting_def)
  obtain p5 where p5: "drop_credentials os r u g ?p4 = (p5, Inr ())" "p_fds p5 = t"
    using drop_credentials_granting [OF os, of ?p4] p3(2) by auto
  have "t l \<noteq> None"
  proof (cases "l \<in> set (mapped_fds r)")
    case True then show ?thesis using t(2) by (metis in_set_conv_nth option.distinct(1))
  next
    case False then show ?thesis using t(3) p by (auto simp: launchable_def)
  qed
  then obtain d where d: "t l = Some d" by auto
  have p6: "send_ready os (Some l) p5 = (p5\<lparr>p_ready := Some (fd_file d)\<rparr>, Inr ())"
    using os d p5(2) by (simp add: send_ready_def sys_def granting_def)
  have "execute_with_mappings os r u g (mapped_fds r) sources (Some l) p
      = (p5\<lparr>p_ready := Some (fd_file d)\<rparr>, Inr (launch_argv r, List.map_filter split_environment (launch_environment r)))"
    using os p p2(1) p3(1) p4 p5(1) p6
    by (simp add: execute_with_mappings_def granting_def launchable_def Let_def)
  then show ?thesis using t(2,3) p5(2) d p by (auto simp: launchable_def)
qed

text \<open>
  C33. A nested launch that nothing obstructs succeeds: the sandbox program starts with every passed
  descriptor open, inheritable and at the number the client chose, and the daemon hears that the
  child is ready.
\<close>

theorem nested_launch_maps_descriptors:
  assumes "granting os r" "launchable r sources lifecycle p" "lifecycle \<notin> set (mapped_fds r)"
  shows "\<exists>p' out. execute_with_mappings os r u g (mapped_fds r) sources (Some lifecycle) p = (p', Inr out)
    \<and> (\<forall>i < length (mapped_fds r). p_fds p' (mapped_fds r ! i) = Some ((the (p_fds p (sources ! i)))\<lparr>fd_cloexec := False\<rparr>))
    \<and> p_ready p' = Some LifecycleSocket"
proof -
  obtain p' out where run: "execute_with_mappings os r u g (mapped_fds r) sources (Some lifecycle) p = (p', Inr out)"
      "\<forall>i < length (mapped_fds r). p_fds p' (mapped_fds r ! i) = Some ((the (p_fds p (sources ! i)))\<lparr>fd_cloexec := False\<rparr>)"
      "p_ready p' = map_option fd_file (p_fds p' lifecycle)" "p_fds p' lifecycle = p_fds p lifecycle"
    using nested_launch_runs [OF assms(1,2), of u g] assms(3) by blast
  have "p_ready p' = Some LifecycleSocket" using run(3,4) assms(2) by (simp only: launchable_def)
  then show ?thesis using run(1,2) by blast
qed

text \<open>
  The descriptor that reports readiness is not protected from the client's choice of numbers:
  when a passed descriptor is to be mapped to the number the daemon's child happens to use for its
  lifecycle socket, the readiness byte is written to the passed file and the daemon never hears
  that the child is ready.
\<close>

theorem nested_launch_mapping_hijacks_readiness:
  assumes "granting os r" "launchable r sources lifecycle p"
    "i < length (mapped_fds r)" "mapped_fds r ! i = lifecycle" "map_option fd_file (p_fds p (sources ! i)) = Some (Passed n)"
  shows "\<exists>p' out. execute_with_mappings os r u g (mapped_fds r) sources (Some lifecycle) p = (p', Inr out)
    \<and> p_ready p' = Some (Passed n)"
proof -
  obtain p' out where run: "execute_with_mappings os r u g (mapped_fds r) sources (Some lifecycle) p = (p', Inr out)"
      "\<forall>i < length (mapped_fds r). p_fds p' (mapped_fds r ! i) = Some ((the (p_fds p (sources ! i)))\<lparr>fd_cloexec := False\<rparr>)"
      "p_ready p' = map_option fd_file (p_fds p' lifecycle)"
    using nested_launch_runs [OF assms(1,2), of u g] by blast
  obtain d where "p_fds p (sources ! i) = Some d" "fd_file d = Passed n" using assms(5) by blast
  then have "p_ready p' = Some (Passed n)" using run(2,3) assms(3,4) by auto
  then show ?thesis using run(1) by blast
qed


section \<open>Witnesses\<close>

definition demo_los :: launch_os where
  "demo_los =
     \<lparr>canonicalize = (\<lambda>s. Inr (parse_path s)), owner_and_mode = (\<lambda>_. Inr (1001, 448)),
      directory_identity = (\<lambda>_. Inr (1, 2)), directory_owner = (\<lambda>_. Inr 1001),
      flatpak_info = (\<lambda>_. Inr (1001, True)), caller_groups = Inr [0, 5], account_groups = (\<lambda>_. Inr [0, 5])\<rparr>"

definition demo_xos :: exec_os where
  "demo_xos = \<lparr>open_root = Inr (1, 2), syscall_ok = (\<lambda>_. True), allocate = lowest_free\<rparr>"

text \<open>The daemon's child: standard streams, one passed descriptor and the lifecycle socket at 6.\<close>

definition demo_process :: process where
  "demo_process =
     \<lparr>p_euid = 0, p_egid = 0, p_groups = [], p_root = None, p_anchor = None, p_dir = None, p_jail = None,
      p_fds = (\<lambda>_. None)(3 \<mapsto> \<lparr>fd_file = Passed 0, fd_cloexec = True\<rparr>,
        6 \<mapsto> \<lparr>fd_file = LifecycleSocket, fd_cloexec = True\<rparr>),
      p_ready = None\<rparr>"

lemma demo_granting: "granting demo_xos demo_request" "granting demo_xos (demo_request\<lparr>mapped_fds := [6]\<rparr>)"
  by (simp_all add: granting_def demo_xos_def demo_request_def)

lemma demo_launchable:
  "launchable demo_request [3] 6 demo_process" "launchable (demo_request\<lparr>mapped_fds := [6]\<rparr>) [3] 6 demo_process"
  by (auto simp: launchable_def demo_process_def demo_request_def has_open_directory_def)

lemma demo_validate:
  "validate demo_los (demo_request\<lparr>jail_mode := Direct\<rparr>) 1001 1001 = Inr ()"
  "validate_for_peer demo_los demo_request 1001 1001 = Inr ()"
  by code_simp+

theorem run_helper_confines_witness:
  "\<exists>p' out. run_helper demo_los demo_xos 1001 1001 (wire_arguments (demo_request\<lparr>jail_mode := Direct\<rparr>)) demo_process = (p', Inr out)
     \<and> p_euid p' = 1001 \<and> (\<exists>ident. p_root p' = Some ident \<and> sandbox_instance demo_los 1001 ident)"
proof -
  let ?r = "demo_request\<lparr>jail_mode := Direct\<rparr>"
  have "valid_request ?r" using demo_request_valid by (simp add: valid_request_def)
  then have parse: "Request_parse (wire_arguments ?r) = Inr ?r" by (rule parse_wire_arguments)
  have "\<exists>p' out. execute demo_xos ?r 1001 1001 demo_process = (p', Inr out)"
    by (simp add: execute_def execute_with_mappings_def enter_chroot_def drop_credentials_def send_ready_def
        map_nested_fds_def map_fds_def root_sys_def sys_def close_fd_def demo_xos_def demo_request_def demo_process_def Let_def)
  moreover have "p_euid demo_process = 0" by (simp add: demo_process_def)
  ultimately obtain p' out where "run_helper demo_los demo_xos 1001 1001 (wire_arguments ?r) demo_process = (p', Inr out)"
    by (auto simp: run_helper_def parse demo_validate)
  then show ?thesis using run_helper_confines by blast
qed


theorem nested_launch_maps_descriptors_witness:
  "\<exists>p' out. execute_with_mappings demo_xos demo_request 1001 1001 [7] [3] (Some 6) demo_process = (p', Inr out)
     \<and> map_option fd_file (p_fds p' 7) = Some (Passed 0) \<and> p_ready p' = Some LifecycleSocket"
proof -
  have fds: "mapped_fds demo_request = [7]" "fd_file (the (p_fds demo_process 3)) = Passed 0"
    by (simp_all add: demo_request_def demo_process_def)
  then have "6 \<notin> set (mapped_fds demo_request)" by simp
  from nested_launch_maps_descriptors [OF demo_granting(1) demo_launchable(1) this, of 1001 1001]
  obtain p' out where "execute_with_mappings demo_xos demo_request 1001 1001 [7] [3] (Some 6) demo_process = (p', Inr out)"
      "p_fds p' 7 = Some ((the (p_fds demo_process 3))\<lparr>fd_cloexec := False\<rparr>)" "p_ready p' = Some LifecycleSocket"
    by (auto simp: fds(1))
  then show ?thesis using fds(2) by auto
qed

theorem nested_launch_mapping_hijacks_readiness_witness:
  "\<exists>p' out. execute_with_mappings demo_xos (demo_request\<lparr>mapped_fds := [6]\<rparr>) 1001 1001 [6] [3] (Some 6) demo_process = (p', Inr out)
     \<and> p_ready p' = Some (Passed 0)"
proof -
  have "map_option fd_file (p_fds demo_process ([3] ! 0)) = Some (Passed 0)"
    by (simp add: demo_process_def)
  from nested_launch_mapping_hijacks_readiness [OF demo_granting(2) demo_launchable(2) _ _ this, of 1001 1001]
  show ?thesis by simp
qed


section \<open>The runner's command line\<close>

definition launch_mode :: "LaunchRequest \<Rightarrow> JailMode" where
  "launch_mode lr = (if lr_no_network lr then NoNetwork else if lr_nested_sandbox lr then Sandbox else Direct)"

definition launch_within_bounds :: "launch_os \<Rightarrow> LaunchRequest \<Rightarrow> bool" where
  "launch_within_bounds os lr \<longleftrightarrow>
     lr_uid lr \<le> u32_max \<and> lr_gid lr \<le> u32_max
     \<and> distinct (lr_supplementary_gids lr) \<and> (\<forall>g \<in> set (lr_supplementary_gids lr). g \<le> u32_max)
     \<and> distinct (lr_mapped_fds lr) \<and> (\<forall>fd \<in> set (lr_mapped_fds lr). fd \<le> MAX_LAUNCH_FD)
     \<and> lr_cwd lr \<noteq> Some ''-''
     \<and> (\<forall>p i. directory_identity os p = Inr i \<longrightarrow> fst i \<le> u64_max \<and> snd i \<le> u64_max)"

lemma environment_entry_valid: "environment_entry_ok (key, v) \<Longrightarrow> validate_environment (key @ ''='' @ v) = Inr ()"
  by (cases key) (auto simp: environment_entry_ok_def validate_environment_def)

lemma command_line_parses:
  assumes "command os lr = Inr c" "launch_within_bounds os lr"
  shows "\<exists>rt runtime ident. canonicalize os (lr_root lr) = Inr rt \<and> canonicalize os (lr_runtime_root lr) = Inr runtime
    \<and> directory_identity os rt = Inr ident
    \<and> Request_parse (program c # arguments c) = Inr
        \<lparr>root = display_path rt, runtime_root = display_path runtime, root_device = fst ident, root_inode = snd ident,
         uid = lr_uid lr, gid = lr_gid lr, groups = lr_supplementary_gids lr, launch_cwd = lr_cwd lr,
         jail_mode = launch_mode lr, mapped_fds = lr_mapped_fds lr,
         launch_environment = map (\<lambda>(key, v). key @ ''='' @ v) (lr_environment lr), launch_argv = lr_argv lr\<rparr>"
proof -
  obtain rt runtime ident where h: "canonicalize os (lr_root lr) = Inr rt" "canonicalize os (lr_runtime_root lr) = Inr runtime"
      "directory_identity os rt = Inr ident" "\<not> list_ex (\<lambda>e. \<not> environment_entry_ok e) (lr_environment lr)"
      "lr_argv lr \<noteq> []" "length (lr_argv lr) \<le> MAX_ARGUMENTS" "length (lr_environment lr) \<le> MAX_ENVIRONMENT"
      "length (lr_mapped_fds lr) \<le> MAX_MAPPED_FDS"
    using assms(1) unfolding command_def Let_def run_iffs with_context_Inr by auto
  let ?r = "\<lparr>root = display_path rt, runtime_root = display_path runtime, root_device = fst ident, root_inode = snd ident,
         uid = lr_uid lr, gid = lr_gid lr, groups = lr_supplementary_gids lr, launch_cwd = lr_cwd lr,
         jail_mode = launch_mode lr, mapped_fds = lr_mapped_fds lr,
         launch_environment = map (\<lambda>(key, v). key @ ''='' @ v) (lr_environment lr), launch_argv = lr_argv lr\<rparr>"
  have env: "validate_environment e = Inr ()" if "e \<in> set (launch_environment ?r)" for e
    using that h(4) environment_entry_valid by (auto simp: list_ex_iff)
  have "fst ident \<le> u64_max" "snd ident \<le> u64_max"
    using assms(2) h(3) unfolding launch_within_bounds_def by blast+
  then have "valid_request ?r"
    using assms(2) h(5-8) env by (auto simp: valid_request_def launch_within_bounds_def)
  then have "Request_parse (wire_arguments ?r) = Inr ?r" by (rule parse_wire_arguments)
  moreover have "arguments c = tl (wire_arguments ?r)"
    using assms(1) h by (auto simp: command_def wire_arguments_def launch_mode_def)
  then have "Request_parse (program c # arguments c) = Request_parse (wire_arguments ?r)"
    by (simp add: Request_parse_def)
  ultimately show ?thesis using h(1-3) by auto
qed


definition demo_launch :: LaunchRequest where
  "demo_launch = \<lparr>lr_root = ''/r/chroots/a/i'', lr_runtime_root = ''/r'', lr_uid = 1001, lr_gid = 1001,
     lr_supplementary_gids = [5], lr_mapped_fds = [7], lr_cwd = Some ''/app'', lr_nested_sandbox = True, lr_no_network = False,
     lr_started_fd = None, lr_environment = [(''A'', ''b'')], lr_argv = [''sh'']\<rparr>"


section \<open>Supervision of a nested child\<close>

abbreviation SIGINT :: nat where "SIGINT \<equiv> 2"
abbreviation SIGKILL :: nat where "SIGKILL \<equiv> 9"
abbreviation SIGTERM :: nat where "SIGTERM \<equiv> 15"

text \<open>What one turn of the waiting loop observes; times are milliseconds.\<close>

datatype child_poll = ChildExited nat | ChildRunning | WaitFailed

record turn =
  child_state :: child_poll
  poll_failed :: bool
  client_byte :: "nat option"
  disconnected :: bool
  now :: nat

definition requested_signal :: "turn \<Rightarrow> nat option" where
  "requested_signal t =
     (case client_byte t of
        Some b \<Rightarrow> if b = SIGINT \<or> b = SIGTERM then Some b else None
      | None \<Rightarrow> None)"

text \<open>The signals sent to the child's process group, each with its time, and the status when the loop returns.\<close>

fun wait_for_nested_child_or_client :: "nat option \<Rightarrow> turn list \<Rightarrow> (nat \<times> nat) list \<times> nat result option" where
  "wait_for_nested_child_or_client deadline [] = ([], None)"
| "wait_for_nested_child_or_client deadline (t # ts) =
     (case child_state t of
        ChildExited status \<Rightarrow> ([], Some (Inr status))
      | WaitFailed \<Rightarrow> ([], Some (Inl (Bail ''wait nested sandbox child'')))
      | ChildRunning \<Rightarrow>
          if poll_failed t then ([], Some (Inl (Bail ''watch nested launch client'')))
          else if deadline = None \<and> (requested_signal t \<noteq> None \<or> disconnected t) then
            (let sig = (case requested_signal t of Some s \<Rightarrow> s | None \<Rightarrow> SIGTERM);
                 rest = wait_for_nested_child_or_client (Some (now t + 2000)) ts
             in ((now t, sig) # fst rest, snd rest))
          else if (case deadline of Some d \<Rightarrow> now t \<ge> d | None \<Rightarrow> False) then
            (let rest = wait_for_nested_child_or_client deadline ts in ((now t, SIGKILL) # fst rest, snd rest))
          else wait_for_nested_child_or_client deadline ts)"

lemma wait_after_deadline:
  "(time, sig) \<in> set (fst (wait_for_nested_child_or_client (Some d) ts)) \<Longrightarrow> sig = SIGKILL \<and> d \<le> time"
proof (induction ts)
  case (Cons t ts)
  then show ?case by (auto simp: Let_def split: child_poll.splits if_splits)
qed simp

text \<open>
  C40. Escalation: a nested child is signalled only because its client asked for it or went away.
  The first signal is the client's \<^verbatim>\<open>SIGINT\<close> or \<^verbatim>\<open>SIGTERM\<close> (\<^verbatim>\<open>SIGTERM\<close> when it went away), and every
  later signal is \<^verbatim>\<open>SIGKILL\<close>, sent at least two seconds after the first.
\<close>

theorem nested_child_escalation:
  "case fst (wait_for_nested_child_or_client None ts) of
     [] \<Rightarrow> True
   | (t0, s0) # later \<Rightarrow>
       (\<exists>t \<in> set ts. now t = t0 \<and> (requested_signal t = Some s0 \<or> (requested_signal t = None \<and> disconnected t \<and> s0 = SIGTERM)))
       \<and> list_all (\<lambda>(t1, s1). s1 = SIGKILL \<and> t0 + 2000 \<le> t1) later"
proof (induction ts)
  case (Cons t ts)
  have later: "list_all (\<lambda>(t1, s1). s1 = SIGKILL \<and> now t + 2000 \<le> t1)
      (fst (wait_for_nested_child_or_client (Some (now t + 2000)) ts))"
    using wait_after_deadline by (auto simp: list_all_iff)
  show ?case
  proof (cases "child_state t = ChildRunning \<and> \<not> poll_failed t")
    case True
    show ?thesis
    proof (cases "requested_signal t \<noteq> None \<or> disconnected t")
      case signal: True
      then show ?thesis using True later by (auto simp: Let_def split: option.splits)
    next
      case False
      then show ?thesis using True Cons by (auto split: list.splits)
    qed
  next
    case False
    then show ?thesis by (auto split: child_poll.splits)
  qed
qed simp

end
