(* ===== verification/Spawn_Handler.thy ===== *)
theory Spawn_Handler
  imports Spawn_Broker Secure_Launch Flatpak_Metadata
begin

unbundle bit_operations_syntax

text \<open>
  The spawn broker at work (\<^verbatim>\<open>src/src/sandbox/spawn_broker.rs\<close>): the reception of a packet with its
  descriptors, the environment and the command of a spawned program, the metadata of a nested
  sandbox, the registry of connections, and \<^verbatim>\<open>handle_connection\<close> as the trace of what it does.
\<close>

section \<open>Receiving descriptors\<close>

text \<open>One control message: whether it is a valid \<^verbatim>\<open>SCM_RIGHTS\<close> header, its size and its descriptors.\<close>

record control_message =
  cm_rights :: bool
  cm_bytes :: nat
  cm_fds :: "int list"

fun control_fds :: "int list \<Rightarrow> control_message list \<Rightarrow> int list option" where
  "control_fds acc [] = Some acc"
| "control_fds acc (c # cs) =
     (if \<not> cm_rights c then None
      else if cm_bytes c mod 4 \<noteq> 0 \<or> length acc + cm_bytes c div 4 > MAX_FDS then None
      else control_fds (acc @ cm_fds c) cs)"

definition close_fds :: "int list \<Rightarrow> int list" where
  "close_fds fds = filter (\<lambda>fd. fd \<ge> 0) fds"

definition close_control_fds :: "control_message list \<Rightarrow> int list" where
  "close_control_fds cs = concat (map (\<lambda>c. if cm_rights c \<and> cm_bytes c mod 4 = 0 then close_fds (cm_fds c) else []) cs)"

text \<open>\<^verbatim>\<open>fcntl(F_SETFD, FD_CLOEXEC)\<close> on each descriptor; the result is what was kept and what was closed.\<close>

fun secure_fds :: "(int \<Rightarrow> bool) \<Rightarrow> int list \<Rightarrow> int list \<Rightarrow> int list option \<times> int list" where
  "secure_fds setfd acc [] = (Some acc, [])"
| "secure_fds setfd acc (fd # fds) =
     (if fd < 0 \<or> \<not> setfd fd then (None, (if fd \<ge> 0 then [fd] else []) @ acc)
      else secure_fds setfd (acc @ [fd]) fds)"

text \<open>The packet and the descriptors returned, and the descriptors closed on the way.\<close>

definition receive_packet :: "(int \<Rightarrow> bool) \<Rightarrow> string \<Rightarrow> bool \<Rightarrow> control_message list
    \<Rightarrow> (string \<times> int list) option \<times> int list" where
  "receive_packet setfd packet truncated cs =
     (if packet = [] then (None, [])
      else if truncated then (None, close_control_fds cs)
      else
        (case parse_frame packet of
           None \<Rightarrow> (None, close_control_fds cs)
         | Some (_, _, _, expected) \<Rightarrow>
             (case control_fds [] cs of
                None \<Rightarrow> (None, close_control_fds cs)
              | Some raw \<Rightarrow>
                  if length raw \<noteq> unat expected then (None, close_fds raw)
                  else
                    (case secure_fds setfd [] raw of
                       (None, closed) \<Rightarrow> (None, closed)
                     | (Some fds, closed) \<Rightarrow> (Some (packet, fds), closed)))))"

section \<open>Environment and command\<close>

fun set_variable :: "string \<Rightarrow> string \<Rightarrow> (string \<times> string) list \<Rightarrow> (string \<times> string) list" where
  "set_variable key v [] = [(key, v)]"
| "set_variable key v ((name, old) # rest) =
     (if name = key then (name, v) # rest else (name, old) # set_variable key v rest)"

fun merge_environment :: "(string \<times> string) list \<Rightarrow> (string \<times> string) list \<Rightarrow> (string \<times> string) list option" where
  "merge_environment env [] = Some env"
| "merge_environment env ((key, v) # additions) =
     (if \<not> utf8_ok key \<or> \<not> utf8_ok v then None
      else merge_environment (set_variable key v env) additions)"

definition spawn_flags_supported :: "u32 \<Rightarrow> bool" where
  "spawn_flags_supported fl \<longleftrightarrow> fl AND NOT SPAWN_SUPPORTED_FLAGS = 0"

record SandboxExecutionContext =
  ctx_root :: string
  ctx_runtime_root :: string
  ctx_uid :: nat
  ctx_gid :: nat
  ctx_supplementary_gids :: "nat list"
  ctx_environment :: "(string \<times> string) list"

text \<open>What \<^verbatim>\<open>spawn_in_existing_sandbox\<close> needs from outside: the root of a new nested sandbox, and the
  numbers \<^verbatim>\<open>F_DUPFD\<close> picks.\<close>

record spawn_os =
  create_nested_root :: "string result"
  pick_fd :: "open_file fd_table \<Rightarrow> nat \<Rightarrow> nat"

definition readiness_pipe :: "spawn_os \<Rightarrow> nat \<Rightarrow> open_file fd_table \<Rightarrow> open_file fd_table \<times> nat" where
  "readiness_pipe os minimum t =
     (let n = pick_fd os t minimum in (t(n \<mapsto> \<lparr>fd_file = OtherFile 0, fd_cloexec = True\<rparr>), n))"

definition start_notification :: "spawn_os \<Rightarrow> SpawnRequest \<Rightarrow> open_file fd_table \<Rightarrow> open_file fd_table \<times> nat option" where
  "start_notification os r t =
     (if flags r AND SPAWN_NOTIFY_START \<noteq> 0
      then (let (t', n) = readiness_pipe os (minimum_source (map fst (mappings r))) t in (t', Some n))
      else (t, None))"

text \<open>The command to run, the descriptor table of its process, and the descriptor for the start notification.\<close>

definition spawn_in_existing_sandbox :: "launch_os \<Rightarrow> spawn_os \<Rightarrow> SandboxExecutionContext \<Rightarrow> open_file fd_table
    \<Rightarrow> SpawnRequest \<Rightarrow> (Command \<times> open_file fd_table \<times> nat option) result" where
  "spawn_in_existing_sandbox los os ctx t r =
     (if \<not> spawn_flags_supported (flags r) then Inl (Bail ''unsupported nested Spawn flags'')
      else if (case cwd r of None \<Rightarrow> False | Some dir \<Rightarrow> \<not> starts_with dir ''/'')
      then Inl (Bail ''Spawn cwd must be absolute'')
      else
        let nested_sandbox = flags r AND 0x04 \<noteq> 0;
            no_network = flags r AND 0x08 \<noteq> 0;
            targets = map fst (mappings r);
            inherited = (if flags r AND 0x01 = 0 then ctx_environment ctx else [])
        in
        rbind (if nested_sandbox then create_nested_root os else Inr (ctx_root ctx)) (\<lambda>launch_root.
        rbind (ok_or (Bail ''Spawn environment is not UTF-8'') (merge_environment inherited (environment r))) (\<lambda>env.
        let (t, started) = start_notification os r t in
        (case map_fds (pick_fd os) targets (map snd (mappings r)) t of
           None \<Rightarrow> Inl (Bail ''duplicate Spawn file descriptor'')
         | Some t' \<Rightarrow>
             rbind (command los \<lparr>lr_root = launch_root, lr_runtime_root = ctx_runtime_root ctx, lr_uid = ctx_uid ctx,
               lr_gid = ctx_gid ctx, lr_supplementary_gids = ctx_supplementary_gids ctx, lr_mapped_fds = targets,
               lr_cwd = cwd r, lr_nested_sandbox = nested_sandbox, lr_no_network = no_network, lr_started_fd = started,
               lr_environment = env, lr_argv = argv r\<rparr>) (\<lambda>c. Inr (c, t', started))))))"

section \<open>Metadata of a nested sandbox\<close>

fun insert_sandbox_flag :: "bool \<Rightarrow> string list \<Rightarrow> string" where
  "insert_sandbox_flag inserted [] = (if inserted then [] else ''[Instance]'' @ [newline] @ ''sandbox=true'' @ [newline])"
| "insert_sandbox_flag inserted (line # rest) =
     line @ [newline]
     @ (if \<not> inserted \<and> trim line = ''[Instance]''
        then ''sandbox=true'' @ [newline] @ insert_sandbox_flag True rest
        else insert_sandbox_flag inserted rest)"

definition restricted_flatpak_info :: "string \<Rightarrow> string" where
  "restricted_flatpak_info info =
     (if list_ex (\<lambda>line. trim line = ''sandbox=true'') (lines info) then info
      else insert_sandbox_flag False (lines info))"

section \<open>One connection\<close>

definition resolve_watch_bus_owner :: "bool \<Rightarrow> u32 \<Rightarrow> (u32 \<Rightarrow> nat option result) \<Rightarrow> nat option result" where
  "resolve_watch_bus_owner watch_bus pid resolve =
     (if \<not> watch_bus then Inr None
      else if pid = 0 then Inl (Bail ''WATCH_BUS caller has no authenticated process id'')
      else rbind (resolve pid) (\<lambda>owner.
        case owner of
          None \<Rightarrow> Inl (Bail ''WATCH_BUS caller has no current reaper subtree'')
        | Some s \<Rightarrow> Inr (Some s)))"

definition spawn_started_payload :: "u32 \<Rightarrow> u32 \<Rightarrow> string" where
  "spawn_started_payload pid relative_pid = u32_bytes pid @ u32_bytes relative_pid"

definition spawn_started_relative_pid :: "bool \<Rightarrow> u32 \<Rightarrow> u32" where
  "spawn_started_relative_pid expose_pids started_pid = (if expose_pids then started_pid else 0)"

text \<open>\<^verbatim>\<open>wait_for_spawn_started\<close> on the bytes read from the pipe until it closed.\<close>

definition wait_for_spawn_started :: "string \<Rightarrow> u32 result" where
  "wait_for_spawn_started bytes =
     (if length bytes < 4 then Inl (Bail ''secure launch closed before Spawn readiness'')
      else let pid = u32_from (take 4 bytes) in
        if pid = 0 then Inl (Bail ''invalid Spawn readiness notification'') else Inr pid)"

datatype broker_action =
    Reply string
  | Launched SpawnRequest
  | Tracked u32
  | ChildKilled
  | TreeTerminated
  | TreeWaited
  | OrphansTerminated
  | Released

record broker_env =
  be_send :: "string \<Rightarrow> bool"
  be_byte :: "char option"
  be_stopping :: bool
  be_subtree :: "u32 \<Rightarrow> nat option result"
  be_spawn :: "SpawnRequest \<Rightarrow> (u32 \<times> bool) result"
  be_track :: "u32 \<Rightarrow> unit result"
  be_pipe :: string
  be_status :: "u32 result"
  be_triggered :: bool
  be_turns :: "(bool \<times> bool \<times> bool) list"

definition packet_of :: "u16 \<Rightarrow> u32 \<Rightarrow> string \<Rightarrow> string" where
  "packet_of kind request payload = frame kind request payload 0 @ payload"

text \<open>The loop that follows the exit of a watched program; a turn is whether the broker is stopping,
  whether termination is requested, and whether the orphans are gone.\<close>

fun watch_loop :: "bool \<Rightarrow> (bool \<times> bool \<times> bool) list \<Rightarrow> broker_action list" where
  "watch_loop triggered [] = []"
| "watch_loop triggered ((stopping, requested, cleaned) # turns) =
     (if stopping then []
      else if triggered \<or> requested
      then OrphansTerminated # (if cleaned then [] else watch_loop True turns)
      else watch_loop False turns)"

definition handle_spawn :: "broker_env \<Rightarrow> u32 \<Rightarrow> string \<Rightarrow> nat list \<Rightarrow> broker_action list" where
  "handle_spawn be request payload fds =
     (case parse_spawn payload fds of
        Inl _ \<Rightarrow> []
      | Inr r \<Rightarrow>
          let watch_bus = flags r AND SPAWN_WATCH_BUS \<noteq> 0;
              expose_pids = flags r AND SPAWN_EXPOSE_PIDS \<noteq> 0 in
          (case resolve_watch_bus_owner watch_bus (caller_pid r) (be_subtree be) of
             Inl _ \<Rightarrow> []
           | Inr _ \<Rightarrow>
               (case be_spawn be r of
                  Inl _ \<Rightarrow> []
                | Inr (pid, notify) \<Rightarrow>
                    Launched r
                    # (case be_track be pid of
                         Inl _ \<Rightarrow> [ChildKilled]
                       | Inr _ \<Rightarrow>
                           let accepted = packet_of SPAWN_ACCEPTED request (u32_bytes pid) in
                           Tracked pid
                           # (if \<not> be_send be accepted then [TreeTerminated]
                              else
                                let relative = spawn_started_relative_pid expose_pids
                                      (case wait_for_spawn_started (be_pipe be) of Inr n \<Rightarrow> n | Inl _ \<Rightarrow> 0);
                                    started = packet_of SPAWN_STARTED request (spawn_started_payload pid relative) in
                                Reply accepted
                                # (if notify \<and> \<not> be_send be started then [TreeTerminated]
                                   else
                                     (if notify then [Reply started] else []) @ [TreeWaited]
                                     @ (case be_status be of
                                          Inl _ \<Rightarrow> []
                                        | Inr status \<Rightarrow>
                                            let exited = packet_of SPAWN_EXITED request (u32_bytes pid @ u32_bytes status) in
                                            if be_send be exited then [Reply exited] else [])
                                     @ (if watch_bus then watch_loop (be_triggered be) (be_turns be) else [])))))))"

definition handle_connection :: "broker_env \<Rightarrow> (string \<times> nat list) option \<Rightarrow> broker_action list" where
  "handle_connection be received =
     (case received of
        None \<Rightarrow> []
      | Some (packet, fds) \<Rightarrow>
          (case parse_frame packet of
             None \<Rightarrow> []
           | Some (kind, request, _, _) \<Rightarrow>
               if kind = PING \<and> fds = [] then
                 (let pong = packet_of PONG request [] in if be_send be pong then [Reply pong] else [])
               else if kind = FD_TEST \<and> length fds = 1 then
                 (let ok = packet_of FD_OK request [] in
                  if be_byte be = Some (CHR ''F'') \<and> be_send be ok then [Reply ok] else [])
               else if kind = LIFECYCLE_TEST_START \<and> fds = []
                    \<and> be_send be (packet_of LIFECYCLE_TEST_ACCEPTED request (u32_bytes request)) then
                 (let exited = packet_of LIFECYCLE_TEST_EXITED request (u32_bytes request @ u32_bytes 0) in
                  [Reply (packet_of LIFECYCLE_TEST_ACCEPTED request (u32_bytes request))]
                  @ (if \<not> be_stopping be \<and> be_send be exited then [Reply exited] else []))
               else if kind = SPAWN then handle_spawn be request (drop HEADER_SIZE packet) fds
               else []))
     @ [Released]"


section \<open>Environment\<close>

lemma map_of_set_variable: "map_of (set_variable key v env) = (map_of env)(key \<mapsto> v)"
  by (induction key v env rule: set_variable.induct) (auto simp: fun_eq_iff)

lemma set_variable_keys: "fst ` set (set_variable key v env) = insert key (fst ` set env)"
  by (induction key v env rule: set_variable.induct) auto

lemma distinct_set_variable: "distinct (map fst env) \<Longrightarrow> distinct (map fst (set_variable key v env))"
  by (induction key v env rule: set_variable.induct) (auto simp: set_variable_keys)

text \<open>
  The environment of a spawned program: it exists iff every added name and value is UTF-8, a
  name the request adds has the last value the request gives it, every other name keeps the
  inherited value, and no name is there twice.
\<close>

theorem merge_environment_overrides:
  "case merge_environment env additions of
     None \<Rightarrow> \<exists>(key, v) \<in> set additions. \<not> utf8_ok key \<or> \<not> utf8_ok v
   | Some merged \<Rightarrow>
       list_all (\<lambda>(key, v). utf8_ok key \<and> utf8_ok v) additions
       \<and> map_of merged = map_of env ++ map_of (rev additions)
       \<and> (distinct (map fst env) \<longrightarrow> distinct (map fst merged))"
proof (induction additions arbitrary: env)
  case (Cons kv additions)
  obtain key v where kv: "kv = (key, v)" by (cases kv)
  have "map_of env ++ map_of (rev ((key, v) # additions)) = (map_of env)(key \<mapsto> v) ++ map_of (rev additions)"
    by (simp add: map_add_assoc [symmetric] map_add_upd_left map_of_append)
  then show ?case
    using Cons [of "set_variable key v env"] distinct_set_variable [of env key v]
    by (auto simp: kv map_of_set_variable split: option.splits)
qed simp

theorem merge_environment_overrides_witness:
  "merge_environment [(''PATH'', ''/usr/bin''), (''HOME'', ''/h'')] [(''PATH'', ''/a''), (''X'', ''1''), (''PATH'', ''/b'')]
     = Some [(''PATH'', ''/b''), (''HOME'', ''/h''), (''X'', ''1'')]
   \<and> distinct (map fst [(''PATH'', ''/b''), (''HOME'', ''/h''), (''X'', ''1'')])"
proof -
  have run: "merge_environment [(''PATH'', ''/usr/bin''), (''HOME'', ''/h'')] [(''PATH'', ''/a''), (''X'', ''1''), (''PATH'', ''/b'')]
     = Some [(''PATH'', ''/b''), (''HOME'', ''/h''), (''X'', ''1'')]" by code_simp
  have "distinct (map fst [(''PATH'', ''/usr/bin''), (''HOME'', ''/h'')])" by code_simp
  then show ?thesis
    using merge_environment_overrides [of "[(''PATH'', ''/usr/bin''), (''HOME'', ''/h'')]" "[(''PATH'', ''/a''), (''X'', ''1''), (''PATH'', ''/b'')]"]
    unfolding run by simp
qed

section \<open>Nested metadata\<close>

fun flagged_lines :: "string list \<Rightarrow> string list" where
  "flagged_lines [] = [''[Instance]'', ''sandbox=true'']"
| "flagged_lines (line # rest) =
     (if trim line = ''[Instance]'' then line # ''sandbox=true'' # rest else line # flagged_lines rest)"

lemma insert_sandbox_flag_lines:
  "insert_sandbox_flag True ls = concat (map (\<lambda>l. l @ [newline]) ls)"
  "insert_sandbox_flag False ls = concat (map (\<lambda>l. l @ [newline]) (flagged_lines ls))"
  by (induction ls) simp_all

lemma flagged_lines_set: "l \<in> set (flagged_lines ls) \<Longrightarrow> l \<in> set ls \<or> l = ''[Instance]'' \<or> l = ''sandbox=true''"
  by (induction ls) (auto split: if_splits)

lemma header_name_Instance: "is_header l \<Longrightarrow> header_name l = ''Instance'' \<Longrightarrow> l = ''[Instance]''"
proof -
  assume h: "is_header l" "header_name l = ''Instance''"
  obtain a where a: "l = CHR ''['' # a" using h(1) by (auto simp: is_header_def starts_with_iff)
  obtain b where b: "l = b @ '']''" using h(1) by (auto simp: is_header_def ends_with_iff)
  note ab = a b
  have "a \<noteq> []" using ab by auto
  then have "last a = CHR '']''" using ab by (metis last_ConsR last_snoc)
  moreover have "butlast a = ''Instance''" using h(2) ab(1) by (simp add: header_name_def)
  ultimately have "a = ''Instance]''" using \<open>a \<noteq> []\<close> append_butlast_last_id [of a] by simp
  then show ?thesis using ab(1) by simp
qed

lemma value_loop_flagged: "cur \<noteq> ''Instance'' \<Longrightarrow> value_loop ''Instance'' ''sandbox'' cur (flagged_lines ls) = Some ''true''"
proof (induction ls arbitrary: cur)
  case Nil
  show ?case by code_simp
next
  case (Cons line ls)
  have flag: "value_loop ''Instance'' ''sandbox'' ''Instance'' (''sandbox=true'' # rest) = Some ''true''" for rest
  proof -
    have "trim ''sandbox=true'' = ''sandbox=true''" "\<not> is_header ''sandbox=true''"
      "split_once (CHR ''='') ''sandbox=true'' = Some (''sandbox'', ''true'')" "trim ''sandbox'' = ''sandbox''" "trim ''true'' = ''true''"
      by code_simp+
    then show ?thesis by (simp only: value_loop.simps Let_def) simp
  qed
  show ?case
  proof (cases "trim line = ''[Instance]''")
    case True
    have "is_header ''[Instance]''" "header_name ''[Instance]'' = ''Instance''" by code_simp+
    then show ?thesis using flag by (simp add: True Let_def del: value_loop.simps(2)) (simp only: value_loop.simps True Let_def if_True flag)
  next
    case False
    have "header_name (trim line) \<noteq> ''Instance''" if "is_header (trim line)"
      using header_name_Instance [OF that] False by auto
    then show ?thesis using Cons False by (auto simp: Let_def split: option.splits)
  qed
qed

text \<open>
  A nested sandbox is marked as one: whatever the parent's \<^verbatim>\<open>.flatpak-info\<close> says, without
  carriage returns and not marked yet, the copy for the nested sandbox has \<^verbatim>\<open>sandbox=true\<close> in its
  \<^verbatim>\<open>[Instance]\<close> group.
\<close>

theorem restricted_info_marks_sandbox:
  assumes "carriage_return \<notin> set info" "\<not> list_ex (\<lambda>line. trim line = ''sandbox=true'') (lines info)"
  shows "metadata_value (restricted_flatpak_info info) ''Instance'' ''sandbox'' = Some ''true''"
proof -
  have clean: "newline \<notin> set l \<and> carriage_return \<notin> set l" if "l \<in> set (lines info)" for l
    using lines_clean [OF that] assms(1) by auto
  have "lines (insert_sandbox_flag False (lines info)) = flagged_lines (lines info)"
    unfolding insert_sandbox_flag_lines
  proof (rule lines_of_terminated)
    fix l assume "l \<in> set (flagged_lines (lines info))"
    then have "l \<in> set (lines info) \<or> l = ''[Instance]'' \<or> l = ''sandbox=true''" by (rule flagged_lines_set)
    moreover have "newline \<notin> set ''[Instance]'' \<and> carriage_return \<notin> set ''[Instance]''"
      "newline \<notin> set ''sandbox=true'' \<and> carriage_return \<notin> set ''sandbox=true''" by code_simp+
    ultimately show "newline \<notin> set l \<and> carriage_return \<notin> set l" using clean by blast
  qed
  then show ?thesis
    using assms(2) value_loop_flagged [of "[]" "lines info"] by (simp add: restricted_flatpak_info_def metadata_value_def)
qed

theorem restricted_info_marks_sandbox_witness:
  "metadata_value (restricted_flatpak_info (''[Application]'' @ [newline] @ ''name=a'' @ [newline])) ''Instance'' ''sandbox'' = Some ''true''"
  by (rule restricted_info_marks_sandbox) code_simp+

section \<open>Connections\<close>

text \<open>The kind and the request of a reply.\<close>

definition reply_header :: "broker_action \<Rightarrow> (u16 \<times> u32) option" where
  "reply_header a = (case a of Reply packet \<Rightarrow> map_option (\<lambda>(kind, request, _, _). (kind, request)) (parse_frame packet) | _ \<Rightarrow> None)"

definition is_reply :: "broker_action \<Rightarrow> bool" where
  "is_reply a \<longleftrightarrow> (\<exists>packet. a = Reply packet)"

definition replies :: "broker_action list \<Rightarrow> (u16 \<times> u32) option list" where
  "replies as = map reply_header (filter is_reply as)"

definition answers :: "u32 \<Rightarrow> u16 list \<Rightarrow> (u16 \<times> u32) option list" where
  "answers request kinds = map (\<lambda>kind. Some (kind, request)) kinds"

lemma replies_simps [simp]:
  "replies [] = []"
  "replies (as @ bs) = replies as @ replies bs"
  "replies (Reply p # as) = map_option (\<lambda>(kind, request, _, _). (kind, request)) (parse_frame p) # replies as"
  "replies (Launched r # as) = replies as" "replies (Tracked n # as) = replies as"
  "replies (ChildKilled # as) = replies as" "replies (TreeTerminated # as) = replies as"
  "replies (TreeWaited # as) = replies as" "replies (OrphansTerminated # as) = replies as"
  "replies (Released # as) = replies as"
  by (simp_all add: replies_def is_reply_def reply_header_def)

lemma parse_packet_of: "length payload \<le> 8 \<Longrightarrow> parse_frame (packet_of kind request payload) = Some (kind, request, length payload, 0)"
  by (simp add: packet_of_def parse_frame_frame MAX_PAYLOAD_def)

lemma watch_loop_replies [simp]: "replies (watch_loop b ts) = []"
  by (induction b ts rule: watch_loop.induct) simp_all

lemma watch_loop_actions: "a \<in> set (watch_loop b ts) \<Longrightarrow> a = OrphansTerminated"
  by (induction b ts rule: watch_loop.induct) (auto split: if_splits)

lemma handle_spawn_replies:
  "replies (handle_spawn be request payload fds) \<in> answers request `
     {[], [SPAWN_ACCEPTED], [SPAWN_ACCEPTED, SPAWN_STARTED], [SPAWN_ACCEPTED, SPAWN_EXITED], [SPAWN_ACCEPTED, SPAWN_STARTED, SPAWN_EXITED]}"
  unfolding handle_spawn_def
  by (auto simp: Let_def parse_packet_of answers_def spawn_started_payload_def
      split: sum.splits if_splits prod.splits)


definition is_launch :: "broker_action \<Rightarrow> bool" where
  "is_launch a \<longleftrightarrow> (case a of Launched _ \<Rightarrow> True | _ \<Rightarrow> False)"

definition is_finish :: "broker_action \<Rightarrow> bool" where
  "is_finish a \<longleftrightarrow> a = ChildKilled \<or> a = TreeTerminated \<or> a = TreeWaited"

definition protocol :: "(u16 \<times> u16 list) set" where
  "protocol =
     {(PING, [PONG]), (FD_TEST, [FD_OK]),
      (LIFECYCLE_TEST_START, [LIFECYCLE_TEST_ACCEPTED]), (LIFECYCLE_TEST_START, [LIFECYCLE_TEST_ACCEPTED, LIFECYCLE_TEST_EXITED]),
      (SPAWN, [SPAWN_ACCEPTED]), (SPAWN, [SPAWN_ACCEPTED, SPAWN_STARTED]), (SPAWN, [SPAWN_ACCEPTED, SPAWN_EXITED]),
      (SPAWN, [SPAWN_ACCEPTED, SPAWN_STARTED, SPAWN_EXITED])}"

lemma watch_loop_counts [simp]:
  "filter is_launch (watch_loop b ts) = []" "filter is_finish (watch_loop b ts) = []" "Released \<notin> set (watch_loop b ts)"
  using watch_loop_actions by (fastforce simp: filter_empty_conv is_launch_def is_finish_def)+

lemma handle_spawn_counts:
  "length (filter is_launch (handle_spawn be request payload fds)) = length (filter is_finish (handle_spawn be request payload fds))
   \<and> Released \<notin> set (handle_spawn be request payload fds)"
  unfolding handle_spawn_def
  by (auto simp: Let_def is_launch_def is_finish_def split: sum.splits prod.splits)

definition obeys_protocol :: "(string \<times> nat list) option \<Rightarrow> broker_action list \<Rightarrow> bool" where
  "obeys_protocol received actions \<longleftrightarrow>
     replies actions = []
     \<or> (\<exists>packet fds kind request len n kinds. received = Some (packet, fds)
          \<and> parse_frame packet = Some (kind, request, len, n)
          \<and> replies actions = answers request kinds \<and> (kind, kinds) \<in> protocol)"

lemma obeys_protocolI:
  "parse_frame packet = Some (kind, request, len, n) \<Longrightarrow> replies actions = answers request kinds
    \<Longrightarrow> kinds = [] \<or> (kind, kinds) \<in> protocol \<Longrightarrow> obeys_protocol (Some (packet, fds)) actions"
  by (auto simp: obeys_protocol_def answers_def)

lemma replies_simple:
  assumes "\<forall>k \<in> set kinds. length (payload k) \<le> 8"
  shows "replies (map (\<lambda>k. Reply (packet_of k request (payload k))) kinds) = answers request kinds"
  using assms by (induction kinds) (simp_all add: answers_def parse_packet_of)

lemma simple_reply_counts:
  "filter is_launch (map (\<lambda>k. Reply (f k)) kinds) = []" "filter is_finish (map (\<lambda>k. Reply (f k)) kinds) = []"
  "Released \<notin> set (map (\<lambda>k. Reply (f k)) kinds)"
  by (auto simp: filter_empty_conv is_launch_def is_finish_def)

text \<open>What the broker answers to everything but a spawn request.\<close>

definition test_payload :: "u32 \<Rightarrow> u16 \<Rightarrow> string" where
  "test_payload request k =
     (if k = LIFECYCLE_TEST_ACCEPTED then u32_bytes request
      else if k = LIFECYCLE_TEST_EXITED then u32_bytes request @ u32_bytes 0 else [])"

lemma handle_connection_simple:
  assumes "parse_frame packet = Some (kind, request, len, n)" "kind \<noteq> SPAWN"
  shows "\<exists>kinds. handle_connection be (Some (packet, fds))
      = map (\<lambda>k. Reply (packet_of k request (test_payload request k))) kinds @ [Released]
    \<and> (kinds = [] \<or> (kind, kinds) \<in> protocol)"
proof -
  note kinds = PONG_def FD_OK_def LIFECYCLE_TEST_ACCEPTED_def LIFECYCLE_TEST_EXITED_def
  have pay: "test_payload request PONG = []" "test_payload request FD_OK = []"
      "test_payload request LIFECYCLE_TEST_ACCEPTED = u32_bytes request"
      "test_payload request LIFECYCLE_TEST_EXITED = u32_bytes request @ u32_bytes 0"
    by (simp_all add: test_payload_def kinds)
  have none: "\<exists>kinds. [Released] = map (\<lambda>k. Reply (packet_of k request (test_payload request k))) kinds @ [Released]
      \<and> (kinds = [] \<or> (kind, kinds) \<in> protocol)" by simp
  have some: "\<exists>kinds. as @ [Released] = map (\<lambda>k. Reply (packet_of k request (test_payload request k))) kinds @ [Released]
      \<and> (kinds = [] \<or> (kind, kinds) \<in> protocol)"
    if "as = map (\<lambda>k. Reply (packet_of k request (test_payload request k))) ks" "(kind, ks) \<in> protocol" for as ks
    using that by blast
  consider "kind = PING \<and> fds = []" | "\<not> (kind = PING \<and> fds = [])" "kind = FD_TEST \<and> length fds = 1"
    | "\<not> (kind = PING \<and> fds = [])" "\<not> (kind = FD_TEST \<and> length fds = 1)" "kind = LIFECYCLE_TEST_START"
    | "\<not> (kind = PING \<and> fds = [])" "\<not> (kind = FD_TEST \<and> length fds = 1)" "kind \<noteq> LIFECYCLE_TEST_START" by blast
  then show ?thesis
  proof cases
    case 1
    have "handle_connection be (Some (packet, fds))
        = (if be_send be (packet_of PONG request []) then [Reply (packet_of PONG request [])] else []) @ [Released]"
      using assms(1) 1 by (simp add: handle_connection_def Let_def)
    moreover have "(kind, [PONG]) \<in> protocol" using 1 by (simp add: protocol_def)
    ultimately show ?thesis using some [of "[Reply (packet_of PONG request [])]" "[PONG]"] none by (simp add: pay)
  next
    case 2
    have "handle_connection be (Some (packet, fds))
        = (if be_byte be = Some (CHR ''F'') \<and> be_send be (packet_of FD_OK request [])
           then [Reply (packet_of FD_OK request [])] else []) @ [Released]"
      unfolding handle_connection_def option.case assms(1) case_prod_conv if_not_P [OF 2(1)] if_P [OF 2(2)] Let_def ..
    moreover have "(kind, [FD_OK]) \<in> protocol" using 2 by (simp add: protocol_def)
    ultimately show ?thesis using some [of "[Reply (packet_of FD_OK request [])]" "[FD_OK]"] none by (simp add: pay)
  next
    case 3
    let ?a = "Reply (packet_of LIFECYCLE_TEST_ACCEPTED request (u32_bytes request))"
    let ?e = "packet_of LIFECYCLE_TEST_EXITED request (u32_bytes request @ u32_bytes 0)"
    have "handle_connection be (Some (packet, fds))
        = (if fds = [] \<and> be_send be (packet_of LIFECYCLE_TEST_ACCEPTED request (u32_bytes request))
           then [?a] @ (if \<not> be_stopping be \<and> be_send be ?e then [Reply ?e] else []) else []) @ [Released]"
      unfolding handle_connection_def option.case assms(1) case_prod_conv if_not_P [OF 3(1)] if_not_P [OF 3(2)] Let_def
      using 3(3) assms(2) by simp
    moreover have "(kind, [LIFECYCLE_TEST_ACCEPTED]) \<in> protocol"
        "(kind, [LIFECYCLE_TEST_ACCEPTED, LIFECYCLE_TEST_EXITED]) \<in> protocol"
      using 3 by (simp_all add: protocol_def)
    ultimately show ?thesis
      using some [of "[?a]" "[LIFECYCLE_TEST_ACCEPTED]"] none
        some [of "[?a, Reply ?e]" "[LIFECYCLE_TEST_ACCEPTED, LIFECYCLE_TEST_EXITED]"]
      by (simp add: pay)
  next
    case 4
    have "handle_connection be (Some (packet, fds)) = [Released]"
      unfolding handle_connection_def option.case assms(1) case_prod_conv if_not_P [OF 4(1)] if_not_P [OF 4(2)]
      using 4(3) assms(2) by simp
    then show ?thesis using none by simp
  qed
qed



section \<open>From a spawn request to the helper\<close>

definition context_ok :: "launch_os \<Rightarrow> SandboxExecutionContext \<Rightarrow> bool" where
  "context_ok los ctx \<longleftrightarrow>
     ctx_uid ctx \<le> u32_max \<and> ctx_gid ctx \<le> u32_max \<and> distinct (ctx_supplementary_gids ctx)
     \<and> (\<forall>g \<in> set (ctx_supplementary_gids ctx). g \<le> u32_max)
     \<and> (\<forall>p i. directory_identity los p = Inr i \<longrightarrow> fst i \<le> u64_max \<and> snd i \<le> u64_max)"

definition spawn_mode :: "u32 \<Rightarrow> JailMode" where
  "spawn_mode fl = (if fl AND 0x08 \<noteq> 0 then NoNetwork else if fl AND 0x04 \<noteq> 0 then Sandbox else Direct)"

lemma spawn_run:
  assumes "spawn_in_existing_sandbox los os ctx t r = Inr (c, t', started)"
  obtains launch_root env t1 where
    "spawn_flags_supported (flags r)" "case cwd r of None \<Rightarrow> True | Some dir \<Rightarrow> starts_with dir ''/''"
    "merge_environment (if flags r AND 0x01 = 0 then ctx_environment ctx else []) (environment r) = Some env"
    "start_notification os r t = (t1, started)"
    "map_fds (pick_fd os) (map fst (mappings r)) (map snd (mappings r)) t1 = Some t'"
    "command los \<lparr>lr_root = launch_root, lr_runtime_root = ctx_runtime_root ctx, lr_uid = ctx_uid ctx,
       lr_gid = ctx_gid ctx, lr_supplementary_gids = ctx_supplementary_gids ctx, lr_mapped_fds = map fst (mappings r),
       lr_cwd = cwd r, lr_nested_sandbox = (flags r AND 0x04 \<noteq> 0), lr_no_network = (flags r AND 0x08 \<noteq> 0),
       lr_started_fd = started, lr_environment = env, lr_argv = argv r\<rparr> = Inr c"
proof -
  obtain t1 n where t1: "start_notification os r t = (t1, n)" by (cases "start_notification os r t")
  have dir: "(case cwd r of None \<Rightarrow> False | Some dir \<Rightarrow> \<not> starts_with dir ''/'') = (\<not> (case cwd r of None \<Rightarrow> True | Some dir \<Rightarrow> starts_with dir ''/''))"
    by (simp split: option.splits)
  from assms show ?thesis
    unfolding spawn_in_existing_sandbox_def Let_def t1 dir case_prod_conv run_iffs ok_or_Inr_iff not_not sum.inject prod.inject
    using that t1 by blast
qed

text \<open>
  C21. A spawn request reaches the helper as the client meant it: the command the broker runs for a
  valid request parses to a launch with the sandbox's own credentials and groups, the requested
  arguments and working directory, the merged environment, the requested descriptor targets, and
  the isolation the flags ask for.
\<close>

theorem spawn_reaches_helper:
  assumes "spawn_in_existing_sandbox los os ctx t r = Inr (c, t', started)" "valid_spawn r" "context_ok los ctx"
  shows "\<exists>req env. Request_parse (program c # arguments c) = Inr req
    \<and> uid req = ctx_uid ctx \<and> gid req = ctx_gid ctx \<and> groups req = ctx_supplementary_gids ctx
    \<and> launch_argv req = argv r \<and> launch_cwd req = cwd r \<and> mapped_fds req = map fst (mappings r)
    \<and> merge_environment (if flags r AND 0x01 = 0 then ctx_environment ctx else []) (environment r) = Some env
    \<and> launch_environment req = map (\<lambda>(key, v). key @ ''='' @ v) env \<and> jail_mode req = spawn_mode (flags r)"
proof -
  obtain launch_root env t1 where h: "case cwd r of None \<Rightarrow> True | Some dir \<Rightarrow> starts_with dir ''/''"
      "merge_environment (if flags r AND 0x01 = 0 then ctx_environment ctx else []) (environment r) = Some env"
      "command los \<lparr>lr_root = launch_root, lr_runtime_root = ctx_runtime_root ctx, lr_uid = ctx_uid ctx,
       lr_gid = ctx_gid ctx, lr_supplementary_gids = ctx_supplementary_gids ctx, lr_mapped_fds = map fst (mappings r),
       lr_cwd = cwd r, lr_nested_sandbox = (flags r AND 0x04 \<noteq> 0), lr_no_network = (flags r AND 0x08 \<noteq> 0),
       lr_started_fd = started, lr_environment = env, lr_argv = argv r\<rparr> = Inr c" (is "command los ?lr = _")
    using spawn_run [OF assms(1)] by metis
  have "cwd r \<noteq> Some ''-''" using h(1) by (auto simp: starts_with_def)
  then have bounds: "launch_within_bounds los ?lr"
    using assms(2,3) by (auto simp: launch_within_bounds_def context_ok_def valid_spawn_def MAX_LAUNCH_FD_def MAX_TARGET_FD_def)
  obtain rt runtime ident where parse: "Request_parse (program c # arguments c) = Inr
        \<lparr>root = display_path rt, runtime_root = display_path runtime, root_device = fst ident, root_inode = snd ident,
         uid = ctx_uid ctx, gid = ctx_gid ctx, groups = ctx_supplementary_gids ctx, launch_cwd = cwd r,
         jail_mode = launch_mode ?lr, mapped_fds = map fst (mappings r),
         launch_environment = map (\<lambda>(key, v). key @ ''='' @ v) env, launch_argv = argv r\<rparr>"
    using command_line_parses [OF h(3) bounds] by auto
  have mode: "launch_mode ?lr = spawn_mode (flags r)" by (simp add: launch_mode_def spawn_mode_def)
  show ?thesis
    by (intro exI conjI, rule parse) (simp_all add: h(2) mode)
qed



definition demo_context :: SandboxExecutionContext where
  "demo_context = \<lparr>ctx_root = ''/r/chroots/a/i'', ctx_runtime_root = ''/r'', ctx_uid = 1001, ctx_gid = 1001,
     ctx_supplementary_gids = [5], ctx_environment = [(''A'', ''x'')]\<rparr>"

definition demo_spawn_os :: spawn_os where
  "demo_spawn_os = \<lparr>create_nested_root = Inr ''/r/chroots/a/n'', pick_fd = lowest_free\<rparr>"

definition demo_table :: "open_file fd_table" where
  "demo_table = (\<lambda>_. None)(4 \<mapsto> \<lparr>fd_file = Passed 1, fd_cloexec = True\<rparr>)"

lemma demo_table_finite: "finite (dom demo_table)"
  by (simp add: demo_table_def)

lemma demo_spawn_runs:
  "\<exists>c t' started. spawn_in_existing_sandbox demo_los demo_spawn_os demo_context demo_table demo_spawn = Inr (c, t', started)
     \<and> started \<noteq> None"
proof -
  obtain t1 n where t1: "start_notification demo_spawn_os demo_spawn demo_table = (t1, Some n)"
    by (simp add: start_notification_def demo_spawn_def SPAWN_NOTIFY_START_def readiness_pipe_def Let_def)
  then have fin: "finite (dom t1)" and old: "\<forall>k. demo_table k \<noteq> None \<longrightarrow> t1 k \<noteq> None"
    using demo_table_finite
    by (auto simp: start_notification_def readiness_pipe_def Let_def split: if_splits)
  have "t1 4 \<noteq> None" using old by (auto simp: demo_table_def)
  then obtain t' where t': "map_fds lowest_free [9] [4] t1 = Some t'"
    using posix.map_fds_ok [OF fin, of "[9]" "[4]"] by auto
  have env: "merge_environment [(''A'', ''x'')] [(''A'', ''b'')] = Some [(''A'', ''b'')]" by code_simp
  have "\<exists>c. command demo_los \<lparr>lr_root = ''/r/chroots/a/n'', lr_runtime_root = ''/r'', lr_uid = 1001, lr_gid = 1001,
      lr_supplementary_gids = [5], lr_mapped_fds = [9], lr_cwd = Some ''/app'', lr_nested_sandbox = True, lr_no_network = False,
      lr_started_fd = Some n, lr_environment = [(''A'', ''b'')], lr_argv = [''sh'']\<rparr> = Inr c"
    by (simp add: command_def demo_los_def MAX_ARGUMENTS_def MAX_ENVIRONMENT_def MAX_MAPPED_FDS_def
        environment_entry_ok_def Let_def)
  moreover have "spawn_flags_supported 0x44" "starts_with ''/app'' ''/''"
    "(0x44 :: u32) AND 0x04 \<noteq> 0" "(0x44 :: u32) AND 0x08 = 0" "(0x44 :: u32) AND 0x01 = 0"
    by (simp_all add: spawn_flags_supported_def SPAWN_SUPPORTED_FLAGS_def SPAWN_EXPOSE_PIDS_def SPAWN_NOTIFY_START_def starts_with_def)
  ultimately show ?thesis
    using t1 t' env
    by (auto simp: spawn_in_existing_sandbox_def demo_spawn_def demo_spawn_os_def demo_context_def Let_def)
qed

theorem spawn_reaches_helper_witness:
  "\<exists>c t' started req. spawn_in_existing_sandbox demo_los demo_spawn_os demo_context demo_table demo_spawn = Inr (c, t', started)
     \<and> Request_parse (program c # arguments c) = Inr req \<and> uid req = 1001 \<and> launch_argv req = [''sh'']
     \<and> jail_mode req = Sandbox"
proof -
  obtain c t' started where run: "spawn_in_existing_sandbox demo_los demo_spawn_os demo_context demo_table demo_spawn
      = Inr (c, t', started)"
    using demo_spawn_runs by blast
  have "context_ok demo_los demo_context" by (simp add: context_ok_def demo_los_def demo_context_def)
  moreover have "spawn_mode (flags demo_spawn) = Sandbox" "argv demo_spawn = [''sh'']" "ctx_uid demo_context = 1001"
    by (simp_all add: spawn_mode_def demo_spawn_def demo_context_def)
  ultimately show ?thesis
    using spawn_reaches_helper [OF run demo_spawn_valid] run by metis
qed


end
