(* ===== verification/Remotes.thy ===== *)
theory Remotes
  imports Rust_Prelude "HOL-Library.AList"
begin

text \<open>
  Remote configurations (\<^verbatim>\<open>src/src/remotes/remote_config.rs\<close>): validation, the configuration file of a
  remote, \<^verbatim>\<open>.flatpakrepo\<close> files, and the operations that add, modify and delete a remote with their
  rollbacks. The state is the configuration files by remote name and the metadata caches; what
  OSTree answers to a reconfiguration is an argument.
\<close>

definition DEFAULT_REMOTE :: string where
  "DEFAULT_REMOTE = ''flathub''"

record Remote =
  r_name :: string
  r_url :: string
  r_title :: "string option"
  r_enabled :: bool
  r_gpg_verify :: bool
  r_gpg_key :: "string option"

section \<open>Validation\<close>

definition validate_name :: "string \<Rightarrow> unit result" where
  "validate_name name =
     (if name = [] \<or> name = ''.'' \<or> name = ''..''
         \<or> \<not> list_all (\<lambda>c. is_ascii_alphanumeric c \<or> c = CHR ''.'' \<or> c = CHR ''-'' \<or> c = CHR ''_'') name
      then Inl (Bail (''invalid remote name: '' @ name)) else Inr ())"

definition validate_url :: "string \<Rightarrow> unit result" where
  "validate_url url =
     (if list_ex is_whitespace url then Inl (Bail (''remote URL must not contain whitespace: '' @ url))
      else if \<not> (starts_with url ''https://'' \<or> starts_with url ''http://'' \<or> starts_with url ''file://'')
      then Inl (Bail (''remote location must be an http, https, or file URL: '' @ url))
      else Inr ())"

definition validate_remote :: "Remote \<Rightarrow> unit result" where
  "validate_remote r =
     rbind (validate_name (r_name r)) (\<lambda>_.
     if (case r_title r of None \<Rightarrow> False | Some t \<Rightarrow> newline \<in> set t \<or> carriage_return \<in> set t)
     then Inl (Bail ''remote title must be a single line'')
     else validate_url (r_url r))"

text \<open>\<^verbatim>\<open>trim_end_matches('/')\<close>\<close>

definition normalize_url :: "string \<Rightarrow> string" where
  "normalize_url url = rev (dropWhile (\<lambda>c. c = slash) (rev url))"

section \<open>The configuration file\<close>

definition bool_text :: "bool \<Rightarrow> string" where
  "bool_text b = (if b then ''true'' else ''false'')"

definition parse_bool :: "string \<Rightarrow> bool option" where
  "parse_bool s = (if s = ''true'' then Some True else if s = ''false'' then Some False else None)"

definition text_or_empty :: "string option \<Rightarrow> string" where
  "text_or_empty v = (case v of None \<Rightarrow> [] | Some s \<Rightarrow> s)"

definition nonempty_text :: "string \<Rightarrow> string option" where
  "nonempty_text s = (if s = [] then None else Some s)"

definition remote_lines :: "Remote \<Rightarrow> string list" where
  "remote_lines r =
     [''name='' @ r_name r, ''url='' @ r_url r, ''title='' @ text_or_empty (r_title r),
      ''enabled='' @ bool_text (r_enabled r), ''gpg_verify='' @ bool_text (r_gpg_verify r),
      ''gpg_key='' @ text_or_empty (r_gpg_key r)]"

definition remote_text :: "Remote \<Rightarrow> string" where
  "remote_text r = concat (map (\<lambda>l. l @ [newline]) (remote_lines r))"

text \<open>A \<^verbatim>\<open>BTreeMap\<close> filled line by line: the last assignment of a key counts.\<close>

definition config_values :: "string \<Rightarrow> string \<Rightarrow> string option" where
  "config_values data = map_of (rev (List.map_filter (\<lambda>l. split_once (CHR ''='') l) (lines data)))"

definition config_value :: "string \<Rightarrow> string \<Rightarrow> string result" where
  "config_value data key = ok_or (Bail (''remote configuration missing '' @ key)) (config_values data key)"

definition read_remote :: "string \<Rightarrow> Remote result" where
  "read_remote data =
     rbind (config_value data ''enabled'') (\<lambda>v.
     rbind (ok_or (Bail ''parse remote enabled setting'') (parse_bool v)) (\<lambda>enabled.
     rbind (config_value data ''gpg_verify'') (\<lambda>v.
     rbind (ok_or (Bail ''parse remote gpg_verify setting'') (parse_bool v)) (\<lambda>verify.
     rbind (config_value data ''title'') (\<lambda>title.
     rbind (config_value data ''gpg_key'') (\<lambda>key.
     rbind (config_value data ''name'') (\<lambda>name.
     rbind (config_value data ''url'') (\<lambda>url.
     Inr \<lparr>r_name = name, r_url = url, r_title = nonempty_text title, r_enabled = enabled,
          r_gpg_verify = verify, r_gpg_key = nonempty_text key\<rparr>))))))))"

section \<open>Repository files\<close>

fun parse_flatpakrepo_loop :: "bool \<Rightarrow> string list \<Rightarrow> (string \<times> string) list" where
  "parse_flatpakrepo_loop in_group [] = []"
| "parse_flatpakrepo_loop in_group (raw # rest) =
     (let line = trim raw in
      if line = [] \<or> starts_with line ''#'' \<or> starts_with line '';'' then parse_flatpakrepo_loop in_group rest
      else if starts_with line ''['' \<and> ends_with line '']''
      then parse_flatpakrepo_loop (line = ''[Flatpak Repo]'') rest
      else if in_group then
        (case split_once (CHR ''='') line of
           None \<Rightarrow> parse_flatpakrepo_loop in_group rest
         | Some (key, v) \<Rightarrow> (trim key, trim v) # parse_flatpakrepo_loop in_group rest)
      else parse_flatpakrepo_loop in_group rest)"

definition parse_flatpakrepo :: "string \<Rightarrow> (string \<Rightarrow> string option) result" where
  "parse_flatpakrepo text =
     (let values = parse_flatpakrepo_loop False (lines text) in
      if values = [] then Inl (Bail ''invalid .flatpakrepo file: missing [Flatpak Repo] group'')
      else Inr (map_of (rev values)))"

definition from_flatpakrepo :: "string \<Rightarrow> string \<Rightarrow> Remote result" where
  "from_flatpakrepo name text =
     rbind (parse_flatpakrepo text) (\<lambda>values.
     rbind (ok_or (Bail ''Flatpak repository file has no Url'') (values ''Url'')) (\<lambda>url.
     rbind (validate_url url) (\<lambda>_.
     let gpg_key = Option.bind (values ''GPGKey'') nonempty_text in
     Inr \<lparr>r_name = name, r_url = normalize_url url, r_title = Option.bind (values ''Title'') nonempty_text,
          r_enabled = True, r_gpg_verify = (gpg_key \<noteq> None), r_gpg_key = gpg_key\<rparr>)))"

text \<open>\<^verbatim>\<open>from_location\<close>, with what \<^verbatim>\<open>read_location\<close> answers for a repository file.\<close>

definition from_location :: "string result \<Rightarrow> string \<Rightarrow> string \<Rightarrow> Remote result" where
  "from_location downloaded name location =
     rbind (validate_name name) (\<lambda>_.
     if ends_with location ''.flatpakrepo'' then rbind downloaded (from_flatpakrepo name)
     else rbind (validate_url location) (\<lambda>_.
       Inr \<lparr>r_name = name, r_url = normalize_url location, r_title = None, r_enabled = True,
            r_gpg_verify = True, r_gpg_key = None\<rparr>))"

section \<open>Operations\<close>

text \<open>
  The OSTree library behind \<^verbatim>\<open>Storage\<close> works on a repository of its own type; its calls and the
  \<^verbatim>\<open>base64\<close> decoder are the fields of \<open>ostree_lib\<close>. \<open>file_calls\<close> says which file system calls succeed:
  \<^verbatim>\<open>write_state_atomic\<close> replaces the whole file or leaves it alone.
\<close>

record 'o ostree_lib =
  lib_open :: "'o \<Rightarrow> 'o \<times> unit result"
  lib_replace :: "string \<Rightarrow> string \<Rightarrow> bool \<Rightarrow> 'o \<Rightarrow> 'o \<times> unit result"
  lib_delete :: "string \<Rightarrow> 'o \<Rightarrow> 'o \<times> unit result"
  lib_decode :: "string \<Rightarrow> string result"
  lib_import :: "string \<Rightarrow> string \<Rightarrow> 'o \<Rightarrow> 'o \<times> unit result"

record file_calls =
  write_call :: "Remote \<Rightarrow> unit result"
  remove_call :: "string \<Rightarrow> unit result"
  clear_call :: "string \<Rightarrow> unit result"
  marker_call :: "unit result"

text \<open>
  The configuration files by the stem of their names, in directory order, the remotes that have a
  metadata cache, the \<^verbatim>\<open>.initialized-v1\<close> marker, and the OSTree repository.
\<close>

record 'o remote_store =
  configs :: "(string \<times> string) list"
  caches :: "string set"
  initialized :: bool
  repo :: 'o

definition on_repo :: "('o \<Rightarrow> 'o \<times> 'a result) \<Rightarrow> 'o remote_store \<Rightarrow> 'o remote_store \<times> 'a result" where
  "on_repo f st = (let (o', r) = f (repo st) in (st\<lparr>repo := o'\<rparr>, r))"

definition configure_remote_definition :: "'o ostree_lib \<Rightarrow> Remote \<Rightarrow> 'o \<Rightarrow> 'o \<times> unit result" where
  "configure_remote_definition lib r ost =
     (let (o', res) = lib_replace lib (r_name r) (r_url r) (r_gpg_verify r) ost
      in (o', with_context (''configure private OSTree remote '' @ r_name r) res))"

definition import_remote_gpg_key :: "'o ostree_lib \<Rightarrow> Remote \<Rightarrow> 'o \<Rightarrow> 'o \<times> unit result" where
  "import_remote_gpg_key lib r ost =
     (case r_gpg_key r of
        None \<Rightarrow> (ost, Inr ())
      | Some encoded \<Rightarrow>
          (case with_context (''decode GPG key for remote '' @ r_name r) (lib_decode lib (trim encoded)) of
             Inl e \<Rightarrow> (ost, Inl e)
           | Inr key \<Rightarrow>
               let (o', res) = lib_import lib (r_name r) key ost
               in (o', with_context (''import GPG key for remote '' @ r_name r) res)))"

definition configure_remote :: "'o ostree_lib \<Rightarrow> Remote \<Rightarrow> 'o \<Rightarrow> 'o \<times> unit result" where
  "configure_remote lib r ost =
     sbind (configure_remote_definition lib r ost) (\<lambda>o' _. import_remote_gpg_key lib r o')"

definition get_remote :: "'o remote_store \<Rightarrow> string \<Rightarrow> Remote result" where
  "get_remote st name =
     rbind (validate_name name) (\<lambda>_.
     with_context (''remote is not configured: '' @ name)
       (case map_of (configs st) name of
          None \<Rightarrow> Inl (Bail (''read '' @ name @ ''.conf''))
        | Some data \<Rightarrow> read_remote data))"

definition write_remote :: "file_calls \<Rightarrow> Remote \<Rightarrow> 'o remote_store \<Rightarrow> 'o remote_store \<times> unit result" where
  "write_remote files r st =
     (case write_call files r of
        Inl e \<Rightarrow> (st, Inl e)
      | Inr _ \<Rightarrow> (st\<lparr>configs := AList.update (r_name r) (remote_text r) (configs st)\<rparr>, Inr ()))"

definition remove_config :: "file_calls \<Rightarrow> string \<Rightarrow> 'o remote_store \<Rightarrow> 'o remote_store \<times> unit result" where
  "remove_config files name st =
     (case remove_call files name of
        Inl e \<Rightarrow> (st, Inl e)
      | Inr _ \<Rightarrow> (st\<lparr>configs := AList.delete name (configs st)\<rparr>, Inr ()))"

definition clear_cache :: "file_calls \<Rightarrow> string \<Rightarrow> string \<Rightarrow> 'o remote_store \<Rightarrow> 'o remote_store \<times> unit result" where
  "clear_cache files what name st =
     (if name \<in> caches st then
        (case with_context what (clear_call files name) of
           Inl e \<Rightarrow> (st, Inl e)
         | Inr _ \<Rightarrow> (st\<lparr>caches := caches st - {name}\<rparr>, Inr ()))
      else (st, Inr ()))"

text \<open>
  \<^verbatim>\<open>add\<close>: a failed \<^verbatim>\<open>configure_remote\<close> removes the file and the OSTree remote again; a failed
  \<^verbatim>\<open>Storage::open(paths)?\<close> returns at once.
\<close>

definition undo_add :: "'o ostree_lib \<Rightarrow> file_calls \<Rightarrow> string \<Rightarrow> 'o remote_store \<Rightarrow> 'o remote_store" where
  "undo_add lib files name st =
     (let st1 = fst (remove_config files name st) in
      case on_repo (lib_open lib) st1 of
        (st2, Inl e) \<Rightarrow> st2
      | (st2, Inr _) \<Rightarrow> fst (on_repo (lib_delete lib name) st2))"

definition add_remote ::
  "'o ostree_lib \<Rightarrow> file_calls \<Rightarrow> Remote \<Rightarrow> bool \<Rightarrow> 'o remote_store \<Rightarrow> 'o remote_store \<times> bool result" where
  "add_remote lib files r if_not_exists st =
     sbind (st, validate_remote r) (\<lambda>st _.
     if map_of (configs st) (r_name r) \<noteq> None then
       (if if_not_exists then (st, Inr False)
        else (st, Inl (Bail (''remote already exists: '' @ r_name r))))
     else
       sbind (write_remote files r st) (\<lambda>st1 _.
       sbind (on_repo (lib_open lib) st1) (\<lambda>st2 _.
       case on_repo (configure_remote lib r) st2 of
         (st3, Inl e) \<Rightarrow> (undo_add lib files (r_name r) st3, Inl e)
       | (st3, Inr _) \<Rightarrow> (st3, Inr True))))"

definition modify_remote ::
  "'o ostree_lib \<Rightarrow> file_calls \<Rightarrow> Remote \<Rightarrow> 'o remote_store \<Rightarrow> 'o remote_store \<times> unit result" where
  "modify_remote lib files r st =
     sbind (st, get_remote st (r_name r)) (\<lambda>st previous.
     sbind (st, validate_remote r) (\<lambda>st _.
     sbind (write_remote files r st) (\<lambda>st1 _.
     sbind (on_repo (lib_open lib) st1) (\<lambda>st2 _.
     case on_repo (configure_remote lib r) st2 of
       (st3, Inl e) \<Rightarrow> (fst (write_remote files previous st3), Inl e)
     | (st3, Inr _) \<Rightarrow>
         if r_url previous \<noteq> r_url r \<or> r_gpg_verify previous \<noteq> r_gpg_verify r \<or> r_gpg_key previous \<noteq> r_gpg_key r
         then clear_cache files (''invalidate metadata cache '' @ r_name r) (r_name r) st3
         else (st3, Inr ())))))"

definition delete_remote ::
  "'o ostree_lib \<Rightarrow> file_calls \<Rightarrow> string \<Rightarrow> 'o remote_store \<Rightarrow> 'o remote_store \<times> unit result" where
  "delete_remote lib files name st =
     sbind (st, get_remote st name) (\<lambda>st _.
     sbind (on_repo (lib_open lib) st) (\<lambda>st1 _.
     sbind (on_repo (lib_delete lib name) st1) (\<lambda>st2 _.
     sbind (remove_config files name st2) (\<lambda>st3 _.
     clear_cache files (''remove metadata cache for '' @ name) name st3))))"

definition list_remotes :: "'o remote_store \<Rightarrow> Remote list result" where
  "list_remotes st =
     rbind (traverse (\<lambda>(stem, data). read_remote data) (configs st)) (\<lambda>rs. Inr (sort_key r_name rs))"

definition enabled_remotes :: "'o remote_store \<Rightarrow> Remote list result" where
  "enabled_remotes st = rbind (list_remotes st) (\<lambda>rs. Inr (filter r_enabled rs))"

text \<open>
  \<^verbatim>\<open>initialize_detailed\<close>; the vendored Flathub key (\<^verbatim>\<open>vendor/flathub.gpg.base64\<close>) is an argument.
\<close>

definition flathub :: "string \<Rightarrow> Remote" where
  "flathub key =
     \<lparr>r_name = DEFAULT_REMOTE, r_url = ''https://dl.flathub.org/repo'', r_title = Some ''Flathub'',
      r_enabled = True, r_gpg_verify = True, r_gpg_key = Some (trim key)\<rparr>"

fun configure_remotes :: "'o ostree_lib \<Rightarrow> Remote list \<Rightarrow> 'o remote_store \<Rightarrow> 'o remote_store \<times> unit result" where
  "configure_remotes lib [] st = (st, Inr ())"
| "configure_remotes lib (r # rs) st =
     sbind (on_repo (configure_remote_definition lib r) st) (\<lambda>st1 _.
     sbind (on_repo (import_remote_gpg_key lib r) st1) (\<lambda>st2 _.
     configure_remotes lib rs st2))"

definition initialize_detailed ::
  "'o ostree_lib \<Rightarrow> file_calls \<Rightarrow> string \<Rightarrow> 'o remote_store \<Rightarrow> 'o remote_store \<times> unit result" where
  "initialize_detailed lib files key st =
     sbind
       (if initialized st then (st, Inr ())
        else
          sbind (st, list_remotes st) (\<lambda>st rs.
          sbind (if rs = [] then write_remote files (flathub key) st else (st, Inr ())) (\<lambda>st1 _.
          case marker_call files of
            Inl e \<Rightarrow> (st1, Inl e)
          | Inr _ \<Rightarrow> (st1\<lparr>initialized := True\<rparr>, Inr ()))))
       (\<lambda>st1 _.
     sbind (st1, list_remotes st1) (\<lambda>st1 rs.
     sbind (on_repo (lib_open lib) st1) (\<lambda>st2 _.
     configure_remotes lib rs st2)))"

section \<open>Round trip\<close>

text \<open>The remotes a configuration file can hold: what validation leaves open is the key.\<close>

definition storable :: "Remote \<Rightarrow> bool" where
  "storable r \<longleftrightarrow>
     validate_remote r = Inr () \<and> r_title r \<noteq> Some [] \<and> r_gpg_key r \<noteq> Some []
     \<and> newline \<notin> set (text_or_empty (r_gpg_key r))
     \<and> \<not> ends_with (text_or_empty (r_gpg_key r)) [carriage_return]"

definition store_ok :: "'o remote_store \<Rightarrow> bool" where
  "store_ok st \<longleftrightarrow>
     distinct (map fst (configs st))
     \<and> list_all (\<lambda>(stem, data). \<exists>r. storable r \<and> r_name r = stem \<and> data = remote_text r) (configs st)"


lemma whitespace_newline [simp]: "is_whitespace newline" "is_whitespace carriage_return"
  by (simp_all add: is_whitespace_def)

lemma validate_name_chars: "validate_name n = Inr () \<Longrightarrow> newline \<notin> set n \<and> carriage_return \<notin> set n"
  by (auto simp: validate_name_def char_class_defs list_all_iff split: if_splits)

lemma validate_url_chars: "validate_url u = Inr () \<Longrightarrow> newline \<notin> set u \<and> carriage_return \<notin> set u"
  by (auto simp: validate_url_def list_ex_iff split: if_splits)

lemma storable_name: "storable r \<Longrightarrow> validate_name (r_name r) = Inr ()"
  by (auto simp: storable_def validate_remote_def rbind_Inr_iff split: if_splits)

lemma storable_title:
  assumes "storable r"
  shows "newline \<notin> set (text_or_empty (r_title r)) \<and> carriage_return \<notin> set (text_or_empty (r_title r))"
  using assms
  by (auto simp: storable_def validate_remote_def rbind_Inr_iff text_or_empty_def split: if_splits option.splits)

lemma storable_url: "storable r \<Longrightarrow> validate_url (r_url r) = Inr ()"
  by (auto simp: storable_def validate_remote_def rbind_Inr_iff split: if_splits)

lemma ends_with_assignment: "CHR ''='' \<noteq> c \<Longrightarrow> ends_with (k @ CHR ''='' # v) [c] \<longleftrightarrow> ends_with v [c]"
  by (cases v rule: rev_cases) (auto simp: ends_with_iff)

lemma not_ends_with_bool [simp]: "\<not> ends_with (bool_text b) [carriage_return]" "newline \<notin> set (bool_text b)"
  by (cases b; simp add: bool_text_def ends_with_def starts_with_def)+

lemma remote_lines_assignments:
  "remote_lines r =
     map (\<lambda>(k, v). k @ CHR ''='' # v)
       [(''name'', r_name r), (''url'', r_url r), (''title'', text_or_empty (r_title r)),
        (''enabled'', bool_text (r_enabled r)), (''gpg_verify'', bool_text (r_gpg_verify r)),
        (''gpg_key'', text_or_empty (r_gpg_key r))]"
  by (simp add: remote_lines_def)

lemma lines_remote_text:
  assumes "storable r"
  shows "lines (remote_text r) = remote_lines r"
  unfolding remote_text_def
proof (rule lines_of_terminated_by)
  fix l assume "l \<in> set (remote_lines r)"
  moreover note validate_name_chars [OF storable_name [OF assms]] validate_url_chars [OF storable_url [OF assms]]
    storable_title [OF assms]
  moreover have "newline \<notin> set (text_or_empty (r_gpg_key r)) \<and> \<not> ends_with (text_or_empty (r_gpg_key r)) [carriage_return]"
    using assms by (simp add: storable_def)
  ultimately show "newline \<notin> set l \<and> \<not> ends_with l [carriage_return]"
    by (auto simp: remote_lines_assignments ends_with_assignment simp del: append.simps dest: ends_with_single)
qed

lemma config_values_remote_text:
  assumes "storable r"
  shows "config_values (remote_text r) =
    map_of (rev [(''name'', r_name r), (''url'', r_url r), (''title'', text_or_empty (r_title r)),
        (''enabled'', bool_text (r_enabled r)), (''gpg_verify'', bool_text (r_gpg_verify r)),
        (''gpg_key'', text_or_empty (r_gpg_key r))])"
  by (simp add: config_values_def lines_remote_text [OF assms] remote_lines_def map_filter_simps)

lemma parse_bool_text [simp]: "parse_bool (bool_text b) = Some b"
  by (cases b) (simp_all add: parse_bool_def bool_text_def)

lemma nonempty_text_or_empty: "v \<noteq> Some [] \<Longrightarrow> nonempty_text (text_or_empty v) = v"
  by (cases v) (auto simp: nonempty_text_def text_or_empty_def)

lemma read_remote_text: "storable r \<Longrightarrow> read_remote (remote_text r) = Inr r"
  using config_values_remote_text [of r]
  by (simp add: read_remote_def config_value_def nonempty_text_or_empty storable_def)

lemma store_ok_lookup:
  assumes "store_ok st" "map_of (configs st) name = Some data"
  obtains r where "storable r" "r_name r = name" "data = remote_text r"
proof -
  from assms(2) have "(name, data) \<in> set (configs st)" by (rule map_of_SomeD)
  with assms(1) have "\<exists>r. storable r \<and> r_name r = name \<and> data = remote_text r"
    by (auto simp: store_ok_def list_all_iff)
  then obtain r where "storable r" "r_name r = name" "data = remote_text r" by blast
  then show thesis by (rule that)
qed

lemma get_remote_storable:
  assumes "store_ok st" "get_remote st name = Inr r"
  shows "storable r \<and> r_name r = name \<and> map_of (configs st) name = Some (remote_text r)"
proof -
  from assms(2) obtain data where data: "map_of (configs st) name = Some data" "read_remote data = Inr r"
    by (auto simp: get_remote_def rbind_Inr_iff split: option.splits)
  from assms(1) data(1) obtain s where "storable s" "r_name s = name" "data = remote_text s"
    by (rule store_ok_lookup)
  with data show ?thesis by (simp add: read_remote_text)
qed

lemma store_ok_update:
  assumes "store_ok st" "storable r"
  shows "store_ok (st\<lparr>configs := AList.update (r_name r) (remote_text r) (configs st)\<rparr>)"
proof -
  have "set (AList.update k v al) \<subseteq> insert (k, v) (set al)" for k :: string and v :: string and al
    by (induction al) auto
  with assms show ?thesis by (fastforce simp: store_ok_def list_all_iff distinct_update)
qed

lemma store_ok_delete: "store_ok st \<Longrightarrow> store_ok (st\<lparr>configs := AList.delete n (configs st)\<rparr>)"
  using distinct_delete [of "configs st" n] by (auto simp: store_ok_def list_all_iff AList.delete_eq)

lemma store_ok_frame [simp]:
  "store_ok (st\<lparr>repo := x\<rparr>) = store_ok st" "store_ok (st\<lparr>caches := c\<rparr>) = store_ok st"
  "store_ok (st\<lparr>initialized := i\<rparr>) = store_ok st"
  by (simp_all add: store_ok_def)


section \<open>The store as a map of remotes\<close>

definition remotes_of :: "'o remote_store \<Rightarrow> string \<Rightarrow> Remote option" where
  "remotes_of st name = (case get_remote st name of Inl _ \<Rightarrow> None | Inr r \<Rightarrow> Some r)"

lemma remotes_of_eq_Some [simp]: "remotes_of st n = Some r \<longleftrightarrow> get_remote st n = Inr r"
  by (simp add: remotes_of_def split: sum.splits)

lemma remotes_of_cong: "configs st = configs st' \<Longrightarrow> remotes_of st = remotes_of st'"
  by (simp add: fun_eq_iff remotes_of_def get_remote_def)

lemma remotes_of_frame [simp]:
  "remotes_of (st\<lparr>repo := x\<rparr>) = remotes_of st" "remotes_of (st\<lparr>caches := c\<rparr>) = remotes_of st"
  "remotes_of (st\<lparr>initialized := i\<rparr>) = remotes_of st"
  by (rule remotes_of_cong; simp)+

lemma remotes_of_update:
  assumes "storable r"
  shows "remotes_of (st\<lparr>configs := AList.update (r_name r) (remote_text r) (configs st)\<rparr>) = (remotes_of st)(r_name r \<mapsto> r)"
proof
  fix n
  show "remotes_of (st\<lparr>configs := AList.update (r_name r) (remote_text r) (configs st)\<rparr>) n = ((remotes_of st)(r_name r \<mapsto> r)) n"
    using assms storable_name [OF assms]
    by (cases "n = r_name r") (simp_all add: remotes_of_def get_remote_def update_conv' read_remote_text)
qed

lemma remotes_of_delete:
  "remotes_of (st\<lparr>configs := AList.delete n (configs st)\<rparr>) = (remotes_of st)(n := None)"
  by (auto simp: fun_eq_iff remotes_of_def get_remote_def delete_conv' rbind_def split: sum.splits)

lemma remotes_of_absent:
  assumes "map_of (configs st) n = None"
  shows "remotes_of st n = None"
  using assms by (simp add: remotes_of_def get_remote_def rbind_def split: sum.splits)

lemma on_repo_frame:
  "on_repo f st = (st', x) \<Longrightarrow> \<exists>o'. st' = st\<lparr>repo := o'\<rparr>"
  by (auto simp: on_repo_def split: prod.splits)

lemma on_repo_pair:
  obtains o' where "on_repo f st = (st\<lparr>repo := o'\<rparr>, snd (f (repo st)))"
  by (cases "f (repo st)") (auto simp: on_repo_def)

text \<open>Every operation on the repository of OSTree leaves the configuration files alone.\<close>

lemma on_repo_store [simp]:
  "remotes_of (fst (on_repo f st)) = remotes_of st" "store_ok (fst (on_repo f st)) = store_ok st"
  "configs (fst (on_repo f st)) = configs st"
  by (cases "f (repo st)"; simp add: on_repo_def)+

lemma clear_cache_store [simp]:
  "remotes_of (fst (clear_cache files w n st)) = remotes_of st" "store_ok (fst (clear_cache files w n st)) = store_ok st"
  by (cases "clear_call files n"; simp add: clear_cache_def)+

lemma write_remote_ok:
  assumes "store_ok st" "storable r"
  shows "store_ok (fst (write_remote files r st))"
  using assms store_ok_update [of st r] by (cases "write_call files r") (simp_all add: write_remote_def)

lemma remove_config_ok: "store_ok st \<Longrightarrow> store_ok (fst (remove_config files n st))"
  using store_ok_delete [of st n] by (cases "remove_call files n") (simp_all add: remove_config_def)

lemma undo_add_ok: "store_ok st \<Longrightarrow> store_ok (fst (undo_add lib files n st, x))"
proof -
  assume "store_ok st"
  then have ok: "store_ok (fst (remove_config files n st))" by (rule remove_config_ok)
  obtain o' where "on_repo (lib_open lib) (fst (remove_config files n st))
      = ((fst (remove_config files n st))\<lparr>repo := o'\<rparr>, snd (lib_open lib (repo (fst (remove_config files n st)))))"
    by (rule on_repo_pair)
  with ok show ?thesis by (simp add: undo_add_def split: sum.splits)
qed

lemma sbind_store_ok:
  assumes "store_ok (fst m)" "\<And>s x. store_ok s \<Longrightarrow> m = (s, Inr x) \<Longrightarrow> store_ok (fst (f s x))"
  shows "store_ok (fst (sbind m f))"
  using assms by (cases m; cases "snd m") auto

lemma add_remote_ok:
  assumes "store_ok st" "storable r"
  shows "store_ok (fst (add_remote lib files r e st))"
proof -
  have undo: "store_ok (fst (case on_repo (configure_remote lib r) s of
         (st3, Inl e) \<Rightarrow> (undo_add lib files (r_name r) st3, Inl e)
       | (st3, Inr _) \<Rightarrow> (st3, Inr True)))" if "store_ok s" for s
  proof -
    obtain o' where "on_repo (configure_remote lib r) s = (s\<lparr>repo := o'\<rparr>, snd (configure_remote lib r (repo s)))"
      by (rule on_repo_pair)
    with that undo_add_ok [of "s\<lparr>repo := o'\<rparr>"] show ?thesis by (simp split: sum.splits)
  qed
  show ?thesis
    unfolding add_remote_def
    by (intro sbind_store_ok) (use assms undo write_remote_ok in \<open>auto intro!: sbind_store_ok\<close>)
qed

lemma modify_remote_ok:
  assumes "store_ok st" "storable r"
  shows "store_ok (fst (modify_remote lib files r st))"
proof (cases "get_remote st (r_name r)")
  case (Inr previous)
  with assms have prev: "storable previous" by (simp add: get_remote_storable)
  have step: "store_ok (fst (case on_repo (configure_remote lib r) s of
       (st3, Inl e) \<Rightarrow> (fst (write_remote files previous st3), Inl e)
     | (st3, Inr _) \<Rightarrow>
         if r_url previous \<noteq> r_url r \<or> r_gpg_verify previous \<noteq> r_gpg_verify r \<or> r_gpg_key previous \<noteq> r_gpg_key r
         then clear_cache files (''invalidate metadata cache '' @ r_name r) (r_name r) st3
         else (st3, Inr ())))" if "store_ok s" for s
  proof -
    obtain o' where "on_repo (configure_remote lib r) s = (s\<lparr>repo := o'\<rparr>, snd (configure_remote lib r (repo s)))"
      by (rule on_repo_pair)
    with that write_remote_ok [OF _ prev, of "s\<lparr>repo := o'\<rparr>"] show ?thesis by (simp split: sum.splits)
  qed
  show ?thesis
    unfolding modify_remote_def Inr sbind_simps
    by (intro sbind_store_ok) (use assms step write_remote_ok in \<open>auto intro!: sbind_store_ok\<close>)
qed (simp add: modify_remote_def assms)

lemma delete_remote_ok: "store_ok st \<Longrightarrow> store_ok (fst (delete_remote lib files n st))"
  unfolding delete_remote_def by (intro sbind_store_ok) (auto intro!: sbind_store_ok remove_config_ok)


lemma write_remote_InrD:
  assumes "write_remote files r st = (st', Inr u)" "storable r"
  shows "remotes_of st' = (remotes_of st)(r_name r \<mapsto> r) \<and> caches st' = caches st"
  using assms remotes_of_update [of r st] by (auto simp: write_remote_def split: sum.splits)

lemma on_repo_caches: "on_repo f st = (st', x) \<Longrightarrow> remotes_of st' = remotes_of st \<and> caches st' = caches st"
  by (auto dest: on_repo_frame)

lemma clear_cache_InrD:
  "clear_cache files w n st = (st', Inr u) \<Longrightarrow> remotes_of st' = remotes_of st \<and> n \<notin> caches st'"
  by (auto simp: clear_cache_def split: if_splits sum.splits)

lemma add_remote_True:
  assumes "add_remote lib files r e st = (st', Inr True)" "storable r"
  shows "remotes_of st (r_name r) = None \<and> remotes_of st' = (remotes_of st)(r_name r \<mapsto> r)"
proof -
  from assms have fresh: "map_of (configs st) (r_name r) = None"
    and run: "sbind (write_remote files r st) (\<lambda>st1 _.
       sbind (on_repo (lib_open lib) st1) (\<lambda>st2 _.
       case on_repo (configure_remote lib r) st2 of
         (st3, Inl e) \<Rightarrow> (undo_add lib files (r_name r) st3, Inl e)
       | (st3, Inr _) \<Rightarrow> (st3, Inr True))) = (st', Inr True)"
    by (auto simp: add_remote_def storable_def split: if_splits)
  from run obtain st1 u1 st2 u2 where s: "write_remote files r st = (st1, Inr u1)" "on_repo (lib_open lib) st1 = (st2, Inr u2)"
    and c: "(case on_repo (configure_remote lib r) st2 of
         (st3, Inl e) \<Rightarrow> (undo_add lib files (r_name r) st3, Inl e)
       | (st3, Inr _) \<Rightarrow> (st3, Inr True)) = (st', Inr True)"
    by (elim sbind_InrE)
  from c obtain u3 where "on_repo (configure_remote lib r) st2 = (st', Inr u3)"
    by (auto split: prod.splits sum.splits)
  with s(2) have "remotes_of st' = remotes_of st1" by (simp add: on_repo_caches)
  with write_remote_InrD [OF s(1) assms(2)] remotes_of_absent [OF fresh] show ?thesis by simp
qed

lemma add_remote_False: "add_remote lib files r e st = (st', Inr False) \<Longrightarrow> st' = st"
  by (auto simp: add_remote_def sbind_def split: if_splits sum.splits prod.splits)

lemma modify_remote_Inr:
  assumes "modify_remote lib files r st = (st', Inr u)" "storable r"
  obtains previous where "remotes_of st (r_name r) = Some previous" "remotes_of st' = (remotes_of st)(r_name r \<mapsto> r)"
    "(r_url previous, r_gpg_verify previous, r_gpg_key previous) \<noteq> (r_url r, r_gpg_verify r, r_gpg_key r) \<Longrightarrow> r_name r \<notin> caches st'"
proof -
  from assms obtain previous st1 u1 st2 u2 where g: "get_remote st (r_name r) = Inr previous"
    and s: "write_remote files r st = (st1, Inr u1)" "on_repo (lib_open lib) st1 = (st2, Inr u2)"
    and c: "(case on_repo (configure_remote lib r) st2 of
       (st3, Inl e) \<Rightarrow> (fst (write_remote files previous st3), Inl e)
     | (st3, Inr _) \<Rightarrow>
         if r_url previous \<noteq> r_url r \<or> r_gpg_verify previous \<noteq> r_gpg_verify r \<or> r_gpg_key previous \<noteq> r_gpg_key r
         then clear_cache files (''invalidate metadata cache '' @ r_name r) (r_name r) st3
         else (st3, Inr ())) = (st', Inr u)"
    unfolding modify_remote_def by (elim sbind_InrE) (simp add: storable_def)
  from c obtain st3 u3 where k: "on_repo (configure_remote lib r) st2 = (st3, Inr u3)"
    by (auto split: prod.splits sum.splits)
  have "remotes_of st3 = (remotes_of st)(r_name r \<mapsto> r)"
    using on_repo_caches [OF k] on_repo_caches [OF s(2)] write_remote_InrD [OF s(1) assms(2)] by simp
  moreover from c k clear_cache_InrD [of files _ "r_name r" st3 st' u]
  have "remotes_of st' = remotes_of st3 \<and>
      ((r_url previous, r_gpg_verify previous, r_gpg_key previous) \<noteq> (r_url r, r_gpg_verify r, r_gpg_key r)
       \<longrightarrow> r_name r \<notin> caches st')"
    by (auto split: if_splits)
  ultimately show thesis using g by (intro that) auto
qed

lemma delete_remote_Inr:
  assumes "delete_remote lib files n st = (st', Inr u)"
  shows "remotes_of st n \<noteq> None \<and> remotes_of st' = (remotes_of st)(n := None) \<and> n \<notin> caches st'"
proof -
  from assms obtain previous st1 u1 st2 u2 st3 u3 where g: "get_remote st n = Inr previous"
    and s: "on_repo (lib_open lib) st = (st1, Inr u1)" "on_repo (lib_delete lib n) st1 = (st2, Inr u2)"
    and r: "remove_config files n st2 = (st3, Inr u3)"
    and c: "clear_cache files (''remove metadata cache for '' @ n) n st3 = (st', Inr u)"
    unfolding delete_remote_def by (elim sbind_InrE) simp
  from r have "remotes_of st3 = (remotes_of st2)(n := None)"
    using remotes_of_delete [of n st2] by (auto simp: remove_config_def split: sum.splits)
  with g clear_cache_InrD [OF c] on_repo_caches [OF s(1)] on_repo_caches [OF s(2)] show ?thesis by simp
qed


lemma sbind_InlE:
  assumes "sbind m f = (s', Inl e)"
  obtains (first) "m = (s', Inl e)" | (later) s x where "m = (s, Inr x)" "f s x = (s', Inl e)"
  using assms by (cases m; cases "snd m") (auto simp: sbind_def)

definition opens :: "'o ostree_lib \<Rightarrow> bool" where
  "opens lib \<longleftrightarrow> (\<forall>ost. snd (lib_open lib ost) = Inr ())"

definition files_work :: "file_calls \<Rightarrow> bool" where
  "files_work files \<longleftrightarrow>
     (\<forall>r. write_call files r = Inr ()) \<and> (\<forall>n. remove_call files n = Inr ()) \<and> (\<forall>n. clear_call files n = Inr ())"

lemma opens_not_Inl: "opens lib \<Longrightarrow> on_repo (lib_open lib) st \<noteq> (st', Inl e)"
  by (auto simp: opens_def on_repo_def split: prod.splits) (metis Inl_Inr_False snd_conv)

lemma write_remote_works:
  assumes "files_work files" "storable r"
  shows "\<exists>st'. write_remote files r st = (st', Inr ()) \<and> remotes_of st' = (remotes_of st)(r_name r \<mapsto> r)"
  using assms remotes_of_update [of r st] by (simp add: write_remote_def files_work_def)

lemma undo_add_remotes:
  assumes "files_work files"
  shows "remotes_of (undo_add lib files n st) = (remotes_of st)(n := None)"
proof -
  have r: "remotes_of (fst (remove_config files n st)) = (remotes_of st)(n := None)"
    using assms remotes_of_delete [of n st] by (simp add: remove_config_def files_work_def)
  obtain o' where "on_repo (lib_open lib) (fst (remove_config files n st))
      = ((fst (remove_config files n st))\<lparr>repo := o'\<rparr>, snd (lib_open lib (repo (fst (remove_config files n st)))))"
    by (rule on_repo_pair)
  with r show ?thesis by (simp add: undo_add_def split: sum.splits)
qed

lemma add_remote_Inl:
  assumes "add_remote lib files r e st = (st', Inl err)" "storable r" "opens lib" "files_work files"
  shows "remotes_of st' = remotes_of st"
proof (cases "map_of (configs st) (r_name r)")
  case None
  obtain st1 where w: "write_remote files r st = (st1, Inr ())" "remotes_of st1 = (remotes_of st)(r_name r \<mapsto> r)"
    using write_remote_works [OF assms(4,2)] by blast
  from assms(1,2) None w(1) have "sbind (on_repo (lib_open lib) st1) (\<lambda>st2 _.
       case on_repo (configure_remote lib r) st2 of
         (st3, Inl e) \<Rightarrow> (undo_add lib files (r_name r) st3, Inl e)
       | (st3, Inr _) \<Rightarrow> (st3, Inr True)) = (st', Inl err)"
    by (simp add: add_remote_def storable_def)
  then obtain st2 u where o: "on_repo (lib_open lib) st1 = (st2, Inr u)"
    and c: "(case on_repo (configure_remote lib r) st2 of
         (st3, Inl e) \<Rightarrow> (undo_add lib files (r_name r) st3, Inl e)
       | (st3, Inr _) \<Rightarrow> (st3, Inr True)) = (st', Inl err)"
    by (rule sbind_InlE) (use opens_not_Inl [OF assms(3)] in auto)
  from c obtain st3 e' where k: "on_repo (configure_remote lib r) st2 = (st3, Inl e')" "st' = undo_add lib files (r_name r) st3"
    by (auto split: prod.splits sum.splits)
  have "remotes_of st' = (remotes_of st)(r_name r := None)"
    using k(2) on_repo_caches [OF k(1)] on_repo_caches [OF o] w(2) by (simp add: undo_add_remotes [OF assms(4)])
  then show ?thesis using remotes_of_absent [OF None] by (simp add: fun_upd_idem)
next
  case (Some data)
  with assms(1,2) show ?thesis by (auto simp: add_remote_def storable_def split: if_splits)
qed

lemma clear_cache_works: "files_work files \<Longrightarrow> clear_cache files w n st \<noteq> (st', Inl e)"
  by (simp add: clear_cache_def files_work_def)

lemma modify_remote_Inl:
  assumes "modify_remote lib files r st = (st', Inl err)" "store_ok st" "storable r" "opens lib" "files_work files"
  shows "remotes_of st' = remotes_of st"
proof (cases "get_remote st (r_name r)")
  case (Inr previous)
  have prev: "storable previous \<and> r_name previous = r_name r" using get_remote_storable [OF assms(2) Inr] by simp
  obtain st1 where w: "write_remote files r st = (st1, Inr ())" "remotes_of st1 = (remotes_of st)(r_name r \<mapsto> r)"
    using write_remote_works [OF assms(5,3)] by blast
  have v: "validate_remote r = Inr ()" using assms(3) by (simp add: storable_def)
  from assms(1) have "sbind (on_repo (lib_open lib) st1) (\<lambda>st2 _.
     case on_repo (configure_remote lib r) st2 of
       (st3, Inl e) \<Rightarrow> (fst (write_remote files previous st3), Inl e)
     | (st3, Inr _) \<Rightarrow>
         if r_url previous \<noteq> r_url r \<or> r_gpg_verify previous \<noteq> r_gpg_verify r \<or> r_gpg_key previous \<noteq> r_gpg_key r
         then clear_cache files (''invalidate metadata cache '' @ r_name r) (r_name r) st3
         else (st3, Inr ())) = (st', Inl err)"
    by (simp only: modify_remote_def Inr v w(1) sbind_simps)
  then obtain st2 u where o: "on_repo (lib_open lib) st1 = (st2, Inr u)"
    and c: "(case on_repo (configure_remote lib r) st2 of
       (st3, Inl e) \<Rightarrow> (fst (write_remote files previous st3), Inl e)
     | (st3, Inr _) \<Rightarrow>
         if r_url previous \<noteq> r_url r \<or> r_gpg_verify previous \<noteq> r_gpg_verify r \<or> r_gpg_key previous \<noteq> r_gpg_key r
         then clear_cache files (''invalidate metadata cache '' @ r_name r) (r_name r) st3
         else (st3, Inr ())) = (st', Inl err)"
    by (rule sbind_InlE) (use opens_not_Inl [OF assms(4)] in auto)
  from c obtain st3 e' where k: "on_repo (configure_remote lib r) st2 = (st3, Inl e')" "st' = fst (write_remote files previous st3)"
    by (auto split: prod.splits sum.splits if_splits simp: clear_cache_works [OF assms(5)])
  have "remotes_of st' = (remotes_of st)(r_name r \<mapsto> previous)"
    using k(2) on_repo_caches [OF k(1)] on_repo_caches [OF o] w(2) write_remote_works [OF assms(5), of previous st3] prev
    by auto
  moreover have "remotes_of st (r_name r) = Some previous" using Inr by simp
  ultimately show ?thesis by (simp add: fun_upd_idem)
qed (use assms in \<open>simp add: modify_remote_def\<close>)

lemma delete_remote_Inl:
  assumes "delete_remote lib files n st = (st', Inl err)" "files_work files"
  shows "remotes_of st' = remotes_of st"
proof (cases "get_remote st n")
  case (Inr previous)
  obtain o1 where o1: "on_repo (lib_open lib) st = (st\<lparr>repo := o1\<rparr>, snd (lib_open lib (repo st)))"
    by (rule on_repo_pair)
  obtain o2 where o2: "on_repo (lib_delete lib n) (st\<lparr>repo := o1\<rparr>) = ((st\<lparr>repo := o1\<rparr>)\<lparr>repo := o2\<rparr>, snd (lib_delete lib n (repo (st\<lparr>repo := o1\<rparr>))))"
    by (rule on_repo_pair)
  from assms Inr o1 o2 show ?thesis
    by (cases "snd (lib_open lib (repo st))"; cases "snd (lib_delete lib n (repo (st\<lparr>repo := o1\<rparr>)))")
       (auto simp: delete_remote_def remove_config_def files_work_def clear_cache_def split: if_splits)
qed (use assms in \<open>simp add: delete_remote_def\<close>)

section \<open>Properties\<close>

lemma parse_flatpakrepo_loop_step:
  assumes "(k, v) \<in> set (parse_flatpakrepo_loop b (raw # rest))"
  shows "(\<exists>b'. (k, v) \<in> set (parse_flatpakrepo_loop b' rest))
    \<or> (\<exists>x y. split_once (CHR ''='') (trim raw) = Some (x, y) \<and> v = trim y)"
proof (cases "split_once (CHR ''='') (trim raw)")
  case None
  with assms show ?thesis unfolding parse_flatpakrepo_loop.simps Let_def 
    by (simp split: if_splits del: split_once_None_iff; blast)
next
  case (Some xy)
  with assms show ?thesis unfolding parse_flatpakrepo_loop.simps Let_def
    by (cases xy) (simp split: if_splits; blast)
qed

lemma from_flatpakrepo_values:
  "(k, v) \<in> set (parse_flatpakrepo_loop b ls) \<Longrightarrow> (\<exists>l \<in> set ls. set v \<subseteq> set l) \<and> trim v = v"
proof (induction ls arbitrary: b)
  case (Cons raw rest)
  from parse_flatpakrepo_loop_step [OF Cons.prems] show ?case
  proof (elim disjE exE conjE)
    fix x y assume s: "split_once (CHR ''='') (trim raw) = Some (x, y)" "v = trim y"
    then have "set v \<subseteq> set (trim raw)" using trim_set [of y] by (auto simp: split_once_Some_iff)
    then show ?thesis using s trim_set [of raw] by auto
  qed (use Cons.IH in auto)
qed simp

lemma trimmed_not_cr: "trim v = v \<Longrightarrow> \<not> ends_with v [carriage_return]"
  using trim_ends [of v] by (cases "v = []") (auto simp: ends_with_iff)

lemma from_location_key:
  assumes "from_location downloaded name location = Inr r"
  shows "r_name r = name \<and> r_title r \<noteq> Some [] \<and> r_gpg_key r \<noteq> Some []
    \<and> newline \<notin> set (text_or_empty (r_gpg_key r)) \<and> \<not> ends_with (text_or_empty (r_gpg_key r)) [carriage_return]"
proof (cases "ends_with location ''.flatpakrepo''")
  case True
  with assms obtain txt0 where "from_flatpakrepo name txt0 = Inr r"
    by (auto simp: from_location_def rbind_Inr_iff)
  then obtain vals where v: "parse_flatpakrepo txt0 = Inr vals" and r: "r_name r = name"
    "r_title r = Option.bind (vals ''Title'') nonempty_text" "r_gpg_key r = Option.bind (vals ''GPGKey'') nonempty_text"
    by (auto simp: from_flatpakrepo_def rbind_Inr_iff Let_def)
  have clean: "newline \<notin> set x \<and> trim x = x" if "vals k = Some x" for k x
  proof -
    from v and that have "(k, x) \<in> set (parse_flatpakrepo_loop False (lines txt0))"
      by (auto simp: parse_flatpakrepo_def Let_def dest!: map_of_SomeD split: if_splits)
    then obtain l where "l \<in> set (lines txt0)" "set x \<subseteq> set l" "trim x = x"
      using from_flatpakrepo_values by blast
    with lines_clean [of l txt0] show ?thesis by blast
  qed
  show ?thesis
  proof (cases "vals ''GPGKey''")
    case (Some x)
    with r clean [OF Some] trimmed_not_cr [of x] show ?thesis
      by (auto simp: nonempty_text_def text_or_empty_def bind_eq_Some_conv split: if_splits)
  qed (use r in \<open>auto simp: nonempty_text_def text_or_empty_def bind_eq_Some_conv ends_with_iff split: if_splits\<close>)
next
  case False
  with assms show ?thesis by (auto simp: from_location_def rbind_Inr_iff text_or_empty_def ends_with_iff)
qed


lemma configure_remotes_remotes: "remotes_of (fst (configure_remotes lib rs st)) = remotes_of st"
proof (induction rs arbitrary: st)
  case (Cons r rs)
  obtain o1 where o1: "on_repo (configure_remote_definition lib r) st = (st\<lparr>repo := o1\<rparr>, snd (configure_remote_definition lib r (repo st)))"
    by (rule on_repo_pair)
  obtain o2 where o2: "on_repo (import_remote_gpg_key lib r) (st\<lparr>repo := o1\<rparr>)
      = ((st\<lparr>repo := o1\<rparr>)\<lparr>repo := o2\<rparr>, snd (import_remote_gpg_key lib r (repo (st\<lparr>repo := o1\<rparr>))))"
    by (rule on_repo_pair)
  show ?case
    using Cons.IH [of "st\<lparr>repo := o2\<rparr>"]
    by (cases "snd (configure_remote_definition lib r (repo st))"; cases "snd (import_remote_gpg_key lib r (repo (st\<lparr>repo := o1\<rparr>)))")
       (simp_all add: o1 o2)
qed simp

lemma list_remotes_Nil_iff: "list_remotes st = Inr [] \<longleftrightarrow> configs st = []"
proof -
  have "list_remotes st = Inr [] \<longleftrightarrow> traverse (\<lambda>(stem, data). read_remote data) (configs st) = Inr []"
    by (cases "traverse (\<lambda>(stem, data). read_remote data) (configs st)")
       (auto simp: list_remotes_def dest: arg_cong [of _ _ length])
  then show ?thesis by (simp add: traverse_Inr_iff list_all2_Nil2)
qed

definition good_lib :: "unit ostree_lib" where
  "good_lib = \<lparr>lib_open = (\<lambda>ost. (ost, Inr ())), lib_replace = (\<lambda>_ _ _ ost. (ost, Inr ())),
    lib_delete = (\<lambda>_ ost. (ost, Inr ())), lib_decode = Inr, lib_import = (\<lambda>_ _ ost. (ost, Inr ()))\<rparr>"

definition good_files :: file_calls where
  "good_files = \<lparr>write_call = (\<lambda>_. Inr ()), remove_call = (\<lambda>_. Inr ()), clear_call = (\<lambda>_. Inr ()), marker_call = Inr ()\<rparr>"

definition empty_store :: "unit remote_store" where
  "empty_store = \<lparr>configs = [], caches = {}, initialized = False, repo = ()\<rparr>"

definition demo_remote :: Remote where
  "demo_remote = \<lparr>r_name = ''extra'', r_url = ''https://example.org/repo'', r_title = None, r_enabled = True,
     r_gpg_verify = True, r_gpg_key = Some ''AAAA''\<rparr>"

lemma store_ok_empty [simp]: "store_ok empty_store"
  by (simp add: store_ok_def empty_store_def)

lemma storable_demo [simp]: "storable demo_remote"
  by code_simp

lemma files_work_good [simp]: "files_work good_files"
  by (simp add: files_work_def good_files_def)

lemma opens_good [simp]: "opens good_lib"
  by (simp add: opens_def good_lib_def)

text \<open>
  The configuration file of a remote gives the remote back: \<^verbatim>\<open>read_path\<close> inverts \<^verbatim>\<open>write\<close> for every
  remote that passes validation and whose title and key are not empty strings, the key on one line.
\<close>

theorem remote_file_roundtrip:
  assumes "storable r"
  shows "read_remote (remote_text r) = Inr r"
  by (rule read_remote_text) (rule assms)

theorem remote_file_roundtrip_witness: "read_remote (remote_text demo_remote) = Inr demo_remote"
  by (rule remote_file_roundtrip) simp

text \<open>
  C10. The store behaves like a map from names to remotes. For every OSTree library and every outcome
  of the file calls, \<^verbatim>\<open>add\<close>, \<^verbatim>\<open>modify\<close> and \<^verbatim>\<open>delete\<close> keep each file the text of a valid remote of its
  name; when they succeed, the map is extended with the new remote, has it in place of the old one (the
  metadata cache is gone if the URL, verification or key changed), or loses the remote and its cache.
  \<^verbatim>\<open>add --if-not-exists\<close> of a present remote changes nothing.
\<close>

theorem remotes_refine_map:
  assumes "store_ok st" "storable r"
  shows "store_ok (fst (add_remote lib files r ine st)) \<and> store_ok (fst (modify_remote lib files r st))
      \<and> store_ok (fst (delete_remote lib files n st))
    \<and> (add_remote lib files r ine st = (st', Inr True) \<longrightarrow>
        remotes_of st (r_name r) = None \<and> remotes_of st' = (remotes_of st)(r_name r \<mapsto> r))
    \<and> (add_remote lib files r ine st = (st', Inr False) \<longrightarrow> st' = st)
    \<and> (modify_remote lib files r st = (st', Inr ()) \<longrightarrow>
        remotes_of st' = (remotes_of st)(r_name r \<mapsto> r) \<and>
        (\<exists>old. remotes_of st (r_name r) = Some old \<and>
          (r_url old \<noteq> r_url r \<or> r_gpg_verify old \<noteq> r_gpg_verify r \<or> r_gpg_key old \<noteq> r_gpg_key r
           \<longrightarrow> r_name r \<notin> caches st')))
    \<and> (delete_remote lib files n st = (st', Inr ()) \<longrightarrow>
        remotes_of st n \<noteq> None \<and> remotes_of st' = (remotes_of st)(n := None) \<and> n \<notin> caches st')"
proof (intro conjI impI)
  assume m: "modify_remote lib files r st = (st', Inr ())"
  obtain old where o: "remotes_of st (r_name r) = Some old" "remotes_of st' = (remotes_of st)(r_name r \<mapsto> r)"
    "(r_url old, r_gpg_verify old, r_gpg_key old) \<noteq> (r_url r, r_gpg_verify r, r_gpg_key r) \<Longrightarrow> r_name r \<notin> caches st'"
    using m assms(2) by (rule modify_remote_Inr) blast
  then show "\<exists>old. remotes_of st (r_name r) = Some old \<and>
        (r_url old \<noteq> r_url r \<or> r_gpg_verify old \<noteq> r_gpg_verify r \<or> r_gpg_key old \<noteq> r_gpg_key r
         \<longrightarrow> r_name r \<notin> caches st')"
    by simp
  show "remotes_of st' = (remotes_of st)(r_name r \<mapsto> r)" by (rule o(2))
qed (use assms in \<open>simp_all add: add_remote_ok modify_remote_ok delete_remote_ok add_remote_True add_remote_False delete_remote_Inr [THEN conjunct1]
      delete_remote_Inr [THEN conjunct2]\<close>)

theorem remotes_refine_map_witness:
  "(let st = fst (add_remote good_lib good_files demo_remote False empty_store);
        changed = demo_remote\<lparr>r_url := ''https://example.org/other''\<rparr>;
        st' = fst (modify_remote good_lib good_files changed st)
    in remotes_of st = [''extra'' \<mapsto> demo_remote] \<and> remotes_of st' = [''extra'' \<mapsto> changed]
       \<and> remotes_of (fst (delete_remote good_lib good_files ''extra'' st')) = Map.empty)"
proof -
  let ?st = "fst (add_remote good_lib good_files demo_remote False empty_store)"
  let ?changed = "demo_remote\<lparr>r_url := ''https://example.org/other''\<rparr>"
  let ?st' = "fst (modify_remote good_lib good_files ?changed ?st)"
  let ?st'' = "fst (delete_remote good_lib good_files ''extra'' ?st')"
  have s: "storable ?changed" by code_simp
  have ok: "store_ok ?st" using remotes_refine_map [OF store_ok_empty storable_demo] by blast
  have ok': "store_ok ?st'" using remotes_refine_map [OF ok s] by blast
  have "snd (add_remote good_lib good_files demo_remote False empty_store) = Inr True" by code_simp
  then have 1: "remotes_of ?st = (remotes_of empty_store)(r_name demo_remote \<mapsto> demo_remote)"
    using remotes_refine_map [OF store_ok_empty storable_demo, of good_lib good_files False _ ?st] by (metis prod.collapse)
  have "snd (modify_remote good_lib good_files ?changed ?st) = Inr ()" by code_simp
  then have 2: "remotes_of ?st' = (remotes_of ?st)(r_name ?changed \<mapsto> ?changed)"
    using remotes_refine_map [OF ok s, of good_lib good_files _ _ ?st'] by (metis prod.collapse)
  have "snd (delete_remote good_lib good_files ''extra'' ?st') = Inr ()" by code_simp
  then have 3: "remotes_of ?st'' = (remotes_of ?st')(''extra'' := None)"
    using remotes_refine_map [OF ok' s, of good_lib good_files _ "''extra''" ?st''] by (metis prod.collapse)
  have 0: "remotes_of empty_store = Map.empty"
    by (rule ext) (simp add: remotes_of_absent empty_store_def)
  show ?thesis unfolding Let_def using 0 1 2 3 by (simp add: demo_remote_def)
qed

text \<open>
  C20. A failed change leaves no trace: when OSTree opens and the file calls succeed, an error of \<^verbatim>\<open>add\<close>,
  \<^verbatim>\<open>modify\<close> or \<^verbatim>\<open>delete\<close> (a rejected remote, or OSTree refusing the definition or the key) leaves every
  remote as it was before.
\<close>

theorem failed_change_leaves_remotes:
  assumes "store_ok st" "storable r" "opens lib" "files_work files"
  shows "(add_remote lib files r ine st = (st', Inl e) \<longrightarrow> remotes_of st' = remotes_of st)
    \<and> (modify_remote lib files r st = (st', Inl e) \<longrightarrow> remotes_of st' = remotes_of st)
    \<and> (delete_remote lib files n st = (st', Inl e) \<longrightarrow> remotes_of st' = remotes_of st)"
  using assms add_remote_Inl modify_remote_Inl delete_remote_Inl by blast

definition refusing_lib :: "unit ostree_lib" where
  "refusing_lib = good_lib\<lparr>lib_import := (\<lambda>_ _ ost. (ost, Inl (Bail ''no key'')))\<rparr>"

theorem failed_change_leaves_remotes_witness:
  "\<exists>st' e. add_remote refusing_lib good_files demo_remote False empty_store = (st', Inl e)
     \<and> remotes_of st' = remotes_of empty_store"
proof -
  have "\<not> is_ok (snd (add_remote refusing_lib good_files demo_remote False empty_store))" by code_simp
  then obtain st' e where a: "add_remote refusing_lib good_files demo_remote False empty_store = (st', Inl e)"
    by (cases "add_remote refusing_lib good_files demo_remote False empty_store"; cases "snd (add_remote refusing_lib good_files demo_remote False empty_store)") auto
  have "opens refusing_lib" by (simp add: opens_def refusing_lib_def good_lib_def)
  from failed_change_leaves_remotes [OF store_ok_empty storable_demo this files_work_good, of False st' e] a
  show ?thesis by blast
qed

text \<open>
  A remote added from a location is the one read back: whatever repository file is downloaded, a
  remote that \<^verbatim>\<open>from_location\<close> builds and \<^verbatim>\<open>add\<close> accepts is what \<^verbatim>\<open>get\<close> returns under its name, and it
  is verified with GPG unless its repository file gives no key.
\<close>

theorem added_location_is_read_back:
  assumes "from_location downloaded name location = Inr r"
    and "add_remote lib files r ine st = (st', Inr True)"
  shows "get_remote st' name = Inr r
    \<and> (r_gpg_verify r \<or> ends_with location ''.flatpakrepo'' \<and> r_gpg_key r = None)"
proof -
  from assms(2) have "validate_remote r = Inr ()"
    by (cases "validate_remote r") (simp_all add: add_remote_def)
  with from_location_key [OF assms(1)] have s: "storable r" "r_name r = name" by (simp_all add: storable_def)
  have "remotes_of st' name = Some r" using add_remote_True [OF assms(2) s(1)] s(2) by simp
  then have "get_remote st' name = Inr r" by simp
  moreover have "r_gpg_verify r \<or> ends_with location ''.flatpakrepo'' \<and> r_gpg_key r = None"
    using assms(1) by (auto simp: from_location_def from_flatpakrepo_def rbind_Inr_iff Let_def split: if_splits)
  ultimately show ?thesis by blast
qed

definition demo_repo_file :: string where
  "demo_repo_file = concat (map (\<lambda>l. l @ [newline])
     [''[Flatpak Repo]'', ''Title=Example'', ''Url=https://example.org/repo/'', ''GPGKey=AAAA''])"

definition demo_located :: Remote where
  "demo_located = \<lparr>r_name = ''extra'', r_url = ''https://example.org/repo'', r_title = Some ''Example'', r_enabled = True,
     r_gpg_verify = True, r_gpg_key = Some ''AAAA''\<rparr>"

theorem added_location_is_read_back_witness:
  "get_remote (fst (add_remote good_lib good_files demo_located False empty_store)) ''extra'' = Inr demo_located"
proof -
  have f: "from_location (Inr demo_repo_file) ''extra'' ''https://example.org/x.flatpakrepo'' = Inr demo_located" by code_simp
  have "snd (add_remote good_lib good_files demo_located False empty_store) = Inr True" by code_simp
  then have a: "add_remote good_lib good_files demo_located False empty_store = (fst (add_remote good_lib good_files demo_located False empty_store), Inr True)"
    by (metis prod.collapse)
  from added_location_is_read_back [OF f a] show ?thesis by blast
qed

text \<open>
  \<^verbatim>\<open>add\<close> does not undo its write when the storage cannot be opened: the error is reported while the
  remote is configured, and a second attempt says that it already exists.
\<close>

theorem add_keeps_remote_when_open_fails:
  assumes "storable r" "map_of (configs st) (r_name r) = None" "write_call files r = Inr ()"
    and "lib_open lib (repo st) = (ost, Inl e)"
  shows "\<exists>st'. add_remote lib files r False st = (st', Inl e) \<and> get_remote st' (r_name r) = Inr r
    \<and> add_remote lib files r False st' = (st', Inl (Bail (''remote already exists: '' @ r_name r)))"
proof -
  let ?st1 = "st\<lparr>configs := AList.update (r_name r) (remote_text r) (configs st)\<rparr>"
  have v: "validate_remote r = Inr ()" using assms(1) by (simp add: storable_def)
  have "add_remote lib files r False st = (?st1\<lparr>repo := ost\<rparr>, Inl e)"
    using assms v by (simp add: add_remote_def write_remote_def on_repo_def)
  moreover have "remotes_of (?st1\<lparr>repo := ost\<rparr>) (r_name r) = Some r"
    by (simp only: remotes_of_frame remotes_of_update [OF assms(1)]) simp
  then have "get_remote (?st1\<lparr>repo := ost\<rparr>) (r_name r) = Inr r" by (simp only: remotes_of_eq_Some)
  moreover have "add_remote lib files r False (?st1\<lparr>repo := ost\<rparr>) = (?st1\<lparr>repo := ost\<rparr>, Inl (Bail (''remote already exists: '' @ r_name r)))"
    using v by (simp add: add_remote_def update_conv')
  ultimately show ?thesis by blast
qed

definition closed_lib :: "unit ostree_lib" where
  "closed_lib = good_lib\<lparr>lib_open := (\<lambda>ost. (ost, Inl (Bail ''lock'')))\<rparr>"

theorem add_keeps_remote_when_open_fails_witness:
  "\<exists>st'. add_remote closed_lib good_files demo_remote False empty_store = (st', Inl (Bail ''lock''))
     \<and> get_remote st' ''extra'' = Inr demo_remote"
  using add_keeps_remote_when_open_fails [OF storable_demo, of empty_store good_files closed_lib "()" "Bail ''lock''"]
  by (auto simp: empty_store_def good_files_def closed_lib_def good_lib_def demo_remote_def)

text \<open>
  C39. Initialization configures Flathub once: it succeeds with the marker set, and the remotes are the
  ones before, except that a store without the marker and without any remote gets Flathub. So a user who
  deletes Flathub does not get it back at the next start.
\<close>

theorem initialize_adds_flathub_once:
  assumes "initialize_detailed lib files key st = (st', Inr ())" "storable (flathub key)"
  shows "remotes_of st' = (if \<not> initialized st \<and> configs st = [] then [''flathub'' \<mapsto> flathub key] else remotes_of st)"
proof -
  let ?boot = "if initialized st then (st, Inr ())
        else
          sbind (st, list_remotes st) (\<lambda>st rs.
          sbind (if rs = [] then write_remote files (flathub key) st else (st, Inr ())) (\<lambda>st1 _.
          case marker_call files of
            Inl e \<Rightarrow> (st1, Inl e)
          | Inr _ \<Rightarrow> (st1\<lparr>initialized := True\<rparr>, Inr ())))"
  from assms(1) obtain st1 u rs st2 u2 where b: "?boot = (st1, Inr u)" and o: "on_repo (lib_open lib) st1 = (st2, Inr u2)"
    and c: "configure_remotes lib rs st2 = (st', Inr ())"
    unfolding initialize_detailed_def by (elim sbind_InrE) simp
  have "remotes_of st' = remotes_of st1"
    using configure_remotes_remotes [of lib rs st2] c on_repo_caches [OF o] by simp
  moreover have "remotes_of st1 = (if \<not> initialized st \<and> configs st = [] then [''flathub'' \<mapsto> flathub key] else remotes_of st)"
  proof (cases "initialized st")
    case False
    with b obtain rs st3 u3 where l: "list_remotes st = Inr rs"
      and w: "(if rs = [] then write_remote files (flathub key) st else (st, Inr ())) = (st3, Inr u3)"
      and m: "(case marker_call files of Inl e \<Rightarrow> (st3, Inl e) | Inr _ \<Rightarrow> (st3\<lparr>initialized := True\<rparr>, Inr ())) = (st1, Inr u)"
      unfolding if_not_P [OF False] by (elim sbind_InrE) simp
    from m have "remotes_of st1 = remotes_of st3" by (auto split: sum.splits)
    moreover have "rs = [] \<longleftrightarrow> configs st = []" using l list_remotes_Nil_iff [of st] by auto
    moreover have "remotes_of st n = None" if "configs st = []" for n using that by (simp add: remotes_of_absent)
    ultimately show ?thesis using w write_remote_InrD [OF _ assms(2), of files st st3 u3] False
      by (cases "rs = []") (auto simp: flathub_def DEFAULT_REMOTE_def fun_eq_iff)
  qed (use b in simp)
  ultimately show ?thesis by simp
qed

theorem initialize_adds_flathub_once_witness:
  "remotes_of (fst (initialize_detailed good_lib good_files ''AAAA'' empty_store)) = [''flathub'' \<mapsto> flathub ''AAAA'']"
proof -
  have "snd (initialize_detailed good_lib good_files ''AAAA'' empty_store) = Inr ()" "storable (flathub ''AAAA'')" by code_simp+
  then have i: "initialize_detailed good_lib good_files ''AAAA'' empty_store
      = (fst (initialize_detailed good_lib good_files ''AAAA'' empty_store), Inr ())" "storable (flathub ''AAAA'')"
    by (metis prod.collapse)+
  from initialize_adds_flathub_once [OF i] show ?thesis by (simp add: empty_store_def)
qed

end
