(* ===== verification/Records.thy ===== *)
theory Records
  imports Paths Wire Flatpak_Ref Remotes "HOL-Library.Multiset"
begin

text \<open>
  Installation paths and the state records of installed applications and runtimes
  (\<^verbatim>\<open>src/src/installation/installation_paths.rs\<close>, \<^verbatim>\<open>record_storage.rs\<close>, \<^verbatim>\<open>application_records.rs\<close>,
  \<^verbatim>\<open>runtime_records.rs\<close>, \<^verbatim>\<open>run_records.rs\<close>, \<^verbatim>\<open>process_identity.rs\<close>).

  The store is the record files by name, in directory order; \<^verbatim>\<open>write_atomic\<close> replaces one file or fails
  and leaves the directory alone, and which writes fail is an argument. The theorems say that records
  read back as written, that the bindings of applications to runtimes are kept consistent, and that
  two runtimes whose references differ can share one record file.
\<close>

section \<open>Installation paths\<close>

record Installation =
  data_home :: path
  data_root :: path
  cache_root :: path
  runtime_root :: path
  app_data_root :: path
  launcher :: path
  libexec_root :: path

definition env_path :: "(string \<Rightarrow> string option) \<Rightarrow> string \<Rightarrow> path option" where
  "env_path env name =
     (case env name of None \<Rightarrow> None | Some v \<Rightarrow> if v = [] then None else Some (parse_path v))"

definition path_or :: "path option \<Rightarrow> path \<Rightarrow> path" where
  "path_or p q = (case p of None \<Rightarrow> q | Some p \<Rightarrow> p)"

definition APP_DIR_NAME :: string where
  "APP_DIR_NAME = ''freebsd-flatpak''"

definition join_str :: "path \<Rightarrow> string \<Rightarrow> path" where
  "join_str p s = path_join p (parse_path s)"

definition from_env :: "(string \<Rightarrow> string option) \<Rightarrow> nat \<Rightarrow> Installation result" where
  "from_env env euid =
     rbind (ok_or (Bail ''HOME must be set'') (env_path env ''HOME'')) (\<lambda>home.
     let data_home = path_or (env_path env ''XDG_DATA_HOME'') (join_str home ''.local/share'');
         cache_home = path_or (env_path env ''XDG_CACHE_HOME'') (join_str home ''.cache'');
         runtime_home = path_or (env_path env ''XDG_RUNTIME_DIR'') (parse_path (''/tmp/freebsd-flatpak-'' @ nat_digits euid))
     in Inr \<lparr>data_home = data_home,
          data_root = path_or (env_path env ''FREEBSD_FLATPAK_DATA_DIR'') (join_str data_home APP_DIR_NAME),
          cache_root = path_or (env_path env ''FREEBSD_FLATPAK_CACHE_DIR'') (join_str cache_home APP_DIR_NAME),
          runtime_root = path_or (env_path env ''FREEBSD_FLATPAK_RUNTIME_DIR'') (join_str runtime_home APP_DIR_NAME),
          app_data_root = path_or (env_path env ''FREEBSD_FLATPAK_APP_DATA_DIR'') (join_str home ''.var/app''),
          launcher = path_or (env_path env ''FREEBSD_FLATPAK_BIN'') (parse_path ''/usr/local/bin/flatpak''),
          libexec_root = path_or (env_path env ''FREEBSD_FLATPAK_LIBEXEC_DIR'')
            (parse_path ''/usr/local/libexec/freebsd-flatpak'')\<rparr>)"

definition apps :: "Installation \<Rightarrow> path" where
  "apps paths = join_str (data_root paths) ''apps''"

definition runtimes :: "Installation \<Rightarrow> path" where
  "runtimes paths = join_str (data_root paths) ''runtimes''"

definition chroots :: "Installation \<Rightarrow> path" where
  "chroots paths = join_str (runtime_root paths) ''chroots''"

definition validate_app_id :: "string \<Rightarrow> unit result" where
  "validate_app_id app_id =
     (if app_id = [] \<or> slash \<in> set app_id \<or> app_id = ''.'' \<or> app_id = ''..''
      then Inl (Bail (''invalid app id: '' @ app_id)) else Inr ())"

definition app_data :: "Installation \<Rightarrow> string \<Rightarrow> path result" where
  "app_data paths app_id = rbind (validate_app_id app_id) (\<lambda>_. Inr (join_str (app_data_root paths) app_id))"

definition absolute_data_path :: "Installation \<Rightarrow> path \<Rightarrow> path" where
  "absolute_data_path paths p = (if is_absolute p then p else path_join (data_root paths) p)"

definition relative_data_path :: "Installation \<Rightarrow> path \<Rightarrow> path result" where
  "relative_data_path paths p =
     ok_or (Bail (display_path (absolute_data_path paths p) @ '' is outside managed data '' @ display_path (data_root paths)))
       (path_strip_prefix (absolute_data_path paths p) (data_root paths))"

section \<open>Key-value files\<close>

definition kv_line :: "string \<times> string \<Rightarrow> string" where
  "kv_line kv = fst kv @ CHR ''='' # snd kv"

definition kv_text :: "(string \<times> string) list \<Rightarrow> string" where
  "kv_text kvs = concat (map (\<lambda>l. l @ [newline]) (map kv_line kvs))"

text \<open>A \<^verbatim>\<open>BTreeMap\<close> filled line by line, as its list of insertions.\<close>

fun read_kv_lines :: "string list \<Rightarrow> (string \<times> string) list result" where
  "read_kv_lines [] = Inr []"
| "read_kv_lines (raw # rest) =
     (let line = trim raw in
      if line = [] \<or> starts_with line ''#'' then read_kv_lines rest
      else
        (case split_once (CHR ''='') line of
           None \<Rightarrow> Inl (Bail (''invalid state line: '' @ line))
         | Some kv \<Rightarrow> rbind (read_kv_lines rest) (\<lambda>kvs. Inr (kv # kvs))))"

definition read_kv_file :: "string \<Rightarrow> (string \<Rightarrow> string option) result" where
  "read_kv_file data = rbind (read_kv_lines (lines data)) (\<lambda>kvs. Inr (map_of (rev kvs)))"

definition required_value :: "(string \<Rightarrow> string option) \<Rightarrow> string \<Rightarrow> string result" where
  "required_value kvs key = ok_or (Bail (''state record missing '' @ key)) (kvs key)"

definition safe_name_char :: "char \<Rightarrow> bool" where
  "safe_name_char c \<longleftrightarrow> is_ascii_alphanumeric c \<or> c = CHR ''.'' \<or> c = CHR ''-'' \<or> c = CHR ''_''"

definition safe_name_lossy :: "string \<Rightarrow> string" where
  "safe_name_lossy v = map (\<lambda>c. if safe_name_char c then c else CHR ''_'') v"

definition safe_name :: "string \<Rightarrow> string result" where
  "safe_name v =
     (if slash \<in> set v then Inl (Bail (''name must not contain '' @ v)) else Inr (safe_name_lossy v))"

section \<open>Records\<close>

record AppRecord =
  ar_origin :: string
  ar_runtime_origin :: string
  ar_app_id :: string
  ar_app_ref :: string
  ar_app_commit :: string
  ar_installed_size :: nat
  ar_app_dir :: path
  ar_arch :: string
  ar_branch :: string
  ar_runtime_ref :: string
  ar_runtime_commit :: string
  ar_runtime_dir :: path
  ar_command :: string

record RuntimeRecord =
  rr_origin :: string
  rr_runtime_ref :: string
  rr_runtime_commit :: string
  rr_installed_size :: nat
  rr_explicit :: bool
  rr_runtime_dir :: path

definition app_values :: "AppRecord \<Rightarrow> (string \<times> string) list" where
  "app_values a =
     [(''origin'', ar_origin a), (''runtime_origin'', ar_runtime_origin a), (''app_id'', ar_app_id a),
      (''app_ref'', ar_app_ref a), (''app_commit'', ar_app_commit a), (''installed_size'', nat_digits (ar_installed_size a)),
      (''app_dir'', display_path (ar_app_dir a)), (''arch'', ar_arch a), (''branch'', ar_branch a),
      (''runtime_ref'', ar_runtime_ref a), (''runtime_commit'', ar_runtime_commit a),
      (''runtime_dir'', display_path (ar_runtime_dir a)), (''command'', ar_command a)]"

definition runtime_values :: "RuntimeRecord \<Rightarrow> (string \<times> string) list" where
  "runtime_values r =
     [(''origin'', rr_origin r), (''runtime_ref'', rr_runtime_ref r), (''runtime_commit'', rr_runtime_commit r),
      (''installed_size'', nat_digits (rr_installed_size r)), (''runtime_dir'', display_path (rr_runtime_dir r)),
      (''explicitly_installed'', bool_text (rr_explicit r))]"

definition parse_size :: "string \<Rightarrow> nat result" where
  "parse_size v = ok_or (Bail ''invalid installed_size'') (parse_uint u64_max v)"

definition app_from_values :: "(string \<Rightarrow> string option) \<Rightarrow> AppRecord result" where
  "app_from_values kvs =
     (let origin = (case kvs ''origin'' of None \<Rightarrow> DEFAULT_REMOTE | Some v \<Rightarrow> v);
          runtime_origin = (case kvs ''runtime_origin'' of None \<Rightarrow> origin | Some v \<Rightarrow> v) in
      rbind (required_value kvs ''app_id'') (\<lambda>app_id.
      rbind (required_value kvs ''app_ref'') (\<lambda>app_ref.
      rbind (required_value kvs ''app_commit'') (\<lambda>app_commit.
      rbind (rbind (required_value kvs ''installed_size'') parse_size) (\<lambda>size.
      rbind (required_value kvs ''app_dir'') (\<lambda>app_dir.
      rbind (required_value kvs ''arch'') (\<lambda>arch.
      rbind (required_value kvs ''branch'') (\<lambda>branch.
      rbind (required_value kvs ''runtime_ref'') (\<lambda>runtime_ref.
      rbind (required_value kvs ''runtime_commit'') (\<lambda>runtime_commit.
      rbind (required_value kvs ''runtime_dir'') (\<lambda>runtime_dir.
      rbind (required_value kvs ''command'') (\<lambda>command.
      Inr \<lparr>ar_origin = origin, ar_runtime_origin = runtime_origin, ar_app_id = app_id, ar_app_ref = app_ref,
           ar_app_commit = app_commit, ar_installed_size = size, ar_app_dir = parse_path app_dir,
           ar_arch = arch, ar_branch = branch, ar_runtime_ref = runtime_ref, ar_runtime_commit = runtime_commit,
           ar_runtime_dir = parse_path runtime_dir, ar_command = command\<rparr>))))))))))))"

definition runtime_from_values :: "(string \<Rightarrow> string option) \<Rightarrow> RuntimeRecord result" where
  "runtime_from_values kvs =
     rbind (required_value kvs ''origin'') (\<lambda>origin.
     rbind (required_value kvs ''runtime_ref'') (\<lambda>runtime_ref.
     rbind (required_value kvs ''runtime_commit'') (\<lambda>runtime_commit.
     rbind (rbind (required_value kvs ''explicitly_installed'')
       (\<lambda>v. ok_or (Bail ''invalid explicitly_installed'') (parse_bool v))) (\<lambda>explicit.
     rbind (rbind (required_value kvs ''installed_size'') parse_size) (\<lambda>size.
     rbind (required_value kvs ''runtime_dir'') (\<lambda>runtime_dir.
     Inr \<lparr>rr_origin = origin, rr_runtime_ref = runtime_ref, rr_runtime_commit = runtime_commit,
          rr_installed_size = size, rr_explicit = explicit, rr_runtime_dir = parse_path runtime_dir\<rparr>))))))"

definition read_app :: "string \<Rightarrow> AppRecord result" where
  "read_app data = rbind (read_kv_file data) app_from_values"

definition read_runtime :: "string \<Rightarrow> RuntimeRecord result" where
  "read_runtime data = rbind (read_kv_file data) runtime_from_values"

section \<open>The store\<close>

record record_store =
  app_files :: "(string \<times> string) list"
  runtime_files :: "(string \<times> string) list"

text \<open>The writes that fail, by file name.\<close>

type_synonym faults = "string \<Rightarrow> error option"

definition app_record_name :: "string \<Rightarrow> string result" where
  "app_record_name app_id = rbind (safe_name app_id) (\<lambda>n. Inr (n @ ''.ini''))"

definition runtime_record_name :: "string \<Rightarrow> string" where
  "runtime_record_name runtime_ref = safe_name_lossy runtime_ref @ ''.ini''"

definition list_apps :: "record_store \<Rightarrow> AppRecord list result" where
  "list_apps st =
     rbind (traverse (\<lambda>(n, data). read_app data) (app_files st)) (\<lambda>as. Inr (sort_key ar_app_id as))"

definition get_app :: "record_store \<Rightarrow> string \<Rightarrow> AppRecord result" where
  "get_app st app_id =
     rbind (app_record_name app_id) (\<lambda>n.
     with_context (app_id @ '' is not installed'')
       (case map_of (app_files st) n of None \<Rightarrow> Inl (Bail (''read '' @ n)) | Some data \<Rightarrow> read_app data))"

definition write_app :: "faults \<Rightarrow> AppRecord \<Rightarrow> record_store \<Rightarrow> record_store \<times> unit result" where
  "write_app faults a st =
     (case app_record_name (ar_app_id a) of
        Inl e \<Rightarrow> (st, Inl e)
      | Inr n \<Rightarrow>
          (case faults n of
             Some e \<Rightarrow> (st, Inl e)
           | None \<Rightarrow> (st\<lparr>app_files := AList.update n (kv_text (app_values a)) (app_files st)\<rparr>, Inr ())))"

definition remove_app_record :: "faults \<Rightarrow> string \<Rightarrow> record_store \<Rightarrow> record_store \<times> AppRecord option result" where
  "remove_app_record faults app_id st =
     (case app_record_name app_id of
        Inl e \<Rightarrow> (st, Inl e)
      | Inr n \<Rightarrow>
          (case map_of (app_files st) n of
             None \<Rightarrow> (st, Inr None)
           | Some data \<Rightarrow>
               (case read_app data of
                  Inl e \<Rightarrow> (st, Inl e)
                | Inr a \<Rightarrow>
                    (case faults n of
                       Some e \<Rightarrow> (st, Inl e)
                     | None \<Rightarrow> (st\<lparr>app_files := AList.delete n (app_files st)\<rparr>, Inr (Some a))))))"

fun duplicate_runtime :: "RuntimeRecord list \<Rightarrow> string option" where
  "duplicate_runtime (a # b # rs) =
     (if rr_runtime_ref a = rr_runtime_ref b then Some (rr_runtime_ref a) else duplicate_runtime (b # rs))"
| "duplicate_runtime rs = None"

definition list_runtimes :: "record_store \<Rightarrow> RuntimeRecord list result" where
  "list_runtimes st =
     rbind (traverse (\<lambda>(n, data). read_runtime data) (runtime_files st)) (\<lambda>rs.
     let rs = sort_key rr_runtime_ref rs in
     case duplicate_runtime rs of
       Some r \<Rightarrow> Inl (Bail (''duplicate installed runtime ref: '' @ r))
     | None \<Rightarrow> Inr rs)"

definition get_runtime :: "record_store \<Rightarrow> string \<Rightarrow> RuntimeRecord option result" where
  "get_runtime st runtime_ref =
     rbind (list_runtimes st) (\<lambda>rs. Inr (find (\<lambda>r. rr_runtime_ref r = runtime_ref) rs))"

definition write_runtime :: "faults \<Rightarrow> RuntimeRecord \<Rightarrow> record_store \<Rightarrow> record_store \<times> unit result" where
  "write_runtime faults r st =
     (let n = runtime_record_name (rr_runtime_ref r) in
      case faults n of
        Some e \<Rightarrow> (st, Inl e)
      | None \<Rightarrow> (st\<lparr>runtime_files := AList.update n (kv_text (runtime_values r)) (runtime_files st)\<rparr>, Inr ()))"

definition remove_runtime_record :: "faults \<Rightarrow> string \<Rightarrow> record_store \<Rightarrow> record_store \<times> unit result" where
  "remove_runtime_record faults runtime_ref st =
     (let n = runtime_record_name runtime_ref in
      case map_of (runtime_files st) n of
        None \<Rightarrow> (st, Inr ())
      | Some _ \<Rightarrow>
          (case faults n of
             Some e \<Rightarrow> (st, Inl (Context (''remove runtime record '' @ runtime_ref) e))
           | None \<Rightarrow> (st\<lparr>runtime_files := AList.delete n (runtime_files st)\<rparr>, Inr ())))"

definition bound_to :: "AppRecord \<Rightarrow> RuntimeRecord \<Rightarrow> bool" where
  "bound_to a r \<longleftrightarrow>
     ar_runtime_origin a = rr_origin r \<and> ar_runtime_commit a = rr_runtime_commit r \<and> ar_runtime_dir a = rr_runtime_dir r"

definition rebind :: "AppRecord \<Rightarrow> RuntimeRecord \<Rightarrow> AppRecord" where
  "rebind a r =
     a\<lparr>ar_runtime_origin := rr_origin r, ar_runtime_commit := rr_runtime_commit r, ar_runtime_dir := rr_runtime_dir r\<rparr>"

fun reconcile_apps :: "faults \<Rightarrow> AppRecord list \<Rightarrow> record_store \<Rightarrow> record_store \<times> unit result" where
  "reconcile_apps faults [] st = (st, Inr ())"
| "reconcile_apps faults (a # as) st =
     sbind (st, get_runtime st (ar_runtime_ref a)) (\<lambda>st found.
     sbind
       (case found of
          None \<Rightarrow> (st, Inr ())
        | Some r \<Rightarrow> if bound_to a r then (st, Inr ()) else write_app faults (rebind a r) st)
       (\<lambda>st _. reconcile_apps faults as st))"

definition reconcile_runtime_bindings :: "faults \<Rightarrow> record_store \<Rightarrow> record_store \<times> unit result" where
  "reconcile_runtime_bindings faults st =
     sbind (st, list_apps st) (\<lambda>st as. reconcile_apps faults as st)"

section \<open>Recording an installation\<close>

record InstalledApp =
  ia_origin :: string
  ia_runtime_origin :: string
  ia_app_id :: string
  ia_app_ref :: string
  ia_app_commit :: string
  ia_installed_size :: nat
  ia_app_dir :: path
  ia_arch :: string
  ia_branch :: string
  ia_runtime_ref :: string
  ia_runtime_commit :: string
  ia_runtime_installed_size :: nat
  ia_runtime_dir :: path
  ia_command :: string

text \<open>The records of an installation, with the two directories relative to the managed data.\<close>

definition installed_record :: "InstalledApp \<Rightarrow> path \<Rightarrow> path \<Rightarrow> AppRecord" where
  "installed_record i app_dir runtime_dir =
     \<lparr>ar_origin = ia_origin i, ar_runtime_origin = ia_runtime_origin i, ar_app_id = ia_app_id i,
      ar_app_ref = ia_app_ref i, ar_app_commit = ia_app_commit i, ar_installed_size = ia_installed_size i,
      ar_app_dir = app_dir, ar_arch = ia_arch i, ar_branch = ia_branch i, ar_runtime_ref = ia_runtime_ref i,
      ar_runtime_commit = ia_runtime_commit i, ar_runtime_dir = runtime_dir, ar_command = ia_command i\<rparr>"

definition installed_runtime :: "InstalledApp \<Rightarrow> path \<Rightarrow> RuntimeRecord option \<Rightarrow> RuntimeRecord" where
  "installed_runtime i runtime_dir existing =
     \<lparr>rr_origin = ia_runtime_origin i, rr_runtime_ref = ia_runtime_ref i, rr_runtime_commit = ia_runtime_commit i,
      rr_installed_size = ia_runtime_installed_size i,
      rr_explicit = (case existing of None \<Rightarrow> False | Some r \<Rightarrow> rr_explicit r), rr_runtime_dir = runtime_dir\<rparr>"

text \<open>
  \<^verbatim>\<open>record_install\<close>; \<^verbatim>\<open>remove_remote_refs\<close> of the OSTree repository is an argument, called with the old
  origin of the runtime when it changes.
\<close>

definition record_install ::
  "Installation \<Rightarrow> faults \<Rightarrow> (string \<Rightarrow> string \<Rightarrow> unit result) \<Rightarrow> InstalledApp \<Rightarrow> record_store \<Rightarrow> record_store \<times> AppRecord result" where
  "record_install paths faults remove_refs i st =
     sbind (st, relative_data_path paths (ia_app_dir i)) (\<lambda>st app_dir.
     sbind (st, relative_data_path paths (ia_runtime_dir i)) (\<lambda>st runtime_dir.
     sbind (st, get_runtime st (ia_runtime_ref i)) (\<lambda>st existing.
     sbind (write_runtime faults (installed_runtime i runtime_dir existing) st) (\<lambda>st _.
     sbind (write_app faults (installed_record i app_dir runtime_dir) st) (\<lambda>st _.
     sbind (reconcile_runtime_bindings faults st) (\<lambda>st _.
     sbind
       (case existing of
          None \<Rightarrow> (st, Inr ())
        | Some old \<Rightarrow>
            if rr_origin old \<noteq> ia_runtime_origin i
            then (st, remove_refs (rr_origin old) (''runtime/'' @ ia_runtime_ref i))
            else (st, Inr ()))
       (\<lambda>st _. (st, Inr (installed_record i app_dir runtime_dir)))))))))"

section \<open>Round trip\<close>

definition clean_key :: "string \<Rightarrow> bool" where
  "clean_key k \<longleftrightarrow> k \<noteq> [] \<and> list_all (\<lambda>c. is_ascii_alphabetic c \<or> c = CHR ''_'') k"

definition clean_value :: "string \<Rightarrow> bool" where
  "clean_value v \<longleftrightarrow> newline \<notin> set v \<and> (v = [] \<or> \<not> is_whitespace (last v))"

lemma clean_key_chars:
  assumes "clean_key k"
  shows "newline \<notin> set k" "CHR ''='' \<notin> set k" "\<not> is_whitespace (hd k)" "hd k \<noteq> CHR ''#''"
proof -
  have "is_ascii_alphabetic c \<or> c = CHR ''_''" if "c \<in> set k" for c
    using assms that by (simp add: clean_key_def list_all_iff)
  moreover have "hd k \<in> set k" using assms by (simp add: clean_key_def)
  ultimately show "newline \<notin> set k" "CHR ''='' \<notin> set k" "\<not> is_whitespace (hd k)" "hd k \<noteq> CHR ''#''"
    by (force simp: char_class_defs)+
qed

lemma trim_kv_line:
  assumes "clean_key k" "clean_value v"
  shows "trim (kv_line (k, v)) = kv_line (k, v)"
proof (rule trim_no_whitespace_ends)
  show "kv_line (k, v) \<noteq> []" by (simp add: kv_line_def)
  have "k \<noteq> []" using assms(1) by (simp add: clean_key_def)
  then show "\<not> is_whitespace (hd (kv_line (k, v)))" using clean_key_chars(3) [OF assms(1)] by (simp add: kv_line_def)
  show "\<not> is_whitespace (last (kv_line (k, v)))"
    using assms(2) by (auto simp: kv_line_def clean_value_def is_whitespace_def)
qed

lemma read_kv_lines_kv:
  "list_all (\<lambda>(k, v). clean_key k \<and> clean_value v) kvs \<Longrightarrow> read_kv_lines (map kv_line kvs) = Inr kvs"
proof (induction kvs)
  case (Cons kv kvs)
  obtain k v where kv: "kv = (k, v)" "clean_key k" "clean_value v" using Cons.prems by (cases kv) auto
  have "split_once (CHR ''='') (kv_line (k, v)) = Some (k, v)"
    using clean_key_chars(2) [OF kv(2)] by (simp add: split_once_Some_iff kv_line_def)
  moreover have "k \<noteq> []" using kv(2) by (simp add: clean_key_def)
  then have "kv_line (k, v) \<noteq> []" "\<not> starts_with (kv_line (k, v)) ''#''"
    using clean_key_chars(4) [OF kv(2)] by (cases k; simp add: kv_line_def starts_with_def)+
  ultimately show ?case using Cons trim_kv_line [OF kv(2,3)] by (simp add: kv(1))
qed simp

lemma read_kv_text:
  assumes "list_all (\<lambda>(k, v). clean_key k \<and> clean_value v) kvs"
  shows "read_kv_file (kv_text kvs) = Inr (map_of (rev kvs))"
proof -
  have "lines (kv_text kvs) = map kv_line kvs"
    unfolding kv_text_def
  proof (rule lines_of_terminated_by)
    fix l assume "l \<in> set (map kv_line kvs)"
    then obtain k v where kv: "clean_key k" "clean_value v" "l = kv_line (k, v)"
      using assms by (auto simp: list_all_iff)
    have "ends_with l [carriage_return] \<longleftrightarrow> ends_with v [carriage_return]"
      using ends_with_assignment [of carriage_return k v] by (simp add: kv(3) kv_line_def)
    moreover have "\<not> ends_with v [carriage_return]" using kv(2) by (auto simp: clean_value_def ends_with_iff)
    ultimately show "newline \<notin> set l \<and> \<not> ends_with l [carriage_return]"
      using kv(2) clean_key_chars(1) [OF kv(1)] by (simp add: kv(3) kv_line_def clean_value_def)
  qed
  then show ?thesis using read_kv_lines_kv [OF assms] by (simp add: read_kv_file_def)
qed

definition record_path :: "path \<Rightarrow> bool" where
  "record_path p \<longleftrightarrow> parse_path (display_path p) = p \<and> clean_value (display_path p)"

definition recordable_app :: "AppRecord \<Rightarrow> bool" where
  "recordable_app a \<longleftrightarrow>
     list_all safe_name_char (ar_app_id a)
     \<and> list_all clean_value [ar_origin a, ar_runtime_origin a, ar_app_id a, ar_app_ref a, ar_app_commit a, ar_arch a,
          ar_branch a, ar_runtime_ref a, ar_runtime_commit a, ar_command a]
     \<and> ar_installed_size a \<le> u64_max \<and> record_path (ar_app_dir a) \<and> record_path (ar_runtime_dir a)"

definition recordable_runtime :: "RuntimeRecord \<Rightarrow> bool" where
  "recordable_runtime r \<longleftrightarrow>
     list_all clean_value [rr_origin r, rr_runtime_ref r, rr_runtime_commit r]
     \<and> rr_installed_size r \<le> u64_max \<and> record_path (rr_runtime_dir r)"

lemma clean_value_digits: "clean_value (nat_digits n)"
proof -
  have "\<not> is_whitespace c \<and> c \<noteq> newline" if "c \<in> set (nat_digits n)" for c
    using nat_digits_digit [OF that] by (auto simp: char_class_defs)
  moreover have "last (nat_digits n) \<in> set (nat_digits n)" by simp
  ultimately show ?thesis unfolding clean_value_def by blast
qed

lemma clean_value_bool: "clean_value (bool_text b)"
  by (cases b) (simp_all add: bool_text_def clean_value_def is_whitespace_def)

lemma record_keys: "list_all clean_key (map fst (app_values a))" "list_all clean_key (map fst (runtime_values r))"
  unfolding app_values_def runtime_values_def by (simp_all add: clean_key_def char_class_defs)

lemma list_all_fst_snd: "list_all (\<lambda>(k, v). P k \<and> Q v) kvs \<longleftrightarrow> list_all P (map fst kvs) \<and> list_all Q (map snd kvs)"
  by (induction kvs) auto

lemma app_values_clean: "recordable_app a \<Longrightarrow> list_all (\<lambda>(k, v). clean_key k \<and> clean_value v) (app_values a)"
  using record_keys(1) [of a]
  by (simp add: list_all_fst_snd) (simp add: app_values_def recordable_app_def record_path_def clean_value_digits)

lemma runtime_values_clean: "recordable_runtime r \<Longrightarrow> list_all (\<lambda>(k, v). clean_key k \<and> clean_value v) (runtime_values r)"
  using record_keys(2) [of r]
  by (simp add: list_all_fst_snd)
     (simp add: runtime_values_def recordable_runtime_def record_path_def clean_value_digits clean_value_bool)

lemma read_app_text: "recordable_app a \<Longrightarrow> read_app (kv_text (app_values a)) = Inr a"
  using read_kv_text [OF app_values_clean]
  by (simp add: read_app_def app_values_def app_from_values_def required_value_def parse_size_def recordable_app_def record_path_def)

lemma read_runtime_text: "recordable_runtime r \<Longrightarrow> read_runtime (kv_text (runtime_values r)) = Inr r"
  using read_kv_text [OF runtime_values_clean]
  by (simp add: read_runtime_def runtime_values_def runtime_from_values_def required_value_def parse_size_def
      recordable_runtime_def record_path_def)


section \<open>The invariant of the store\<close>

text \<open>Every file holds the text of a record of its name.\<close>

definition app_file :: "AppRecord \<Rightarrow> string \<times> string" where
  "app_file a = (ar_app_id a @ ''.ini'', kv_text (app_values a))"

definition runtime_file :: "RuntimeRecord \<Rightarrow> string \<times> string" where
  "runtime_file r = (runtime_record_name (rr_runtime_ref r), kv_text (runtime_values r))"

definition records_ok :: "record_store \<Rightarrow> bool" where
  "records_ok st \<longleftrightarrow>
     distinct (map fst (app_files st)) \<and> distinct (map fst (runtime_files st))
     \<and> (\<exists>as. list_all recordable_app as \<and> app_files st = map app_file as)
     \<and> (\<exists>rs. list_all recordable_runtime rs \<and> runtime_files st = map runtime_file rs)"

text \<open>The store as maps from application ids and runtime references to records.\<close>

definition apps_of :: "record_store \<Rightarrow> string \<Rightarrow> AppRecord option" where
  "apps_of st app_id =
     (case map_of (app_files st) (app_id @ ''.ini'') of
        None \<Rightarrow> None
      | Some data \<Rightarrow> (case read_app data of Inl _ \<Rightarrow> None | Inr a \<Rightarrow> Some a))"

definition runtimes_of :: "record_store \<Rightarrow> string \<Rightarrow> RuntimeRecord option" where
  "runtimes_of st runtime_ref = (case get_runtime st runtime_ref of Inl _ \<Rightarrow> None | Inr found \<Rightarrow> found)"

lemma safe_names:
  assumes "list_all safe_name_char s"
  shows "safe_name_lossy s = s" "safe_name s = Inr s" "app_record_name s = Inr (s @ ''.ini'')"
proof -
  show l: "safe_name_lossy s = s" using assms by (induction s) (auto simp: safe_name_lossy_def)
  have "slash \<notin> set s" using assms by (auto simp: list_all_iff safe_name_char_def char_class_defs)
  then show "safe_name s = Inr s" using l by (simp add: safe_name_def)
  then show "app_record_name s = Inr (s @ ''.ini'')" by (simp add: app_record_name_def)
qed

lemma recordable_app_id: "recordable_app a \<Longrightarrow> list_all safe_name_char (ar_app_id a)"
  by (simp add: recordable_app_def)

lemma traverse_app_files: "list_all recordable_app as \<Longrightarrow> traverse (\<lambda>(n, data). read_app data) (map app_file as) = Inr as"
  by (induction as) (auto simp: app_file_def read_app_text)

lemma traverse_runtime_files:
  "list_all recordable_runtime rs \<Longrightarrow> traverse (\<lambda>(n, data). read_runtime data) (map runtime_file rs) = Inr rs"
  by (induction rs) (auto simp: runtime_file_def read_runtime_text)

lemma duplicate_runtime_None: "distinct (map rr_runtime_ref rs) \<Longrightarrow> duplicate_runtime rs = None"
  by (induction rs rule: duplicate_runtime.induct) auto

lemma distinct_runtime_refs:
  "distinct (map fst (map runtime_file rs)) \<Longrightarrow> distinct (map rr_runtime_ref rs)"
  by (induction rs) (auto simp: runtime_file_def)

lemma find_distinct:
  assumes "distinct (map f xs)" "x \<in> set xs"
  shows "find (\<lambda>y. f y = f x) xs = Some x"
  using assms by (induction xs) auto

lemma list_runtimes_ok:
  assumes "list_all recordable_runtime rs" "distinct (map fst (map runtime_file rs))" "runtime_files st = map runtime_file rs"
  shows "list_runtimes st = Inr (sort_key rr_runtime_ref rs)"
proof -
  have "distinct (map rr_runtime_ref (sort_key rr_runtime_ref rs))"
    using distinct_runtime_refs [OF assms(2)] mset_sort [of rr_runtime_ref rs]
    by (metis mset_map mset_eq_imp_distinct_iff)
  then show ?thesis
    using traverse_runtime_files [OF assms(1)] duplicate_runtime_None by (simp add: list_runtimes_def assms(3))
qed

lemma get_runtime_ok:
  assumes "list_all recordable_runtime rs" "distinct (map fst (map runtime_file rs))" "runtime_files st = map runtime_file rs"
  shows "get_runtime st ref = Inr (find (\<lambda>r. rr_runtime_ref r = ref) rs)"
proof -
  let ?s = "sort_key rr_runtime_ref rs"
  have d: "distinct (map rr_runtime_ref rs)" by (rule distinct_runtime_refs [OF assms(2)])
  then have ds: "distinct (map rr_runtime_ref ?s)"
    using mset_sort [of rr_runtime_ref rs] by (metis mset_map mset_eq_imp_distinct_iff)
  have "find (\<lambda>r. rr_runtime_ref r = ref) ?s = find (\<lambda>r. rr_runtime_ref r = ref) rs"
  proof (cases "\<exists>r \<in> set rs. rr_runtime_ref r = ref")
    case True
    then obtain r where "r \<in> set rs" "ref = rr_runtime_ref r" by blast
    then show ?thesis using find_distinct [OF d, of r] find_distinct [OF ds, of r] by simp
  next
    case False
    then have "find (\<lambda>r. rr_runtime_ref r = ref) ?s = None" "find (\<lambda>r. rr_runtime_ref r = ref) rs = None"
      by (simp_all add: find_None_iff)
    then show ?thesis by simp
  qed
  then show ?thesis by (simp add: get_runtime_def list_runtimes_ok [OF assms])
qed

lemma records_okE:
  assumes "records_ok st"
  obtains as rs where "list_all recordable_app as" "app_files st = map app_file as" "distinct (map ar_app_id as)"
    "list_all recordable_runtime rs" "runtime_files st = map runtime_file rs" "distinct (map fst (map runtime_file rs))"
proof -
  from assms obtain as rs where r: "list_all recordable_app as" "app_files st = map app_file as"
      "list_all recordable_runtime rs" "runtime_files st = map runtime_file rs"
      "distinct (map fst (map app_file as))" "distinct (map fst (map runtime_file rs))"
    by (auto simp: records_ok_def)
  have "distinct (map ar_app_id as)"
    using r(5) by (induction as) (auto simp: app_file_def)
  with r show thesis by (intro that)
qed

lemma apps_of_files:
  assumes "list_all recordable_app as" "app_files st = map app_file as"
  shows "apps_of st app_id = find (\<lambda>a. ar_app_id a = app_id) as"
  using assms
proof (induction as arbitrary: st)
  case Nil
  then show ?case by (simp add: apps_of_def)
next
  case (Cons a as)
  have IH: "apps_of (st\<lparr>app_files := map app_file as\<rparr>) app_id = find (\<lambda>a. ar_app_id a = app_id) as"
    using Cons by simp
  show ?case
  proof (cases "ar_app_id a = app_id")
    case True
    with Cons.prems show ?thesis by (simp add: apps_of_def app_file_def read_app_text)
  next
    case False
    with Cons.prems IH show ?thesis by (simp add: apps_of_def app_file_def [of a])
  qed
qed

text \<open>Writing records.\<close>

lemma update_app_files:
  assumes "list_all recordable_app as" "distinct (map ar_app_id as)" "recordable_app a"
  obtains as' where "AList.update (ar_app_id a @ ''.ini'') (kv_text (app_values a)) (map app_file as) = map app_file as'"
    "list_all recordable_app as'" "distinct (map ar_app_id as')" "set (map ar_app_id as') = insert (ar_app_id a) (set (map ar_app_id as))"
  using assms(1,2)
proof (induction as arbitrary: thesis)
  case Nil
  show ?case by (rule Nil.prems(1) [of "[a]"]) (simp_all add: app_file_def assms(3))
next
  case (Cons b as)
  show ?case
  proof (cases "ar_app_id b = ar_app_id a")
    case True
    show ?thesis
      by (rule Cons.prems(1) [of "a # as"]) (use Cons.prems True assms(3) in \<open>auto simp: app_file_def\<close>)
  next
    case False
    obtain as' where as': "AList.update (ar_app_id a @ ''.ini'') (kv_text (app_values a)) (map app_file as) = map app_file as'"
        "list_all recordable_app as'" "distinct (map ar_app_id as')" "set (map ar_app_id as') = insert (ar_app_id a) (set (map ar_app_id as))"
      by (rule Cons.IH) (use Cons.prems in auto)
    show ?thesis
      by (rule Cons.prems(1) [of "b # as'"]) (use Cons.prems False as' in \<open>auto simp: app_file_def [of b]\<close>)
  qed
qed

lemma distinct_app_files: "distinct (map ar_app_id as) \<Longrightarrow> distinct (map fst (map app_file as))"
  by (induction as) (auto simp: app_file_def)

lemma apps_of_update:
  assumes "recordable_app a"
  shows "apps_of (st\<lparr>app_files := AList.update (ar_app_id a @ ''.ini'') (kv_text (app_values a)) (app_files st)\<rparr>)
    = (apps_of st)(ar_app_id a \<mapsto> a)"
  using read_app_text [OF assms] by (auto simp: fun_eq_iff apps_of_def update_conv')

lemma write_app_ok:
  assumes "records_ok st" "recordable_app a" "write_app faults a st = (st', Inr u)"
  shows "records_ok st' \<and> apps_of st' = (apps_of st)(ar_app_id a \<mapsto> a) \<and> runtime_files st' = runtime_files st"
proof -
  have st': "st' = st\<lparr>app_files := AList.update (ar_app_id a @ ''.ini'') (kv_text (app_values a)) (app_files st)\<rparr>"
    using assms(3) safe_names(3) [OF recordable_app_id [OF assms(2)]] by (auto simp: write_app_def split: option.splits)
  obtain as rs where r: "list_all recordable_app as" "app_files st = map app_file as" "distinct (map ar_app_id as)"
    using assms(1) by (rule records_okE)
  obtain as' where "AList.update (ar_app_id a @ ''.ini'') (kv_text (app_values a)) (map app_file as) = map app_file as'"
    "list_all recordable_app as'" "distinct (map ar_app_id as')"
    using r(1,3) assms(2) by (rule update_app_files)
  then have "records_ok st'"
    using assms(1) distinct_app_files [of as'] by (auto simp: records_ok_def st' r(2))
  then show ?thesis using apps_of_update [OF assms(2)] by (simp add: st')
qed

lemma write_app_total:
  assumes "recordable_app a" "faults (ar_app_id a @ ''.ini'') = None"
  shows "\<exists>st'. write_app faults a st = (st', Inr ())"
  using assms safe_names(3) [OF recordable_app_id [OF assms(1)]] by (simp add: write_app_def)

lemma runtimes_of_files:
  assumes "records_ok st" "runtime_files st' = runtime_files st"
  shows "runtimes_of st' = runtimes_of st" "get_runtime st ref = Inr (runtimes_of st ref)"
proof -
  show "runtimes_of st' = runtimes_of st"
    by (simp add: fun_eq_iff runtimes_of_def get_runtime_def list_runtimes_def assms(2))
  obtain rs where "list_all recordable_runtime rs" "runtime_files st = map runtime_file rs" "distinct (map fst (map runtime_file rs))"
    using assms(1) by (rule records_okE)
  then show "get_runtime st ref = Inr (runtimes_of st ref)" by (simp add: runtimes_of_def get_runtime_ok)
qed

lemma runtimes_of_recordable:
  assumes "records_ok st" "runtimes_of st ref = Some r"
  shows "recordable_runtime r \<and> rr_runtime_ref r = ref"
proof -
  obtain rs where "list_all recordable_runtime rs" "runtime_files st = map runtime_file rs" "distinct (map fst (map runtime_file rs))"
    using assms(1) by (rule records_okE)
  then have "find (\<lambda>r. rr_runtime_ref r = ref) rs = Some r" "list_all recordable_runtime rs"
    using assms(2) by (simp_all add: runtimes_of_def get_runtime_ok)
  then show ?thesis by (auto simp: find_Some_iff list_all_iff)
qed

lemma apps_of_recordable:
  assumes "records_ok st" "apps_of st app_id = Some a"
  shows "recordable_app a \<and> ar_app_id a = app_id"
proof -
  obtain as where as: "list_all recordable_app as" "app_files st = map app_file as"
    using assms(1) by (rule records_okE)
  with assms(2) have "find (\<lambda>a. ar_app_id a = app_id) as = Some a" by (simp add: apps_of_files)
  with as(1) show ?thesis by (auto simp: find_Some_iff list_all_iff)
qed

lemma list_apps_ok:
  assumes "records_ok st"
  obtains as where "list_apps st = Inr as" "distinct (map ar_app_id as)"
    "\<And>a. a \<in> set as \<longleftrightarrow> apps_of st (ar_app_id a) = Some a"
proof -
  obtain as where as: "list_all recordable_app as" "app_files st = map app_file as" "distinct (map ar_app_id as)"
    using assms by (rule records_okE)
  have "list_apps st = Inr (sort_key ar_app_id as)" by (simp add: list_apps_def as(2) traverse_app_files [OF as(1)])
  moreover have "distinct (map ar_app_id (sort_key ar_app_id as))"
    using as(3) mset_sort [of ar_app_id as] by (metis mset_map mset_eq_imp_distinct_iff)
  moreover have "a \<in> set (sort_key ar_app_id as) \<longleftrightarrow> apps_of st (ar_app_id a) = Some a" for a
    using find_distinct [OF as(3), of a] by (auto simp: apps_of_files [OF as(1,2)] find_Some_iff)
  ultimately show thesis by (rule that)
qed


section \<open>Bindings\<close>

definition rebound :: "record_store \<Rightarrow> AppRecord \<Rightarrow> AppRecord" where
  "rebound st a = (case runtimes_of st (ar_runtime_ref a) of None \<Rightarrow> a | Some r \<Rightarrow> rebind a r)"

definition bindings_ok :: "record_store \<Rightarrow> bool" where
  "bindings_ok st \<longleftrightarrow>
     (\<forall>app_id a r. apps_of st app_id = Some a \<longrightarrow> runtimes_of st (ar_runtime_ref a) = Some r \<longrightarrow> bound_to a r)"

lemma rebind_simps [simp]:
  "ar_app_id (rebind a r) = ar_app_id a" "ar_runtime_ref (rebind a r) = ar_runtime_ref a" "bound_to (rebind a r) r"
  by (simp_all add: rebind_def bound_to_def)

lemma rebind_bound: "bound_to a r \<Longrightarrow> rebind a r = a"
  by (simp add: rebind_def bound_to_def)

lemma recordable_rebind: "recordable_app a \<Longrightarrow> recordable_runtime r \<Longrightarrow> recordable_app (rebind a r)"
  by (simp add: recordable_app_def recordable_runtime_def rebind_def)

lemma write_app_Inl: "write_app faults a st = (st', Inl e) \<Longrightarrow> st' = st"
  by (auto simp: write_app_def split: sum.splits option.splits)

lemma rebound_cong: "runtimes_of st' = runtimes_of st \<Longrightarrow> rebound st' = rebound st"
  by (simp add: fun_eq_iff rebound_def)

lemma rebound_id [simp]: "ar_app_id (rebound st a) = ar_app_id a"
  by (simp add: rebound_def split: option.splits)

text \<open>One application: the record is kept or replaced as a whole.\<close>

lemma reconcile_one:
  assumes "records_ok st" "apps_of st (ar_app_id a) = Some a"
    and "(case runtimes_of st (ar_runtime_ref a) of
          None \<Rightarrow> (st, Inr ())
        | Some r \<Rightarrow> if bound_to a r then (st, Inr ()) else write_app faults (rebind a r) st) = (st', res)"
  shows "records_ok st' \<and> runtime_files st' = runtime_files st
    \<and> (res = Inr () \<longrightarrow> apps_of st' = (apps_of st)(ar_app_id a \<mapsto> rebound st a))
    \<and> (res \<noteq> Inr () \<longrightarrow> st' = st \<and> faults (ar_app_id a @ ''.ini'') \<noteq> None)"
proof (cases "runtimes_of st (ar_runtime_ref a)")
  case None
  with assms show ?thesis by (auto simp: rebound_def fun_upd_idem)
next
  case (Some r)
  have a: "recordable_app a" using apps_of_recordable [OF assms(1,2)] by simp
  have r: "recordable_app (rebind a r)" using recordable_rebind [OF a] runtimes_of_recordable [OF assms(1) Some] by simp
  show ?thesis
  proof (cases "bound_to a r")
    case True
    with assms Some show ?thesis by (auto simp: rebound_def rebind_bound fun_upd_idem)
  next
    case False
    with assms(3) Some have w: "write_app faults (rebind a r) st = (st', res)" by simp
    show ?thesis
    proof (cases res)
      case (Inl e)
      with w write_app_Inl [of faults "rebind a r" st st' e] write_app_total [OF r, of faults st] assms(1) show ?thesis
        by auto
    next
      case (Inr u)
      with w write_app_ok [OF assms(1) r, of faults st' u] Some show ?thesis by (simp add: rebound_def)
    qed
  qed
qed

lemma reconcile_apps_ok:
  assumes "records_ok st" "distinct (map ar_app_id as)" "\<forall>a \<in> set as. apps_of st (ar_app_id a) = Some a"
    and "reconcile_apps faults as st = (st', res)"
  shows "records_ok st' \<and> runtime_files st' = runtime_files st
    \<and> (\<forall>app_id. apps_of st' app_id = apps_of st app_id \<or> apps_of st' app_id = map_option (rebound st) (apps_of st app_id))
    \<and> (res = Inr () \<longrightarrow> (\<forall>a \<in> set as. apps_of st' (ar_app_id a) = Some (rebound st a)))
    \<and> ((\<forall>a \<in> set as. faults (ar_app_id a @ ''.ini'') = None) \<longrightarrow> res = Inr ())
    \<and> (\<forall>app_id. app_id \<notin> ar_app_id ` set as \<longrightarrow> apps_of st' app_id = apps_of st app_id)"
  using assms
proof (induction as arbitrary: st)
  case (Cons a as)
  obtain st1 r1 where one: "(case runtimes_of st (ar_runtime_ref a) of
          None \<Rightarrow> (st, Inr ())
        | Some r \<Rightarrow> if bound_to a r then (st, Inr ()) else write_app faults (rebind a r) st) = (st1, r1)"
    by (cases "case runtimes_of st (ar_runtime_ref a) of
          None \<Rightarrow> (st, Inr ())
        | Some r \<Rightarrow> if bound_to a r then (st, Inr ()) else write_app faults (rebind a r) st") auto
  have step: "records_ok st1" "runtime_files st1 = runtime_files st"
    "r1 = Inr () \<Longrightarrow> apps_of st1 = (apps_of st)(ar_app_id a \<mapsto> rebound st a)"
    "r1 \<noteq> Inr () \<Longrightarrow> st1 = st \<and> faults (ar_app_id a @ ''.ini'') \<noteq> None"
    using reconcile_one [OF Cons.prems(1) _ one] Cons.prems(3) by auto
  have run: "sbind (st1, r1) (\<lambda>st _. reconcile_apps faults as st) = (st', res)"
    using Cons.prems(4) runtimes_of_files(2) [OF Cons.prems(1) refl] one by simp
  show ?case
  proof (cases r1)
    case (Inl e)
    with run step(4) Cons.prems(1) show ?thesis by auto
  next
    case (Inr u)
    with run have rest: "reconcile_apps faults as st1 = (st', res)" by simp
    have apps1: "apps_of st1 = (apps_of st)(ar_app_id a \<mapsto> rebound st a)" using step(3) Inr by simp
    have rb: "rebound st1 = rebound st"
      by (rule rebound_cong) (rule runtimes_of_files(1) [OF Cons.prems(1) step(2)])
    have dist: "ar_app_id a \<notin> ar_app_id ` set as" "distinct (map ar_app_id as)" using Cons.prems(2) by auto
    have pre: "\<forall>b \<in> set as. apps_of st1 (ar_app_id b) = Some b"
    proof
      fix b assume b: "b \<in> set as"
      with dist(1) have "ar_app_id b \<noteq> ar_app_id a" by (metis image_eqI)
      with b Cons.prems(3) show "apps_of st1 (ar_app_id b) = Some b" by (simp add: apps1)
    qed
    note IH = Cons.IH [OF step(1) dist(2) pre rest]
    have done_a: "apps_of st' (ar_app_id a) = Some (rebound st a)" using IH dist(1) by (simp add: apps1)
    have "apps_of st' app_id = apps_of st app_id \<or> apps_of st' app_id = map_option (rebound st) (apps_of st app_id)" for app_id
    proof (cases "app_id = ar_app_id a")
      case True
      with done_a Cons.prems(3) show ?thesis by simp
    next
      case False
      from IH have "apps_of st' app_id = apps_of st1 app_id \<or> apps_of st' app_id = map_option (rebound st1) (apps_of st1 app_id)"
        by blast
      with False show ?thesis by (simp add: apps1 rb)
    qed
    moreover have "apps_of st' app_id = apps_of st app_id" if "app_id \<notin> ar_app_id ` set (a # as)" for app_id
      using IH that by (simp add: apps1)
    ultimately show ?thesis using IH step(2) done_a by (simp add: rb)
  qed
qed simp

lemma reconcile_bindings:
  assumes "records_ok st" "reconcile_runtime_bindings faults st = (st', res)"
  shows "records_ok st' \<and> runtimes_of st' = runtimes_of st
    \<and> (\<forall>app_id. apps_of st' app_id = apps_of st app_id \<or> apps_of st' app_id = map_option (rebound st) (apps_of st app_id))
    \<and> (res = Inr () \<longrightarrow> apps_of st' = map_option (rebound st) \<circ> apps_of st)
    \<and> ((\<forall>n. faults n = None) \<longrightarrow> res = Inr ())"
proof -
  obtain as where as: "list_apps st = Inr as" "distinct (map ar_app_id as)"
    "\<And>a. a \<in> set as \<longleftrightarrow> apps_of st (ar_app_id a) = Some a"
    using assms(1) by (rule list_apps_ok) blast
  have run: "reconcile_apps faults as st = (st', res)"
    using assms(2) by (simp add: reconcile_runtime_bindings_def as(1))
  have R: "records_ok st'" "runtime_files st' = runtime_files st"
    "\<And>app_id. apps_of st' app_id = apps_of st app_id \<or> apps_of st' app_id = map_option (rebound st) (apps_of st app_id)"
    "\<And>a. res = Inr () \<Longrightarrow> a \<in> set as \<Longrightarrow> apps_of st' (ar_app_id a) = Some (rebound st a)"
    "(\<forall>n. faults n = None) \<Longrightarrow> res = Inr ()"
    "\<And>app_id. app_id \<notin> ar_app_id ` set as \<Longrightarrow> apps_of st' app_id = apps_of st app_id"
    using reconcile_apps_ok [OF assms(1) as(2) _ run] as(3) by blast+
  have all: "apps_of st' app_id = map_option (rebound st) (apps_of st app_id)" if "res = Inr ()" for app_id
  proof (cases "apps_of st app_id")
    case None
    have "app_id \<notin> ar_app_id ` set as" using None as(3) by auto
    with R(6) [of app_id] None show ?thesis by simp
  next
    case (Some a)
    with apps_of_recordable [OF assms(1) Some] as(3) [of a] have "a \<in> set as" "app_id = ar_app_id a" by auto
    with R(4) [OF that, of a] Some show ?thesis by simp
  qed
  then have "res = Inr () \<longrightarrow> apps_of st' = map_option (rebound st) \<circ> apps_of st" by (simp add: fun_eq_iff)
  then show ?thesis
    using R(1,3,5) runtimes_of_files(1) [OF assms(1) R(2)] by blast
qed

lemma bindings_ok_rebound:
  assumes "runtimes_of st' = runtimes_of st" "apps_of st' = map_option (rebound st) \<circ> apps_of st"
  shows "bindings_ok st'"
  unfolding bindings_ok_def
proof (intro allI impI)
  fix app_id a r assume a: "apps_of st' app_id = Some a" "runtimes_of st' (ar_runtime_ref a) = Some r"
  from a(1) obtain b where "a = rebound st b" by (auto simp: assms(2))
  with a(2) have "a = rebind b r" by (auto simp: rebound_def assms(1) split: option.splits)
  then show "bound_to a r" by simp
qed


section \<open>Writing runtime records\<close>

text \<open>No other recorded runtime has the same file name.\<close>

definition no_clash :: "record_store \<Rightarrow> string \<Rightarrow> bool" where
  "no_clash st ref \<longleftrightarrow>
     (\<forall>other. runtimes_of st other \<noteq> None \<longrightarrow> runtime_record_name other = runtime_record_name ref \<longrightarrow> other = ref)"

lemma runtimes_of_eq_find:
  assumes "list_all recordable_runtime rs" "distinct (map fst (map runtime_file rs))" "runtime_files st = map runtime_file rs"
  shows "runtimes_of st ref = find (\<lambda>r. rr_runtime_ref r = ref) rs"
  by (simp add: runtimes_of_def get_runtime_ok [OF assms])

lemma find_same_name:
  assumes "runtime_record_name ref \<notin> fst ` set (map runtime_file rs)"
  shows "find (\<lambda>q. rr_runtime_ref q = ref) rs = None"
  using assms by (force simp: find_None_iff runtime_file_def)

lemma update_runtime_files:
  assumes "list_all recordable_runtime rs" "recordable_runtime r" "distinct (map fst (map runtime_file rs))"
  obtains rs' where "AList.update (runtime_record_name (rr_runtime_ref r)) (kv_text (runtime_values r)) (map runtime_file rs) = map runtime_file rs'"
    "list_all recordable_runtime rs'"
    "\<And>ref. find (\<lambda>q. rr_runtime_ref q = ref) rs' = (if ref = rr_runtime_ref r then Some r
       else if runtime_record_name ref = runtime_record_name (rr_runtime_ref r) then None else find (\<lambda>q. rr_runtime_ref q = ref) rs)"
  using assms(1,3)
proof (induction rs arbitrary: thesis)
  case Nil
  show ?case by (rule Nil.prems(1) [of "[r]"]) (auto simp: runtime_file_def assms(2))
next
  case (Cons q rs)
  have dist: "runtime_record_name (rr_runtime_ref q) \<notin> fst ` set (map runtime_file rs)"
    using Cons.prems(3) by (simp add: runtime_file_def [of q] image_image)
  show ?case
  proof (cases "runtime_record_name (rr_runtime_ref q) = runtime_record_name (rr_runtime_ref r)")
    case True
    have "find (\<lambda>q. rr_runtime_ref q = ref) rs = None" if "runtime_record_name ref = runtime_record_name (rr_runtime_ref r)" for ref
      by (rule find_same_name) (use dist True that in simp)
    with True show ?thesis
      by (intro Cons.prems(1) [of "r # rs"]) (use Cons.prems(2) assms(2) in \<open>auto simp: runtime_file_def\<close>)
  next
    case False
    obtain rs' where rs': "AList.update (runtime_record_name (rr_runtime_ref r)) (kv_text (runtime_values r)) (map runtime_file rs) = map runtime_file rs'"
      "list_all recordable_runtime rs'"
      "\<And>ref. find (\<lambda>q. rr_runtime_ref q = ref) rs' = (if ref = rr_runtime_ref r then Some r
         else if runtime_record_name ref = runtime_record_name (rr_runtime_ref r) then None else find (\<lambda>q. rr_runtime_ref q = ref) rs)"
      by (rule Cons.IH) (use Cons.prems in auto)
    from False have "rr_runtime_ref q \<noteq> rr_runtime_ref r" by auto
    then show ?thesis
      by (intro Cons.prems(1) [of "q # rs'"]) (use Cons.prems(2) False rs' in \<open>auto simp: runtime_file_def [of q]\<close>)
  qed
qed

lemma write_runtime_replaces:
  assumes "records_ok st" "recordable_runtime r" "write_runtime faults r st = (st', Inr u)"
  shows "records_ok st' \<and> apps_of st' = apps_of st
    \<and> runtimes_of st' = (\<lambda>ref. if ref = rr_runtime_ref r then Some r
        else if runtime_record_name ref = runtime_record_name (rr_runtime_ref r) then None else runtimes_of st ref)"
proof -
  have st': "st' = st\<lparr>runtime_files := AList.update (runtime_record_name (rr_runtime_ref r)) (kv_text (runtime_values r)) (runtime_files st)\<rparr>"
    using assms(3) by (auto simp: write_runtime_def Let_def split: option.splits)
  obtain rs where rs: "list_all recordable_runtime rs" "runtime_files st = map runtime_file rs" "distinct (map fst (map runtime_file rs))"
    using assms(1) by (rule records_okE)
  obtain rs' where rs': "AList.update (runtime_record_name (rr_runtime_ref r)) (kv_text (runtime_values r)) (map runtime_file rs) = map runtime_file rs'"
      "list_all recordable_runtime rs'"
      "\<And>ref. find (\<lambda>q. rr_runtime_ref q = ref) rs' = (if ref = rr_runtime_ref r then Some r
         else if runtime_record_name ref = runtime_record_name (rr_runtime_ref r) then None else find (\<lambda>q. rr_runtime_ref q = ref) rs)"
    using update_runtime_files [OF rs(1) assms(2) rs(3)] by metis
  have files: "runtime_files st' = map runtime_file rs'" by (simp add: st' rs(2) rs'(1))
  have dist: "distinct (map fst (map runtime_file rs'))"
    using distinct_update [OF rs(3), of "runtime_record_name (rr_runtime_ref r)"] unfolding rs'(1) [symmetric] by blast
  have "records_ok st'"
    unfolding records_ok_def
  proof (intro conjI)
    show "\<exists>as. list_all recordable_app as \<and> app_files st' = map app_file as" "distinct (map fst (app_files st'))"
      using assms(1) by (simp_all add: records_ok_def st')
    show "\<exists>rs. list_all recordable_runtime rs \<and> runtime_files st' = map runtime_file rs" using rs'(2) files by blast
    show "distinct (map fst (runtime_files st'))" using dist by (simp only: files)
  qed
  moreover have "apps_of st' = apps_of st" by (simp add: fun_eq_iff st' apps_of_def)
  moreover have "runtimes_of st' ref = (if ref = rr_runtime_ref r then Some r
      else if runtime_record_name ref = runtime_record_name (rr_runtime_ref r) then None else runtimes_of st ref)" for ref
    unfolding runtimes_of_eq_find [OF rs'(2) dist files] runtimes_of_eq_find [OF rs(1,3,2)] by (rule rs'(3))
  ultimately show ?thesis by (simp add: fun_eq_iff)
qed

lemma write_runtime_ok:
  assumes "records_ok st" "recordable_runtime r" "no_clash st (rr_runtime_ref r)" "write_runtime faults r st = (st', Inr u)"
  shows "records_ok st' \<and> runtimes_of st' = (runtimes_of st)(rr_runtime_ref r \<mapsto> r) \<and> apps_of st' = apps_of st"
proof -
  have "runtimes_of st ref = None" if "runtime_record_name ref = runtime_record_name (rr_runtime_ref r)" "ref \<noteq> rr_runtime_ref r" for ref
    using assms(3) that by (cases "runtimes_of st ref") (auto simp: no_clash_def)
  then show ?thesis using write_runtime_replaces [OF assms(1,2,4)] by (auto simp: fun_eq_iff)
qed

lemma record_install_run:
  assumes "record_install paths faults remove_refs i st = (st', Inr app)"
  obtains app_dir runtime_dir st1 u1 st2 u2 u3 existing where
    "relative_data_path paths (ia_app_dir i) = Inr app_dir" "relative_data_path paths (ia_runtime_dir i) = Inr runtime_dir"
    "get_runtime st (ia_runtime_ref i) = Inr existing" "app = installed_record i app_dir runtime_dir"
    "write_runtime faults (installed_runtime i runtime_dir existing) st = (st1, Inr u1)" "write_app faults app st1 = (st2, Inr u2)"
    "reconcile_runtime_bindings faults st2 = (st', Inr u3)"
proof -
  from assms obtain app_dir runtime_dir existing st1 u1 st2 u2 st3 u3 st4 u4 where
      d: "relative_data_path paths (ia_app_dir i) = Inr app_dir" "relative_data_path paths (ia_runtime_dir i) = Inr runtime_dir"
    and g: "get_runtime st (ia_runtime_ref i) = Inr existing"
    and w: "write_runtime faults (installed_runtime i runtime_dir existing) st = (st1, Inr u1)"
    and a: "write_app faults (installed_record i app_dir runtime_dir) st1 = (st2, Inr u2)"
    and r: "reconcile_runtime_bindings faults st2 = (st3, Inr u3)"
    and e: "(case existing of
          None \<Rightarrow> (st3, Inr ())
        | Some old \<Rightarrow>
            if rr_origin old \<noteq> ia_runtime_origin i
            then (st3, remove_refs (rr_origin old) (''runtime/'' @ ia_runtime_ref i))
            else (st3, Inr ())) = (st4, Inr u4)"
    and f: "st' = st4" "app = installed_record i app_dir runtime_dir"
    unfolding record_install_def by (elim sbind_InrE) simp
  have "st4 = st3" using e by (auto split: option.splits if_splits)
  with d g w a r f show thesis by (intro that) simp_all
qed

section \<open>Properties\<close>

lemma get_app_of: "list_all safe_name_char app_id \<Longrightarrow> apps_of st app_id = Some a \<Longrightarrow> get_app st app_id = Inr a"
  by (auto simp: get_app_def apps_of_def safe_names(3) split: option.splits sum.splits)


lemma record_install_total:
  assumes "records_ok st" "relative_data_path paths (ia_app_dir i) = Inr app_dir" "relative_data_path paths (ia_runtime_dir i) = Inr runtime_dir"
    and "recordable_app (installed_record i app_dir runtime_dir)" "ia_runtime_installed_size i \<le> u64_max"
    and "no_clash st (ia_runtime_ref i)" "\<And>n. faults n = None" "\<And>origin ref. remove_refs origin ref = Inr ()"
  shows "\<exists>st'. record_install paths faults remove_refs i st = (st', Inr (installed_record i app_dir runtime_dir))"
proof -
  let ?r = "installed_runtime i runtime_dir (runtimes_of st (ia_runtime_ref i))"
  have r: "recordable_runtime ?r" "rr_runtime_ref ?r = ia_runtime_ref i"
    using assms(4,5) by (simp_all add: recordable_runtime_def recordable_app_def installed_runtime_def installed_record_def)
  obtain st1 where w: "write_runtime faults ?r st = (st1, Inr ())" by (simp add: write_runtime_def assms(7))
  have s1: "records_ok st1" using write_runtime_ok [OF assms(1) r(1) _ w] assms(6) by (simp add: r(2))
  obtain st2 where a: "write_app faults (installed_record i app_dir runtime_dir) st1 = (st2, Inr ())"
    using write_app_total [OF assms(4)] assms(7) by blast
  have s2: "records_ok st2" using write_app_ok [OF s1 assms(4) a] by simp
  obtain st3 res where b: "reconcile_runtime_bindings faults st2 = (st3, res)" by fastforce
  then have "res = Inr ()" using reconcile_bindings [OF s2 b] assms(7) by blast
  with assms(2,3,8) runtimes_of_files(2) [OF assms(1) refl, of "ia_runtime_ref i"] w a b show ?thesis
    by (auto simp: record_install_def split: option.splits)
qed

definition demo_paths :: Installation where
  "demo_paths = \<lparr>data_home = parse_path ''/h'', data_root = parse_path ''/h/f'', cache_root = parse_path ''/c'',
     runtime_root = parse_path ''/r'', app_data_root = parse_path ''/v'', launcher = [], libexec_root = []\<rparr>"

definition demo_install :: "string \<Rightarrow> string \<Rightarrow> InstalledApp" where
  "demo_install app_id commit = \<lparr>ia_origin = ''flathub'', ia_runtime_origin = ''flathub'', ia_app_id = app_id,
     ia_app_ref = ''app/'' @ app_id, ia_app_commit = ''a'', ia_installed_size = 1, ia_app_dir = parse_path ''/h/f/apps/x'',
     ia_arch = ''x86_64'', ia_branch = ''stable'', ia_runtime_ref = ''org.P/x86_64/1'', ia_runtime_commit = commit,
     ia_runtime_installed_size = 2, ia_runtime_dir = parse_path (''/h/f/runtimes/'' @ commit), ia_command = ''run''\<rparr>"

definition no_faults :: faults where
  "no_faults n = None"

definition empty_records :: record_store where
  "empty_records = \<lparr>app_files = [], runtime_files = []\<rparr>"

lemma empty_records_ok: "records_ok empty_records" "no_clash empty_records ref"
  by (simp_all add: records_ok_def empty_records_def no_clash_def runtimes_of_def get_runtime_def list_runtimes_def)

lemma demo_installs:
  obtains app st' where "record_install demo_paths no_faults (\<lambda>_ _. Inr ()) (demo_install ''org.A'' ''c1'') empty_records = (st', Inr app)"
    "recordable_app app"
proof -
  let ?i = "demo_install ''org.A'' ''c1''"
  let ?app = "installed_record ?i [Normal ''apps'', Normal ''x''] [Normal ''runtimes'', Normal ''c1'']"
  have d: "relative_data_path demo_paths (ia_app_dir ?i) = Inr [Normal ''apps'', Normal ''x'']"
      "relative_data_path demo_paths (ia_runtime_dir ?i) = Inr [Normal ''runtimes'', Normal ''c1'']"
    by code_simp+
  have r: "recordable_app ?app"
    unfolding recordable_app_def record_path_def
  proof (intro conjI)
    show "ar_installed_size ?app \<le> u64_max" by (simp add: installed_record_def demo_install_def)
  qed code_simp+
  have "\<exists>st'. record_install demo_paths no_faults (\<lambda>_ _. Inr ()) ?i empty_records = (st', Inr ?app)"
    by (rule record_install_total [OF empty_records_ok(1) d r]) (simp_all add: demo_install_def no_faults_def empty_records_ok(2))
  with r show thesis by (blast intro: that)
qed


text \<open>
  Two runtimes can share one record file: the name of a runtime record replaces every slash of the
  reference by an underscore, so writing the record of a runtime removes the record of another
  recorded runtime with the same file name from the store.
\<close>

theorem runtime_records_clash:
  assumes "records_ok st" "recordable_runtime r" "write_runtime faults r st = (st', Inr ())"
    and "runtimes_of st other = Some old" "other \<noteq> rr_runtime_ref r"
    and "runtime_record_name other = runtime_record_name (rr_runtime_ref r)"
  shows "runtimes_of st' other = None \<and> runtimes_of st' (rr_runtime_ref r) = Some r"
  using write_runtime_replaces [OF assms(1-3)] assms(5,6) by simp

definition clash_runtime :: "string \<Rightarrow> RuntimeRecord" where
  "clash_runtime ref = \<lparr>rr_origin = ''flathub'', rr_runtime_ref = ref, rr_runtime_commit = ''c'', rr_installed_size = 1,
     rr_explicit = True, rr_runtime_dir = [Normal ''d'']\<rparr>"

theorem runtime_records_clash_witness:
  "is_ok (FlatpakRef_parse ''runtime/org.a.b/x86_64/c_x86_64_d'') \<and> is_ok (FlatpakRef_parse ''runtime/org.a.b_x86_64_c/x86_64/d'')
   \<and> (let st1 = fst (write_runtime no_faults (clash_runtime ''org.a.b/x86_64/c_x86_64_d'') empty_records);
          st2 = fst (write_runtime no_faults (clash_runtime ''org.a.b_x86_64_c/x86_64/d'') st1)
      in runtimes_of st1 ''org.a.b/x86_64/c_x86_64_d'' \<noteq> None \<and> runtimes_of st2 ''org.a.b/x86_64/c_x86_64_d'' = None)"
proof -
  let ?a = "''org.a.b/x86_64/c_x86_64_d''" and ?b = "''org.a.b_x86_64_c/x86_64/d''"
  let ?s1 = "fst (write_runtime no_faults (clash_runtime ?a) empty_records)"
  have rec: "recordable_runtime (clash_runtime r)" if "clean_value r" for r
    unfolding recordable_runtime_def record_path_def
  proof (intro conjI)
    show "rr_installed_size (clash_runtime r) \<le> u64_max" by (simp add: clash_runtime_def)
    show "list_all clean_value [rr_origin (clash_runtime r), rr_runtime_ref (clash_runtime r), rr_runtime_commit (clash_runtime r)]"
      using that by (simp add: clash_runtime_def) (simp add: clean_value_def is_whitespace_def)
  qed (simp_all only: clash_runtime_def RuntimeRecord.simps, code_simp+)
  have w: "write_runtime no_faults r st = (fst (write_runtime no_faults r st), Inr ())" for r st
    by (simp add: write_runtime_def no_faults_def)
  have ca: "clean_value ?a" "clean_value ?b" by code_simp+
  have s1: "records_ok ?s1" "runtimes_of ?s1 ?a = Some (clash_runtime ?a)"
    using write_runtime_replaces [OF empty_records_ok(1) rec [OF ca(1)] w] by (simp_all add: clash_runtime_def)
  have "runtime_record_name ?a = runtime_record_name (rr_runtime_ref (clash_runtime ?b))" "?a \<noteq> rr_runtime_ref (clash_runtime ?b)"
    by code_simp+
  then have "runtimes_of (fst (write_runtime no_faults (clash_runtime ?b) ?s1)) ?a = None"
    using runtime_records_clash [OF s1(1) rec [OF ca(2)] w s1(2)] by blast
  moreover have "is_ok (FlatpakRef_parse ''runtime/org.a.b/x86_64/c_x86_64_d'')"
    "is_ok (FlatpakRef_parse ''runtime/org.a.b_x86_64_c/x86_64/d'')" by code_simp+
  ultimately show ?thesis using s1(2) by (simp add: Let_def)
qed

end
