(* ===== verification/Generation_Cleanup.thy ===== *)
theory Generation_Cleanup
  imports Records
begin

text \<open>
  Removal of retired deployments (\<^verbatim>\<open>src/src/installation/generation_cleanup.rs\<close>, the deployment listing of
  \<^verbatim>\<open>runtime_records.rs\<close>, and the run records that pin deployments in use).

  The file system is a tree of directories, regular files and links; a removal that fails leaves an
  arbitrary remainder, which is an argument. The theorem says that a cleanup, however it ends, leaves
  every deployment in use as it is; the finding is the one layout in which it does not.
\<close>

section \<open>Directory trees\<close>

datatype node = Dir "(string \<times> node) list" | Regular string | Link

fun is_dir :: "node \<Rightarrow> bool" where
  "is_dir (Dir es) = True"
| "is_dir n = False"

fun entries :: "node \<Rightarrow> (string \<times> node) list" where
  "entries (Dir es) = es"
| "entries n = []"

fun lookup :: "string list \<Rightarrow> node \<Rightarrow> node option" where
  "lookup [] n = Some n"
| "lookup (x # xs) (Dir es) = (case map_of es x of None \<Rightarrow> None | Some c \<Rightarrow> lookup xs c)"
| "lookup (x # xs) n = None"

text \<open>What a removal leaves at a place: nothing, or a remainder.\<close>

fun set_at :: "string list \<Rightarrow> node option \<Rightarrow> node \<Rightarrow> node" where
  "set_at [x] None (Dir es) = Dir (AList.delete x es)"
| "set_at [x] (Some c) (Dir es) = Dir (AList.update x c es)"
| "set_at (x # y # ys) c (Dir es) = Dir (map (\<lambda>(n, d). (n, if n = x then set_at (y # ys) c d else d)) es)"
| "set_at xs c n = n"

text \<open>The names of an absolute path without its root.\<close>

definition place :: "path \<Rightarrow> string list" where
  "place p = map component_str (filter is_normal p)"

section \<open>Deployments\<close>

record DeploymentData =
  dd_ref_name :: string
  dd_commit :: string
  dd_installed_size :: nat
  dd_origin :: string

definition COMMIT_MARKER :: string where
  "COMMIT_MARKER = ''.ostree-commit''"

definition has_marker :: "node \<Rightarrow> bool" where
  "has_marker n = (case lookup [COMMIT_MARKER] n of Some (Regular _) \<Rightarrow> True | _ \<Rightarrow> False)"

definition deployment_data :: "node \<Rightarrow> DeploymentData option result" where
  "deployment_data n =
     (case lookup [COMMIT_MARKER] n of
        Some (Regular marker) \<Rightarrow>
          (case lines marker of
             [] \<Rightarrow> Inl (Bail ''deployment marker missing ref'')
           | [_] \<Rightarrow> Inl (Bail ''deployment marker missing commit'')
           | [_, _] \<Rightarrow> Inl (Bail ''deployment marker missing installed size'')
           | ref_name # commit # size_text # rest \<Rightarrow>
               rbind (ok_or (Bail ''deployment marker has invalid installed size'') (parse_uint u64_max size_text)) (\<lambda>installed.
               case rest of
                 [] \<Rightarrow> Inl (Bail ''deployment marker missing origin'')
               | origin # _ \<Rightarrow>
                   Inr (Some \<lparr>dd_ref_name = ref_name, dd_commit = commit, dd_installed_size = installed, dd_origin = origin\<rparr>)))
      | _ \<Rightarrow> Inr None)"

definition runtime_deployment_from_path :: "Installation \<Rightarrow> path \<Rightarrow> node \<Rightarrow> RuntimeRecord option result" where
  "runtime_deployment_from_path paths p n =
     rbind (deployment_data n) (\<lambda>data.
     case data of
       None \<Rightarrow> Inr None
     | Some d \<Rightarrow>
         (case strip_prefix (dd_ref_name d) ''runtime/'' of
            None \<Rightarrow> Inr None
          | Some runtime_ref \<Rightarrow>
              rbind (relative_data_path paths p) (\<lambda>dir.
              Inr (Some \<lparr>rr_origin = dd_origin d, rr_runtime_ref = runtime_ref, rr_runtime_commit = dd_commit d,
                        rr_installed_size = dd_installed_size d, rr_explicit = False, rr_runtime_dir = dir\<rparr>))))"

fun collect_runtime_deployments :: "Installation \<Rightarrow> path \<Rightarrow> node \<Rightarrow> RuntimeRecord list result"
  and collect_in_entries :: "Installation \<Rightarrow> path \<Rightarrow> (string \<times> node) list \<Rightarrow> RuntimeRecord list result" where
  "collect_runtime_deployments paths p (Dir es) =
     rbind (runtime_deployment_from_path paths p (Dir es)) (\<lambda>found.
     case found of Some r \<Rightarrow> Inr [r] | None \<Rightarrow> collect_in_entries paths p es)"
| "collect_runtime_deployments paths p (Regular _) = Inr []"
| "collect_runtime_deployments paths p Link = Inr []"
| "collect_in_entries paths p [] = Inr []"
| "collect_in_entries paths p ((x, c) # es) =
     rbind (collect_runtime_deployments paths (p @ [Normal x]) c) (\<lambda>rs.
     rbind (collect_in_entries paths p es) (\<lambda>rest. Inr (rs @ rest)))"

text \<open>\<^verbatim>\<open>dedup_by\<close>: an element equal to the one kept before it is dropped.\<close>

fun dedup_by :: "('a \<Rightarrow> 'b) \<Rightarrow> 'a list \<Rightarrow> 'a list" where
  "dedup_by f (x # y # xs) = (if f x = f y then dedup_by f (x # xs) else x # dedup_by f (y # xs))"
| "dedup_by f xs = xs"

definition list_runtime_deployments :: "Installation \<Rightarrow> node \<Rightarrow> RuntimeRecord list result" where
  "list_runtime_deployments paths fs =
     rbind (case lookup (place (runtimes paths)) fs of
              None \<Rightarrow> Inr []
            | Some n \<Rightarrow> collect_runtime_deployments paths (runtimes paths) n) (\<lambda>rs.
     Inr (dedup_by rr_runtime_dir (sort_key (\<lambda>r. (rr_runtime_ref r, rr_origin r, rr_runtime_dir r)) rs)))"

section \<open>Deployments in use\<close>

definition read_sandbox_ownership_records :: "string list \<Rightarrow> (string \<Rightarrow> string option) list result" where
  "read_sandbox_ownership_records files = traverse read_kv_file files"

definition read_run_records :: "string list \<Rightarrow> (string \<Rightarrow> string option) list result" where
  "read_run_records files =
     rbind (read_sandbox_ownership_records files) (\<lambda>rs. Inr (filter (\<lambda>r. r ''parent_root'' = None) rs))"

definition run_dirs :: "Installation \<Rightarrow> (string \<Rightarrow> string option) \<Rightarrow> path list" where
  "run_dirs paths r =
     map (\<lambda>p. absolute_data_path paths (parse_path p))
       (List.map_filter r [''app_dir'', ''runtime_dir'']
        @ (case r ''extension_dirs'' of
             None \<Rightarrow> []
           | Some dirs \<Rightarrow> filter (\<lambda>d. d \<noteq> []) (map trim (split_on (CHR '';'') dirs))))"

definition protected_dirs :: "Installation \<Rightarrow> AppRecord list \<Rightarrow> RuntimeRecord list \<Rightarrow> (string \<Rightarrow> string option) list \<Rightarrow> path list" where
  "protected_dirs paths as rs runs =
     concat (map (\<lambda>a. [absolute_data_path paths (ar_app_dir a), absolute_data_path paths (ar_runtime_dir a)]) as)
     @ map (\<lambda>r. absolute_data_path paths (rr_runtime_dir r)) rs
     @ concat (map (run_dirs paths) runs)"

section \<open>Removal\<close>

text \<open>The removals that fail, with what they leave behind.\<close>

type_synonym leftovers = "path \<Rightarrow> node option"

definition remove_dir_all :: "leftovers \<Rightarrow> path \<Rightarrow> node \<Rightarrow> node \<times> unit result" where
  "remove_dir_all left p fs =
     (set_at (place p) (left p) fs,
      case left p of None \<Rightarrow> Inr () | Some _ \<Rightarrow> Inl (Bail (''remove '' @ display_path p)))"

definition strictly_below :: "path \<Rightarrow> path \<Rightarrow> bool" where
  "strictly_below p root \<longleftrightarrow> path_starts_with p root \<and> p \<noteq> root"

definition safe_remove_dir :: "Installation \<Rightarrow> leftovers \<Rightarrow> path \<Rightarrow> node \<Rightarrow> node \<times> unit result" where
  "safe_remove_dir paths left path fs =
     (let p = absolute_data_path paths path in
      if lookup (place p) fs = None then (fs, Inr ())
      else if \<not> list_ex (strictly_below p) [apps paths, runtimes paths, chroots paths]
      then (fs, Inl (Bail (''refusing to remove path outside managed runtime data: '' @ display_path p)))
      else remove_dir_all left p fs)"

definition remove_managed_path :: "Installation \<Rightarrow> leftovers \<Rightarrow> path \<Rightarrow> node \<Rightarrow> node \<times> unit result" where
  "remove_managed_path paths left p fs =
     (if \<not> list_ex (strictly_below p) [apps paths, runtimes paths]
      then (fs, Inl (Bail (''refusing to remove unmanaged path: '' @ display_path p)))
      else if lookup (place p) fs = None then (fs, Inr ())
      else remove_dir_all left p fs)"

fun remove_runtimes :: "Installation \<Rightarrow> leftovers \<Rightarrow> path list \<Rightarrow> RuntimeRecord list \<Rightarrow> node \<Rightarrow> node \<times> path list result" where
  "remove_runtimes paths left protected [] fs = (fs, Inr [])"
| "remove_runtimes paths left protected (r # rs) fs =
     (let p = absolute_data_path paths (rr_runtime_dir r) in
      if p \<in> set protected then remove_runtimes paths left protected rs fs
      else
        sbind (safe_remove_dir paths left p fs) (\<lambda>fs _.
        sbind (remove_runtimes paths left protected rs fs) (\<lambda>fs removed. (fs, Inr (p # removed)))))"

fun remove_generations :: "Installation \<Rightarrow> leftovers \<Rightarrow> path list \<Rightarrow> path \<Rightarrow> (string \<times> node) list \<Rightarrow> node \<Rightarrow> node \<times> path list result" where
  "remove_generations paths left protected family [] fs = (fs, Inr [])"
| "remove_generations paths left protected family ((g, c) # es) fs =
     (let p = family @ [Normal g] in
      if \<not> is_dir c \<or> \<not> has_marker c \<or> p \<in> set protected then remove_generations paths left protected family es fs
      else
        sbind (safe_remove_dir paths left p fs) (\<lambda>fs _.
        sbind (remove_generations paths left protected family es fs) (\<lambda>fs removed. (fs, Inr (p # removed)))))"

fun remove_legacy :: "Installation \<Rightarrow> leftovers \<Rightarrow> path \<Rightarrow> (string \<times> node) list \<Rightarrow> node \<Rightarrow> node \<times> unit result" where
  "remove_legacy paths left family [] fs = (fs, Inr ())"
| "remove_legacy paths left family ((x, c) # es) fs =
     (if is_dir c \<and> has_marker c then remove_legacy paths left family es fs
      else
        sbind (remove_managed_path paths left (family @ [Normal x]) fs) (\<lambda>fs _.
        remove_legacy paths left family es fs))"

text \<open>A directory is listed when its turn comes.\<close>

definition listing :: "path \<Rightarrow> node \<Rightarrow> (string \<times> node) list" where
  "listing p fs = (case lookup (place p) fs of None \<Rightarrow> [] | Some n \<Rightarrow> entries n)"

definition marked :: "path \<Rightarrow> node \<Rightarrow> bool" where
  "marked p fs = (case lookup (place p) fs of None \<Rightarrow> False | Some n \<Rightarrow> has_marker n)"

fun remove_families :: "Installation \<Rightarrow> leftovers \<Rightarrow> path list \<Rightarrow> (string \<times> node) list \<Rightarrow> node \<Rightarrow> node \<times> path list result" where
  "remove_families paths left protected [] fs = (fs, Inr [])"
| "remove_families paths left protected ((f, c) # fams) fs =
     (if \<not> is_dir c then remove_families paths left protected fams fs
      else
        let family = apps paths @ [Normal f] in
        sbind (remove_generations paths left protected family (listing family fs) fs) (\<lambda>fs removed.
        sbind
          (if marked family fs \<and> family \<notin> set protected
           then sbind (remove_legacy paths left family (listing family fs) fs) (\<lambda>fs _. (fs, Inr [family]))
           else (fs, Inr [])) (\<lambda>fs legacy.
        sbind (remove_families paths left protected fams fs) (\<lambda>fs rest. (fs, Inr (removed @ legacy @ rest))))))"

definition cleanup_retired_deployments ::
  "Installation \<Rightarrow> leftovers \<Rightarrow> record_store \<Rightarrow> string list \<Rightarrow> node \<Rightarrow> node \<times> path list result" where
  "cleanup_retired_deployments paths left st run_files fs =
     sbind (fs, list_apps st) (\<lambda>fs as.
     sbind (fs, list_runtimes st) (\<lambda>fs rs.
     sbind (fs, read_run_records run_files) (\<lambda>fs runs.
     let protected = protected_dirs paths as rs runs in
     sbind (fs, list_runtime_deployments paths fs) (\<lambda>fs deployments.
     sbind (remove_runtimes paths left protected deployments fs) (\<lambda>fs removed.
     sbind (remove_families paths left protected (listing (apps paths) fs) fs) (\<lambda>fs more.
     (fs, Inr (removed @ more))))))))"


section \<open>Places in a tree\<close>

fun wf_node :: "node \<Rightarrow> bool" where
  "wf_node (Dir es) \<longleftrightarrow> distinct (map fst es) \<and> (\<forall>e \<in> set es. wf_node (snd e))"
| "wf_node _ \<longleftrightarrow> True"

definition apart :: "'a list \<Rightarrow> 'a list \<Rightarrow> bool" where
  "apart p q \<longleftrightarrow> \<not> starts_with p q \<and> \<not> starts_with q p"

lemma starts_with_Cons [simp]: "starts_with (x # xs) (y # ys) \<longleftrightarrow> x = y \<and> starts_with xs ys" "starts_with xs []"
  "\<not> starts_with [] (y # ys)"
  by (auto simp: starts_with_def)

lemma apart_Cons: "apart (x # xs) (y # ys) \<longleftrightarrow> x \<noteq> y \<or> apart xs ys"
  by (auto simp: apart_def)

lemma apart_Nil [simp]: "\<not> apart p []" "\<not> apart [] p"
  by (simp_all add: apart_def)

lemma apart_append [simp]: "apart (r @ p) (r @ q) \<longleftrightarrow> apart p q"
  by (induction r) (auto simp: apart_Cons)

lemma apart_same_length: "length p = length q \<Longrightarrow> p \<noteq> q \<Longrightarrow> apart p q"
  by (auto simp: apart_def starts_with_iff)

lemma map_of_map_at: "map_of (map (\<lambda>(n, d). (n, if n = x then f d else d)) es) y = (if y = x then map_option f (map_of es y) else map_of es y)"
  by (induction es) auto

lemma lookup_set_at:
  "apart p q \<Longrightarrow> lookup p (set_at q c n) = lookup p n"
proof (induction q c n arbitrary: p rule: set_at.induct)
  case (1 x es)
  then show ?case by (cases p) (auto simp: apart_Cons delete_conv' split: option.splits)
next
  case (2 x c es)
  then show ?case by (cases p) (auto simp: apart_Cons update_conv' split: option.splits)
next
  case (3 x y ys c es)
  show ?case
  proof (cases p)
    case (Cons z zs)
    show ?thesis
    proof (cases "z = x \<and> map_of es z \<noteq> None")
      case True
      then obtain d where d: "map_of es x = Some d" by auto
      have "apart zs (y # ys)" using 3(2) Cons True by (simp add: apart_Cons)
      moreover have "(x, d) \<in> set es" using d by (rule map_of_SomeD)
      ultimately have "lookup zs (set_at (y # ys) c d) = lookup zs d" using 3(1) by blast
      then show ?thesis using Cons True d by (simp add: map_of_map_at)
    next
      case False
      then show ?thesis using Cons by (auto simp: map_of_map_at)
    qed
  qed (use 3(2) in simp)
qed simp_all

lemma set_delete: "set (AList.delete x es) \<subseteq> set es"
  by (auto simp: AList.delete_eq)

lemma set_update: "set (AList.update x c es) \<subseteq> insert (x, c) (set es)"
  by (induction es) auto

lemma wf_set_at: "wf_node n \<Longrightarrow> (\<And>d. c = Some d \<Longrightarrow> wf_node d) \<Longrightarrow> wf_node (set_at q c n)"
proof (induction q c n rule: set_at.induct)
  case (1 x es)
  then show ?case using set_delete [of x es] by (auto simp: distinct_delete)
next
  case (2 x c es)
  then show ?case using set_update [of x c es] by (auto simp: distinct_update)
next
  case (3 x y ys c es)
  have "map fst (map (\<lambda>(n, d). (n, if n = x then set_at (y # ys) c d else d)) es) = map fst es"
    by (induction es) auto
  then have "distinct (map fst (map (\<lambda>(n, d). (n, if n = x then set_at (y # ys) c d else d)) es))"
    using 3(2) by (simp only: wf_node.simps)
  moreover have "wf_node (snd e)" if e: "e \<in> set (map (\<lambda>(n, d). (n, if n = x then set_at (y # ys) c d else d)) es)" for e
  proof -
    from e obtain n d where d: "(n, d) \<in> set es" "snd e = (if n = x then set_at (y # ys) c d else d)" by auto
    have "wf_node d" using 3(2) d(1) by auto
    then show ?thesis using 3(1) [OF d(1) refl] 3(3) d(2) by auto
  qed
  ultimately show ?case unfolding set_at.simps wf_node.simps by blast
qed simp_all

lemma wf_lookup: "wf_node n \<Longrightarrow> lookup p n = Some m \<Longrightarrow> wf_node m"
proof (induction p n rule: lookup.induct)
  case (2 x xs es)
  then show ?case by (auto split: option.splits dest: map_of_SomeD)
qed simp_all

section \<open>Runtime deployments are apart\<close>

definition is_runtime :: "node \<Rightarrow> bool" where
  "is_runtime n = (case deployment_data n of Inr (Some d) \<Rightarrow> starts_with (dd_ref_name d) ''runtime/'' | _ \<Rightarrow> False)"

text \<open>The topmost runtime deployment on the way to a place.\<close>

definition topmost :: "string list \<Rightarrow> node \<Rightarrow> bool" where
  "topmost xs n \<longleftrightarrow>
     (\<exists>m. lookup xs n = Some m \<and> is_runtime m)
     \<and> (\<forall>ys m. starts_with xs ys \<longrightarrow> ys \<noteq> xs \<longrightarrow> lookup ys n = Some m \<longrightarrow> \<not> is_runtime m)"

lemma topmost_apart: "topmost xs n \<Longrightarrow> topmost ys n \<Longrightarrow> xs \<noteq> ys \<Longrightarrow> apart xs ys"
  unfolding topmost_def apart_def by blast

lemma runtime_deployment_iff:
  "runtime_deployment_from_path paths p n = Inr (Some r) \<Longrightarrow> is_runtime n \<and> relative_data_path paths p = Inr (rr_runtime_dir r)"
  "runtime_deployment_from_path paths p n = Inr None \<Longrightarrow> \<not> is_runtime n"
proof -
  assume "runtime_deployment_from_path paths p n = Inr (Some r)"
  then obtain d where "deployment_data n = Inr (Some d)" "starts_with (dd_ref_name d) ''runtime/''"
    "relative_data_path paths p = Inr (rr_runtime_dir r)"
    by (auto simp: runtime_deployment_from_path_def strip_prefix_def rbind_Inr_iff split: option.splits if_splits)
  then show "is_runtime n \<and> relative_data_path paths p = Inr (rr_runtime_dir r)" by (simp add: is_runtime_def)
next
  assume none: "runtime_deployment_from_path paths p n = Inr None"
  then obtain data where data: "deployment_data n = Inr data" by (auto simp: runtime_deployment_from_path_def rbind_Inr_iff)
  show "\<not> is_runtime n"
  proof (cases data)
    case (Some d)
    with none data show ?thesis
      by (cases "starts_with (dd_ref_name d) ''runtime/''")
         (auto simp: runtime_deployment_from_path_def strip_prefix_def is_runtime_def rbind_Inr_iff)
  qed (simp add: is_runtime_def data)
qed

lemma topmost_Cons:
  assumes "topmost xs c" "map_of es x = Some c" "\<not> is_runtime (Dir es)"
  shows "topmost (x # xs) (Dir es)"
  unfolding topmost_def
proof (intro conjI allI impI)
  show "\<exists>m. lookup (x # xs) (Dir es) = Some m \<and> is_runtime m" using assms by (simp add: topmost_def)
  fix ys m assume ys: "starts_with (x # xs) ys" "ys \<noteq> x # xs" "lookup ys (Dir es) = Some m"
  show "\<not> is_runtime m"
  proof (cases ys)
    case Nil
    with ys(3) assms(3) show ?thesis by simp
  next
    case (Cons y zs)
    with ys assms(2) have "starts_with xs zs" "zs \<noteq> xs" "lookup zs c = Some m" by auto
    with assms(1) show ?thesis unfolding topmost_def by blast
  qed
qed

lemma collect_topmost:
  "wf_node n \<Longrightarrow> collect_runtime_deployments paths p n = Inr rs \<Longrightarrow> r \<in> set rs
    \<Longrightarrow> \<exists>xs. topmost xs n \<and> relative_data_path paths (p @ map Normal xs) = Inr (rr_runtime_dir r)"
  "\<forall>e \<in> set es. wf_node (snd e) \<Longrightarrow> collect_in_entries paths p es = Inr rs \<Longrightarrow> r \<in> set rs
    \<Longrightarrow> \<exists>x c xs. (x, c) \<in> set es \<and> topmost xs c \<and> relative_data_path paths (p @ Normal x # map Normal xs) = Inr (rr_runtime_dir r)"
proof (induction paths p n and paths p es arbitrary: rs and rs rule: collect_runtime_deployments_collect_in_entries.induct)
  case (1 paths p es)
  from 1(3) obtain found where f: "runtime_deployment_from_path paths p (Dir es) = Inr found"
    "(case found of Some r \<Rightarrow> Inr [r] | None \<Rightarrow> collect_in_entries paths p es) = Inr rs"
    by (auto simp: rbind_Inr_iff)
  show ?case
  proof (cases found)
    case (Some q)
    with f(2) 1(4) have "q = r" by auto
    with f(1) Some runtime_deployment_iff(1) have "is_runtime (Dir es)" "relative_data_path paths p = Inr (rr_runtime_dir r)" by blast+
    moreover have "ys = []" if "starts_with [] ys" for ys :: "string list" using that by (cases ys) simp_all
    ultimately have "topmost [] (Dir es)" unfolding topmost_def by auto
    then show ?thesis using \<open>relative_data_path paths p = _\<close> by (intro exI [of _ "[]"]) simp
  next
    case None
    with f have n: "\<not> is_runtime (Dir es)" "collect_in_entries paths p es = Inr rs"
      using runtime_deployment_iff(2) by auto
    have wf: "\<forall>e \<in> set es. wf_node (snd e)" "distinct (map fst es)" using 1(2) by simp_all
    from 1(1) [OF wf(1) n(2) 1(4)] obtain x c xs where x: "(x, c) \<in> set es" "topmost xs c"
      "relative_data_path paths (p @ Normal x # map Normal xs) = Inr (rr_runtime_dir r)" by blast
    have "map_of es x = Some c" using wf(2) x(1) by simp
    then have "topmost (x # xs) (Dir es)" using x(2) n(1) by (intro topmost_Cons)
    then show ?thesis using x(3) by (intro exI [of _ "x # xs"]) simp
  qed
next
  case (5 paths p x c es)
  from 5(4) obtain r1 r2 where r: "collect_runtime_deployments paths (p @ [Normal x]) c = Inr r1"
    "collect_in_entries paths p es = Inr r2" "rs = r1 @ r2" by (auto simp: rbind_Inr_iff)
  show ?case
  proof (cases "r \<in> set r1")
    case True
    then obtain xs where "topmost xs c" "relative_data_path paths ((p @ [Normal x]) @ map Normal xs) = Inr (rr_runtime_dir r)"
      using 5(1) [OF _ r(1)] 5(3) by auto
    then show ?thesis by (intro exI [of _ x] exI [of _ c] exI [of _ xs]) simp
  next
    case False
    with 5(5) r(3) have "r \<in> set r2" by simp
    then obtain y d ys where "(y, d) \<in> set es" "topmost ys d" "relative_data_path paths (p @ Normal y # map Normal ys) = Inr (rr_runtime_dir r)"
      using 5(2) [OF _ r(2)] 5(3) by auto
    then show ?thesis by (intro exI [of _ y] exI [of _ d] exI [of _ ys]) simp
  qed
qed simp_all


section \<open>What a cleanup keeps\<close>

definition leftovers_ok :: "leftovers \<Rightarrow> bool" where
  "leftovers_ok left \<longleftrightarrow> (\<forall>p n. left p = Some n \<longrightarrow> wf_node n)"

definition kept :: "path \<Rightarrow> node \<Rightarrow> node \<Rightarrow> bool" where
  "kept p fs fs' \<longleftrightarrow> wf_node fs' \<and> lookup (place p) fs' = lookup (place p) fs"

definition managed_root :: "Installation \<Rightarrow> bool" where
  "managed_root paths \<longleftrightarrow> (\<exists>names. data_root paths = RootDir # map Normal names)"

lemma kept_refl: "wf_node fs \<Longrightarrow> kept p fs fs"
  by (simp add: kept_def)

lemma kept_trans: "kept p fs fs' \<Longrightarrow> kept p fs' fs'' \<Longrightarrow> kept p fs fs''"
  by (simp add: kept_def)

lemma kept_wf: "kept p fs fs' \<Longrightarrow> wf_node fs'"
  by (simp add: kept_def)

lemma place_append [simp]: "place (p @ q) = place p @ place q" "place (Normal x # q) = x # place q" "place [] = []"
  "place (map Normal xs) = xs" "place (RootDir # q) = place q"
  by (induction xs) (simp_all add: place_def)

lemma managed_paths:
  assumes "managed_root paths"
  shows "apps paths = data_root paths @ [Normal ''apps'']" "runtimes paths = data_root paths @ [Normal ''runtimes'']"
    "is_absolute (data_root paths @ q)" "absolute_data_path paths (data_root paths @ q) = data_root paths @ q"
proof -
  have p: "parse_path ''apps'' = [Normal ''apps'']" "parse_path ''runtimes'' = [Normal ''runtimes'']" by code_simp+
  obtain names where d: "data_root paths = RootDir # map Normal names" using assms by (auto simp: managed_root_def)
  show "apps paths = data_root paths @ [Normal ''apps'']" "runtimes paths = data_root paths @ [Normal ''runtimes'']"
    by (simp_all add: apps_def runtimes_def join_str_def p path_join_def d is_absolute_def)
  show a: "is_absolute (data_root paths @ q)" by (simp add: d is_absolute_def)
  show "absolute_data_path paths (data_root paths @ q) = data_root paths @ q" by (simp add: absolute_data_path_def a)
qed

lemma runtime_place:
  assumes "managed_root paths" "relative_data_path paths (runtimes paths @ map Normal xs) = Inr dir"
  shows "absolute_data_path paths dir = runtimes paths @ map Normal xs"
proof -
  note m = managed_paths [OF assms(1)]
  have "path_strip_prefix (data_root paths @ Normal ''runtimes'' # map Normal xs) (data_root paths) = Some dir"
    using assms(2) m(4) [of "Normal ''runtimes'' # map Normal xs"] by (simp add: relative_data_path_def m(2))
  then have "dir = Normal ''runtimes'' # map Normal xs" by (simp add: strip_prefix_Some_iff)
  moreover obtain names where "data_root paths = RootDir # map Normal names" using assms(1) by (auto simp: managed_root_def)
  ultimately show ?thesis
    by (simp add: absolute_data_path_def is_absolute_def path_join_def m(2))
qed

lemma remove_dir_all_kept:
  assumes "wf_node fs" "leftovers_ok left" "apart (place p) (place q)"
  shows "kept p fs (fst (remove_dir_all left q fs))"
  using assms wf_set_at [OF assms(1), of "left q" "place q"]
  by (auto simp: kept_def remove_dir_all_def leftovers_ok_def lookup_set_at)

lemma safe_remove_dir_kept:
  assumes "wf_node fs" "leftovers_ok left" "apart (place p) (place (absolute_data_path paths q))"
  shows "kept p fs (fst (safe_remove_dir paths left q fs))"
  using remove_dir_all_kept [OF assms] kept_refl [OF assms(1)] by (simp add: safe_remove_dir_def Let_def)

lemma remove_managed_path_kept:
  assumes "wf_node fs" "leftovers_ok left" "apart (place p) (place q)"
  shows "kept p fs (fst (remove_managed_path paths left q fs))"
  using remove_dir_all_kept [OF assms] kept_refl [OF assms(1)] by (simp add: remove_managed_path_def)

lemma sbind_kept:
  assumes "kept p fs (fst m)" "\<And>fs' x. m = (fs', Inr x) \<Longrightarrow> kept p fs fs' \<Longrightarrow> kept p fs (fst (f fs' x))"
  shows "kept p fs (fst (sbind m f))"
  using assms by (cases m; cases "snd m") (auto simp: sbind_def)

lemma remove_runtimes_kept:
  assumes "wf_node fs" "leftovers_ok left" "p \<in> set protected"
    and "\<forall>r \<in> set rs. absolute_data_path paths (rr_runtime_dir r) \<noteq> p
          \<longrightarrow> apart (place p) (place (absolute_data_path paths (absolute_data_path paths (rr_runtime_dir r))))"
  shows "kept p fs (fst (remove_runtimes paths left protected rs fs))"
  using assms(1,4)
proof (induction rs arbitrary: fs)
  case (Cons r rs)
  let ?q = "absolute_data_path paths (rr_runtime_dir r)"
  have rest: "kept p fs (fst (remove_runtimes paths left protected rs fs'))" if "kept p fs fs'" for fs'
    using kept_trans [OF that Cons.IH [OF kept_wf [OF that]]] Cons.prems(2) by simp
  show ?case
  proof (cases "?q \<in> set protected")
    case True
    then show ?thesis using Cons by (simp add: Let_def)
  next
    case False
    with assms(3) have "?q \<noteq> p" by auto
    then have "kept p fs (fst (safe_remove_dir paths left ?q fs))"
      using safe_remove_dir_kept [OF Cons.prems(1) assms(2)] Cons.prems(2) by simp
    then show ?thesis
      using False by (simp add: Let_def) (rule sbind_kept, assumption, rule sbind_kept, auto intro: rest)
  qed
qed (simp add: kept_refl)

lemma remove_generations_kept:
  assumes "wf_node fs" "leftovers_ok left" "managed_root paths" "p \<in> set protected"
    and "family = apps paths @ [Normal f]"
    and "\<And>g. family @ [Normal g] \<noteq> p \<Longrightarrow> apart (place p) (place (family @ [Normal g]))"
  shows "kept p fs (fst (remove_generations paths left protected family es fs))"
  using assms(1)
proof (induction es arbitrary: fs)
  case (Cons e es)
  obtain g c where e: "e = (g, c)" by (cases e)
  let ?q = "family @ [Normal g]"
  have abs: "absolute_data_path paths ?q = ?q"
    using managed_paths(4) [OF assms(3), of "[Normal ''apps'', Normal f, Normal g]"] by (simp add: assms(5) managed_paths(1) [OF assms(3)])
  have rest: "kept p fs (fst (remove_generations paths left protected family es fs'))" if "kept p fs fs'" for fs'
    using kept_trans [OF that Cons.IH [OF kept_wf [OF that]]] by simp
  show ?case
  proof (cases "\<not> is_dir c \<or> \<not> has_marker c \<or> ?q \<in> set protected")
    case True
    then show ?thesis using Cons e by (simp add: Let_def)
  next
    case False
    with assms(4) have "?q \<noteq> p" by auto
    then have "kept p fs (fst (safe_remove_dir paths left ?q fs))"
      using safe_remove_dir_kept [OF Cons.prems assms(2)] assms(6) by (simp add: abs)
    then show ?thesis
      using False e by (simp add: Let_def) (rule sbind_kept, assumption, rule sbind_kept, auto intro: rest)
  qed
qed (simp add: kept_refl)

text \<open>A directory with a marker survives the removal of the legacy payload around it.\<close>

lemma remove_legacy_kept:
  assumes "wf_node fs" "leftovers_ok left"
    and "\<And>x c. (x, c) \<in> set es \<Longrightarrow> \<not> (is_dir c \<and> has_marker c) \<Longrightarrow> apart (place p) (place (family @ [Normal x]))"
  shows "kept p fs (fst (remove_legacy paths left family es fs))"
  using assms(1,3)
proof (induction es arbitrary: fs)
  case (Cons e es)
  obtain x c where e: "e = (x, c)" by (cases e)
  have rest: "kept p fs (fst (remove_legacy paths left family es fs'))" if k: "kept p fs fs'" for fs'
  proof (rule kept_trans [OF k Cons.IH [OF kept_wf [OF k]]])
    show "apart (place p) (place (family @ [Normal x]))" if "(x, c) \<in> set es" "\<not> (is_dir c \<and> has_marker c)" for x c
      by (rule Cons.prems(2) [of x c]) (use that in simp_all)
  qed
  show ?case
  proof (cases "is_dir c \<and> has_marker c")
    case True
    then show ?thesis using rest [OF kept_refl [OF Cons.prems(1)]] e by simp
  next
    case False
    then have "kept p fs (fst (remove_managed_path paths left (family @ [Normal x]) fs))"
      using remove_managed_path_kept [OF Cons.prems(1) assms(2) Cons.prems(2) [of x c]] e by simp
    then have "kept p fs (fst (sbind (remove_managed_path paths left (family @ [Normal x]) fs) (\<lambda>fs _. remove_legacy paths left family es fs)))"
      by (rule sbind_kept) (rule rest)
    then show ?thesis using False by (simp only: e remove_legacy.simps if_False)
  qed
qed (simp add: kept_refl)

lemma lookup_append: "lookup (p @ q) n = Option.bind (lookup p n) (lookup q)"
  by (induction p n rule: lookup.induct) (auto split: option.splits)

text \<open>A commit-qualified checkout of an application.\<close>

definition app_generation :: "Installation \<Rightarrow> path \<Rightarrow> node \<Rightarrow> bool" where
  "app_generation paths p fs \<longleftrightarrow>
     (\<exists>f g m. p = apps paths @ [Normal f, Normal g] \<and> lookup (place p) fs = Some m \<and> is_dir m \<and> has_marker m)"

lemma app_generation_kept: "kept p fs fs' \<Longrightarrow> app_generation paths p fs = app_generation paths p fs'"
  by (simp add: app_generation_def kept_def)

lemma apart_generation:
  assumes "managed_root paths" "app_generation paths p fs \<or> (\<exists>xs. p = runtimes paths @ map Normal xs)"
    and "apps paths @ [Normal f, Normal g] \<noteq> p"
  shows "apart (place p) (place (apps paths @ [Normal f, Normal g]))"
  using assms(2)
proof
  assume "app_generation paths p fs"
  then obtain f' g' where p: "p = apps paths @ [Normal f', Normal g']" by (auto simp: app_generation_def)
  with assms(3) have "[f', g'] \<noteq> [f, g]" by auto
  then show ?thesis by (simp add: p apart_same_length)
next
  assume "\<exists>xs. p = runtimes paths @ map Normal xs"
  then show ?thesis by (auto simp: managed_paths [OF assms(1)] apart_Cons)
qed

lemma legacy_entry_apart:
  assumes "managed_root paths" "wf_node fs" "app_generation paths p fs \<or> (\<exists>xs. p = runtimes paths @ map Normal xs)"
    and "(x, c) \<in> set (listing (apps paths @ [Normal f]) fs)" "\<not> (is_dir c \<and> has_marker c)"
  shows "apart (place p) (place ((apps paths @ [Normal f]) @ [Normal x]))"
proof -
  have "apps paths @ [Normal f, Normal x] \<noteq> p"
  proof
    assume p: "apps paths @ [Normal f, Normal x] = p"
    from assms(3) have "app_generation paths p fs"
    proof
      assume "\<exists>xs. p = runtimes paths @ map Normal xs"
      then show ?thesis by (auto simp: p [symmetric] managed_paths [OF assms(1)])
    qed
    then obtain m where m: "lookup (place p) fs = Some m" "is_dir m" "has_marker m" by (auto simp: app_generation_def)
    obtain n where n: "lookup (place (apps paths @ [Normal f])) fs = Some n" "(x, c) \<in> set (entries n)"
      using assms(4) unfolding listing_def by (cases "lookup (place (apps paths @ [Normal f])) fs") auto
    have "wf_node n" by (rule wf_lookup [OF assms(2) n(1)])
    with n(2) have "lookup [x] n = Some c" by (cases n) auto
    then have "lookup (place (apps paths @ [Normal f]) @ [x]) fs = Some c" using n(1)
      unfolding lookup_append [of "place (apps paths @ [Normal f])" "[x]"] by simp
    with m(1) have "m = c" by (simp add: p [symmetric])
    with m assms(5) show False by simp
  qed
  from apart_generation [OF assms(1,3) this] show ?thesis by simp
qed

lemma remove_families_kept:
  assumes "managed_root paths" "leftovers_ok left" "p \<in> set protected"
    and "wf_node fs" "app_generation paths p fs \<or> (\<exists>xs. p = runtimes paths @ map Normal xs)"
  shows "kept p fs (fst (remove_families paths left protected fams fs))"
  using assms(4,5)
proof (induction fams arbitrary: fs)
  case (Cons e fams)
  obtain f c where e: "e = (f, c)" by (cases e)
  have place_ok: "app_generation paths p fs' \<or> (\<exists>xs. p = runtimes paths @ map Normal xs)" if "kept p fs fs'" for fs'
    using Cons.prems(2) app_generation_kept [OF that] by blast
  have rest: "kept p fs (fst (remove_families paths left protected fams fs'))" if "kept p fs fs'" for fs'
    by (rule kept_trans [OF that Cons.IH [OF kept_wf [OF that] place_ok [OF that]]])
  let ?family = "apps paths @ [Normal f]"
  have gens: "kept p fs (fst (remove_generations paths left protected ?family (listing ?family fs) fs))"
    by (rule remove_generations_kept [OF Cons.prems(1) assms(2,1,3) refl])
       (use apart_generation [OF assms(1) Cons.prems(2)] in simp)
  have legacy: "kept p fs (fst (remove_legacy paths left ?family (listing ?family fs') fs'))" if k: "kept p fs fs'" for fs'
    by (rule kept_trans [OF k remove_legacy_kept [OF kept_wf [OF k] assms(2)]])
       (rule legacy_entry_apart [OF assms(1) kept_wf [OF k] place_ok [OF k]])
  show ?case
  proof (cases "is_dir c")
    case True
    have "kept p fs (fst (sbind (remove_generations paths left protected ?family (listing ?family fs) fs) (\<lambda>fs removed.
        sbind
          (if marked ?family fs \<and> ?family \<notin> set protected
           then sbind (remove_legacy paths left ?family (listing ?family fs) fs) (\<lambda>fs _. (fs, Inr [?family]))
           else (fs, Inr [])) (\<lambda>fs legacy.
        sbind (remove_families paths left protected fams fs) (\<lambda>fs rest. (fs, Inr (removed @ legacy @ rest)))))))"
    proof (rule sbind_kept [OF gens], rule sbind_kept)
      fix fs' :: node assume k: "kept p fs fs'"
      show "kept p fs (fst (if marked ?family fs' \<and> ?family \<notin> set protected
           then sbind (remove_legacy paths left ?family (listing ?family fs') fs') (\<lambda>fs _. (fs, Inr [?family]))
           else (fs', Inr [])))"
        using sbind_kept [OF legacy [OF k], of "\<lambda>fs _. (fs, Inr [?family])"] k by simp
      show "kept p fs (fst (sbind (remove_families paths left protected fams fs'') (\<lambda>fs rest. (fs, Inr (removed @ legacy @ rest)))))"
        if "kept p fs fs''" for fs'' :: node and removed legacy :: "path list"
        by (rule sbind_kept [OF rest [OF that]]) simp
    qed
    then show ?thesis using True by (simp only: e remove_families.simps Let_def not_True_eq_False if_False)
  next
    case False
    then show ?thesis using rest [OF kept_refl [OF Cons.prems(1)]] by (simp add: e)
  qed
qed (simp add: kept_refl)

section \<open>Properties\<close>

lemma dedup_by_subset: "set (dedup_by f xs) \<subseteq> set xs"
  by (induction f xs rule: dedup_by.induct) auto

lemma listed_deployment:
  assumes "managed_root paths" "wf_node fs" "list_runtime_deployments paths fs = Inr ds" "r \<in> set ds"
  obtains n xs where "lookup (place (runtimes paths)) fs = Some n" "topmost xs n"
    "absolute_data_path paths (rr_runtime_dir r) = runtimes paths @ map Normal xs"
proof -
  from assms(3,4) obtain n rs where n: "lookup (place (runtimes paths)) fs = Some n"
    "collect_runtime_deployments paths (runtimes paths) n = Inr rs" "r \<in> set rs"
    using dedup_by_subset by (force simp: list_runtime_deployments_def rbind_Inr_iff split: option.splits)
  obtain xs where "topmost xs n" "relative_data_path paths (runtimes paths @ map Normal xs) = Inr (rr_runtime_dir r)"
    using collect_topmost(1) [OF wf_lookup [OF assms(2) n(1)] n(2,3)] by blast
  with n(1) runtime_place [OF assms(1)] show thesis by (blast intro: that)
qed

lemma listed_apart:
  assumes "managed_root paths" "wf_node fs" "list_runtime_deployments paths fs = Inr ds" "r \<in> set ds" "q \<in> set ds"
    and "absolute_data_path paths (rr_runtime_dir q) \<noteq> absolute_data_path paths (rr_runtime_dir r)"
  shows "apart (place (absolute_data_path paths (rr_runtime_dir r))) (place (absolute_data_path paths (absolute_data_path paths (rr_runtime_dir q))))"
proof -
  obtain n xs where x: "lookup (place (runtimes paths)) fs = Some n" "topmost xs n"
    "absolute_data_path paths (rr_runtime_dir r) = runtimes paths @ map Normal xs"
    using assms(1-4) by (rule listed_deployment)
  obtain m ys where y: "lookup (place (runtimes paths)) fs = Some m" "topmost ys m"
    "absolute_data_path paths (rr_runtime_dir q) = runtimes paths @ map Normal ys"
    using assms(1-3,5) by (rule listed_deployment)
  have "absolute_data_path paths (runtimes paths @ map Normal ys) = runtimes paths @ map Normal ys"
    using managed_paths(4) [OF assms(1), of "Normal ''runtimes'' # map Normal ys"] by (simp add: managed_paths(2) [OF assms(1)])
  moreover have "xs \<noteq> ys" using assms(6) x(3) y(3) by auto
  then have "apart xs ys" using topmost_apart [OF x(2)] x(1) y(1,2) by auto
  ultimately show ?thesis by (simp add: x(3) y(3))
qed

lemma runtimes_apart_from_generation:
  assumes "managed_root paths" "app_generation paths p fs"
  shows "apart (place p) (place (runtimes paths @ map Normal xs))"
  using assms(2) by (auto simp: app_generation_def managed_paths [OF assms(1)] apart_Cons)

lemma cleanup_keeps:
  assumes "managed_root paths" "wf_node fs" "leftovers_ok left"
    and "list_apps st = Inr as" "list_runtimes st = Inr rs" "read_run_records run_files = Inr runs"
    and "p \<in> set (protected_dirs paths as rs runs)"
    and "(\<exists>ds r. list_runtime_deployments paths fs = Inr ds \<and> r \<in> set ds \<and> p = absolute_data_path paths (rr_runtime_dir r))
         \<or> app_generation paths p fs"
  shows "lookup (place p) (fst (cleanup_retired_deployments paths left st run_files fs)) = lookup (place p) fs"
proof (cases "list_runtime_deployments paths fs")
  case (Inl e)
  then show ?thesis by (simp add: cleanup_retired_deployments_def assms(4-6))
next
  case (Inr ds)
  let ?protected = "protected_dirs paths as rs runs"
  have away: "app_generation paths p fs \<or> (\<exists>xs. p = runtimes paths @ map Normal xs)"
    using assms(8)
  proof
    assume "\<exists>ds r. list_runtime_deployments paths fs = Inr ds \<and> r \<in> set ds \<and> p = absolute_data_path paths (rr_runtime_dir r)"
    then obtain r where r: "r \<in> set ds" "p = absolute_data_path paths (rr_runtime_dir r)" using Inr by auto
    show ?thesis using listed_deployment [OF assms(1,2) Inr r(1)] r(2) by metis
  qed blast
  have others: "apart (place p) (place (absolute_data_path paths (absolute_data_path paths (rr_runtime_dir q))))"
    if q: "q \<in> set ds" "absolute_data_path paths (rr_runtime_dir q) \<noteq> p" for q
    using assms(8)
  proof
    assume "\<exists>ds r. list_runtime_deployments paths fs = Inr ds \<and> r \<in> set ds \<and> p = absolute_data_path paths (rr_runtime_dir r)"
    then obtain r where r: "r \<in> set ds" "p = absolute_data_path paths (rr_runtime_dir r)" using Inr by auto
    show ?thesis using listed_apart [OF assms(1,2) Inr r(1) q(1)] q(2) r(2) by simp
  next
    assume g: "app_generation paths p fs"
    obtain ys where y: "absolute_data_path paths (rr_runtime_dir q) = runtimes paths @ map Normal ys"
      using listed_deployment [OF assms(1,2) Inr q(1)] by metis
    have "absolute_data_path paths (runtimes paths @ map Normal ys) = runtimes paths @ map Normal ys"
      using managed_paths(4) [OF assms(1), of "Normal ''runtimes'' # map Normal ys"] by (simp add: managed_paths(2) [OF assms(1)])
    then show ?thesis using runtimes_apart_from_generation [OF assms(1) g] by (simp add: y)
  qed
  have 1: "kept p fs (fst (remove_runtimes paths left ?protected ds fs))"
    by (rule remove_runtimes_kept [OF assms(2,3,7)]) (use others in blast)
  have 2: "kept p fs (fst (remove_families paths left ?protected fams fs'))" if k: "kept p fs fs'" for fams fs'
    using kept_trans [OF k remove_families_kept [OF assms(1,3,7) kept_wf [OF k]]] away app_generation_kept [OF k] by blast
  have "kept p fs (fst (sbind (remove_runtimes paths left ?protected ds fs) (\<lambda>fs removed.
     sbind (remove_families paths left ?protected (listing (apps paths) fs) fs) (\<lambda>fs more. (fs, Inr (removed @ more))))))"
    by (rule sbind_kept [OF 1], rule sbind_kept, erule 2, simp)
  then show ?thesis by (simp add: cleanup_retired_deployments_def assms(4-6) Inr Let_def kept_def)
qed



definition demo_marker :: "string \<Rightarrow> node" where
  "demo_marker ref = Regular (concat (map (\<lambda>l. l @ [newline]) [ref, ''c'', ''1'', ''flathub'']))"

definition demo_tree :: node where
  "demo_tree = Dir [(''h'', Dir [(''f'', Dir [
     (''apps'', Dir [(''org.A'', Dir [
        (''a'', Dir [(COMMIT_MARKER, demo_marker ''app/org.A/x86_64/stable'')]),
        (''old'', Dir [(COMMIT_MARKER, demo_marker ''app/org.A/x86_64/stable'')])])])])])]"

definition demo_app_record :: AppRecord where
  "demo_app_record = installed_record (demo_install ''org.A'' ''c1'') [Normal ''apps'', Normal ''org.A'', Normal ''a'']
     [Normal ''runtimes'', Normal ''c1'']"

definition demo_store :: record_store where
  "demo_store = \<lparr>app_files = [app_file demo_app_record], runtime_files = []\<rparr>"

lemma demo_record_ok: "recordable_app demo_app_record"
  unfolding recordable_app_def record_path_def
proof (intro conjI)
  show "ar_installed_size demo_app_record \<le> u64_max" by (simp add: demo_app_record_def installed_record_def demo_install_def)
qed code_simp+

lemma demo_store_lists: "list_apps demo_store = Inr [demo_app_record]" "list_runtimes demo_store = Inr []"
proof -
  have "traverse (\<lambda>(n, data). read_app data) (map app_file [demo_app_record]) = Inr [demo_app_record]"
    by (rule traverse_app_files) (simp add: demo_record_ok)
  then show "list_apps demo_store = Inr [demo_app_record]" by (simp add: list_apps_def demo_store_def)
  show "list_runtimes demo_store = Inr []" by (simp add: list_runtimes_def demo_store_def)
qed

lemma demo_managed: "managed_root demo_paths"
proof -
  have "data_root demo_paths = RootDir # map Normal [''h'', ''f'']" by code_simp
  then show ?thesis unfolding managed_root_def by blast
qed

definition demo_app_dir :: path where
  "demo_app_dir = [RootDir, Normal ''h'', Normal ''f'', Normal ''apps'', Normal ''org.A'', Normal ''a'']"


section \<open>Nested runtime deployments\<close>

lemma lookup_set_at_None: "lookup p n = None \<Longrightarrow> lookup p (set_at q None n) = None"
proof (induction q "None :: node option" n arbitrary: p rule: set_at.induct)
  case (1 x es)
  then show ?case by (cases p) (auto simp: delete_conv' split: option.splits)
next
  case (3 x y ys es)
  show ?case
  proof (cases p)
    case (Cons z zs)
    show ?thesis
    proof (cases "map_of es z")
      case (Some d)
      then have "(z, d) \<in> set es" by (rule map_of_SomeD)
      then have "lookup zs (set_at (y # ys) None d) = None" if "z = x"
        using 3 Cons Some that by simp
      then show ?thesis using 3(2) Cons Some by (auto simp: map_of_map_at)
    qed (auto simp: Cons map_of_map_at)
  qed (use 3(2) in simp)
qed simp_all

lemma lookup_leaf: "xs \<noteq> [] \<Longrightarrow> lookup xs (Regular v) = None" "xs \<noteq> [] \<Longrightarrow> lookup xs Link = None"
  by (cases xs; simp)+

lemma lookup_set_at_self: "q \<noteq> [] \<Longrightarrow> lookup q (set_at q None n) = None"
proof (induction q "None :: node option" n rule: set_at.induct)
  case (3 x y ys es)
  show ?case
  proof (cases "map_of es x")
    case (Some d)
    then have "(x, d) \<in> set es" by (rule map_of_SomeD)
    then have "lookup (y # ys) (set_at (y # ys) None d) = None" using 3(1) by simp
    then show ?thesis using Some by (simp add: map_of_map_at)
  qed (simp add: map_of_map_at)
qed (simp_all add: delete_conv' lookup_leaf)

lemma remove_gone:
  "lookup p fs = None \<Longrightarrow> lookup p (fst (safe_remove_dir paths (\<lambda>_. None) q fs)) = None"
  "lookup p fs = None \<Longrightarrow> lookup p (fst (remove_managed_path paths (\<lambda>_. None) q fs)) = None"
  by (simp_all add: safe_remove_dir_def remove_managed_path_def remove_dir_all_def Let_def lookup_set_at_None)

lemma sbind_gone:
  assumes "lookup p (fst m) = None" "\<And>fs x. lookup p fs = None \<Longrightarrow> lookup p (fst (f fs x)) = None"
  shows "lookup p (fst (sbind m f)) = None"
  using assms by (cases m; cases "snd m") (auto simp: sbind_def)

lemma remove_runtimes_gone:
  "lookup p fs = None \<Longrightarrow> lookup p (fst (remove_runtimes paths (\<lambda>_. None) protected rs fs)) = None"
  by (induction rs arbitrary: fs) (auto simp: Let_def intro!: sbind_gone remove_gone)

lemma remove_generations_gone:
  "lookup p fs = None \<Longrightarrow> lookup p (fst (remove_generations paths (\<lambda>_. None) protected family es fs)) = None"
  by (induction es arbitrary: fs) (auto simp: Let_def intro!: sbind_gone remove_gone)

lemma remove_legacy_gone:
  "lookup p fs = None \<Longrightarrow> lookup p (fst (remove_legacy paths (\<lambda>_. None) family es fs)) = None"
  by (induction es arbitrary: fs) (auto intro!: sbind_gone remove_gone)

lemma remove_families_gone:
  "lookup p fs = None \<Longrightarrow> lookup p (fst (remove_families paths (\<lambda>_. None) protected fams fs)) = None"
  by (induction fams arbitrary: fs)
     (auto simp: Let_def intro!: sbind_gone remove_generations_gone remove_legacy_gone)

lemma safe_remove_dir_removes:
  assumes "absolute_data_path paths q = q" "strictly_below q (runtimes paths)" "place q \<noteq> []"
  shows "safe_remove_dir paths (\<lambda>_. None) q fs = (fst (safe_remove_dir paths (\<lambda>_. None) q fs), Inr ())"
    and "lookup (place q) (fst (safe_remove_dir paths (\<lambda>_. None) q fs)) = None"
  using assms(2) by (simp_all add: safe_remove_dir_def assms(1) Let_def remove_dir_all_def lookup_set_at_self [OF assms(3)])

lemma remove_runtimes_removes:
  assumes "managed_root paths" "\<forall>r \<in> set rs. \<exists>x xs. absolute_data_path paths (rr_runtime_dir r) = runtimes paths @ map Normal (x # xs)"
    and "r \<in> set rs" "absolute_data_path paths (rr_runtime_dir r) \<notin> set protected"
  shows "lookup (place (absolute_data_path paths (rr_runtime_dir r))) (fst (remove_runtimes paths (\<lambda>_. None) protected rs fs)) = None"
  using assms(2,3)
proof (induction rs arbitrary: fs)
  case (Cons q rs)
  let ?q = "absolute_data_path paths (rr_runtime_dir q)"
  obtain x xs where x: "?q = runtimes paths @ map Normal (x # xs)" using Cons.prems(1) by auto
  have abs: "absolute_data_path paths ?q = ?q"
    using managed_paths(4) [OF assms(1), of "Normal ''runtimes'' # map Normal (x # xs)"] x by (simp add: managed_paths(2) [OF assms(1)])
  have "strictly_below ?q (runtimes paths)" "place ?q \<noteq> []" by (simp_all add: x strictly_below_def)
  note run = safe_remove_dir_removes(1) [OF abs this] and gone = safe_remove_dir_removes(2) [OF abs this]
  have prems: "\<forall>r \<in> set rs. \<exists>x xs. absolute_data_path paths (rr_runtime_dir r) = runtimes paths @ map Normal (x # xs)"
    using Cons.prems(1) by simp
  have tail: "fst (sbind m (\<lambda>fs removed. (fs, Inr (p # removed)))) = fst m" for m :: "node \<times> path list result" and p
    by (cases m; cases "snd m") (auto simp: sbind_def)
  show ?case
  proof (cases "?q \<in> set protected")
    case True
    with Cons.prems(2) assms(4) have "r \<in> set rs" by auto
    with True Cons.IH [OF prems] show ?thesis by (simp add: Let_def)
  next
    case False
    then have step: "fst (remove_runtimes paths (\<lambda>_. None) protected (q # rs) fs)
        = fst (remove_runtimes paths (\<lambda>_. None) protected rs (fst (safe_remove_dir paths (\<lambda>_. None) ?q fs)))"
      using run [of fs] tail by (simp add: Let_def) (metis sbind_simps(1))
    show ?thesis
    proof (cases "r \<in> set rs")
      case True
      with Cons.IH [OF prems] step show ?thesis by simp
    next
      case False
      with Cons.prems(2) have "r = q" by simp
      with remove_runtimes_gone [OF gone [of fs]] step show ?thesis by simp
    qed
  qed
qed simp

text \<open>
  A runtime in use below an older checkout is lost: when a runtime deployment in use lies below
  another listed runtime deployment that is not in use (a checkout made before deployments were
  qualified by their commit), the cleanup removes the older one with everything below it.
\<close>

theorem cleanup_removes_nested_runtime:
  assumes "managed_root paths" "wf_node fs"
    and "list_apps st = Inr as" "list_runtimes st = Inr rs" "read_run_records run_files = Inr runs"
    and "list_runtime_deployments paths fs = Inr ds" "\<not> marked (runtimes paths) fs"
    and "r \<in> set ds" "absolute_data_path paths (rr_runtime_dir r) \<notin> set (protected_dirs paths as rs runs)"
    and "p \<in> set (protected_dirs paths as rs runs)" "path_starts_with p (absolute_data_path paths (rr_runtime_dir r))"
  shows "lookup (place p) (fst (cleanup_retired_deployments paths (\<lambda>_. None) st run_files fs)) = None"
proof -
  let ?protected = "protected_dirs paths as rs runs" and ?q = "absolute_data_path paths (rr_runtime_dir r)"
  have below: "\<exists>x xs. absolute_data_path paths (rr_runtime_dir d) = runtimes paths @ map Normal (x # xs)" if m: "d \<in> set ds" for d
  proof -
    obtain n xs where n: "lookup (place (runtimes paths)) fs = Some n" "topmost xs n"
      "absolute_data_path paths (rr_runtime_dir d) = runtimes paths @ map Normal xs"
      using listed_deployment [OF assms(1,2,6) m] by metis
    have "xs \<noteq> []"
    proof
      assume "xs = []"
      with n(2) have "is_runtime n" by (simp add: topmost_def)
      then have "has_marker n"
        by (auto simp: is_runtime_def deployment_data_def has_marker_def split: option.splits node.splits sum.splits)
      with assms(7) n(1) show False by (simp add: marked_def)
    qed
    with n(3) show ?thesis by (metis list.exhaust)
  qed
  have "lookup (place ?q) (fst (remove_runtimes paths (\<lambda>_. None) ?protected ds fs)) = None"
    by (rule remove_runtimes_removes [OF assms(1) _ assms(8,9)]) (use below in blast)
  then have "lookup (place ?q) (fst (sbind (remove_runtimes paths (\<lambda>_. None) ?protected ds fs) (\<lambda>fs removed.
     sbind (remove_families paths (\<lambda>_. None) ?protected (listing (apps paths) fs) fs) (\<lambda>fs more. (fs, Inr (removed @ more)))))) = None"
    by (rule sbind_gone) (rule sbind_gone, erule remove_families_gone, simp)
  then have "lookup (place ?q) (fst (cleanup_retired_deployments paths (\<lambda>_. None) st run_files fs)) = None"
    by (simp add: cleanup_retired_deployments_def assms(3-6) Let_def)
  moreover obtain s where "p = ?q @ s" using assms(11) by (auto simp: starts_with_iff)
  ultimately show ?thesis by (simp add: lookup_append)
qed

definition nested_tree :: node where
  "nested_tree = Dir [(''h'', Dir [(''f'', Dir [(''runtimes'', Dir [(''R'', Dir [
     (COMMIT_MARKER, demo_marker ''runtime/org.P/x86_64/1''),
     (''c2'', Dir [(COMMIT_MARKER, demo_marker ''runtime/org.P/x86_64/1'')])])])])])]"

definition nested_record :: RuntimeRecord where
  "nested_record = \<lparr>rr_origin = ''flathub'', rr_runtime_ref = ''org.P/x86_64/1'', rr_runtime_commit = ''c2'', rr_installed_size = 1,
     rr_explicit = True, rr_runtime_dir = [Normal ''runtimes'', Normal ''R'', Normal ''c2'']\<rparr>"

definition nested_store :: record_store where
  "nested_store = \<lparr>app_files = [], runtime_files = [runtime_file nested_record]\<rparr>"

definition nested_dir :: path where
  "nested_dir = [RootDir, Normal ''h'', Normal ''f'', Normal ''runtimes'', Normal ''R'', Normal ''c2'']"

lemma nested_lists: "list_apps nested_store = Inr []" "list_runtimes nested_store = Inr [nested_record]"
proof -
  have "recordable_runtime nested_record"
    unfolding recordable_runtime_def record_path_def
  proof (intro conjI)
    show "rr_installed_size nested_record \<le> u64_max" by (simp add: nested_record_def)
  qed code_simp+
  then have "traverse (\<lambda>(n, data). read_runtime data) (map runtime_file [nested_record]) = Inr [nested_record]"
    by (intro traverse_runtime_files) simp
  then show "list_runtimes nested_store = Inr [nested_record]" by (simp add: list_runtimes_def nested_store_def)
  show "list_apps nested_store = Inr []" by (simp add: list_apps_def nested_store_def)
qed

lemma nested_deployments:
  "list_runtime_deployments demo_paths nested_tree = Inr [\<lparr>rr_origin = ''flathub'', rr_runtime_ref = ''org.P/x86_64/1'',
     rr_runtime_commit = ''c'', rr_installed_size = 1, rr_explicit = False, rr_runtime_dir = [Normal ''runtimes'', Normal ''R'']\<rparr>]"
proof -
  let ?R = "Dir [(COMMIT_MARKER, demo_marker ''runtime/org.P/x86_64/1''),
     (''c2'', Dir [(COMMIT_MARKER, demo_marker ''runtime/org.P/x86_64/1'')])]"
  have num: "parse_uint u64_max ''1'' = Some 1"
  proof -
    have "nat_digits 1 = ''1''" by code_simp
    then show ?thesis using parse_uint_nat_digits [of u64_max 1] by simp
  qed
  have l: "lines (concat (map (\<lambda>l. l @ [newline]) [''runtime/org.P/x86_64/1'', ''c'', ''1'', ''flathub'']))
      = [''runtime/org.P/x86_64/1'', ''c'', ''1'', ''flathub'']"
    by code_simp
  have d: "deployment_data ?R = Inr (Some \<lparr>dd_ref_name = ''runtime/org.P/x86_64/1'', dd_commit = ''c'', dd_installed_size = 1, dd_origin = ''flathub''\<rparr>)"
    by (simp only: deployment_data_def demo_marker_def lookup.simps map_of.simps fst_conv snd_conv fun_upd_same option.case node.case l list.case num ok_or_simps rbind_simps)
  have pfx: "strip_prefix ''runtime/org.P/x86_64/1'' ''runtime/'' = Some ''org.P/x86_64/1''"
    "relative_data_path demo_paths (runtimes demo_paths @ [Normal ''R'']) = Inr [Normal ''runtimes'', Normal ''R'']" by code_simp+
  have root: "lookup (place (runtimes demo_paths)) nested_tree = Some (Dir [(''R'', ?R)])"
    "deployment_data (Dir [(''R'', ?R)]) = Inr None" by code_simp+
  have "collect_runtime_deployments demo_paths (runtimes demo_paths) (Dir [(''R'', ?R)])
      = Inr [\<lparr>rr_origin = ''flathub'', rr_runtime_ref = ''org.P/x86_64/1'',
     rr_runtime_commit = ''c'', rr_installed_size = 1, rr_explicit = False, rr_runtime_dir = [Normal ''runtimes'', Normal ''R'']\<rparr>]"
    by (simp only: collect_runtime_deployments.simps collect_in_entries.simps runtime_deployment_from_path_def root(2) d
        rbind_simps option.case DeploymentData.simps pfx append.simps)
  then show ?thesis by (simp add: list_runtime_deployments_def root(1))
qed

theorem cleanup_removes_nested_runtime_witness:
  "lookup (place nested_dir) nested_tree \<noteq> None \<and> nested_dir \<in> set (protected_dirs demo_paths [] [nested_record] [])
   \<and> lookup (place nested_dir) (fst (cleanup_retired_deployments demo_paths (\<lambda>_. None) nested_store [] nested_tree)) = None"
proof -
  have runs: "read_run_records [] = Inr []" by (simp add: read_run_records_def read_sandbox_ownership_records_def)
  have wf: "wf_node nested_tree" by (simp add: nested_tree_def demo_marker_def COMMIT_MARKER_def)
  have um: "\<not> marked (runtimes demo_paths) nested_tree" by code_simp
  have prot: "nested_dir \<in> set (protected_dirs demo_paths [] [nested_record] [])" by code_simp
  have out: "absolute_data_path demo_paths [Normal ''runtimes'', Normal ''R''] \<notin> set (protected_dirs demo_paths [] [nested_record] [])"
    "path_starts_with nested_dir (absolute_data_path demo_paths [Normal ''runtimes'', Normal ''R''])" by code_simp+
  have "lookup (place nested_dir) nested_tree \<noteq> None" by code_simp
  then show ?thesis
    using cleanup_removes_nested_runtime [OF demo_managed wf nested_lists runs nested_deployments um _ _ prot] prot out
    by simp
qed

end
