(* ===== verification/Ref_Resolution.thy ===== *)
theory Ref_Resolution
  imports Flatpak_Metadata Records
begin

text \<open>
  Resolution of references in the configured remotes (\<^verbatim>\<open>src/src/remotes/ref_resolution.rs\<close>, the types of
  \<^verbatim>\<open>src/src/remotes/mod.rs\<close> and \<^verbatim>\<open>CommitInfo\<close> of \<^verbatim>\<open>src/src/ostree/mod.rs\<close>).

  What the network and OSTree answer (the summary of a remote, the AppStream replacements, the commit
  history) are fields of \<open>resolver\<close>; remotes and installed runtimes come from the stores of the other
  components. The theorems say which reference a request selects, that following replacements ends,
  and where a resolved application and its runtime come from.
\<close>

section \<open>Types\<close>

record RemoteRef =
  ref_name :: string
  ref_checksum :: string
  ref_metadata :: "string option"
  ref_download_size :: "nat option"
  ref_installed_size :: "nat option"

record RemoteRuntime =
  rt_origin :: string
  rt_runtime_id :: string
  rt_runtime_ref :: string
  rt_runtime_commit :: string
  rt_arch :: string
  rt_branch :: string

definition runtime_full_ref :: "RemoteRuntime \<Rightarrow> string" where
  "runtime_full_ref r = ''runtime/'' @ rt_runtime_id r @ ''/'' @ rt_arch r @ ''/'' @ rt_branch r"

record RemoteApp =
  ra_origin :: string
  ra_runtime_origin :: string
  ra_app_id :: string
  ra_app_ref :: string
  ra_app_commit :: string
  ra_arch :: string
  ra_branch :: string
  ra_runtime_ref :: string
  ra_runtime_commit :: string
  ra_sdk_ref :: "string option"
  ra_download_size :: "nat option"
  ra_installed_size :: "nat option"
  ra_command :: string

datatype ResolvedRemoteRef = ResolvedApp RemoteApp | ResolvedRuntime RemoteRuntime

record RemoteMetadata =
  rm_remote :: Remote
  rm_arch :: string
  rm_refs :: "RemoteRef list"
  rm_collection_id :: "string option"

record RemoteRefInfo =
  ri_remote :: string
  ri_ref_name :: string
  ri_arch :: string
  ri_branch :: string

record SearchResult =
  sr_remote :: string
  sr_app_id :: string
  sr_app_ref :: string
  sr_arch :: string
  sr_branch :: string

record CommitInfo =
  ci_checksum :: string
  ci_parent :: "string option"
  ci_timestamp :: nat
  ci_flatpak_metadata :: "string option"

text \<open>
  \<open>summary_of\<close> is \<^verbatim>\<open>load_arch_summary\<close> followed by \<^verbatim>\<open>parse_summary_refs\<close>: the architecture, the references and
  the collection of a remote. \<open>replacements_of\<close> is \<^verbatim>\<open>fetch_appstream_replacements\<close>, \<open>history_of\<close> is
  \<^verbatim>\<open>commit_history\<close>.
\<close>

record resolver =
  summary_of :: "Remote \<Rightarrow> (string \<times> RemoteRef list \<times> string option) result"
  replacements_of :: "Remote \<Rightarrow> string \<Rightarrow> (string \<Rightarrow> string list option) result"
  history_of :: "Remote \<Rightarrow> string \<Rightarrow> string \<Rightarrow> CommitInfo list result"

section \<open>References\<close>

record FlatpakRefParts =
  fp_kind :: string
  fp_name :: string
  fp_arch :: string
  fp_branch :: string

text \<open>\<^verbatim>\<open>splitn(4, '/')\<close>: the fourth part keeps the remaining slashes.\<close>

definition split_flatpak_ref :: "string \<Rightarrow> FlatpakRefParts result" where
  "split_flatpak_ref name =
     (case split_on slash name of
        [] \<Rightarrow> Inl (Bail ''missing ref kind'')
      | [_] \<Rightarrow> Inl (Bail ''missing ref name'')
      | [_, _] \<Rightarrow> Inl (Bail ''missing ref arch'')
      | [_, _, _] \<Rightarrow> Inl (Bail ''missing ref branch'')
      | kind # name # arch # rest \<Rightarrow>
          Inr \<lparr>fp_kind = kind, fp_name = name, fp_arch = arch, fp_branch = join_with ''/'' rest\<rparr>)"

definition app_ref_exists :: "RemoteRef list \<Rightarrow> string \<Rightarrow> string \<Rightarrow> bool" where
  "app_ref_exists refs app_id arch =
     list_ex (\<lambda>r. case split_flatpak_ref (ref_name r) of
        Inl _ \<Rightarrow> False
      | Inr parts \<Rightarrow> fp_kind parts = ''app'' \<and> fp_name parts = app_id \<and> fp_arch parts = arch) refs"

definition unwrap_or :: "'a option \<Rightarrow> 'a \<Rightarrow> 'a" where
  "unwrap_or x y = (case x of None \<Rightarrow> y | Some v \<Rightarrow> v)"

definition select_candidates :: "RemoteRef list \<Rightarrow> PartialRef \<Rightarrow> RefKind \<Rightarrow> string \<Rightarrow> (FlatpakRef \<times> RemoteRef) list" where
  "select_candidates refs partial kind arch =
     List.map_filter (\<lambda>candidate.
       case FlatpakRef_parse (ref_name candidate) of
         Inl _ \<Rightarrow> None
       | Inr parsed \<Rightarrow>
           if fr_kind parsed = kind \<and> fr_id parsed = pr_id partial \<and> fr_arch parsed = arch
              \<and> is_none_or (pr_branch partial) (\<lambda>branch. fr_branch parsed = branch)
           then Some (parsed, candidate) else None) refs"

definition select_ref :: "RemoteRef list \<Rightarrow> PartialRef \<Rightarrow> RefKind \<Rightarrow> string \<Rightarrow> RemoteRef result" where
  "select_ref refs partial kind default_arch =
     (let arch = unwrap_or (pr_arch partial) default_arch;
          candidates = sort_key (\<lambda>c. full_ref (fst c)) (select_candidates refs partial kind arch) in
      case (if pr_branch partial = None then find (\<lambda>c. fr_branch (fst c) = ''stable'') candidates else None) of
        Some (_, candidate) \<Rightarrow> Inr candidate
      | None \<Rightarrow>
          (case candidates of
             [] \<Rightarrow> Inl (Bail (''no remote '' @ as_str kind @ '' ref matches '' @ pr_id partial @ ''/'' @ arch @ ''/''
                     @ unwrap_or (pr_branch partial) ''*''))
           | [(_, candidate)] \<Rightarrow> Inr candidate
           | _ \<Rightarrow> Inl (Bail (''multiple remote refs match '' @ pr_id partial @ '': ''
                     @ join_with '', '' (map (\<lambda>c. full_ref (fst c)) candidates)))))"

section \<open>Commits\<close>

definition is_ascii_hexdigit :: "char \<Rightarrow> bool" where
  "is_ascii_hexdigit c \<longleftrightarrow> is_ascii_digit c
     \<or> (65 \<le> (of_char c :: nat) \<and> (of_char c :: nat) \<le> 70) \<or> (97 \<le> (of_char c :: nat) \<and> (of_char c :: nat) \<le> 102)"

definition to_ascii_lowercase :: "string \<Rightarrow> string" where
  "to_ascii_lowercase s =
     map (\<lambda>c. if 65 \<le> (of_char c :: nat) \<and> (of_char c :: nat) \<le> 90 then char_of ((of_char c :: nat) + 32) else c) s"

definition select_history_commit :: "CommitInfo list \<Rightarrow> string \<Rightarrow> CommitInfo result" where
  "select_history_commit history requested =
     (if requested = [] \<or> \<not> list_all is_ascii_hexdigit requested
      then Inl (Bail (''invalid OSTree commit: '' @ requested))
      else
        let wanted = to_ascii_lowercase requested in
        (case filter (\<lambda>c. starts_with (ci_checksum c) wanted) history of
           [] \<Rightarrow> Inl (Bail (''commit '' @ wanted @ '' is not in the history of this app ref''))
         | [c] \<Rightarrow> Inr c
         | _ \<Rightarrow> Inl (Bail (''commit prefix '' @ wanted @ '' is ambiguous''))))"

section \<open>Applications and runtimes\<close>

definition find_ref :: "RemoteRef list \<Rightarrow> string \<Rightarrow> RemoteRef option" where
  "find_ref refs name = find (\<lambda>r. ref_name r = name) refs"

text \<open>\<^verbatim>\<open>split_whitespace().count() != 1\<close>\<close>

fun words_from :: "bool \<Rightarrow> string \<Rightarrow> nat" where
  "words_from inside [] = 0"
| "words_from inside (c # cs) =
     (if is_whitespace c then words_from False cs
      else (if inside then 0 else 1) + words_from True cs)"

definition full_runtime_ref :: "string \<Rightarrow> string" where
  "full_runtime_ref runtime_ref = ''runtime/'' @ runtime_ref"

definition remote_app_from_metadata ::
  "RemoteRef \<Rightarrow> string \<Rightarrow> RemoteRef \<Rightarrow> string \<Rightarrow> string \<Rightarrow> string \<Rightarrow> RemoteApp result" where
  "remote_app_from_metadata app_ref metadata runtime arch origin runtime_origin =
     rbind (split_flatpak_ref (ref_name app_ref)) (\<lambda>parts.
     rbind (ok_or (Bail ''remote app metadata has no Application/name'') (metadata_value metadata ''Application'' ''name'')) (\<lambda>metadata_app_id.
     if metadata_app_id \<noteq> fp_name parts
     then Inl (Bail (''remote metadata app id mismatch: requested '' @ fp_name parts @ '', found '' @ metadata_app_id))
     else
       rbind (ok_or (Bail ''remote app metadata has no Application/runtime'') (metadata_value metadata ''Application'' ''runtime'')) (\<lambda>runtime_ref.
       let sdk_ref = metadata_value metadata ''Application'' ''sdk'' in
       rbind (ok_or (Bail ''remote app metadata has no Application/command'') (metadata_value metadata ''Application'' ''command'')) (\<lambda>command.
       if words_from False command \<noteq> 1
       then Inl (Bail (''entry command must be a single executable: '' @ command))
       else Inr \<lparr>ra_origin = origin, ra_runtime_origin = runtime_origin, ra_app_id = fp_name parts, ra_app_ref = ref_name app_ref,
                 ra_app_commit = ref_checksum app_ref, ra_arch = arch, ra_branch = fp_branch parts, ra_runtime_ref = runtime_ref,
                 ra_runtime_commit = ref_checksum runtime, ra_sdk_ref = sdk_ref, ra_download_size = ref_download_size app_ref,
                 ra_installed_size = ref_installed_size app_ref, ra_command = command\<rparr>))))"

definition remote_app_from_ref :: "RemoteRef list \<Rightarrow> RemoteRef \<Rightarrow> string \<Rightarrow> string \<Rightarrow> RemoteApp result" where
  "remote_app_from_ref refs app_ref arch origin =
     rbind (ok_or (Bail (''remote summary has no Flatpak metadata for '' @ ref_name app_ref)) (ref_metadata app_ref)) (\<lambda>metadata.
     rbind (ok_or (Bail ''remote app metadata has no Application/runtime'') (metadata_value metadata ''Application'' ''runtime'')) (\<lambda>runtime_ref.
     rbind (ok_or (Bail (''required runtime ref not found in remote summary: '' @ full_runtime_ref runtime_ref))
       (find_ref refs (full_runtime_ref runtime_ref))) (\<lambda>runtime.
     remote_app_from_metadata app_ref metadata runtime arch origin origin)))"

definition remote_runtime_from_ref :: "RemoteRef \<Rightarrow> string \<Rightarrow> RemoteRuntime result" where
  "remote_runtime_from_ref r origin =
     rbind (FlatpakRef_parse (ref_name r)) (\<lambda>parsed.
     if fr_kind parsed \<noteq> Runtime then Inl (Bail (ref_name r @ '' is not a runtime ref''))
     else Inr \<lparr>rt_origin = origin, rt_runtime_id = fr_id parsed, rt_runtime_ref = partial_ref parsed,
               rt_runtime_commit = ref_checksum r, rt_arch = fr_arch parsed, rt_branch = fr_branch parsed\<rparr>)"

section \<open>Replacements\<close>

text \<open>
  The loop of \<^verbatim>\<open>resolve_current_app_id_from_replacements\<close>: each turn adds the current id to the seen ones,
  and an id that follows has a reference in the summary.
\<close>

definition available_replacements :: "RemoteRef list \<Rightarrow> (string \<Rightarrow> string list option) \<Rightarrow> string \<Rightarrow> string \<Rightarrow> string list" where
  "available_replacements refs replacements arch current =
     (case replacements current of
        None \<Rightarrow> []
      | Some candidates \<Rightarrow> sort_dedup (filter (\<lambda>c. app_ref_exists refs c arch) candidates))"

definition named_apps :: "RemoteRef list \<Rightarrow> string set" where
  "named_apps refs = (\<lambda>r. case split_flatpak_ref (ref_name r) of Inl _ \<Rightarrow> [] | Inr parts \<Rightarrow> fp_name parts) ` set refs"

lemma app_ref_exists_named: "app_ref_exists refs app_id arch \<Longrightarrow> app_id \<in> named_apps refs"
  by (force simp: app_ref_exists_def named_apps_def list_ex_iff split: sum.splits)

lemma available_named:
  assumes "available_replacements refs replacements arch current = [next]"
  shows "next \<in> named_apps refs"
proof -
  have "next \<in> set (available_replacements refs replacements arch current)" using assms by simp
  then show ?thesis
    by (auto simp: available_replacements_def app_ref_exists_named split: option.splits)
qed

function replacement_loop ::
  "RemoteRef list \<Rightarrow> (string \<Rightarrow> string list option) \<Rightarrow> string \<Rightarrow> string \<Rightarrow> string list \<Rightarrow> string \<Rightarrow> string result" where
  "replacement_loop refs replacements arch requested seen current =
     (if current \<in> set seen then Inl (Bail (''cycle in replacement metadata for app id '' @ requested))
      else
        (case available_replacements refs replacements arch current of
           [] \<Rightarrow> Inr current
         | [next] \<Rightarrow> replacement_loop refs replacements arch requested (current # seen) next
         | many \<Rightarrow> Inl (Bail (''multiple replacements found for '' @ current @ '' on '' @ arch @ '': '' @ join_with '', '' many))))"
  by pat_completeness auto

termination
proof (relation "measure (\<lambda>(refs, replacements, arch, requested, seen, current). card (insert current (named_apps refs) - set seen))")
  fix refs :: "RemoteRef list" and replacements :: "string \<Rightarrow> string list option"
  fix arch requested :: string and seen :: "string list" and current "next" :: string and ys
  assume a: "current \<notin> set seen" "available_replacements refs replacements arch current = next # ys" "ys = []"
  have fin: "finite (named_apps refs)" by (simp add: named_apps_def)
  have "next \<in> named_apps refs" using available_named a by simp
  then have "insert next (named_apps refs) - set (current # seen) \<subseteq> insert current (named_apps refs) - set seen - {current}" by auto
  moreover have "current \<in> insert current (named_apps refs) - set seen" using a(1) by simp
  ultimately have "card (insert next (named_apps refs) - set (current # seen)) < card (insert current (named_apps refs) - set seen)"
    using fin by (metis (no_types, lifting) card_Diff1_less card_mono finite_Diff finite_insert order_le_less_trans)
  then show "((refs, replacements, arch, requested, current # seen, next), refs, replacements, arch, requested, seen, current)
      \<in> measure (\<lambda>(refs, replacements, arch, requested, seen, current). card (insert current (named_apps refs) - set seen))"
    by simp
qed simp

definition resolve_current_app_id_from_replacements ::
  "RemoteRef list \<Rightarrow> (string \<Rightarrow> string list option) \<Rightarrow> string \<Rightarrow> string \<Rightarrow> string result" where
  "resolve_current_app_id_from_replacements refs replacements requested arch =
     replacement_loop refs replacements arch requested [] requested"

definition resolve_current_app_id :: "resolver \<Rightarrow> RemoteRef list \<Rightarrow> string \<Rightarrow> string \<Rightarrow> Remote \<Rightarrow> string result" where
  "resolve_current_app_id net refs requested arch remote =
     rbind (replacements_of net remote arch) (\<lambda>replacements.
     resolve_current_app_id_from_replacements refs replacements requested arch)"

section \<open>Resolution in one remote\<close>

definition resolve_app_ref :: "resolver \<Rightarrow> RemoteMetadata \<Rightarrow> string \<Rightarrow> bool \<Rightarrow> RemoteRef result" where
  "resolve_app_ref net m requested replacements =
     rbind (PartialRef_parse requested) (\<lambda>partial.
     rbind (effective_kind partial (Some App)) (\<lambda>_.
     let arch = unwrap_or (pr_arch partial) (rm_arch m) in
     rbind (if replacements \<and> \<not> app_ref_exists (rm_refs m) (pr_id partial) arch
            then rbind (resolve_current_app_id net (rm_refs m) (pr_id partial) arch (rm_remote m)) (\<lambda>app_id.
                 Inr (partial\<lparr>pr_id := app_id\<rparr>))
            else Inr partial) (\<lambda>partial.
     select_ref (rm_refs m) partial App (rm_arch m))))"

definition resolve_runtime :: "RemoteMetadata \<Rightarrow> string \<Rightarrow> RemoteRuntime result" where
  "resolve_runtime m requested =
     rbind (PartialRef_parse requested) (\<lambda>partial.
     rbind (effective_kind partial (Some Runtime)) (\<lambda>_.
     rbind (select_ref (rm_refs m) partial Runtime (rm_arch m)) (\<lambda>r.
     remote_runtime_from_ref r (r_name (rm_remote m)))))"

definition resolve_exact_runtime :: "RemoteMetadata \<Rightarrow> string \<Rightarrow> RemoteRuntime result" where
  "resolve_exact_runtime m runtime_ref =
     rbind (ok_or (Bail (''runtime ref is no longer present in '' @ r_name (rm_remote m) @ '': '' @ runtime_ref))
       (find_ref (rm_refs m) runtime_ref)) (\<lambda>r.
     remote_runtime_from_ref r (r_name (rm_remote m)))"

definition resolve_exact_ref :: "RemoteMetadata \<Rightarrow> string \<Rightarrow> RemoteApp result" where
  "resolve_exact_ref m app_ref =
     rbind (ok_or (Bail (''app ref is no longer present in '' @ r_name (rm_remote m) @ '': '' @ app_ref))
       (find_ref (rm_refs m) app_ref)) (\<lambda>r.
     remote_app_from_ref (rm_refs m) r (rm_arch m) (r_name (rm_remote m)))"

definition ref_checksum_of :: "RemoteMetadata \<Rightarrow> string \<Rightarrow> string option" where
  "ref_checksum_of m name = map_option ref_checksum (find_ref (rm_refs m) name)"

definition list_refs :: "RemoteMetadata \<Rightarrow> RemoteRefInfo list" where
  "list_refs m =
     sort_key ri_ref_name (List.map_filter (\<lambda>r.
       case split_flatpak_ref (ref_name r) of
         Inl _ \<Rightarrow> None
       | Inr parts \<Rightarrow>
           if fp_arch parts = rm_arch m
           then Some \<lparr>ri_remote = r_name (rm_remote m), ri_ref_name = ref_name r, ri_arch = fp_arch parts, ri_branch = fp_branch parts\<rparr>
           else None) (rm_refs m))"

section \<open>Resolution across remotes\<close>

definition load_remote_metadata_for :: "resolver \<Rightarrow> Remote \<Rightarrow> RemoteMetadata result" where
  "load_remote_metadata_for net remote =
     rbind (summary_of net remote) (\<lambda>(arch, refs, collection).
     Inr \<lparr>rm_remote = remote, rm_arch = arch, rm_refs = refs, rm_collection_id = collection\<rparr>)"

definition load_remote_metadata :: "resolver \<Rightarrow> 'o remote_store \<Rightarrow> string \<Rightarrow> RemoteMetadata result" where
  "load_remote_metadata net remotes name =
     rbind (get_remote remotes name) (\<lambda>remote.
     if \<not> r_enabled remote then Inl (Bail (''remote is disabled: '' @ name))
     else load_remote_metadata_for net remote)"

fun find_runtime_in_remotes :: "resolver \<Rightarrow> string \<Rightarrow> string \<Rightarrow> Remote list \<Rightarrow> (string \<times> RemoteRef) option" where
  "find_runtime_in_remotes net skip name [] = None"
| "find_runtime_in_remotes net skip name (remote # rest) =
     (if r_name remote = skip then find_runtime_in_remotes net skip name rest
      else
        (case load_remote_metadata_for net remote of
           Inl _ \<Rightarrow> find_runtime_in_remotes net skip name rest
         | Inr candidate \<Rightarrow>
             (case find_ref (rm_refs candidate) name of
                None \<Rightarrow> find_runtime_in_remotes net skip name rest
              | Some runtime \<Rightarrow> Some (r_name remote, runtime))))"

definition installed_runtime_ref :: "resolver \<Rightarrow> 'o remote_store \<Rightarrow> RemoteMetadata \<Rightarrow> RuntimeRecord \<Rightarrow> string \<Rightarrow> RemoteRef" where
  "installed_runtime_ref net remotes m installed name =
     unwrap_or
       (if rr_origin installed = r_name (rm_remote m) then find_ref (rm_refs m) name
        else
          (case load_remote_metadata net remotes (rr_origin installed) of
             Inl _ \<Rightarrow> None
           | Inr other \<Rightarrow> find_ref (rm_refs other) name))
       \<lparr>ref_name = name, ref_checksum = rr_runtime_commit installed, ref_metadata = None, ref_download_size = None,
        ref_installed_size = Some (rr_installed_size installed)\<rparr>"

definition resolve_ref_with_runtime_fallback ::
  "resolver \<Rightarrow> 'o remote_store \<Rightarrow> record_store \<Rightarrow> RemoteMetadata \<Rightarrow> RemoteRef \<Rightarrow> RemoteApp result" where
  "resolve_ref_with_runtime_fallback net remotes records m app_ref =
     rbind (ok_or (Bail (r_name (rm_remote m) @ '' summary has no Flatpak metadata for '' @ ref_name app_ref)) (ref_metadata app_ref)) (\<lambda>metadata.
     rbind (ok_or (Bail ''remote app metadata has no Application/runtime'') (metadata_value metadata ''Application'' ''runtime'')) (\<lambda>runtime_ref.
     let full = full_runtime_ref runtime_ref in
     rbind (get_runtime records runtime_ref) (\<lambda>found.
     case found of
       Some installed \<Rightarrow>
         remote_app_from_metadata app_ref metadata (installed_runtime_ref net remotes m installed full) (rm_arch m)
           (r_name (rm_remote m)) (rr_origin installed)
     | None \<Rightarrow>
         (case find_ref (rm_refs m) full of
            Some runtime \<Rightarrow>
              remote_app_from_metadata app_ref metadata runtime (rm_arch m) (r_name (rm_remote m)) (r_name (rm_remote m))
          | None \<Rightarrow>
              rbind (enabled_remotes remotes) (\<lambda>others.
              case find_runtime_in_remotes net (r_name (rm_remote m)) full others of
                Some (origin, runtime) \<Rightarrow>
                  remote_app_from_metadata app_ref metadata runtime (rm_arch m) (r_name (rm_remote m)) origin
              | None \<Rightarrow> Inl (Bail (''required runtime ref not found in an enabled remote: '' @ full)))))))"

definition resolve_app_with_runtime_fallback ::
  "resolver \<Rightarrow> 'o remote_store \<Rightarrow> record_store \<Rightarrow> RemoteMetadata \<Rightarrow> string \<Rightarrow> RemoteApp result" where
  "resolve_app_with_runtime_fallback net remotes records m app_id =
     rbind (resolve_app_ref net m app_id True) (resolve_ref_with_runtime_fallback net remotes records m)"

definition resolve_exact_ref_with_runtime ::
  "resolver \<Rightarrow> 'o remote_store \<Rightarrow> record_store \<Rightarrow> RemoteMetadata \<Rightarrow> string \<Rightarrow> RemoteApp result" where
  "resolve_exact_ref_with_runtime net remotes records m app_ref =
     rbind (ok_or (Bail (''app ref is no longer present in '' @ r_name (rm_remote m) @ '': '' @ app_ref))
       (find_ref (rm_refs m) app_ref)) (resolve_ref_with_runtime_fallback net remotes records m)"

definition app_commit :: "resolver \<Rightarrow> 'o remote_store \<Rightarrow> record_store \<Rightarrow> RemoteMetadata \<Rightarrow> string \<Rightarrow> string \<Rightarrow> (RemoteApp \<times> CommitInfo) result" where
  "app_commit net remotes records m app_ref requested =
     rbind (resolve_exact_ref m app_ref) (\<lambda>tip.
     rbind (history_of net (rm_remote m) app_ref (ra_app_commit tip)) (\<lambda>history.
     rbind (select_history_commit history requested) (\<lambda>commit.
     rbind (ok_or (Bail (''historical commit '' @ ci_checksum commit @ '' has no Flatpak metadata'')) (ci_flatpak_metadata commit)) (\<lambda>metadata.
     rbind (resolve_ref_with_runtime_fallback net remotes records m
       \<lparr>ref_name = app_ref, ref_checksum = ci_checksum commit, ref_metadata = Some metadata, ref_download_size = None,
        ref_installed_size = None\<rparr>) (\<lambda>app. Inr (app, commit))))))"

definition resolve_runtime_commit :: "resolver \<Rightarrow> RemoteMetadata \<Rightarrow> string \<Rightarrow> string \<Rightarrow> RemoteRuntime result" where
  "resolve_runtime_commit net m runtime_ref requested =
     rbind (resolve_exact_runtime m runtime_ref) (\<lambda>tip.
     rbind (history_of net (rm_remote m) runtime_ref (rt_runtime_commit tip)) (\<lambda>history.
     rbind (select_history_commit history requested) (\<lambda>commit.
     remote_runtime_from_ref
       \<lparr>ref_name = runtime_ref, ref_checksum = ci_checksum commit, ref_metadata = ci_flatpak_metadata commit,
        ref_download_size = None, ref_installed_size = None\<rparr> (r_name (rm_remote m)))))"

definition candidate_remotes :: "'o remote_store \<Rightarrow> string option \<Rightarrow> Remote list result" where
  "candidate_remotes remotes remote_name =
     rbind
       (case remote_name of
          Some name \<Rightarrow>
            rbind (get_remote remotes name) (\<lambda>remote.
            if \<not> r_enabled remote then Inl (Bail (''remote is disabled: '' @ name)) else Inr [remote])
        | None \<Rightarrow>
            rbind (enabled_remotes remotes) (\<lambda>rs.
            Inr (sort_key (\<lambda>r. (r_name r \<noteq> DEFAULT_REMOTE, r_name r)) rs)))
       (\<lambda>candidates.
     if candidates = [] then Inl (Bail ''no enabled remotes are configured'') else Inr candidates)"

definition failure_text :: "Remote \<Rightarrow> error \<Rightarrow> string" where
  "failure_text remote e = r_name remote @ '': '' @ display_error e"

text \<open>The first remote that resolves the request; the failures of the others are joined in the message.\<close>

fun first_resolved :: "(Remote \<Rightarrow> 'a result) \<Rightarrow> Remote list \<Rightarrow> string list \<Rightarrow> string list + 'a" where
  "first_resolved f [] failures = Inl failures"
| "first_resolved f (remote # rest) failures =
     (case f remote of
        Inr x \<Rightarrow> Inr x
      | Inl e \<Rightarrow> first_resolved f rest (failures @ [failure_text remote e]))"

definition resolve_in_remotes :: "(Remote \<Rightarrow> 'a result) \<Rightarrow> string \<Rightarrow> Remote list \<Rightarrow> 'a result" where
  "resolve_in_remotes f requested candidates =
     (case first_resolved f candidates [] of
        Inr x \<Rightarrow> Inr x
      | Inl failures \<Rightarrow> Inl (Bail (''ref '' @ requested @ '' was not found in an enabled remote ('' @ join_with ''; '' failures @ '')'')))"

definition resolve_remote_app :: "resolver \<Rightarrow> 'o remote_store \<Rightarrow> record_store \<Rightarrow> string option \<Rightarrow> string \<Rightarrow> RemoteApp result" where
  "resolve_remote_app net remotes records remote_name app_id =
     rbind (candidate_remotes remotes remote_name) (\<lambda>candidates.
     resolve_in_remotes (\<lambda>remote.
       rbind (load_remote_metadata_for net remote) (\<lambda>m. resolve_app_with_runtime_fallback net remotes records m app_id))
       app_id candidates)"

text \<open>
  The outcome of \<^verbatim>\<open>resolve_remote_ref\<close> in one remote. Without a kind a request that names both an
  application and a runtime, or neither, leaves the whole function at once (\<^verbatim>\<open>bail!\<close> inside the loop):
  such an answer stops the search.
\<close>

datatype 'a verdict = Resolved 'a | Failed error | Stop error

definition resolve_kind_in ::
  "resolver \<Rightarrow> 'o remote_store \<Rightarrow> record_store \<Rightarrow> RefKind option \<Rightarrow> string \<Rightarrow> RemoteMetadata \<Rightarrow> ResolvedRemoteRef verdict" where
  "resolve_kind_in net remotes records kind requested m =
     (let app = resolve_app_with_runtime_fallback net remotes records m requested;
          runtime = resolve_runtime m requested in
      case kind of
        Some App \<Rightarrow> (case app of Inr a \<Rightarrow> Resolved (ResolvedApp a) | Inl e \<Rightarrow> Failed e)
      | Some Runtime \<Rightarrow> (case runtime of Inr r \<Rightarrow> Resolved (ResolvedRuntime r) | Inl e \<Rightarrow> Failed e)
      | None \<Rightarrow>
          (case (app, runtime) of
             (Inr a, Inl _) \<Rightarrow> Resolved (ResolvedApp a)
           | (Inl _, Inr r) \<Rightarrow> Resolved (ResolvedRuntime r)
           | (Inr _, Inr _) \<Rightarrow> Stop (Bail (requested @ '' matches both an application and a runtime; use --app or --runtime''))
           | (Inl a, Inl r) \<Rightarrow> Stop (Bail (''application: '' @ display_error a @ ''; runtime: '' @ display_error r))))"

fun resolve_ref_loop ::
  "resolver \<Rightarrow> 'o remote_store \<Rightarrow> record_store \<Rightarrow> RefKind option \<Rightarrow> string \<Rightarrow> Remote list \<Rightarrow> string list \<Rightarrow> ResolvedRemoteRef result" where
  "resolve_ref_loop net remotes records kind requested [] failures =
     Inl (Bail (''ref '' @ requested @ '' was not found in an enabled remote ('' @ join_with ''; '' failures @ '')''))"
| "resolve_ref_loop net remotes records kind requested (remote # rest) failures =
     (case load_remote_metadata_for net remote of
        Inl e \<Rightarrow> resolve_ref_loop net remotes records kind requested rest (failures @ [failure_text remote e])
      | Inr m \<Rightarrow>
          (case resolve_kind_in net remotes records kind requested m of
             Resolved x \<Rightarrow> Inr x
           | Failed e \<Rightarrow> resolve_ref_loop net remotes records kind requested rest (failures @ [failure_text remote e])
           | Stop e \<Rightarrow> Inl e))"

definition resolve_remote_ref ::
  "resolver \<Rightarrow> 'o remote_store \<Rightarrow> record_store \<Rightarrow> string option \<Rightarrow> string \<Rightarrow> RefKind option \<Rightarrow> ResolvedRemoteRef result" where
  "resolve_remote_ref net remotes records remote_name requested kind =
     rbind (PartialRef_parse requested) (\<lambda>partial.
     rbind (effective_kind partial kind) (\<lambda>requested_kind.
     rbind (candidate_remotes remotes remote_name) (\<lambda>candidates.
     resolve_ref_loop net remotes records requested_kind requested candidates [])))"

section \<open>Search\<close>

fun contains_sub :: "'a list \<Rightarrow> 'a list \<Rightarrow> bool" where
  "contains_sub [] sub = (sub = [])"
| "contains_sub (x # xs) sub = (starts_with (x # xs) sub \<or> contains_sub xs sub)"

definition search_remote :: "string \<Rightarrow> string \<Rightarrow> RemoteMetadata \<Rightarrow> SearchResult list" where
  "search_remote query name m =
     List.map_filter (\<lambda>r.
       case split_flatpak_ref (ref_name r) of
         Inl _ \<Rightarrow> None
       | Inr parts \<Rightarrow>
           if fp_kind parts \<noteq> ''app'' \<or> fp_arch parts \<noteq> rm_arch m then None
           else if \<not> contains_sub (to_ascii_lowercase (fp_name parts)) query then None
           else Some \<lparr>sr_remote = name, sr_app_id = fp_name parts, sr_app_ref = ref_name r, sr_arch = fp_arch parts,
                      sr_branch = fp_branch parts\<rparr>) (rm_refs m)"

definition search_apps :: "resolver \<Rightarrow> 'o remote_store \<Rightarrow> string \<Rightarrow> SearchResult list result" where
  "search_apps net remotes query =
     rbind (enabled_remotes remotes) (\<lambda>configured.
     if configured = [] then Inl (Bail ''no enabled remotes are configured'')
     else
       let loaded = List.map_filter (\<lambda>r. case load_remote_metadata_for net r of Inl _ \<Rightarrow> None | Inr m \<Rightarrow> Some (r_name r, m)) configured;
           failures = List.map_filter (\<lambda>r. case load_remote_metadata_for net r of Inl e \<Rightarrow> Some (failure_text r e) | Inr _ \<Rightarrow> None) configured in
       if loaded = [] \<and> failures \<noteq> []
       then Inl (Bail (''failed to load configured remotes: '' @ join_with ''; '' failures))
       else Inr (sort_key (\<lambda>s. (sr_app_id s, sr_branch s, sr_remote s))
              (concat (map (\<lambda>(name, m). search_remote (to_ascii_lowercase query) name m) loaded))))"


section \<open>Selection against a reference definition\<close>

definition ref_matches :: "PartialRef \<Rightarrow> RefKind \<Rightarrow> string \<Rightarrow> RemoteRef \<Rightarrow> bool" where
  "ref_matches partial kind arch r =
     (case FlatpakRef_parse (ref_name r) of
        Inl _ \<Rightarrow> False
      | Inr p \<Rightarrow> fr_kind p = kind \<and> matches (partial\<lparr>pr_kind := None, pr_arch := Some arch\<rparr>) p)"

definition stable_ref :: "RemoteRef \<Rightarrow> bool" where
  "stable_ref r = (case FlatpakRef_parse (ref_name r) of Inl _ \<Rightarrow> False | Inr p \<Rightarrow> fr_branch p = ''stable'')"

text \<open>
  What a request means, without sorting: the stable reference when no branch is named and there is one,
  otherwise the only match.
\<close>

definition select_spec :: "RemoteRef list \<Rightarrow> PartialRef \<Rightarrow> RefKind \<Rightarrow> string \<Rightarrow> RemoteRef option" where
  "select_spec refs partial kind default_arch =
     (let found = filter (ref_matches partial kind (unwrap_or (pr_arch partial) default_arch)) refs;
          stable = filter stable_ref found in
      if pr_branch partial = None \<and> stable \<noteq> [] then Some (hd stable)
      else (case found of [r] \<Rightarrow> Some r | _ \<Rightarrow> None))"

definition to_option :: "'a result \<Rightarrow> 'a option" where
  "to_option x = (case x of Inl _ \<Rightarrow> None | Inr y \<Rightarrow> Some y)"

lemma to_option_simps [simp]: "to_option (Inl e) = None" "to_option (Inr y) = Some y"
  by (simp_all add: to_option_def)

lemma filter_sort_key:
  assumes "\<forall>x\<in>set xs. P x \<longrightarrow> f x = k"
  shows "filter P (sort_key f xs) = filter P xs"
proof -
  have eq: "filter P ys = filter P (filter (\<lambda>x. f x = k) ys)" if "set ys = set xs" for ys
    unfolding filter_filter using assms that by (intro filter_cong) auto
  have "filter P (sort_key f xs) = filter P (filter (\<lambda>x. f x = k) (sort_key f xs))"
    by (rule eq) simp
  also have "\<dots> = filter P (filter (\<lambda>x. f x = k) xs)" by (simp add: sort_key_stable)
  also have "\<dots> = filter P xs" by (rule eq [symmetric]) simp
  finally show ?thesis .
qed

lemma find_filter: "find P xs = (case filter P xs of [] \<Rightarrow> None | x # _ \<Rightarrow> Some x)"
  by (induction xs) auto

lemma map_snd_select_candidates:
  "map snd (select_candidates refs partial kind arch) = filter (ref_matches partial kind arch) refs"
  by (induction refs)
    (auto simp: select_candidates_def map_filter_simps ref_matches_def matches_def is_none_or_def
      split: sum.splits option.splits)

lemma select_candidates_parsed:
  assumes "(p, r) \<in> set (select_candidates refs partial kind arch)"
  shows "FlatpakRef_parse (ref_name r) = Inr p" and "fr_kind p = kind" and "fr_id p = pr_id partial"
    and "fr_arch p = arch"
  using assms by (auto simp: select_candidates_def map_filter_def split: sum.splits if_splits)

lemma select_candidates_stable:
  "map snd (filter (\<lambda>c. fr_branch (fst c) = ''stable'') (select_candidates refs partial kind arch))
     = filter stable_ref (filter (ref_matches partial kind arch) refs)"
proof -
  have "filter (\<lambda>c. fr_branch (fst c) = ''stable'') (select_candidates refs partial kind arch)
      = filter (stable_ref \<circ> snd) (select_candidates refs partial kind arch)"
    by (intro filter_cong refl) (auto simp: stable_ref_def dest: select_candidates_parsed(1))
  then show ?thesis by (simp add: filter_map [symmetric] map_snd_select_candidates)
qed

lemma select_candidates_stable_key:
  "\<forall>c\<in>set (select_candidates refs partial kind arch). fr_branch (fst c) = ''stable'' \<longrightarrow>
     full_ref (fst c) = full_ref \<lparr>fr_kind = kind, fr_id = pr_id partial, fr_arch = arch, fr_branch = ''stable''\<rparr>"
proof clarify
  fix p r
  assume "(p, r) \<in> set (select_candidates refs partial kind arch)" "fr_branch (fst (p, r)) = ''stable''"
  with select_candidates_parsed [of p r refs partial kind arch]
  show "full_ref (fst (p, r)) = full_ref \<lparr>fr_kind = kind, fr_id = pr_id partial, fr_arch = arch, fr_branch = ''stable''\<rparr>"
    by (simp add: full_ref_def)
qed

lemma sort_key_singleton: "sort_key f xs = [x] \<longleftrightarrow> xs = [x]"
proof
  assume a: "sort_key f xs = [x]"
  then have "length xs = 1" by (metis length_sort length_Cons list.size(3) One_nat_def)
  then obtain y where "xs = [y]" by (cases xs) auto
  with a show "xs = [x]" by simp
qed simp

lemma select_ref_spec: "to_option (select_ref refs partial kind default_arch) = select_spec refs partial kind default_arch"
proof -
  define arch where "arch = unwrap_or (pr_arch partial) default_arch"
  define cs where "cs = select_candidates refs partial kind arch"
  define ss where "ss = sort_key (\<lambda>c. full_ref (fst c)) cs"
  define stable where "stable = (\<lambda>c :: FlatpakRef \<times> RemoteRef. fr_branch (fst c) = ''stable'')"
  have snd_cs: "map snd cs = filter (ref_matches partial kind arch) refs"
    by (simp add: cs_def map_snd_select_candidates)
  have stable_ss: "filter stable ss = filter stable cs"
    unfolding ss_def stable_def
    by (rule filter_sort_key [where k = "full_ref \<lparr>fr_kind = kind, fr_id = pr_id partial, fr_arch = arch, fr_branch = ''stable''\<rparr>"])
      (use select_candidates_stable_key in \<open>auto simp: cs_def\<close>)
  have snd_stable: "filter stable_ref (filter (ref_matches partial kind arch) refs) = map snd (filter stable cs)"
    by (simp add: cs_def stable_def select_candidates_stable)
  have only: "(case ss of [] \<Rightarrow> None | [(_, r)] \<Rightarrow> Some r | _ \<Rightarrow> None) = (case map snd cs of [r] \<Rightarrow> Some r | _ \<Rightarrow> None)"
  proof (cases "\<exists>c. cs = [c]")
    case True
    then show ?thesis by (auto simp: ss_def)
  next
    case False
    then have "\<nexists>c. ss = [c]" by (simp add: ss_def sort_key_singleton)
    moreover have "\<nexists>r. map snd cs = [r]" using False by (auto simp: map_eq_Cons_conv)
    ultimately show ?thesis by (auto split: list.splits)
  qed
  have code: "to_option (select_ref refs partial kind default_arch)
      = (case (if pr_branch partial = None then find stable ss else None) of
           Some (_, r) \<Rightarrow> Some r
         | None \<Rightarrow> (case ss of [] \<Rightarrow> None | [(_, r)] \<Rightarrow> Some r | _ \<Rightarrow> None))"
    by (simp add: select_ref_def Let_def arch_def [symmetric] cs_def [symmetric] ss_def [symmetric]
        stable_def [symmetric] split: option.splits list.splits)
  have spec: "select_spec refs partial kind default_arch
      = (if pr_branch partial = None \<and> filter stable cs \<noteq> [] then Some (snd (hd (filter stable cs)))
         else (case map snd cs of [r] \<Rightarrow> Some r | _ \<Rightarrow> None))"
    unfolding select_spec_def Let_def arch_def [symmetric] snd_stable unfolding snd_cs [symmetric]
    by (auto simp: hd_map)
  show ?thesis
    unfolding code spec only find_filter stable_ss by (cases "filter stable cs") auto
qed

text \<open>
  C31. Selecting a reference in a summary is equivalent to its reference definition: the sorting, which
  serves the message of an ambiguous request, never changes the answer. With no branch the first stable
  match wins, otherwise the only match; no match and several matches are errors.
\<close>

theorem select_ref_equiv: "to_option (select_ref refs partial kind default_arch) = select_spec refs partial kind default_arch"
  by (rule select_ref_spec)

section \<open>Following replacements\<close>

definition replaced_by :: "RemoteRef list \<Rightarrow> (string \<Rightarrow> string list option) \<Rightarrow> string \<Rightarrow> (string \<times> string) set" where
  "replaced_by refs replacements arch = {(a, b). available_replacements refs replacements arch a = [b]}"

lemma replaced_by_det: "(a, b) \<in> replaced_by refs replacements arch \<Longrightarrow> (a, c) \<in> replaced_by refs replacements arch \<Longrightarrow> b = c"
  by (simp add: replaced_by_def)

lemma deterministic_cycle:
  assumes det: "\<And>a b c. (a, b) \<in> R \<Longrightarrow> (a, c) \<in> R \<Longrightarrow> b = c"
    and "(x, y) \<in> R\<^sup>*" and "(x, x) \<in> R\<^sup>+"
  shows "(y, y) \<in> R\<^sup>+"
  using assms(2,3)
proof induction
  case (step y z)
  then have "(y, y) \<in> R\<^sup>+" by simp
  then obtain w where w: "(y, w) \<in> R" "(w, y) \<in> R\<^sup>*" by (meson tranclD)
  then have "w = z" using det step.hyps(2) by blast
  with w step.hyps(2) show ?case by (metis rtrancl_into_trancl1)
qed

lemma deterministic_final:
  assumes "\<And>a b c. (a, b) \<in> R \<Longrightarrow> (a, c) \<in> R \<Longrightarrow> b = c"
    and "(x, y) \<in> R\<^sup>*" and "\<forall>z. (y, z) \<notin> R" and "(x, w) \<in> R"
  shows "(w, y) \<in> R\<^sup>*"
  using assms by (metis converse_rtranclE)

lemma available_final: "available_replacements refs replacements arch y = [] \<Longrightarrow> (y, z) \<notin> replaced_by refs replacements arch"
  by (simp add: replaced_by_def)

lemma replacement_loop_iff:
  assumes "\<forall>s\<in>set seen. (s, current) \<in> (replaced_by refs replacements arch)\<^sup>+"
  shows "replacement_loop refs replacements arch requested seen current = Inr y \<longleftrightarrow>
     (current, y) \<in> (replaced_by refs replacements arch)\<^sup>* \<and> available_replacements refs replacements arch y = []"
    (is "_ \<longleftrightarrow> (_, _) \<in> ?R\<^sup>* \<and> ?final y")
  using assms
proof (induction refs replacements arch requested seen current rule: replacement_loop.induct)
  case (1 refs replacements arch requested seen current)
  let ?R = "replaced_by refs replacements arch"
  let ?avail = "available_replacements refs replacements arch"
  show ?case
  proof (cases "current \<in> set seen")
    case True
    then have "(current, current) \<in> ?R\<^sup>+" using "1.prems" by blast
    then have "(y, y) \<in> ?R\<^sup>+" if "(current, y) \<in> ?R\<^sup>*"
      using deterministic_cycle [OF replaced_by_det that] by simp
    then have "\<not> ((current, y) \<in> ?R\<^sup>* \<and> ?avail y = [])"
      using available_final by (blast dest: tranclD)
    then show ?thesis using True by (subst replacement_loop.simps) simp
  next
    case new: False
    show ?thesis
    proof (cases "?avail current")
      case Nil
      then have "(current, y) \<in> ?R\<^sup>* \<longleftrightarrow> y = current"
        using available_final by (metis converse_rtranclE rtrancl.rtrancl_refl)
      then show ?thesis using new Nil by (subst replacement_loop.simps) auto
    next
      case (Cons w rest)
      show ?thesis
      proof (cases rest)
        case Nil
        then have step: "(current, w) \<in> ?R" using Cons by (simp add: replaced_by_def)
        have "\<forall>s\<in>set (current # seen). (s, w) \<in> ?R\<^sup>+"
          using step "1.prems" by (auto intro: trancl_into_trancl)
        then have ih: "replacement_loop refs replacements arch requested (current # seen) w = Inr y \<longleftrightarrow>
            (w, y) \<in> ?R\<^sup>* \<and> ?avail y = []"
          using "1.IH" [OF new Cons Nil] by simp
        have "(w, y) \<in> ?R\<^sup>*" if "(current, y) \<in> ?R\<^sup>*" "?avail y = []"
          by (rule deterministic_final [where R = ?R, OF _ that(1) _ step])
            (use replaced_by_det available_final [OF that(2)] in blast)+
        then have "(current, y) \<in> ?R\<^sup>* \<and> ?avail y = [] \<longleftrightarrow> (w, y) \<in> ?R\<^sup>* \<and> ?avail y = []"
          using converse_rtrancl_into_rtrancl [OF step] by blast
        then show ?thesis using new Cons Nil ih by (subst replacement_loop.simps) simp
      next
        case (Cons w' rest')
        then have "(current, z) \<notin> ?R" for z using \<open>?avail current = w # rest\<close> by (simp add: replaced_by_def)
        then have "(current, y) \<in> ?R\<^sup>* \<Longrightarrow> y = current" by (metis converse_rtranclE)
        then show ?thesis using new Cons \<open>?avail current = w # rest\<close> by (subst replacement_loop.simps) auto
      qed
    qed
  qed
qed

lemma replacement_loop_steps:
  assumes "replacement_loop refs replacements arch requested seen current = Inr y"
  shows "\<exists>n\<le>card (named_apps refs - set seen - {current}). (current, y) \<in> (replaced_by refs replacements arch) ^^ n"
  using assms
proof (induction refs replacements arch requested seen current rule: replacement_loop.induct)
  case (1 refs replacements arch requested seen current)
  let ?R = "replaced_by refs replacements arch"
  from "1.prems" have new: "current \<notin> set seen" by (subst (asm) replacement_loop.simps) (simp split: if_splits)
  show ?case
  proof (cases "available_replacements refs replacements arch current")
    case Nil
    then have "y = current" using "1.prems" new by (subst (asm) replacement_loop.simps) simp
    then show ?thesis by (intro exI [of _ 0]) simp
  next
    case (Cons w rest)
    have "(case w # rest of [] \<Rightarrow> Inr current | [v] \<Rightarrow> replacement_loop refs replacements arch requested (current # seen) v
        | many \<Rightarrow> Inl (Bail (''multiple replacements found for '' @ current @ '' on '' @ arch @ '': '' @ join_with '', '' many))) = Inr y"
      using "1.prems" new Cons by (simp only: replacement_loop.simps [of refs replacements arch requested seen current] if_False)
    then have "rest = []" and rec: "replacement_loop refs replacements arch requested (current # seen) w = Inr y"
      by (cases rest; simp)+
    then obtain n where n: "n \<le> card (named_apps refs - set (current # seen) - {w})" "(w, y) \<in> ?R ^^ n"
      using "1.IH" [OF new Cons] by blast
    have "w \<notin> set (current # seen)" using rec by (subst (asm) replacement_loop.simps) (simp split: if_splits)
    moreover have "w \<in> named_apps refs" using available_named Cons \<open>rest = []\<close> by blast
    ultimately have w: "w \<in> named_apps refs - set seen - {current}" by simp
    have "named_apps refs - set (current # seen) - {w} = named_apps refs - set seen - {current} - {w}" by auto
    then have "Suc n \<le> card (named_apps refs - set seen - {current})"
      using n(1) w card.remove [of "named_apps refs - set seen - {current}" w] by (simp add: named_apps_def)
    moreover have "(current, w) \<in> ?R" using Cons \<open>rest = []\<close> by (simp add: replaced_by_def)
    then have "(current, y) \<in> ?R ^^ Suc n" using n(2) by (rule relpow_Suc_I2)
    ultimately show ?thesis by blast
  qed
qed

text \<open>
  C25. Following replacements always ends: the answer is the application that has no further replacement on
  the chain of unique available replacements, reached in at most as many steps as the summary names
  applications; without such an end (a cycle, or a choice between several replacements) it is an error.
\<close>

theorem replacements_end:
  "(resolve_current_app_id_from_replacements refs replacements requested arch = Inr y \<longleftrightarrow>
      (requested, y) \<in> (replaced_by refs replacements arch)\<^sup>* \<and> available_replacements refs replacements arch y = [])
   \<and> (resolve_current_app_id_from_replacements refs replacements requested arch = Inr y \<longleftrightarrow>
      (\<exists>n\<le>card (named_apps refs). (requested, y) \<in> (replaced_by refs replacements arch) ^^ n)
      \<and> available_replacements refs replacements arch y = [])"
proof -
  let ?R = "replaced_by refs replacements arch"
  have iff: "resolve_current_app_id_from_replacements refs replacements requested arch = Inr y \<longleftrightarrow>
      (requested, y) \<in> ?R\<^sup>* \<and> available_replacements refs replacements arch y = []"
    unfolding resolve_current_app_id_from_replacements_def by (rule replacement_loop_iff) simp
  have "\<exists>n\<le>card (named_apps refs). (requested, y) \<in> ?R ^^ n"
    if found: "resolve_current_app_id_from_replacements refs replacements requested arch = Inr y"
  proof -
    obtain n where "n \<le> card (named_apps refs - {requested})" "(requested, y) \<in> ?R ^^ n"
      using replacement_loop_steps [OF found [unfolded resolve_current_app_id_from_replacements_def]] by auto
    moreover have "card (named_apps refs - {requested}) \<le> card (named_apps refs)"
      by (intro card_mono) (auto simp: named_apps_def)
    ultimately show ?thesis by (meson le_trans)
  qed
  with iff show ?thesis by (meson relpow_imp_rtrancl)
qed


section \<open>Provenance of a resolved application\<close>

definition offers :: "resolver \<Rightarrow> Remote \<Rightarrow> string \<Rightarrow> string \<Rightarrow> bool" where
  "offers net remote name commit =
     (case load_remote_metadata_for net remote of
        Inl _ \<Rightarrow> False
      | Inr m \<Rightarrow> list_ex (\<lambda>r. ref_name r = name \<and> ref_checksum r = commit) (rm_refs m))"

text \<open>
  Where the runtime of an application of \<open>remote\<close> may come from: an installed runtime keeps its origin, at
  the commit its enabled origin offers now or at the installed one; a runtime that is not installed comes
  from the remote of the application or from another enabled remote.
\<close>

definition runtime_provenance ::
  "resolver \<Rightarrow> 'o remote_store \<Rightarrow> record_store \<Rightarrow> Remote \<Rightarrow> string \<Rightarrow> string \<Rightarrow> string \<Rightarrow> bool" where
  "runtime_provenance net remotes records remote origin runtime_ref commit =
     (case get_runtime records runtime_ref of
        Inl _ \<Rightarrow> False
      | Inr (Some installed) \<Rightarrow>
          origin = rr_origin installed
          \<and> (commit = rr_runtime_commit installed
             \<or> (\<exists>other. (r_name remote = origin \<and> other = remote \<or> get_remote remotes origin = Inr other)
                  \<and> r_enabled other \<and> offers net other (full_runtime_ref runtime_ref) commit))
      | Inr None \<Rightarrow>
          \<exists>other. (other = remote \<or> (\<exists>others. enabled_remotes remotes = Inr others \<and> other \<in> set others))
            \<and> r_name other = origin \<and> r_enabled other \<and> offers net other (full_runtime_ref runtime_ref) commit)"

text \<open>What a request for an application may select in a summary.\<close>

definition answers_request :: "resolver \<Rightarrow> RemoteMetadata \<Rightarrow> string \<Rightarrow> FlatpakRef \<Rightarrow> bool" where
  "answers_request net m requested p =
     (case PartialRef_parse requested of
        Inl _ \<Rightarrow> False
      | Inr partial \<Rightarrow>
          fr_kind p = App \<and> fr_arch p = unwrap_or (pr_arch partial) (rm_arch m)
          \<and> is_none_or (pr_branch partial) (\<lambda>branch. fr_branch p = branch)
          \<and> (fr_id p = pr_id partial
             \<or> \<not> app_ref_exists (rm_refs m) (pr_id partial) (fr_arch p)
                \<and> (\<exists>replacements. replacements_of net (rm_remote m) (fr_arch p) = Inr replacements
                    \<and> (pr_id partial, fr_id p) \<in> (replaced_by (rm_refs m) replacements (fr_arch p))\<^sup>*)))"

lemma find_ref_Some: "find_ref refs name = Some r \<Longrightarrow> r \<in> set refs \<and> ref_name r = name"
  by (auto simp: find_ref_def find_Some_iff)

lemma find_ref_offers:
  assumes "load_remote_metadata_for net remote = Inr m" "find_ref (rm_refs m) name = Some r"
  shows "offers net remote name (ref_checksum r)"
  using assms(1) find_ref_Some [OF assms(2)] by (auto simp: offers_def list_ex_iff)

lemma load_remote_metadata_for_remote: "load_remote_metadata_for net remote = Inr m \<Longrightarrow> rm_remote m = remote"
  by (auto simp: load_remote_metadata_for_def rbind_Inr_iff)

lemma first_resolved_Inr:
  "first_resolved f cs failures = Inr x \<Longrightarrow>
     \<exists>before remote after. cs = before @ remote # after \<and> f remote = Inr x \<and> (\<forall>r\<in>set before. \<not> is_ok (f r))"
proof (induction f cs failures rule: first_resolved.induct)
  case (2 f remote rest failures)
  show ?case
  proof (cases "f remote")
    case (Inl e)
    then obtain before r after where "rest = before @ r # after" "f r = Inr x" "\<forall>r\<in>set before. \<not> is_ok (f r)"
      using 2 by auto
    with Inl show ?thesis by (intro exI [of _ "remote # before"]) auto
  next
    case (Inr y)
    with "2.prems" show ?thesis by (intro exI [of _ "[]"]) auto
  qed
qed simp

lemma resolve_in_remotes_Inr: "resolve_in_remotes f requested cs = Inr x \<longleftrightarrow> first_resolved f cs [] = Inr x"
  by (auto simp: resolve_in_remotes_def split: sum.splits)

lemma enabled_remotes_enabled: "enabled_remotes st = Inr rs \<Longrightarrow> r \<in> set rs \<Longrightarrow> r_enabled r"
  by (auto simp: enabled_remotes_def rbind_Inr_iff)

lemma candidate_enabled:
  assumes "candidate_remotes remotes remote_name = Inr candidates" "r \<in> set candidates"
  shows "r_enabled r"
  using assms
  by (auto simp: candidate_remotes_def rbind_Inr_iff guard_Inr_iff split: option.splits dest: enabled_remotes_enabled)

lemma find_runtime_in_remotes_Some:
  "find_runtime_in_remotes net skip name remotes = Some (origin, runtime) \<Longrightarrow>
     \<exists>other\<in>set remotes. r_name other = origin \<and> offers net other name (ref_checksum runtime)"
  by (induction net skip name remotes rule: find_runtime_in_remotes.induct)
    (auto split: if_splits sum.splits option.splits intro: find_ref_offers)

lemma select_ref_found:
  assumes "select_ref refs partial kind default_arch = Inr r"
  shows "r \<in> set refs \<and> ref_matches partial kind (unwrap_or (pr_arch partial) default_arch) r"
proof -
  let ?found = "filter (ref_matches partial kind (unwrap_or (pr_arch partial) default_arch)) refs"
  have "select_spec refs partial kind default_arch = Some r"
    using assms select_ref_spec [of refs partial kind default_arch] by simp
  then have "r = hd (filter stable_ref ?found) \<and> filter stable_ref ?found \<noteq> [] \<or> ?found = [r]"
    by (auto simp: select_spec_def Let_def split: if_splits list.splits)
  then have "r \<in> set ?found"
    by (metis filter_is_subset hd_in_set list.set_intros(1) subsetD)
  then show ?thesis by simp
qed

lemma resolve_app_ref_found:
  assumes "resolve_app_ref net m requested replacements = Inr r"
  shows "r \<in> set (rm_refs m) \<and> (\<exists>p. FlatpakRef_parse (ref_name r) = Inr p \<and> answers_request net m requested p)"
proof -
  obtain partial where partial: "PartialRef_parse requested = Inr partial"
    using assms by (auto simp: resolve_app_ref_def rbind_Inr_iff)
  define arch where "arch = unwrap_or (pr_arch partial) (rm_arch m)"
  obtain app_id where app_id: "app_id = pr_id partial \<or> \<not> app_ref_exists (rm_refs m) (pr_id partial) arch
       \<and> resolve_current_app_id net (rm_refs m) (pr_id partial) arch (rm_remote m) = Inr app_id"
    and sel: "select_ref (rm_refs m) (partial\<lparr>pr_id := app_id\<rparr>) App (rm_arch m) = Inr r"
  proof (cases "replacements \<and> \<not> app_ref_exists (rm_refs m) (pr_id partial) arch")
    case True
    then show ?thesis using assms partial that
      by (auto simp: resolve_app_ref_def Let_def rbind_Inr_iff arch_def)
  next
    case False
    then have "select_ref (rm_refs m) partial App (rm_arch m) = Inr r" using assms partial
      by (auto simp: resolve_app_ref_def Let_def rbind_Inr_iff arch_def)
    then show ?thesis using that [of "pr_id partial"] by simp
  qed
  have chain: "app_id = pr_id partial \<or> \<not> app_ref_exists (rm_refs m) (pr_id partial) arch
      \<and> (\<exists>replacements. replacements_of net (rm_remote m) arch = Inr replacements
           \<and> (pr_id partial, app_id) \<in> (replaced_by (rm_refs m) replacements arch)\<^sup>*)"
    using app_id replacement_loop_iff [where seen = "[]"]
    by (auto simp: resolve_current_app_id_def resolve_current_app_id_from_replacements_def rbind_Inr_iff)
  from select_ref_found [OF sel]
  obtain p where "r \<in> set (rm_refs m)" "FlatpakRef_parse (ref_name r) = Inr p" "fr_kind p = App" "fr_id p = app_id"
    "fr_arch p = arch" "is_none_or (pr_branch partial) (\<lambda>branch. fr_branch p = branch)"
    by (auto simp: ref_matches_def matches_def is_none_or_def arch_def split: sum.splits option.splits)
  with chain partial show ?thesis by (auto simp: answers_request_def arch_def)
qed

lemma split_flatpak_ref_parsed:
  assumes "FlatpakRef_parse name = Inr p"
  shows "split_flatpak_ref name = Inr \<lparr>fp_kind = as_str (fr_kind p), fp_name = fr_id p, fp_arch = fr_arch p, fp_branch = fr_branch p\<rparr>"
proof -
  have v: "valid_ref p" and n: "name = full_ref p" using FlatpakRef_parse_sound [OF assms] by simp_all
  have "slash \<notin> set (as_str k)" for k by (cases k) simp_all
  moreover have "slash \<notin> set (fr_id p)" "slash \<notin> set (fr_arch p)" "slash \<notin> set (fr_branch p)"
    using v by (simp_all add: valid_ref_def valid_id_no_slash valid_arch_no_slash valid_branch_no_slash)
  ultimately have "split_on slash name = [as_str (fr_kind p), fr_id p, fr_arch p, fr_branch p]"
    by (simp add: n full_ref_def split_on_append_sep)
  then show ?thesis by (simp add: split_flatpak_ref_def)
qed

lemma remote_app_from_metadata_fields:
  assumes "remote_app_from_metadata app_ref metadata runtime arch origin runtime_origin = Inr app"
    and "FlatpakRef_parse (ref_name app_ref) = Inr p"
  shows "ra_origin app = origin" and "ra_runtime_origin app = runtime_origin" and "ra_app_id app = fr_id p"
    and "ra_app_ref app = ref_name app_ref" and "ra_app_commit app = ref_checksum app_ref"
    and "metadata_value metadata ''Application'' ''name'' = Some (fr_id p)"
    and "metadata_value metadata ''Application'' ''runtime'' = Some (ra_runtime_ref app)"
    and "ra_runtime_commit app = ref_checksum runtime"
  using assms
  by (auto simp: remote_app_from_metadata_def rbind_Inr_iff split_flatpak_ref_parsed Let_def split: if_splits)

lemma resolve_with_runtime_provenance:
  assumes "resolve_ref_with_runtime_fallback net remotes records m app_ref = Inr app"
    and loaded: "load_remote_metadata_for net remote = Inr m" and enabled: "r_enabled remote"
    and p: "FlatpakRef_parse (ref_name app_ref) = Inr p"
  obtains metadata where "ref_metadata app_ref = Some metadata"
    "metadata_value metadata ''Application'' ''name'' = Some (fr_id p)"
    "metadata_value metadata ''Application'' ''runtime'' = Some (ra_runtime_ref app)"
    "ra_origin app = r_name remote" "ra_app_id app = fr_id p" "ra_app_ref app = ref_name app_ref"
    "ra_app_commit app = ref_checksum app_ref"
    "runtime_provenance net remotes records remote (ra_runtime_origin app) (ra_runtime_ref app) (ra_runtime_commit app)"
proof -
  have m: "rm_remote m = remote" by (rule load_remote_metadata_for_remote [OF loaded])
  obtain metadata runtime_ref found where md: "ref_metadata app_ref = Some metadata"
    and rt: "metadata_value metadata ''Application'' ''runtime'' = Some runtime_ref"
    and found: "get_runtime records runtime_ref = Inr found"
    using assms(1) by (auto simp: resolve_ref_with_runtime_fallback_def rbind_Inr_iff Let_def)
  have run: "(case found of
       Some installed \<Rightarrow>
         remote_app_from_metadata app_ref metadata (installed_runtime_ref net remotes m installed (full_runtime_ref runtime_ref))
           (rm_arch m) (r_name remote) (rr_origin installed)
     | None \<Rightarrow>
         (case find_ref (rm_refs m) (full_runtime_ref runtime_ref) of
            Some runtime \<Rightarrow> remote_app_from_metadata app_ref metadata runtime (rm_arch m) (r_name remote) (r_name remote)
          | None \<Rightarrow>
              rbind (enabled_remotes remotes) (\<lambda>others.
              case find_runtime_in_remotes net (r_name remote) (full_runtime_ref runtime_ref) others of
                Some (origin, runtime) \<Rightarrow> remote_app_from_metadata app_ref metadata runtime (rm_arch m) (r_name remote) origin
              | None \<Rightarrow> Inl (Bail (''required runtime ref not found in an enabled remote: '' @ full_runtime_ref runtime_ref)))))
      = Inr app"
    using assms(1) rt unfolding resolve_ref_with_runtime_fallback_def md m Let_def by (simp add: found ok_or_def)
  obtain runtime runtime_origin where build:
      "remote_app_from_metadata app_ref metadata runtime (rm_arch m) (r_name remote) runtime_origin = Inr app"
    and prov: "runtime_provenance net remotes records remote runtime_origin runtime_ref (ref_checksum runtime)"
  proof (cases found)
    case (Some installed)
    let ?r = "installed_runtime_ref net remotes m installed (full_runtime_ref runtime_ref)"
    have "ref_checksum ?r = rr_runtime_commit installed
        \<or> (\<exists>other. (r_name remote = rr_origin installed \<and> other = remote \<or> get_remote remotes (rr_origin installed) = Inr other)
             \<and> r_enabled other \<and> offers net other (full_runtime_ref runtime_ref) (ref_checksum ?r))"
      using find_ref_offers [OF loaded] find_ref_offers m enabled
      by (auto simp: installed_runtime_ref_def unwrap_or_def load_remote_metadata_def rbind_Inr_iff guard_Inr_iff
          split: option.splits sum.splits)
    then have "runtime_provenance net remotes records remote (rr_origin installed) runtime_ref (ref_checksum ?r)"
      using found Some by (simp add: runtime_provenance_def)
    moreover have "remote_app_from_metadata app_ref metadata ?r (rm_arch m) (r_name remote) (rr_origin installed) = Inr app"
      using run Some by simp
    ultimately show ?thesis using that by blast
  next
    case None
    show ?thesis
    proof (cases "find_ref (rm_refs m) (full_runtime_ref runtime_ref)")
      case (Some runtime)
      then have "runtime_provenance net remotes records remote (r_name remote) runtime_ref (ref_checksum runtime)"
        using found None enabled find_ref_offers [OF loaded Some] by (auto simp: runtime_provenance_def)
      moreover have "remote_app_from_metadata app_ref metadata runtime (rm_arch m) (r_name remote) (r_name remote) = Inr app"
        using run None Some by simp
      ultimately show ?thesis using that by blast
    next
      case missing: None
      then obtain others origin runtime where others: "enabled_remotes remotes = Inr others"
        and other: "find_runtime_in_remotes net (r_name remote) (full_runtime_ref runtime_ref) others = Some (origin, runtime)"
        and build: "remote_app_from_metadata app_ref metadata runtime (rm_arch m) (r_name remote) origin = Inr app"
        using run None by (auto simp: rbind_Inr_iff split: option.splits)
      have "runtime_provenance net remotes records remote origin runtime_ref (ref_checksum runtime)"
        using found None others find_runtime_in_remotes_Some [OF other] enabled_remotes_enabled [OF others]
        by (auto simp: runtime_provenance_def)
      then show ?thesis using that build by blast
    qed
  qed
  note fields = remote_app_from_metadata_fields [OF build p]
  have "runtime_ref = ra_runtime_ref app" using rt fields(7) by simp
  then show ?thesis using that md fields prov by simp
qed

text \<open>
  C11. An application resolved for installation is traceable: it comes from the first remote, in the order of
  the candidates, that resolves the request; that remote is enabled and its summary offers exactly the
  resolved reference at the resolved commit; the reference answers the request (by itself or through the
  chain of replacements of an application the remote does not have) and agrees with the application id in
  its metadata; and the runtime is the one the metadata names, from its installed origin or from an
  enabled remote that offers it at the resolved commit.
\<close>

theorem resolved_app_provenance:
  assumes "resolve_remote_app net remotes records remote_name requested = Inr app"
  shows "\<exists>before remote after m p metadata.
    candidate_remotes remotes remote_name = Inr (before @ remote # after)
    \<and> (\<forall>r\<in>set before. \<not> is_ok (rbind (load_remote_metadata_for net r) (\<lambda>m. resolve_app_with_runtime_fallback net remotes records m requested)))
    \<and> r_enabled remote \<and> r_name remote = ra_origin app \<and> load_remote_metadata_for net remote = Inr m
    \<and> offers net remote (ra_app_ref app) (ra_app_commit app)
    \<and> FlatpakRef_parse (ra_app_ref app) = Inr p \<and> answers_request net m requested p
    \<and> ra_app_id app = fr_id p \<and> metadata_value metadata ''Application'' ''name'' = Some (fr_id p)
    \<and> metadata_value metadata ''Application'' ''runtime'' = Some (ra_runtime_ref app)
    \<and> runtime_provenance net remotes records remote (ra_runtime_origin app) (ra_runtime_ref app) (ra_runtime_commit app)"
proof -
  let ?f = "\<lambda>r. rbind (load_remote_metadata_for net r) (\<lambda>m. resolve_app_with_runtime_fallback net remotes records m requested)"
  obtain candidates where cand: "candidate_remotes remotes remote_name = Inr candidates"
    and first: "first_resolved ?f candidates [] = Inr app"
    using assms by (auto simp: resolve_remote_app_def resolve_in_remotes_Inr rbind_Inr_iff)
  then obtain before remote after where split: "candidates = before @ remote # after" "?f remote = Inr app"
      "\<forall>r\<in>set before. \<not> is_ok (?f r)"
    using first_resolved_Inr [OF first] by blast
  then obtain m r where m: "load_remote_metadata_for net remote = Inr m"
    and r: "resolve_app_ref net m requested True = Inr r"
    and app: "resolve_ref_with_runtime_fallback net remotes records m r = Inr app"
    by (auto simp: rbind_Inr_iff resolve_app_with_runtime_fallback_def)
  obtain p where p: "r \<in> set (rm_refs m)" "FlatpakRef_parse (ref_name r) = Inr p" "answers_request net m requested p"
    using resolve_app_ref_found [OF r] by blast
  have enabled: "r_enabled remote" using candidate_enabled [OF cand] split(1) by simp
  have offer: "offers net remote (ref_name r) (ref_checksum r)" using m p(1) by (auto simp: offers_def list_ex_iff)
  obtain metadata where meta: "metadata_value metadata ''Application'' ''name'' = Some (fr_id p)"
      "metadata_value metadata ''Application'' ''runtime'' = Some (ra_runtime_ref app)"
    and fields: "ra_origin app = r_name remote" "ra_app_id app = fr_id p" "ra_app_ref app = ref_name r" "ra_app_commit app = ref_checksum r"
    and prov: "runtime_provenance net remotes records remote (ra_runtime_origin app) (ra_runtime_ref app) (ra_runtime_commit app)"
    by (rule resolve_with_runtime_provenance [OF app m enabled p(2)])
  show ?thesis
    by (rule exI [of _ before], rule exI [of _ remote], rule exI [of _ after], rule exI [of _ m], rule exI [of _ p],
        rule exI [of _ metadata], intro conjI)
      (use cand split enabled m offer p meta fields prov in simp_all)
qed


text \<open>Two remotes; only the second has the application.\<close>

definition demo_config :: "string \<Rightarrow> Remote" where
  "demo_config name = \<lparr>r_name = name, r_url = ''https://e.org'', r_title = None, r_enabled = True, r_gpg_verify = False, r_gpg_key = None\<rparr>"

definition demo_remotes :: "unit remote_store" where
  "demo_remotes = \<lparr>configs = [(''a'', remote_text (demo_config ''a'')), (''b'', remote_text (demo_config ''b''))],
     caches = {}, initialized = True, repo = ()\<rparr>"

definition demo_ref :: "string \<Rightarrow> string \<Rightarrow> string option \<Rightarrow> RemoteRef" where
  "demo_ref name commit metadata = \<lparr>ref_name = name, ref_checksum = commit, ref_metadata = metadata, ref_download_size = None, ref_installed_size = None\<rparr>"

definition demo_metadata :: string where
  "demo_metadata = ''[Application]'' @ newline # ''name=org.x.App'' @ newline # ''runtime=org.x.P/z/1'' @ newline # ''command=app'' @ [newline]"

definition demo_net :: resolver where
  "demo_net = \<lparr>summary_of = (\<lambda>r. Inr (''z'', if r_name r = ''b''
        then [demo_ref ''app/org.x.App/z/stable'' ''c1'' (Some demo_metadata), demo_ref ''runtime/org.x.P/z/1'' ''c2'' None] else [], None)),
     replacements_of = (\<lambda>_ _. Inr (\<lambda>_. None)), history_of = (\<lambda>_ _ _. Inr [])\<rparr>"

definition demo_app :: RemoteApp where
  "demo_app = \<lparr>ra_origin = ''b'', ra_runtime_origin = ''b'', ra_app_id = ''org.x.App'', ra_app_ref = ''app/org.x.App/z/stable'',
     ra_app_commit = ''c1'', ra_arch = ''z'', ra_branch = ''stable'', ra_runtime_ref = ''org.x.P/z/1'', ra_runtime_commit = ''c2'',
     ra_sdk_ref = None, ra_download_size = None, ra_installed_size = None, ra_command = ''app''\<rparr>"

lemma demo_resolves: "resolve_remote_app demo_net demo_remotes empty_records None ''org.x.App'' = Inr demo_app"
  by code_simp

lemma demo_request: "PartialRef_parse ''org.x.App'' = Inr \<lparr>pr_kind = None, pr_id = ''org.x.App'', pr_arch = None, pr_branch = None\<rparr>"
  by code_simp

lemma demo_candidates: "candidate_remotes demo_remotes None = Inr [demo_config ''a'', demo_config ''b'']"
  by code_simp

definition demo_empty :: RemoteMetadata where
  "demo_empty = \<lparr>rm_remote = demo_config ''a'', rm_arch = ''z'', rm_refs = [], rm_collection_id = None\<rparr>"

lemma demo_loads: "load_remote_metadata_for demo_net (demo_config ''a'') = Inr demo_empty"
  by code_simp

lemma demo_misses: "\<not> is_ok (resolve_app_with_runtime_fallback demo_net demo_remotes empty_records demo_empty ''org.x.App'')"
   "\<not> is_ok (resolve_runtime demo_empty ''org.x.App'')"
  by code_simp+

theorem resolved_app_provenance_witness:
  "resolve_remote_app demo_net demo_remotes empty_records None ''org.x.App'' = Inr demo_app
   \<and> (\<exists>before remote after m p metadata.
    candidate_remotes demo_remotes None = Inr (before @ remote # after)
    \<and> (\<forall>r\<in>set before. \<not> is_ok (rbind (load_remote_metadata_for demo_net r) (\<lambda>m. resolve_app_with_runtime_fallback demo_net demo_remotes empty_records m ''org.x.App'')))
    \<and> r_enabled remote \<and> r_name remote = ra_origin demo_app \<and> load_remote_metadata_for demo_net remote = Inr m
    \<and> offers demo_net remote (ra_app_ref demo_app) (ra_app_commit demo_app)
    \<and> FlatpakRef_parse (ra_app_ref demo_app) = Inr p \<and> answers_request demo_net m ''org.x.App'' p
    \<and> ra_app_id demo_app = fr_id p \<and> metadata_value metadata ''Application'' ''name'' = Some (fr_id p)
    \<and> metadata_value metadata ''Application'' ''runtime'' = Some (ra_runtime_ref demo_app)
    \<and> runtime_provenance demo_net demo_remotes empty_records remote (ra_runtime_origin demo_app) (ra_runtime_ref demo_app) (ra_runtime_commit demo_app))"
  by (rule conjI [OF demo_resolves resolved_app_provenance [OF demo_resolves]])

text \<open>
  A request that names no kind does not reach the second remote: when the first candidate loads and has
  neither the application nor the runtime, \<^verbatim>\<open>resolve_remote_ref\<close> fails at once, whatever the other enabled
  remotes offer. The witness has a request that \<^verbatim>\<open>resolve_remote_app\<close> answers from the second remote.
\<close>

theorem kindless_request_stops_at_first_remote:
  assumes "PartialRef_parse requested = Inr partial" and "pr_kind partial = None"
    and "candidate_remotes remotes remote_name = Inr (remote # rest)"
    and "load_remote_metadata_for net remote = Inr m"
    and "\<not> is_ok (resolve_app_with_runtime_fallback net remotes records m requested)"
    and "\<not> is_ok (resolve_runtime m requested)"
  shows "\<not> is_ok (resolve_remote_ref net remotes records remote_name requested None)"
proof -
  obtain a r where "resolve_app_with_runtime_fallback net remotes records m requested = Inl a" "resolve_runtime m requested = Inl r"
    using assms(5,6)
    by (cases "resolve_app_with_runtime_fallback net remotes records m requested"; cases "resolve_runtime m requested") auto
  then show ?thesis
    using assms(1-4) by (simp add: resolve_remote_ref_def effective_kind_def resolve_kind_in_def Let_def)
qed

theorem kindless_request_stops_at_first_remote_witness:
  "\<not> is_ok (resolve_remote_ref demo_net demo_remotes empty_records None ''org.x.App'' None)
   \<and> resolve_remote_app demo_net demo_remotes empty_records None ''org.x.App'' = Inr demo_app"
  using kindless_request_stops_at_first_remote [OF demo_request _ demo_candidates demo_loads demo_misses] demo_resolves
  by simp

end
