(* ===== verification/Extensions.thy ===== *)
theory Extensions
  imports Ref_Resolution
begin

text \<open>
  Flatpak extensions: the extension points of a metadata file and the runtime references they resolve to
  (\<^verbatim>\<open>src/src/extensions/extension_points.rs\<close>), the conditions of a host and the plan of extension mounts of a
  launch (\<^verbatim>\<open>src/src/extensions/activation.rs\<close>), and the checks of an extension checkout
  (\<^verbatim>\<open>src/src/extensions/runtime_extensions.rs\<close>).

  A \<^verbatim>\<open>BTreeSet\<close> is the sorted list of its elements. The files that are read (\<^verbatim>\<open>metadata\<close>, markers, directory
  listings) are the functions of \<open>host_files\<close>; the output of \<^verbatim>\<open>kldstat\<close> and the environment are arguments. Since the
  code compares extension points by address, a point is identified by its position in the list.
\<close>

section \<open>Extension points\<close>

record ExtensionPoint =
  ep_name :: string
  ep_tag :: "string option"
  ep_directory :: "string option"
  ep_version :: "string option"
  ep_versions :: "string list"
  ep_subdirectories :: bool
  ep_subdirectory_suffix :: "string option"
  ep_add_ld_path :: "string option"
  ep_merge_dirs :: "string list"
  ep_no_autodownload :: bool
  ep_download_if :: "string list"
  ep_enable_if :: "string list"
  ep_autodelete :: bool
  ep_autoprune_unless :: "string list"
  ep_locale_subset :: bool

record ExtensionParent =
  xp_arch :: string
  xp_branch :: string

definition strip_kind :: "string \<Rightarrow> string" where
  "strip_kind r =
     (case strip_prefix r ''app/'' of
        Some p \<Rightarrow> p
      | None \<Rightarrow> (case strip_prefix r ''runtime/'' of Some p \<Rightarrow> p | None \<Rightarrow> r))"

definition ExtensionParent_from_ref :: "string \<Rightarrow> ExtensionParent result" where
  "ExtensionParent_from_ref parent_ref =
     (let parts = split_on slash (strip_kind parent_ref) in
      if length parts < 2 \<or> parts ! 1 = [] then Inl (Bail ''extension parent ref is missing an architecture'')
      else if length parts < 3 \<or> join_with ''/'' (drop 2 parts) = [] then Inl (Bail ''extension parent ref is missing a branch'')
      else Inr \<lparr>xp_arch = parts ! 1, xp_branch = join_with ''/'' (drop 2 parts)\<rparr>)"

text \<open>\<^verbatim>\<open>trim_start_matches\<close> and \<^verbatim>\<open>trim_end_matches\<close> remove a pattern as often as it occurs.\<close>

function trim_start_matches :: "string \<Rightarrow> string \<Rightarrow> string" where
  "trim_start_matches p s =
     (if p \<noteq> [] \<and> starts_with s p then trim_start_matches p (drop (length p) s) else s)"
  by pat_completeness auto
termination
  by (relation "measure (length \<circ> snd)") (auto simp: starts_with_iff)

definition trim_end_matches :: "string \<Rightarrow> string \<Rightarrow> string" where
  "trim_end_matches p s = rev (trim_start_matches (rev p) (rev s))"

definition list_value :: "string \<Rightarrow> string \<Rightarrow> string \<Rightarrow> string list" where
  "list_value metadata sec key =
     (case metadata_value metadata sec key of
        None \<Rightarrow> []
      | Some items \<Rightarrow> filter (\<lambda>item. item \<noteq> []) (map trim (split_on (CHR '';'') items)))"

definition bool_value :: "string \<Rightarrow> string \<Rightarrow> string \<Rightarrow> bool" where
  "bool_value metadata sec key =
     (case metadata_value metadata sec key of None \<Rightarrow> False | Some item \<Rightarrow> to_ascii_lowercase item = ''true'')"

definition nonempty_value :: "string \<Rightarrow> string \<Rightarrow> string \<Rightarrow> string option" where
  "nonempty_value metadata sec key =
     (case metadata_value metadata sec key of None \<Rightarrow> None | Some item \<Rightarrow> if item = [] then None else Some item)"

definition ExtensionPoint_parse :: "string \<Rightarrow> string \<Rightarrow> ExtensionPoint" where
  "ExtensionPoint_parse metadata sec =
     (let qualified_name = trim_start_matches ''Extension '' sec;
          (name, tag) = (case split_once (CHR 0x40) qualified_name of
                           None \<Rightarrow> (qualified_name, None)
                         | Some (name, tag) \<Rightarrow> (name, if tag = [] then None else Some tag));
          related_debug = ends_with name ''.Debug'';
          related_locale = ends_with name ''.Locale'' in
      \<lparr>ep_name = name, ep_tag = tag, ep_directory = metadata_value metadata sec ''directory'',
       ep_version = nonempty_value metadata sec ''version'', ep_versions = list_value metadata sec ''versions'',
       ep_subdirectories = bool_value metadata sec ''subdirectories'',
       ep_subdirectory_suffix = nonempty_value metadata sec ''subdirectory-suffix'',
       ep_add_ld_path = nonempty_value metadata sec ''add-ld-path'', ep_merge_dirs = list_value metadata sec ''merge-dirs'',
       ep_no_autodownload = (related_debug \<or> bool_value metadata sec ''no-autodownload''),
       ep_download_if = list_value metadata sec ''download-if'', ep_enable_if = list_value metadata sec ''enable-if'',
       ep_autodelete = (related_debug \<or> related_locale \<or> bool_value metadata sec ''autodelete''),
       ep_autoprune_unless = list_value metadata sec ''autoprune-unless'',
       ep_locale_subset = bool_value metadata sec ''locale-subset''\<rparr>)"

definition parse_extension_points :: "string \<Rightarrow> ExtensionPoint list" where
  "parse_extension_points metadata =
     map (ExtensionPoint_parse metadata) (sections_with_prefix metadata ''Extension '')"

definition deduplicate_preserving_order :: "'a list \<Rightarrow> 'a list" where
  "deduplicate_preserving_order items = rev (remdups (rev items))"

definition branches :: "ExtensionPoint \<Rightarrow> ExtensionParent \<Rightarrow> string list" where
  "branches point parent =
     (if ep_versions point \<noteq> [] then deduplicate_preserving_order (ep_versions point)
      else (case ep_version point of Some version \<Rightarrow> [version] | None \<Rightarrow> [xp_branch parent]))"

record RuntimeRefParts =
  rp_name :: string
  rp_arch :: string
  rp_branch :: string

definition runtime_ref_parts :: "string \<Rightarrow> RuntimeRefParts option" where
  "runtime_ref_parts rname =
     (case strip_prefix rname ''runtime/'' of
        None \<Rightarrow> None
      | Some partial \<Rightarrow>
          (case split_on slash partial of
             name # arch # rest \<Rightarrow>
               if rest = [] then None else Some \<lparr>rp_name = name, rp_arch = arch, rp_branch = join_with ''/'' rest\<rparr>
           | _ \<Rightarrow> None))"

definition serves :: "ExtensionPoint \<Rightarrow> ExtensionParent \<Rightarrow> RuntimeRefParts \<Rightarrow> bool" where
  "serves point parent candidate \<longleftrightarrow>
     (rp_name candidate = ep_name point
      \<or> ep_subdirectories point
         \<and> (case strip_prefix (rp_name candidate) (ep_name point) of None \<Rightarrow> False | Some suffix \<Rightarrow> starts_with suffix ''.''))
     \<and> rp_branch candidate \<in> set (branches point parent)"

definition owner_of :: "ExtensionPoint list \<Rightarrow> ExtensionParent \<Rightarrow> string \<Rightarrow> nat option" where
  "owner_of points parent rname =
     (case runtime_ref_parts rname of
        None \<Rightarrow> None
      | Some candidate \<Rightarrow>
          if rp_arch candidate \<noteq> xp_arch parent then None
          else max_by_key (\<lambda>i. length (ep_name (points ! i)))
                 (filter (\<lambda>i. serves (points ! i) parent candidate) [0..<length points]))"

definition point_for_ref :: "ExtensionPoint list \<Rightarrow> ExtensionParent \<Rightarrow> string \<Rightarrow> ExtensionPoint option" where
  "point_for_ref points parent rname = map_option (\<lambda>i. points ! i) (owner_of points parent rname)"

definition runtime_candidate :: "string \<Rightarrow> string \<Rightarrow> string \<Rightarrow> string" where
  "runtime_candidate name arch branch = ''runtime/'' @ name @ ''/'' @ arch @ ''/'' @ branch"

definition extension_names :: "ExtensionPoint \<Rightarrow> ExtensionParent \<Rightarrow> string list \<Rightarrow> string list" where
  "extension_names point parent available =
     sort_dedup (ep_name point #
       (if ep_subdirectories point
        then List.map_filter (\<lambda>candidate.
               case runtime_ref_parts candidate of
                 None \<Rightarrow> None
               | Some parts \<Rightarrow>
                   if starts_with (rp_name parts) (ep_name point @ ''.'') \<and> rp_arch parts = xp_arch parent
                   then Some (rp_name parts) else None) available
        else []))"

definition resolve_point :: "ExtensionPoint list \<Rightarrow> ExtensionParent \<Rightarrow> string list \<Rightarrow> nat \<Rightarrow> string list" where
  "resolve_point points parent available i =
     List.map_filter (\<lambda>name.
       find (\<lambda>candidate. candidate \<in> set available \<and> owner_of points parent candidate = Some i)
         (map (runtime_candidate name (xp_arch parent)) (branches (points ! i) parent)))
       (extension_names (points ! i) parent available)"

definition resolve_extension_refs :: "ExtensionPoint list \<Rightarrow> ExtensionParent \<Rightarrow> string list \<Rightarrow> string list" where
  "resolve_extension_refs points parent available =
     sort_dedup (concat (map (resolve_point points parent available) [0..<length points]))"

section \<open>Conditions\<close>

record ExtensionFacts =
  active_gl_drivers :: "string list"
  active_gtk_theme :: "string option"
  intel_gpu :: bool
  kernel_modules :: "string list"
  xdg_desktops :: "string list"

definition split_fact_values :: "string \<Rightarrow> string list" where
  "split_fact_values v =
     filter (\<lambda>x. x \<noteq> []) (map trim
       (concat (map (split_on (CHR '','')) (concat (map (split_on (CHR '';'')) (split_on (CHR '':'') v))))))"

definition normalize_kernel_module :: "string \<Rightarrow> string" where
  "normalize_kernel_module module =
     to_ascii_lowercase (map (\<lambda>c. if c = CHR ''-'' then CHR ''_'' else c) (trim_end_matches ''.ko'' module))"

text \<open>\<^verbatim>\<open>split_whitespace().last()\<close> of a line of \<^verbatim>\<open>kldstat\<close>.\<close>

definition last_word :: "string \<Rightarrow> string option" where
  "last_word line =
     (let w = rev (takeWhile (\<lambda>c. \<not> is_whitespace c) (dropWhile is_whitespace (rev line))) in
      if w = [] then None else Some w)"

definition detect :: "string option \<Rightarrow> string option \<Rightarrow> string option \<Rightarrow> bool \<Rightarrow> string option \<Rightarrow> ExtensionFacts" where
  "detect gl_drivers current_desktop kldstat intel gtk_theme =
     \<lparr>active_gl_drivers = sort_dedup (concat (map split_fact_values (case gl_drivers of None \<Rightarrow> [] | Some v \<Rightarrow> [v])) @ [''default'']),
      active_gtk_theme = gtk_theme, intel_gpu = intel,
      kernel_modules = (case kldstat of None \<Rightarrow> []
                        | Some out \<Rightarrow> sort_dedup (map normalize_kernel_module (List.map_filter last_word (lines out)))),
      xdg_desktops = sort_dedup (map to_ascii_lowercase
        (concat (map split_fact_values (case current_desktop of None \<Rightarrow> [] | Some v \<Rightarrow> [v]))))\<rparr>"

definition extension_suffix_matches :: "string \<Rightarrow> string list \<Rightarrow> bool" where
  "extension_suffix_matches name active =
     list_ex (\<lambda>driver. name = driver
       \<or> (case strip_suffix name driver of None \<Rightarrow> False | Some prefix \<Rightarrow> ends_with prefix ''.'')) active"

definition fact_matches :: "ExtensionFacts \<Rightarrow> string \<Rightarrow> string \<Rightarrow> bool" where
  "fact_matches facts condition extension_name =
     (if condition = ''active-gl-driver'' then extension_suffix_matches extension_name (active_gl_drivers facts)
      else if condition = ''active-gtk-theme'' then
        (case active_gtk_theme facts of
           None \<Rightarrow> False
         | Some theme \<Rightarrow> (case rsplit_once (CHR ''.'') extension_name of None \<Rightarrow> False | Some (_, suffix) \<Rightarrow> suffix = theme))
      else if condition = ''have-intel-gpu'' then intel_gpu facts
      else
        (case strip_prefix condition ''have-kernel-module-'' of
           None \<Rightarrow> False
         | Some module \<Rightarrow> normalize_kernel_module module \<in> set (kernel_modules facts))
        \<or> (case strip_prefix condition ''on-xdg-desktop-'' of
             None \<Rightarrow> False
           | Some desktop \<Rightarrow> to_ascii_lowercase desktop \<in> set (xdg_desktops facts)))"

definition matches_any :: "ExtensionFacts \<Rightarrow> string list \<Rightarrow> string \<Rightarrow> bool" where
  "matches_any facts conditions extension_name = list_ex (\<lambda>c. fact_matches facts c extension_name) conditions"

definition keeps_installed_ref :: "ExtensionPoint \<Rightarrow> string \<Rightarrow> ExtensionFacts \<Rightarrow> bool" where
  "keeps_installed_ref point rname facts =
     (case runtime_ref_parts rname of
        None \<Rightarrow> False
      | Some candidate \<Rightarrow>
          if ep_autoprune_unless point \<noteq> [] then matches_any facts (ep_autoprune_unless point) (rp_name candidate)
          else
            let dynamic_conditions = filter (\<lambda>c. c = ''active-gl-driver'' \<or> c = ''active-gtk-theme'') (ep_download_if point @ ep_enable_if point) in
            if dynamic_conditions \<noteq> [] then matches_any facts dynamic_conditions (rp_name candidate) else True)"

section \<open>References of an installation\<close>

record host_files =
  read_text :: "path \<Rightarrow> string option"
  directory_at :: "path \<Rightarrow> bool"
  directory_entries :: "path \<Rightarrow> string result list option"

definition metadata_path :: "path \<Rightarrow> path" where
  "metadata_path dir = dir @ [Normal ''metadata'']"

definition applicable_extension_refs :: "host_files \<Rightarrow> ExtensionFacts \<Rightarrow> path \<Rightarrow> string \<Rightarrow> string list \<Rightarrow> string list result" where
  "applicable_extension_refs files facts dir parent_ref installed =
     (case read_text files (metadata_path dir) of
        None \<Rightarrow> Inr []
      | Some metadata \<Rightarrow>
          rbind (ExtensionParent_from_ref parent_ref) (\<lambda>parent.
          let points = parse_extension_points metadata in
          Inr (filter (\<lambda>r. case point_for_ref points parent r of None \<Rightarrow> False | Some point \<Rightarrow> keeps_installed_ref point r facts)
                (resolve_extension_refs points parent installed))))"

definition required_extension_refs ::
  "host_files \<Rightarrow> ExtensionFacts \<Rightarrow> path \<Rightarrow> string \<Rightarrow> string \<Rightarrow> path \<Rightarrow> string list \<Rightarrow> string list result" where
  "required_extension_refs files facts app_dir app_ref runtime_ref runtime_dir installed =
     rbind (applicable_extension_refs files facts app_dir app_ref installed) (\<lambda>a.
     rbind (applicable_extension_refs files facts runtime_dir runtime_ref installed) (\<lambda>r.
     Inr (sort_dedup (a @ r))))"

definition is_hidden_related_ref :: "string \<Rightarrow> bool" where
  "is_hidden_related_ref runtime_ref =
     list_ex (\<lambda>c. c = ''Locale'' \<or> c = ''Debug'') (split_on (CHR ''.'') (hd (split_on slash runtime_ref)))"

definition autodelete_in :: "host_files \<Rightarrow> string list \<Rightarrow> path \<Rightarrow> ExtensionParent \<Rightarrow> string list" where
  "autodelete_in files installed dir parent =
     (case read_text files (metadata_path dir) of
        None \<Rightarrow> []
      | Some metadata \<Rightarrow>
          let points = parse_extension_points metadata in
          filter (\<lambda>r. case point_for_ref points parent r of None \<Rightarrow> False | Some point \<Rightarrow> ep_autodelete point)
            (resolve_extension_refs points parent installed))"

definition autodelete_extension_refs ::
  "host_files \<Rightarrow> path \<Rightarrow> string \<Rightarrow> string \<Rightarrow> path \<Rightarrow> string list \<Rightarrow> string list result" where
  "autodelete_extension_refs files app_dir app_ref runtime_ref runtime_dir installed =
     rbind (ExtensionParent_from_ref app_ref) (\<lambda>app.
     rbind (ExtensionParent_from_ref runtime_ref) (\<lambda>runtime.
     Inr (sort_dedup (autodelete_in files installed app_dir app @ autodelete_in files installed runtime_dir runtime))))"

section \<open>Checkouts\<close>

definition valid_relative_extension_path :: "string \<Rightarrow> bool" where
  "valid_relative_extension_path v \<longleftrightarrow> v \<noteq> [] \<and> list_all is_normal (parse_path v)"

definition runtime_checkout_dir :: "string \<Rightarrow> string" where
  "runtime_checkout_dir runtime_ref =
     (let parts = split_on slash runtime_ref;
          arch = (if 1 < length parts then parts ! 1 else ''unknown'');
          branch = (if 2 < length parts then parts ! 2 else ''stable'') in
      hd parts @ ''-'' @ arch @ ''-'' @ map (\<lambda>c. if c = slash then CHR ''_'' else c) branch)"

definition runtime_name :: "string \<Rightarrow> string option" where
  "runtime_name rname = map_option (\<lambda>partial. hd (split_on slash partial)) (strip_prefix rname ''runtime/'')"

definition check_marker :: "string \<Rightarrow> string \<Rightarrow> unit result" where
  "check_marker rname marker =
     (case lines marker of
        [] \<Rightarrow> Inl (Bail ''deployment marker missing ref'')
      | installed_ref # rest \<Rightarrow>
          if installed_ref \<noteq> rname
          then Inl (Bail (''deployment marker contains ref '' @ installed_ref @ '', expected '' @ rname))
          else if rest = [] \<or> rest ! 0 = [] then Inl (Bail ''deployment marker missing commit'')
          else if length rest < 2 then Inl (Bail ''deployment marker missing installed size'')
          else if parse_uint u64_max (rest ! 1) = None then Inl (Bail ''deployment marker has invalid installed size'')
          else if length rest < 3 \<or> rest ! 2 = [] then Inl (Bail ''deployment marker missing origin'')
          else Inr ())"

definition validate_extension_checkout :: "host_files \<Rightarrow> string \<Rightarrow> path \<Rightarrow> unit result" where
  "validate_extension_checkout files rname dir =
     with_context (''required extension '' @ rname @ '' is missing or corrupt at '' @ display_path dir)
       (if \<not> directory_at files dir then Inl (Bail ''checkout directory does not exist'')
        else
          rbind (ok_or (Bail ''read deployment marker'') (read_text files (dir @ [Normal ''.ostree-commit'']))) (\<lambda>marker.
          rbind (check_marker rname marker) (\<lambda>_.
          rbind (ok_or (Bail ''read extension metadata'') (read_text files (metadata_path dir))) (\<lambda>metadata.
          rbind (ok_or (Bail ''extension ref is not a runtime ref'') (runtime_name rname)) (\<lambda>expected_name.
          rbind (ok_or (Bail ''extension metadata is missing Runtime/name'') (metadata_value metadata ''Runtime'' ''name'')) (\<lambda>installed_name.
          if installed_name \<noteq> expected_name
          then Inl (Bail (''extension metadata contains name '' @ installed_name @ '', expected '' @ expected_name))
          else if \<not> directory_at files (dir @ [Normal ''files'']) then Inl (Bail ''files directory is missing'')
          else Inr ()))))))"


section \<open>Mount plans\<close>

datatype ExtensionScope = AppScope | RuntimeScope

fun scope_root :: "ExtensionScope \<Rightarrow> string" where
  "scope_root AppScope = ''app''"
| "scope_root RuntimeScope = ''usr''"

record ExtensionMergeMount =
  mm_target :: path
  mm_source_relative :: path

record ExtensionMount =
  em_name :: string
  em_ref_name :: string
  em_commit :: string
  em_checkout_dir :: path
  em_target :: path
  em_add_ld_paths :: "string list"
  em_merge_dirs :: "ExtensionMergeMount list"
  em_priority :: int
  em_scope :: ExtensionScope
  em_conditions :: "string list"

record FlatpakApp =
  fa_app_id :: string
  fa_app_dir :: path
  fa_runtime_ref :: string
  fa_runtime_dir :: path
  fa_command :: string
  fa_args :: "string list"

definition launch_enabled :: "ExtensionPoint \<Rightarrow> string \<Rightarrow> ExtensionFacts \<Rightarrow> bool" where
  "launch_enabled point rname facts \<longleftrightarrow>
     ep_enable_if point = [] \<or> matches_any facts (ep_enable_if point) (unwrap_or (runtime_name rname) [])"

definition subdirectory_of :: "ExtensionPoint \<Rightarrow> string \<Rightarrow> path result" where
  "subdirectory_of point rname =
     (if ep_subdirectories point
      then rbind (ok_or (Bail ''subdirectory extension ref does not extend its point name'')
             (strip_prefix (unwrap_or (runtime_name rname) []) (ep_name point @ ''.''))) (\<lambda>suffix. Inr (parse_path suffix))
      else Inr [])"

definition mount_target :: "ExtensionPoint \<Rightarrow> string \<Rightarrow> ExtensionScope \<Rightarrow> path result" where
  "mount_target point rname scope =
     rbind (ok_or (Bail ''extension point is missing directory'') (ep_directory point)) (\<lambda>directory.
     if \<not> valid_relative_extension_path directory
     then Inl (Bail (''invalid extension directory for '' @ ep_name point @ '': '' @ directory))
     else
       rbind (subdirectory_of point rname) (\<lambda>sub.
       let target = path_join (path_join [Normal (scope_root scope)] (parse_path directory)) sub in
       (case ep_subdirectory_suffix point of
          None \<Rightarrow> Inr target
        | Some suffix \<Rightarrow>
            if \<not> valid_relative_extension_path suffix
            then Inl (Bail (''invalid extension subdirectory suffix: '' @ suffix))
            else Inr (path_join target (parse_path suffix)))))"

definition ld_path :: "ExtensionPoint \<Rightarrow> path \<Rightarrow> string \<Rightarrow> string result" where
  "ld_path point target p =
     (if \<not> valid_relative_extension_path p then Inl (Bail (''invalid add-ld-path for '' @ ep_name point @ '': '' @ p))
      else Inr (display_path (path_join (path_join [RootDir] target) (parse_path p))))"

definition merge_mount :: "ExtensionPoint \<Rightarrow> ExtensionScope \<Rightarrow> string \<Rightarrow> ExtensionMergeMount result" where
  "merge_mount point scope dir =
     (if \<not> valid_relative_extension_path dir then Inl (Bail (''invalid merge-dirs path for '' @ ep_name point @ '': '' @ dir))
      else Inr \<lparr>mm_target = path_join (path_join [Normal (scope_root scope)] (parse_path (unwrap_or (ep_directory point) []))) (parse_path dir),
                mm_source_relative = parse_path dir\<rparr>)"

definition extension_priority :: "string \<Rightarrow> int" where
  "extension_priority metadata =
     (case metadata_value metadata ''ExtensionOf'' ''priority'' of
        None \<Rightarrow> 0
      | Some v \<Rightarrow> unwrap_or (parse_sint 32 v) 0)"

definition mount_conditions :: "ExtensionPoint \<Rightarrow> string \<Rightarrow> ExtensionFacts \<Rightarrow> string list" where
  "mount_conditions point rname facts =
     sort_dedup (filter (\<lambda>c. fact_matches facts c (unwrap_or (runtime_name rname) [])) (ep_enable_if point @ ep_download_if point))"

definition extension_mount ::
  "host_files \<Rightarrow> Installation \<Rightarrow> ExtensionFacts \<Rightarrow> ExtensionScope \<Rightarrow> RuntimeRecord \<Rightarrow> ExtensionPoint \<Rightarrow> string \<Rightarrow> ExtensionMount result" where
  "extension_mount files paths facts scope r point rname =
     (let dir = absolute_data_path paths (rr_runtime_dir r) in
      rbind (validate_extension_checkout files rname dir) (\<lambda>_.
      rbind (mount_target point rname scope) (\<lambda>target.
      rbind (traverse (ld_path point target)
        (filter (\<lambda>p. p \<noteq> []) (map trim (case ep_add_ld_path point of None \<Rightarrow> [] | Some ps \<Rightarrow> split_on (CHR '':'') ps)))) (\<lambda>ld_paths.
      rbind (traverse (merge_mount point scope) (ep_merge_dirs point)) (\<lambda>merges.
      Inr \<lparr>em_name = unwrap_or (runtime_name rname) (ep_name point), em_ref_name = rname, em_commit = rr_runtime_commit r,
           em_checkout_dir = dir, em_target = target, em_add_ld_paths = ld_paths, em_merge_dirs = merges,
           em_priority = extension_priority (unwrap_or (read_text files (metadata_path dir)) []),
           em_scope = scope, em_conditions = mount_conditions point rname facts\<rparr>)))))"

definition installed_by_ref :: "RuntimeRecord list \<Rightarrow> string \<Rightarrow> RuntimeRecord option" where
  "installed_by_ref rs = map_of (rev (map (\<lambda>r. (full_runtime_ref (rr_runtime_ref r), r)) rs))"

definition mount_for_ref ::
  "host_files \<Rightarrow> Installation \<Rightarrow> ExtensionFacts \<Rightarrow> RuntimeRecord list \<Rightarrow> ExtensionScope \<Rightarrow> ExtensionPoint list \<Rightarrow> ExtensionParent
     \<Rightarrow> string \<Rightarrow> ExtensionMount list result" where
  "mount_for_ref files paths facts installed scope points parent rname =
     (case point_for_ref points parent rname of
        None \<Rightarrow> Inr []
      | Some point \<Rightarrow>
          if \<not> launch_enabled point rname facts then Inr []
          else
            (case installed_by_ref installed rname of
               None \<Rightarrow> Inr []
             | Some r \<Rightarrow> rbind (extension_mount files paths facts scope r point rname) (\<lambda>m. Inr [m])))"

definition resolve_metadata_mounts ::
  "host_files \<Rightarrow> Installation \<Rightarrow> ExtensionFacts \<Rightarrow> RuntimeRecord list \<Rightarrow> path \<Rightarrow> string \<Rightarrow> ExtensionScope \<Rightarrow> ExtensionMount list result" where
  "resolve_metadata_mounts files paths facts installed parent_dir parent_ref scope =
     rbind (ok_or (Bail ''read extension metadata'') (read_text files (metadata_path parent_dir))) (\<lambda>metadata.
     rbind (ExtensionParent_from_ref parent_ref) (\<lambda>parent.
     let points = parse_extension_points metadata;
         available = sort_dedup (map (\<lambda>r. full_runtime_ref (rr_runtime_ref r)) installed) in
     rbind (traverse (mount_for_ref files paths facts installed scope points parent) (resolve_extension_refs points parent available))
       (\<lambda>ms. Inr (concat ms))))"

definition deployment_marker :: "host_files \<Rightarrow> path \<Rightarrow> (string \<times> string) option result" where
  "deployment_marker files dir =
     (case read_text files (dir @ [Normal ''.ostree-commit'']) of
        None \<Rightarrow> Inr None
      | Some marker \<Rightarrow>
          (case lines marker of
             [] \<Rightarrow> Inl (Bail ''deployment marker missing ref'')
           | [_] \<Rightarrow> Inl (Bail ''deployment marker missing commit'')
           | rname # commit # _ \<Rightarrow> Inr (Some (rname, commit))))"

text \<open>The fallback for a missing marker relies on the validated runtime reference of the application (\<^verbatim>\<open>expect\<close>).\<close>

definition launched_app_ref :: "host_files \<Rightarrow> FlatpakApp \<Rightarrow> string result" where
  "launched_app_ref files app =
     rbind (deployment_marker files (fa_app_dir app)) (\<lambda>marker.
     case marker of
       Some (rname, _) \<Rightarrow> Inr rname
     | None \<Rightarrow>
         rbind (ExtensionParent_from_ref (fa_runtime_ref app)) (\<lambda>parent.
         Inr (''app/'' @ fa_app_id app @ ''/'' @ xp_arch parent @ ''/'' @ xp_branch parent)))"

definition mount_key :: "ExtensionMount \<Rightarrow> nat \<times> path \<times> int \<times> string" where
  "mount_key m = (length (em_target m), em_target m, - em_priority m, em_ref_name m)"

definition resolve_extension_mount_plan ::
  "host_files \<Rightarrow> Installation \<Rightarrow> record_store \<Rightarrow> ExtensionFacts \<Rightarrow> FlatpakApp \<Rightarrow> ExtensionMount list result" where
  "resolve_extension_mount_plan files paths st facts app =
     rbind (launched_app_ref files app) (\<lambda>app_ref.
     rbind (list_runtimes st) (\<lambda>installed.
     rbind (resolve_metadata_mounts files paths facts installed (fa_runtime_dir app) (fa_runtime_ref app) RuntimeScope) (\<lambda>rs.
     rbind (resolve_metadata_mounts files paths facts installed (fa_app_dir app) app_ref AppScope) (\<lambda>as.
     Inr (sort_key mount_key (rs @ as))))))"

definition plan_refs :: "ExtensionMount list \<Rightarrow> string list" where
  "plan_refs ms = sort_dedup (map em_ref_name ms)"

definition checkout_dirs :: "ExtensionMount list \<Rightarrow> path list" where
  "checkout_dirs ms = sort_dedup (map em_checkout_dir ms)"

definition ld_library_paths :: "ExtensionScope \<Rightarrow> ExtensionMount list \<Rightarrow> string list" where
  "ld_library_paths scope ms = concat (map em_add_ld_paths (filter (\<lambda>m. em_scope m = scope) ms))"

definition conditioned_mount :: "string \<Rightarrow> ExtensionMount list \<Rightarrow> ExtensionMount option" where
  "conditioned_mount condition ms = find (\<lambda>m. condition \<in> set (em_conditions m)) ms"

definition is_debug_extension_name :: "string \<Rightarrow> bool" where
  "is_debug_extension_name name \<longleftrightarrow> ''Debug'' \<in> set (split_on (CHR ''.'') name)"

definition active_gl_mount :: "ExtensionMount list \<Rightarrow> ExtensionMount option" where
  "active_gl_mount ms =
     find (\<lambda>m. ''active-gl-driver'' \<in> set (em_conditions m) \<and> \<not> is_debug_extension_name (em_name m)) ms"

definition extension_info :: "ExtensionScope \<Rightarrow> ExtensionMount list \<Rightarrow> string list" where
  "extension_info scope ms = sort_dedup (map (\<lambda>m. em_name m @ ''='' @ em_commit m) (filter (\<lambda>m. em_scope m = scope) ms))"

section \<open>Merged directories\<close>

record Candidate =
  ca_priority :: int
  ca_ref_name :: string
  ca_source :: path

definition replaces :: "Candidate \<Rightarrow> Candidate \<Rightarrow> bool" where
  "replaces new current \<longleftrightarrow>
     ca_priority new > ca_priority current \<or> ca_priority new = ca_priority current \<and> ca_ref_name new < ca_ref_name current"

definition insert_candidate :: "path \<Rightarrow> Candidate \<Rightarrow> (path \<times> Candidate) list \<Rightarrow> (path \<times> Candidate) list" where
  "insert_candidate name c entries =
     (case map_of entries name of
        Some current \<Rightarrow> if replaces c current then bt_insert name c entries else entries
      | None \<Rightarrow> bt_insert name c entries)"

type_synonym merge_groups = "(path \<times> (path \<times> (path \<times> Candidate) list)) list"

definition merge_source :: "ExtensionMount \<Rightarrow> ExtensionMergeMount \<Rightarrow> path" where
  "merge_source m merge = path_join (em_checkout_dir m @ [Normal ''files'']) (mm_source_relative merge)"

definition merge_base :: "path \<Rightarrow> path \<Rightarrow> ExtensionMount \<Rightarrow> ExtensionMergeMount \<Rightarrow> path" where
  "merge_base app_dir runtime_dir m merge =
     path_join ((case em_scope m of AppScope \<Rightarrow> app_dir | RuntimeScope \<Rightarrow> runtime_dir) @ [Normal ''files'']) (tl (mm_target merge))"

definition merge_entry :: "ExtensionMount \<Rightarrow> ExtensionMergeMount \<Rightarrow> (path \<times> Candidate) list \<Rightarrow> string result \<Rightarrow> (path \<times> Candidate) list result" where
  "merge_entry m merge entries entry =
     rbind (with_context (''read merge directory '' @ display_path (merge_source m merge)) entry) (\<lambda>name.
     Inr (insert_candidate [Normal name]
       \<lparr>ca_priority = em_priority m, ca_ref_name = em_ref_name m, ca_source = merge_source m merge @ [Normal name]\<rparr> entries))"

definition merge_step :: "host_files \<Rightarrow> path \<Rightarrow> path \<Rightarrow> merge_groups \<Rightarrow> ExtensionMount \<times> ExtensionMergeMount \<Rightarrow> merge_groups result" where
  "merge_step files app_dir runtime_dir groups p =
     (let (m, merge) = p;
          (base, entries) = unwrap_or (map_of groups (mm_target merge)) (merge_base app_dir runtime_dir m merge, []) in
      rbind (case directory_entries files (merge_source m merge) of
               None \<Rightarrow> Inr entries
             | Some listed \<Rightarrow> fold_result (merge_entry m merge) entries listed) (\<lambda>entries.
      Inr (bt_insert (mm_target merge) (base, entries) groups)))"

record ExtensionMergeDirectory =
  md_target :: path
  md_base_source :: path
  md_entries :: "(path \<times> path) list"

definition merge_directories :: "host_files \<Rightarrow> path \<Rightarrow> path \<Rightarrow> ExtensionMount list \<Rightarrow> ExtensionMergeDirectory list result" where
  "merge_directories files app_dir runtime_dir ms =
     rbind (fold_result (merge_step files app_dir runtime_dir) []
        (concat (map (\<lambda>m. map (Pair m) (em_merge_dirs m)) ms))) (\<lambda>groups.
     Inr (sort_key (\<lambda>d. (length (md_target d), md_target d))
       (map (\<lambda>(target, base, entries). \<lparr>md_target = target, md_base_source = base,
              md_entries = map (\<lambda>(name, c). (name, ca_source c)) entries\<rparr>) groups)))"


section \<open>Resolution\<close>

lemma runtime_ref_parts_Some:
  assumes "runtime_ref_parts r = Some c"
  shows "r = runtime_candidate (rp_name c) (rp_arch c) (rp_branch c)" and "slash \<notin> set (rp_name c)" and "slash \<notin> set (rp_arch c)"
proof -
  obtain partial name arch rest where partial: "r = ''runtime/'' @ partial" and split: "split_on slash partial = name # arch # rest"
    and rest: "rest \<noteq> []" and c: "c = \<lparr>rp_name = name, rp_arch = arch, rp_branch = join_with ''/'' rest\<rparr>"
    using assms by (auto simp: runtime_ref_parts_def strip_prefix_Some_iff split: option.splits list.splits if_splits)
  have "partial = join_with ''/'' (name # arch # rest)" using join_split_on [of slash partial] split by simp
  then show "r = runtime_candidate (rp_name c) (rp_arch c) (rp_branch c)"
    using partial rest by (simp add: c runtime_candidate_def join_with_Cons)
  show "slash \<notin> set (rp_name c)" "slash \<notin> set (rp_arch c)"
    using split_on_no_sep [of _ slash partial] split by (simp_all add: c)
qed

lemma runtime_ref_parts_candidate:
  assumes "slash \<notin> set name" "slash \<notin> set arch"
  shows "runtime_ref_parts (runtime_candidate name arch branch) = Some \<lparr>rp_name = name, rp_arch = arch, rp_branch = branch\<rparr>"
proof -
  have "split_on slash (name @ ''/'' @ arch @ ''/'' @ branch) = name # arch # split_on slash branch"
    using assms by (simp add: split_on_append_sep)
  then show ?thesis
    unfolding runtime_ref_parts_def runtime_candidate_def strip_prefix_append option.case by simp
qed

lemma owner_of_Some:
  assumes "owner_of points parent r = Some i"
  obtains c where "runtime_ref_parts r = Some c" "rp_arch c = xp_arch parent" "i < length points" "serves (points ! i) parent c"
    "\<forall>j<length points. serves (points ! j) parent c \<longrightarrow> length (ep_name (points ! j)) \<le> length (ep_name (points ! i))"
proof -
  obtain c where c: "runtime_ref_parts r = Some c" "rp_arch c = xp_arch parent"
    and m: "max_by_key (\<lambda>i. length (ep_name (points ! i))) (filter (\<lambda>i. serves (points ! i) parent c) [0..<length points]) = Some i"
    using assms by (auto simp: owner_of_def split: option.splits if_splits)
  show ?thesis using max_by_key_Some [OF m] by (intro that [OF c]) auto
qed

lemma serves_name:
  assumes "serves point parent c"
  shows "rp_name c = ep_name point \<or> ep_subdirectories point \<and> starts_with (rp_name c) (ep_name point @ ''.'')"
  using assms by (auto simp: serves_def starts_with_iff strip_prefix_Some_iff split: option.splits)

lemma serves_no_slash: "serves point parent c \<Longrightarrow> slash \<notin> set (rp_name c) \<Longrightarrow> slash \<notin> set (ep_name point)"
  using serves_name by (fastforce simp: starts_with_iff)

lemma extension_names_member:
  assumes "runtime_ref_parts r = Some c" "r \<in> set available" "rp_arch c = xp_arch parent" "serves point parent c"
  shows "rp_name c \<in> set (extension_names point parent available)"
  using assms serves_name [OF assms(4)] by (force simp: extension_names_def map_filter_def)

lemma extension_names_no_slash:
  assumes "name \<in> set (extension_names point parent available)" "slash \<notin> set (ep_name point)"
  shows "slash \<notin> set name"
  using assms runtime_ref_parts_Some(2)
  by (auto simp: extension_names_def map_filter_def split: if_splits option.splits)

lemma resolve_point_Some:
  assumes "s \<in> set (resolve_point points parent available i)" "slash \<notin> set (xp_arch parent)"
  obtains c where "runtime_ref_parts s = Some c" "s \<in> set available" "owner_of points parent s = Some i"
    "rp_name c \<in> set (extension_names (points ! i) parent available)"
    "find (\<lambda>x. x \<in> set available \<and> owner_of points parent x = Some i)
       (map (runtime_candidate (rp_name c) (xp_arch parent)) (branches (points ! i) parent)) = Some s"
proof -
  obtain name where name: "name \<in> set (extension_names (points ! i) parent available)"
    and find: "find (\<lambda>x. x \<in> set available \<and> owner_of points parent x = Some i)
       (map (runtime_candidate name (xp_arch parent)) (branches (points ! i) parent)) = Some s"
    using assms(1) by (auto simp: resolve_point_def map_filter_def)
  then obtain b where s: "s \<in> set available" "owner_of points parent s = Some i" "s = runtime_candidate name (xp_arch parent) b"
    by (auto simp: find_Some_iff)
  obtain c where "runtime_ref_parts s = Some c" "serves (points ! i) parent c" by (rule owner_of_Some [OF s(2)])
  then have "slash \<notin> set (ep_name (points ! i))" using serves_no_slash runtime_ref_parts_Some(2) by blast
  then have "slash \<notin> set name" by (rule extension_names_no_slash [OF name])
  then have "runtime_ref_parts s = Some \<lparr>rp_name = name, rp_arch = xp_arch parent, rp_branch = b\<rparr>"
    using s(3) assms(2) by (simp add: runtime_ref_parts_candidate)
  then show ?thesis using that s(1,2) name find by simp
qed

lemma resolve_extension_refs_owned:
  assumes "s \<in> set (resolve_extension_refs points parent available)"
  shows "s \<in> set available \<and> (\<exists>i<length points. owner_of points parent s = Some i \<and> s \<in> set (resolve_point points parent available i))"
proof -
  obtain i where i: "i < length points" and s: "s \<in> set (resolve_point points parent available i)"
    using assms by (auto simp: resolve_extension_refs_def)
  obtain name where "find (\<lambda>x. x \<in> set available \<and> owner_of points parent x = Some i)
       (map (runtime_candidate name (xp_arch parent)) (branches (points ! i) parent)) = Some s"
    using s by (auto simp: resolve_point_def map_filter_def)
  then have "s \<in> set available \<and> owner_of points parent s = Some i" by (auto simp: find_Some_iff)
  then show ?thesis using i s by blast
qed

lemma owned_ref_found:
  assumes "r \<in> set available" and "owner_of points parent r = Some i" and "runtime_ref_parts r = Some c"
  obtains r' where "slash \<notin> set (xp_arch parent)" "slash \<notin> set (rp_name c)"
    "find (\<lambda>x. x \<in> set available \<and> owner_of points parent x = Some i)
       (map (runtime_candidate (rp_name c) (xp_arch parent)) (branches (points ! i) parent)) = Some r'"
    "r' \<in> set (resolve_extension_refs points parent available)"
proof -
  let ?P = "\<lambda>x. x \<in> set available \<and> owner_of points parent x = Some i"
  let ?cands = "map (runtime_candidate (rp_name c) (xp_arch parent)) (branches (points ! i) parent)"
  obtain d where "runtime_ref_parts r = Some d" "rp_arch d = xp_arch parent" "i < length points" "serves (points ! i) parent d"
    by (rule owner_of_Some [OF assms(2)])
  then have arch: "rp_arch c = xp_arch parent" and i: "i < length points" and serves: "serves (points ! i) parent c"
    using assms(3) by simp_all
  note r = runtime_ref_parts_Some [OF assms(3)]
  have name: "rp_name c \<in> set (extension_names (points ! i) parent available)"
    by (rule extension_names_member [OF assms(3,1) arch serves])
  have "r \<in> set ?cands" using r(1) arch serves by (auto simp: serves_def)
  then obtain r' where find: "find ?P ?cands = Some r'"
    using assms(1,2) by (cases "find ?P ?cands") (auto simp: find_None_iff)
  have "r' \<in> set (resolve_point points parent available i)"
    using name find by (force simp: resolve_point_def map_filter_def)
  then have "r' \<in> set (resolve_extension_refs points parent available)" using i by (auto simp: resolve_extension_refs_def)
  with r(3) arch show ?thesis using that [OF _ r(2) find] by simp
qed

lemma resolved_ref_is_found:
  assumes "s \<in> set (resolve_extension_refs points parent available)" "owner_of points parent s = Some i"
    and "map_option rp_name (runtime_ref_parts s) = Some name" and "slash \<notin> set (xp_arch parent)"
  shows "find (\<lambda>x. x \<in> set available \<and> owner_of points parent x = Some i)
       (map (runtime_candidate name (xp_arch parent)) (branches (points ! i) parent)) = Some s"
proof -
  have "s \<in> set (resolve_point points parent available i)" using resolve_extension_refs_owned [OF assms(1)] assms(2) by auto
  then obtain d where "runtime_ref_parts s = Some d"
    "find (\<lambda>x. x \<in> set available \<and> owner_of points parent x = Some i)
       (map (runtime_candidate (rp_name d) (xp_arch parent)) (branches (points ! i) parent)) = Some s"
    by (rule resolve_point_Some [OF _ assms(4)])
  then show ?thesis using assms(3) by simp
qed

text \<open>
  C28. An extension point gets the first available of its branches: for every available runtime reference that
  a point owns, exactly one reference of that name is resolved for the point, at the first branch in the order
  of the point that is available and owned by it; and whatever is resolved is available and owned by a point.
\<close>

theorem extension_refs_first_branch:
  assumes "r \<in> set available" and "owner_of points parent r = Some i" and "runtime_ref_parts r = Some c"
  shows "\<exists>r' before branch after.
      branches (points ! i) parent = before @ branch # after
      \<and> r' = runtime_candidate (rp_name c) (xp_arch parent) branch
      \<and> (\<forall>b\<in>set before. \<not> (runtime_candidate (rp_name c) (xp_arch parent) b \<in> set available
            \<and> owner_of points parent (runtime_candidate (rp_name c) (xp_arch parent) b) = Some i))
      \<and> {s \<in> set (resolve_extension_refs points parent available). owner_of points parent s = Some i
            \<and> map_option rp_name (runtime_ref_parts s) = Some (rp_name c)} = {r'}
      \<and> (\<forall>s\<in>set (resolve_extension_refs points parent available). s \<in> set available \<and> point_for_ref points parent s \<noteq> None)"
proof -
  let ?P = "\<lambda>x. x \<in> set available \<and> owner_of points parent x = Some i"
  let ?bs = "branches (points ! i) parent"
  let ?cands = "map (runtime_candidate (rp_name c) (xp_arch parent)) ?bs"
  obtain r' where slash: "slash \<notin> set (xp_arch parent)" "slash \<notin> set (rp_name c)" and find: "find ?P ?cands = Some r'"
    and resolved: "r' \<in> set (resolve_extension_refs points parent available)"
    by (rule owned_ref_found [OF assms])
  from find obtain k where k: "k < length ?cands" "?P (?cands ! k)" "r' = ?cands ! k" "\<forall>j<k. \<not> ?P (?cands ! j)"
    by (auto simp: find_Some_iff)
  have bs: "?bs = take k ?bs @ ?bs ! k # drop (Suc k) ?bs" using k(1) by (simp add: id_take_nth_drop)
  have r': "r' = runtime_candidate (rp_name c) (xp_arch parent) (?bs ! k)" using k(1,3) by simp
  have before: "\<not> ?P (runtime_candidate (rp_name c) (xp_arch parent) b)" if "b \<in> set (take k ?bs)" for b
    using that k(1,4) by (auto simp: in_set_conv_nth)
  have name': "map_option rp_name (runtime_ref_parts r') = Some (rp_name c)"
    using slash unfolding r' by (simp add: runtime_ref_parts_candidate)
  have owner': "owner_of points parent r' = Some i" using k(2) unfolding k(3) by (rule conjunct2)
  have only: "{s \<in> set (resolve_extension_refs points parent available). owner_of points parent s = Some i
            \<and> map_option rp_name (runtime_ref_parts s) = Some (rp_name c)} = {r'}"
  proof (rule equalityI; rule subsetI)
    fix s
    assume "s \<in> {s \<in> set (resolve_extension_refs points parent available). owner_of points parent s = Some i
            \<and> map_option rp_name (runtime_ref_parts s) = Some (rp_name c)}"
    then have "find ?P ?cands = Some s" by (intro resolved_ref_is_found [OF _ _ _ slash(1)]) simp_all
    then show "s \<in> {r'}" using find by simp
  qed (use resolved owner' name' in simp)
  have owned: "s \<in> set available \<and> point_for_ref points parent s \<noteq> None" if "s \<in> set (resolve_extension_refs points parent available)" for s
    using resolve_extension_refs_owned [OF that] by (auto simp: point_for_ref_def)
  show ?thesis
  proof (rule exI [of _ r'], rule exI [of _ "take k ?bs"], rule exI [of _ "?bs ! k"], rule exI [of _ "drop (Suc k) ?bs"], intro conjI ballI)
    show "?bs = take k ?bs @ ?bs ! k # drop (Suc k) ?bs" by (rule bs)
    show "r' = runtime_candidate (rp_name c) (xp_arch parent) (?bs ! k)" by (rule r')
  qed (fact before, fact only, use owned in blast, use owned in blast)
qed


section \<open>Mount plans\<close>

lemma split_on_append_general: "split_on c (a @ c # b) = split_on c a @ split_on c b"
proof (induction a)
  case (Cons x a)
  then show ?case by (cases "split_on c a"; cases "split_on c (a @ c # b)") auto
qed simp

lemma valid_id_segments: "valid_id name \<Longrightarrow> w \<in> set (split_on (CHR ''.'') name) \<Longrightarrow> w \<noteq> []"
proof -
  assume v: "valid_id name" and w: "w \<in> set (split_on (CHR ''.'') name)"
  have "split_on (CHR ''.'') name = butlast (split_on (CHR ''.'') name) @ [last (split_on (CHR ''.'') name)]" by simp
  then have "w \<in> set (butlast (split_on (CHR ''.'') name)) \<or> w = last (split_on (CHR ''.'') name)"
    using w by (metis in_set_conv_decomp_first Un_iff set_append empty_iff list.set(1) set_ConsD)
  then show "w \<noteq> []" using v by (auto simp: valid_id_def Let_def list_all_iff valid_segment_def)
qed

lemma valid_id_suffix_clean:
  assumes "valid_id (p @ ''.'' @ suffix)" "slash \<notin> set suffix"
  shows "clean_name suffix"
proof -
  have "w \<noteq> []" if "w \<in> set (split_on (CHR ''.'') suffix)" for w
    using valid_id_segments [OF assms(1), of w] that split_on_append_general [of "CHR ''.''" p suffix] by simp
  then have "suffix \<noteq> []" "suffix \<noteq> ''.''" "suffix \<noteq> ''..''" by auto
  then show ?thesis using assms(2) by (simp add: clean_name_def)
qed

lemma parse_path_clean_name: "clean_name s \<Longrightarrow> parse_path s = [Normal s]"
  by (auto simp: clean_name_def parse_path_def Let_def segment_components_def segment_component_def starts_with_iff)

text \<open>A relative path of ordinary names.\<close>

definition names_path :: "path \<Rightarrow> bool" where
  "names_path p \<longleftrightarrow> p \<noteq> [] \<and> list_all clean_component p"

lemma valid_relative_names:
  assumes "valid_relative_extension_path v"
  shows "names_path (parse_path v)"
proof -
  have normal: "list_all is_normal (parse_path v)" and "v \<noteq> []" using assms by (simp_all add: valid_relative_extension_path_def)
  have "list_all clean_component (parse_path v)"
    using normal parse_path_components [of _ v] by (fastforce simp: list_all_iff)
  moreover have "parse_path v \<noteq> []"
  proof
    assume empty: "parse_path v = []"
    then have segs: "\<forall>w\<in>set (split_on slash v). w = [] \<or> w = ''.''" and start: "\<not> starts_with v ''/''" "hd (split_on slash v) \<noteq> ''.''"
      by (auto simp: parse_path_def Let_def segment_components_def filter_empty_conv split: if_splits)
    obtain w ws where split: "split_on slash v = w # ws" by (rule split_on_obtain)
    then have "w = []" using segs start(2) by auto
    then have "v = (if ws = [] then [] else ''/'' @ join_with ''/'' ws)"
      using join_split_on [of slash v] split by (simp add: join_with_Cons split: if_splits)
    then show False using \<open>v \<noteq> []\<close> start(1) by (auto simp: starts_with_iff split: if_splits)
  qed
  ultimately show ?thesis by (simp add: names_path_def)
qed

lemma names_path_not_special: "names_path q \<Longrightarrow> \<not> is_absolute q \<and> hd q \<noteq> CurDir"
  by (cases q) (auto simp: names_path_def is_absolute_def)

lemma names_path_join: "names_path p \<Longrightarrow> names_path q \<Longrightarrow> path_join p q = p @ q"
  using names_path_not_special [of q] by (simp add: path_join_def names_path_def)

lemma names_path_append: "names_path p \<Longrightarrow> names_path q \<Longrightarrow> names_path (p @ q)"
  by (simp add: names_path_def)

text \<open>A target under the root directory of a scope.\<close>

definition under_scope :: "ExtensionScope \<Rightarrow> path \<Rightarrow> bool" where
  "under_scope scope p \<longleftrightarrow> (\<exists>q. names_path q \<and> p = Normal (scope_root scope) # q)"

lemma scope_root_names: "names_path [Normal (scope_root scope)]"
  by (cases scope) (simp_all add: names_path_def clean_name_def)

lemma under_scope_join: "names_path q \<Longrightarrow> under_scope scope (path_join [Normal (scope_root scope)] q)"
  by (auto simp: under_scope_def names_path_join [OF scope_root_names])

lemma under_scope_names: "under_scope scope p \<Longrightarrow> names_path p"
  using names_path_append [OF scope_root_names] by (auto simp: under_scope_def)

lemma under_scope_extend:
  assumes "under_scope scope p" "q = [] \<or> names_path q"
  shows "under_scope scope (path_join p q)"
proof (cases "q = []")
  case True
  then show ?thesis using assms(1) by (auto simp: under_scope_def path_join_def is_absolute_def)
next
  case False
  then show ?thesis using assms names_path_append by (auto simp: under_scope_def names_path_join [OF under_scope_names [OF assms(1)]])
qed

lemma subdirectory_of_names:
  assumes "subdirectory_of point rname = Inr sub" "runtime_name rname = Some n" "valid_id n" "slash \<notin> set n"
  shows "sub = [] \<or> names_path sub"
proof (cases "ep_subdirectories point")
  case True
  then obtain suffix where n: "n = ep_name point @ ''.'' @ suffix" and sub: "sub = parse_path suffix"
    using assms(1,2) by (auto simp: subdirectory_of_def unwrap_or_def rbind_Inr_iff strip_prefix_Some_iff)
  have "clean_name suffix" using valid_id_suffix_clean assms(3,4) unfolding n by simp
  then show ?thesis using sub by (simp add: parse_path_clean_name names_path_def)
qed (use assms(1) in \<open>simp add: subdirectory_of_def\<close>)

lemma mount_target_under_scope:
  assumes "mount_target point rname scope = Inr target" "runtime_name rname = Some n" "valid_id n" "slash \<notin> set n"
  shows "under_scope scope target"
proof -
  obtain directory sub where dir: "valid_relative_extension_path directory" and sub: "subdirectory_of point rname = Inr sub"
    and target: "(case ep_subdirectory_suffix point of
          None \<Rightarrow> Inr (path_join (path_join [Normal (scope_root scope)] (parse_path directory)) sub)
        | Some suffix \<Rightarrow>
            if \<not> valid_relative_extension_path suffix
            then Inl (Bail (''invalid extension subdirectory suffix: '' @ suffix))
            else Inr (path_join (path_join (path_join [Normal (scope_root scope)] (parse_path directory)) sub) (parse_path suffix))) = Inr target"
    using assms(1) by (auto simp: mount_target_def rbind_Inr_iff guard_Inr_iff Let_def)
  have "under_scope scope (path_join [Normal (scope_root scope)] (parse_path directory))"
    by (rule under_scope_join [OF valid_relative_names [OF dir]])
  then have "under_scope scope (path_join (path_join [Normal (scope_root scope)] (parse_path directory)) sub)"
    by (rule under_scope_extend) (rule subdirectory_of_names [OF sub assms(2-4)])
  then show ?thesis using target valid_relative_names under_scope_extend by (auto split: option.splits if_splits)
qed


lemma full_runtime_ref_name: "runtime_name (full_runtime_ref r) = Some (hd (split_on slash r))"
  unfolding runtime_name_def full_runtime_ref_def strip_prefix_append by simp

lemma hd_split_no_slash: "slash \<notin> set (hd (split_on slash r))"
  using split_on_no_sep [of "hd (split_on slash r)" slash r] by simp

text \<open>
  What a mount of a plan is: a record of an installed runtime whose checkout was validated, and targets below the
  root of its scope.
\<close>

definition mount_confined :: "host_files \<Rightarrow> Installation \<Rightarrow> RuntimeRecord list \<Rightarrow> ExtensionMount \<Rightarrow> bool" where
  "mount_confined files paths rs m \<longleftrightarrow>
     under_scope (em_scope m) (em_target m)
     \<and> (\<forall>d\<in>set (em_merge_dirs m). under_scope (em_scope m) (mm_target d) \<and> names_path (mm_source_relative d))
     \<and> (\<exists>r\<in>set rs. em_ref_name m = full_runtime_ref (rr_runtime_ref r) \<and> em_commit m = rr_runtime_commit r
          \<and> em_checkout_dir m = absolute_data_path paths (rr_runtime_dir r))
     \<and> validate_extension_checkout files (em_ref_name m) (em_checkout_dir m) = Inr ()"

lemma merge_mount_under_scope:
  assumes "merge_mount point scope dir = Inr d" "ep_directory point = Some directory" "valid_relative_extension_path directory"
  shows "under_scope scope (mm_target d) \<and> names_path (mm_source_relative d)"
proof -
  have dir: "valid_relative_extension_path dir"
    and d: "d = \<lparr>mm_target = path_join (path_join [Normal (scope_root scope)] (parse_path directory)) (parse_path dir),
                mm_source_relative = parse_path dir\<rparr>"
    using assms(1,2) by (auto simp: merge_mount_def unwrap_or_def split: if_splits)
  show ?thesis unfolding d using under_scope_extend [OF under_scope_join] valid_relative_names [OF dir] valid_relative_names [OF assms(3)] by simp
qed

lemma mount_target_directory:
  assumes "mount_target point rname scope = Inr target"
  obtains directory where "ep_directory point = Some directory" "valid_relative_extension_path directory"
  using assms by (auto simp: mount_target_def rbind_Inr_iff guard_Inr_iff)

lemma installed_by_ref_Some:
  "installed_by_ref rs rname = Some r \<Longrightarrow> r \<in> set rs \<and> rname = full_runtime_ref (rr_runtime_ref r)"
  unfolding installed_by_ref_def by (drule map_of_SomeD) auto

lemma extension_mount_confined:
  assumes "extension_mount files paths facts scope r point rname = Inr m" "r \<in> set rs"
    and "rname = full_runtime_ref (rr_runtime_ref r)" "valid_id (hd (split_on slash (rr_runtime_ref r)))"
  shows "mount_confined files paths rs m"
proof -
  obtain target merges where checkout: "validate_extension_checkout files rname (absolute_data_path paths (rr_runtime_dir r)) = Inr ()"
    and target: "mount_target point rname scope = Inr target" and merges: "traverse (merge_mount point scope) (ep_merge_dirs point) = Inr merges"
    and m: "em_target m = target" "em_merge_dirs m = merges" "em_scope m = scope" "em_ref_name m = rname" "em_commit m = rr_runtime_commit r"
      "em_checkout_dir m = absolute_data_path paths (rr_runtime_dir r)"
    using assms(1) by (auto simp: extension_mount_def Let_def rbind_Inr_iff)
  obtain directory where directory: "ep_directory point = Some directory" "valid_relative_extension_path directory"
    by (rule mount_target_directory [OF target])
  have "runtime_name rname = Some (hd (split_on slash (rr_runtime_ref r)))" by (simp add: assms(3) full_runtime_ref_name)
  then have "under_scope scope target" by (rule mount_target_under_scope [OF target _ assms(4) hd_split_no_slash])
  moreover have "under_scope scope (mm_target d) \<and> names_path (mm_source_relative d)" if "d \<in> set merges" for d
  proof -
    from that merges obtain dir where "merge_mount point scope dir = Inr d"
      by (auto simp: traverse_Inr_iff list_all2_conv_all_nth in_set_conv_nth)
    then show ?thesis by (rule merge_mount_under_scope [OF _ directory])
  qed
  ultimately show ?thesis using m checkout assms(2,3) by (auto simp: mount_confined_def)
qed

lemma mount_for_ref_confined:
  assumes "mount_for_ref files paths facts rs scope points parent rname = Inr ms" "m \<in> set ms"
    and "\<forall>r\<in>set rs. valid_id (hd (split_on slash (rr_runtime_ref r)))"
  shows "mount_confined files paths rs m \<and> em_scope m = scope"
proof -
  obtain point r where r: "installed_by_ref rs rname = Some r" and m: "extension_mount files paths facts scope r point rname = Inr m"
    using assms(1,2) by (auto simp: mount_for_ref_def rbind_Inr_iff split: option.splits if_splits)
  have "em_scope m = scope" using m by (auto simp: extension_mount_def Let_def rbind_Inr_iff)
  then show ?thesis
    using extension_mount_confined [OF m] installed_by_ref_Some [OF r] assms(3) by blast
qed

lemma resolve_metadata_mounts_confined:
  assumes "resolve_metadata_mounts files paths facts rs dir parent_ref scope = Inr ms" "m \<in> set ms"
    and "\<forall>r\<in>set rs. valid_id (hd (split_on slash (rr_runtime_ref r)))"
  shows "mount_confined files paths rs m \<and> em_scope m = scope"
proof -
  obtain points parent refs mss where mss: "traverse (mount_for_ref files paths facts rs scope points parent) refs = Inr mss" "ms = concat mss"
    using assms(1) by (auto simp: resolve_metadata_mounts_def Let_def rbind_Inr_iff)
  from mss(2) assms(2) obtain xs where xs: "xs \<in> set mss" "m \<in> set xs" by auto
  from mss(1) xs(1) obtain rname where "mount_for_ref files paths facts rs scope points parent rname = Inr xs"
    by (auto simp: traverse_Inr_iff list_all2_conv_all_nth in_set_conv_nth)
  then show ?thesis using xs(2) assms(3) by (rule mount_for_ref_confined)
qed

lemma sorted_plan_outer_first:
  assumes "i < j" "j < length ms" "starts_with (em_target (sort_key mount_key ms ! i)) (em_target (sort_key mount_key ms ! j))"
  shows "em_target (sort_key mount_key ms ! i) = em_target (sort_key mount_key ms ! j)"
proof -
  have "mount_key (sort_key mount_key ms ! i) \<le> mount_key (sort_key mount_key ms ! j)"
    using sorted_nth_mono [OF sorted_sort_key [of mount_key ms], of i j] assms by simp
  then have "length (em_target (sort_key mount_key ms ! i)) \<le> length (em_target (sort_key mount_key ms ! j))"
    by (auto simp: mount_key_def less_eq_prod_def)
  then show ?thesis using assms(3) by (auto simp: starts_with_iff)
qed



section \<open>An example installation\<close>

definition gl_record :: RuntimeRecord where
  "gl_record = \<lparr>rr_origin = ''hub'', rr_runtime_ref = ''org.a.Gl.mesa/x86/1'', rr_runtime_commit = ''c'', rr_installed_size = 1,
     rr_explicit = True, rr_runtime_dir = [Normal ''r'', Normal ''m'']\<rparr>"

definition gl_store :: record_store where
  "gl_store = \<lparr>app_files = [], runtime_files = [runtime_file gl_record]\<rparr>"

definition text_lines :: "string list \<Rightarrow> string" where
  "text_lines ls = concat (map (\<lambda>l. l @ [newline]) ls)"

definition gl_metadata :: string where
  "gl_metadata = text_lines [''[Extension org.a.Gl]'', ''directory=lib/gl'', ''subdirectories=true'', ''versions=2;1'', ''merge-dirs=share'']"

definition gl_marker :: string where
  "gl_marker = text_lines [''runtime/org.a.Gl.mesa/x86/1'', ''c'', ''1'', ''hub'']"

definition gl_paths :: Installation where
  "gl_paths = \<lparr>data_home = [RootDir, Normal ''h''], data_root = [RootDir, Normal ''d''], cache_root = [RootDir, Normal ''k''],
     runtime_root = [RootDir, Normal ''u''], app_data_root = [RootDir, Normal ''v''], launcher = [RootDir, Normal ''l''], libexec_root = [RootDir, Normal ''x'']\<rparr>"

definition gl_dir :: path where
  "gl_dir = [RootDir, Normal ''d'', Normal ''r'', Normal ''m'']"

definition gl_app :: FlatpakApp where
  "gl_app = \<lparr>fa_app_id = ''org.a.App'', fa_app_dir = [RootDir, Normal ''a''], fa_runtime_ref = ''runtime/org.a.P/x86/1'', fa_runtime_dir = [RootDir, Normal ''p''],
     fa_command = ''app'', fa_args = []\<rparr>"

definition gl_files :: host_files where
  "gl_files = \<lparr>read_text = map_of [([RootDir, Normal ''a'', Normal ''metadata''], gl_metadata), ([RootDir, Normal ''p'', Normal ''metadata''], []),
       ([RootDir, Normal ''a'', Normal ''.ostree-commit''], text_lines [''app/org.a.App/x86/1'', ''k'']),
       (gl_dir @ [Normal ''.ostree-commit''], gl_marker), (gl_dir @ [Normal ''metadata''], text_lines [''[Runtime]'', ''name=org.a.Gl.mesa''])],
     directory_at = (\<lambda>p. p = gl_dir \<or> p = gl_dir @ [Normal ''files'']),
     directory_entries = (\<lambda>_. None)\<rparr>"

definition gl_facts :: ExtensionFacts where
  "gl_facts = \<lparr>active_gl_drivers = [''default''], active_gtk_theme = None, intel_gpu = False, kernel_modules = [], xdg_desktops = []\<rparr>"

definition gl_mount :: ExtensionMount where
  "gl_mount = \<lparr>em_name = ''org.a.Gl.mesa'', em_ref_name = ''runtime/org.a.Gl.mesa/x86/1'', em_commit = ''c'', em_checkout_dir = gl_dir,
     em_target = [Normal ''app'', Normal ''lib'', Normal ''gl'', Normal ''mesa''], em_add_ld_paths = [],
     em_merge_dirs = [\<lparr>mm_target = [Normal ''app'', Normal ''lib'', Normal ''gl'', Normal ''share''], mm_source_relative = [Normal ''share'']\<rparr>],
     em_priority = 0, em_scope = AppScope, em_conditions = []\<rparr>"

lemma gl_runtimes: "list_runtimes gl_store = Inr [gl_record]"
proof -
  have "recordable_runtime gl_record"
    unfolding recordable_runtime_def record_path_def
  proof (intro conjI)
    show "rr_installed_size gl_record \<le> u64_max" by (simp add: gl_record_def)
  qed code_simp+
  then have "traverse (\<lambda>(n, data). read_runtime data) (map runtime_file [gl_record]) = Inr [gl_record]"
    by (intro traverse_runtime_files) simp
  then show ?thesis by (simp add: list_runtimes_def gl_store_def)
qed

lemma parse_uint_one: "parse_uint u64_max ''1'' = Some 1"
proof -
  have "nat_digits 1 = ''1''" by code_simp
  then show ?thesis using parse_uint_nat_digits [of u64_max 1] by simp
qed

lemma gl_checkout: "validate_extension_checkout gl_files ''runtime/org.a.Gl.mesa/x86/1'' gl_dir = Inr ()"
proof -
  have lines: "lines gl_marker = [''runtime/org.a.Gl.mesa/x86/1'', ''c'', ''1'', ''hub'']" by code_simp
  have marker: "check_marker ''runtime/org.a.Gl.mesa/x86/1'' gl_marker = Inr ()"
    unfolding check_marker_def lines list.case using parse_uint_one by simp
  have "read_text gl_files (gl_dir @ [Normal ''.ostree-commit'']) = Some gl_marker"
    "read_text gl_files (metadata_path gl_dir) = Some (text_lines [''[Runtime]'', ''name=org.a.Gl.mesa''])"
    "directory_at gl_files gl_dir" "directory_at gl_files (gl_dir @ [Normal ''files''])"
    "metadata_value (text_lines [''[Runtime]'', ''name=org.a.Gl.mesa'']) ''Runtime'' ''name'' = Some ''org.a.Gl.mesa''"
    "runtime_name ''runtime/org.a.Gl.mesa/x86/1'' = Some ''org.a.Gl.mesa''"
    by code_simp+
  then show ?thesis using marker by (simp add: validate_extension_checkout_def)
qed

definition gl_point :: ExtensionPoint where
  "gl_point = ExtensionPoint_parse gl_metadata ''Extension org.a.Gl''"

lemma gl_mount_ok: "extension_mount gl_files gl_paths gl_facts AppScope gl_record gl_point ''runtime/org.a.Gl.mesa/x86/1'' = Inr gl_mount"
proof -
  have dir: "absolute_data_path gl_paths (rr_runtime_dir gl_record) = gl_dir" by code_simp
  show ?thesis unfolding extension_mount_def dir gl_checkout Let_def rbind_simps by code_simp
qed


lemma gl_metadata_mounts:
  "resolve_metadata_mounts gl_files gl_paths gl_facts [gl_record] (fa_app_dir gl_app) ''app/org.a.App/x86/1'' AppScope = Inr [gl_mount]"
  "resolve_metadata_mounts gl_files gl_paths gl_facts [gl_record] (fa_runtime_dir gl_app) (fa_runtime_ref gl_app) RuntimeScope = Inr []"
proof -
  let ?parent = "\<lparr>xp_arch = ''x86'', xp_branch = ''1''\<rparr>" and ?r = "''runtime/org.a.Gl.mesa/x86/1''"
  have app: "read_text gl_files (metadata_path (fa_app_dir gl_app)) = Some gl_metadata"
    "ExtensionParent_from_ref ''app/org.a.App/x86/1'' = Inr ?parent"
    "resolve_extension_refs (parse_extension_points gl_metadata) ?parent (sort_dedup (map (\<lambda>r. full_runtime_ref (rr_runtime_ref r)) [gl_record])) = [?r]"
    "point_for_ref (parse_extension_points gl_metadata) ?parent ?r = Some gl_point"
    "launch_enabled gl_point ?r gl_facts" "installed_by_ref [gl_record] ?r = Some gl_record"
    by code_simp+
  have "mount_for_ref gl_files gl_paths gl_facts [gl_record] AppScope (parse_extension_points gl_metadata) ?parent ?r = Inr [gl_mount]"
    using gl_mount_ok app(4-6) by (simp only: mount_for_ref_def option.case not_not if_True simp_thms if_False rbind_simps)
  then show "resolve_metadata_mounts gl_files gl_paths gl_facts [gl_record] (fa_app_dir gl_app) ''app/org.a.App/x86/1'' AppScope = Inr [gl_mount]"
    using app(1-3) by (simp only: resolve_metadata_mounts_def Let_def ok_or_simps rbind_simps traverse.simps concat.simps append.simps)
  show "resolve_metadata_mounts gl_files gl_paths gl_facts [gl_record] (fa_runtime_dir gl_app) (fa_runtime_ref gl_app) RuntimeScope = Inr []"
    by code_simp
qed

lemma gl_plan: "resolve_extension_mount_plan gl_files gl_paths gl_store gl_facts gl_app = Inr [gl_mount]"
proof -
  have "launched_app_ref gl_files gl_app = Inr ''app/org.a.App/x86/1''" by code_simp
  then show ?thesis
    by (simp add: resolve_extension_mount_plan_def gl_runtimes gl_metadata_mounts)
qed


theorem extension_refs_first_branch_witness:
  "resolve_extension_refs [gl_point] \<lparr>xp_arch = ''x86'', xp_branch = ''1''\<rparr>
     [''runtime/org.a.Gl.mesa/x86/1'', ''runtime/org.a.Gl.mesa/x86/2'', ''runtime/org.a.Gl.mesa/x86/3''] = [''runtime/org.a.Gl.mesa/x86/2'']
   \<and> (\<exists>before branch after. branches gl_point \<lparr>xp_arch = ''x86'', xp_branch = ''1''\<rparr> = before @ branch # after
      \<and> ''runtime/org.a.Gl.mesa/x86/2'' = runtime_candidate ''org.a.Gl.mesa'' ''x86'' branch)"
proof -
  let ?avail = "[''runtime/org.a.Gl.mesa/x86/1'', ''runtime/org.a.Gl.mesa/x86/2'', ''runtime/org.a.Gl.mesa/x86/3'']"
  let ?parent = "\<lparr>xp_arch = ''x86'', xp_branch = ''1''\<rparr>"
  have owner: "owner_of [gl_point] ?parent (?avail ! 0) = Some 0" by code_simp
  have parts: "runtime_ref_parts (?avail ! 0) = Some \<lparr>rp_name = ''org.a.Gl.mesa'', rp_arch = ''x86'', rp_branch = ''1''\<rparr>" by code_simp
  have resolved: "resolve_extension_refs [gl_point] ?parent ?avail = [?avail ! 1]" by code_simp
  have "?avail ! 0 \<in> set ?avail" by simp
  note first = extension_refs_first_branch [OF this owner parts, unfolded resolved, simplified RuntimeRefParts.simps ExtensionParent.simps nth_Cons_0]
  then obtain r' before branch after
    where br: "branches gl_point ?parent = before @ branch # after" and r': "r' = runtime_candidate ''org.a.Gl.mesa'' ''x86'' branch"
      and only: "{s \<in> set [?avail ! 1]. owner_of [gl_point] ?parent s = Some 0 \<and> map_option rp_name (runtime_ref_parts s) = Some ''org.a.Gl.mesa''} = {r'}"
    by (elim exE conjE) (rule that)
  have "r' \<in> {s \<in> set [?avail ! 1]. owner_of [gl_point] ?parent s = Some 0 \<and> map_option rp_name (runtime_ref_parts s) = Some ''org.a.Gl.mesa''}"
    unfolding only by (rule singletonI)
  then have "r' = ?avail ! 1" by (simp only: mem_Collect_eq list.set insert_iff empty_iff simp_thms)
  then have "''runtime/org.a.Gl.mesa/x86/2'' = runtime_candidate ''org.a.Gl.mesa'' ''x86'' branch" using r' by simp
  then show ?thesis using br resolved by (intro conjI exI) simp_all
qed


section \<open>Merged directories\<close>

text \<open>Candidates are compared by descending priority, then by reference.\<close>

definition candidate_key :: "Candidate \<Rightarrow> int \<times> string" where
  "candidate_key c = (- ca_priority c, ca_ref_name c)"

lemma replaces_iff: "replaces new current \<longleftrightarrow> candidate_key new < candidate_key current"
  by (auto simp: replaces_def candidate_key_def less_prod_def)

lemma candidate_key_le:
  "candidate_key c \<le> candidate_key d \<longleftrightarrow>
     ca_priority d < ca_priority c \<or> ca_priority d = ca_priority c \<and> ca_ref_name c \<le> ca_ref_name d"
  by (auto simp: candidate_key_def)

text \<open>What the directory of one extension offers for a merged directory, and all that is offered for a target.\<close>

definition offered :: "host_files \<Rightarrow> ExtensionMount \<times> ExtensionMergeMount \<Rightarrow> (path \<times> Candidate) list" where
  "offered files p =
     (let (m, merge) = p in
      map (\<lambda>name. ([Normal name], \<lparr>ca_priority = em_priority m, ca_ref_name = em_ref_name m, ca_source = merge_source m merge @ [Normal name]\<rparr>))
        (case directory_entries files (merge_source m merge) of
           None \<Rightarrow> []
         | Some listed \<Rightarrow> List.map_filter (\<lambda>e. case e of Inl _ \<Rightarrow> None | Inr name \<Rightarrow> Some name) listed))"

definition merge_pairs :: "ExtensionMount list \<Rightarrow> (ExtensionMount \<times> ExtensionMergeMount) list" where
  "merge_pairs ms = concat (map (\<lambda>m. map (Pair m) (em_merge_dirs m)) ms)"

definition offered_for :: "host_files \<Rightarrow> (ExtensionMount \<times> ExtensionMergeMount) list \<Rightarrow> path \<Rightarrow> (path \<times> Candidate) list" where
  "offered_for files ps target = concat (map (offered files) (filter (\<lambda>(m, merge). mm_target merge = target) ps))"

text \<open>The entries hold, for every offered name and for no other, a best candidate of that name.\<close>

definition best_entries :: "(path \<times> Candidate) list \<Rightarrow> (path \<times> Candidate) list \<Rightarrow> bool" where
  "best_entries cs entries \<longleftrightarrow> bt_sorted entries \<and> fst ` set cs = dom (map_of entries)
     \<and> (\<forall>name c. map_of entries name = Some c \<longrightarrow>
          (name, c) \<in> set cs \<and> (\<forall>c'. (name, c') \<in> set cs \<longrightarrow> candidate_key c \<le> candidate_key c'))"

lemma best_entries_Nil: "best_entries [] []"
  by (simp add: best_entries_def)

lemma best_entries_insert:
  assumes "best_entries cs entries"
  shows "best_entries (cs @ [(name, c)]) (insert_candidate name c entries)"
proof -
  have sorted: "bt_sorted entries" and names: "fst ` set cs = dom (map_of entries)"
    and best: "\<And>n d. map_of entries n = Some d \<Longrightarrow> (n, d) \<in> set cs \<and> (\<forall>c'. (n, c') \<in> set cs \<longrightarrow> candidate_key d \<le> candidate_key c')"
    using assms by (auto simp: best_entries_def)
  have new: "\<And>c'. (name, c') \<notin> set cs" if "map_of entries name = None" using that names by force
  show ?thesis
  proof (cases "map_of entries name")
    case None
    then have "insert_candidate name c entries = bt_insert name c entries" by (simp add: insert_candidate_def)
    then show ?thesis unfolding best_entries_def using sorted names best new [OF None]
      by (auto simp: bt_sorted_insert map_of_bt_insert split: if_splits)
  next
    case (Some d)
    show ?thesis
    proof (cases "replaces c d")
      case True
      then have "insert_candidate name c entries = bt_insert name c entries" using Some by (simp add: insert_candidate_def)
      moreover have "candidate_key c \<le> candidate_key c'" if "(name, c') \<in> set cs" for c'
        using best [OF Some] that True by (meson less_le_trans less_imp_le replaces_iff)
      ultimately show ?thesis unfolding best_entries_def using sorted names best
        by (auto simp: bt_sorted_insert map_of_bt_insert split: if_splits)
    next
      case False
      then have "insert_candidate name c entries = entries" using Some by (simp add: insert_candidate_def)
      moreover have "candidate_key d \<le> candidate_key c" using False by (simp add: replaces_iff)
      ultimately show ?thesis unfolding best_entries_def using sorted names best Some by (auto simp: dom_def)
    qed
  qed
qed

lemma merge_entry_Inr:
  "merge_entry m merge entries (Inr name) = Inr (insert_candidate [Normal name]
     \<lparr>ca_priority = em_priority m, ca_ref_name = em_ref_name m, ca_source = merge_source m merge @ [Normal name]\<rparr> entries)"
  by (simp add: merge_entry_def)

lemma fold_merge_entry_best:
  assumes "fold_result (merge_entry m merge) entries listed = Inr entries'" "best_entries cs entries"
  shows "best_entries (cs @ map (\<lambda>name. ([Normal name], \<lparr>ca_priority = em_priority m, ca_ref_name = em_ref_name m,
      ca_source = merge_source m merge @ [Normal name]\<rparr>))
        (List.map_filter (\<lambda>e. case e of Inl _ \<Rightarrow> None | Inr name \<Rightarrow> Some name) listed)) entries'"
  using assms
proof (induction listed arbitrary: cs entries)
  case (Cons e listed)
  then obtain name where e: "e = Inr name" by (cases e) (simp_all add: merge_entry_def)
  let ?c = "\<lparr>ca_priority = em_priority m, ca_ref_name = em_ref_name m, ca_source = merge_source m merge @ [Normal name]\<rparr>"
  have "fold_result (merge_entry m merge) (insert_candidate [Normal name] ?c entries) listed = Inr entries'"
    using Cons.prems(1) by (simp add: e merge_entry_Inr)
  from Cons.IH [OF this best_entries_insert [OF Cons.prems(2)]] show ?case
    by (simp add: e map_filter_simps)
qed (simp add: map_filter_simps)

definition best_groups :: "host_files \<Rightarrow> (ExtensionMount \<times> ExtensionMergeMount) list \<Rightarrow> merge_groups \<Rightarrow> bool" where
  "best_groups files ps groups \<longleftrightarrow> bt_sorted groups \<and> dom (map_of groups) = (\<lambda>(m, merge). mm_target merge) ` set ps
     \<and> (\<forall>target base entries. map_of groups target = Some (base, entries) \<longrightarrow> best_entries (offered_for files ps target) entries)"

lemma merge_step_best:
  assumes "merge_step files app_dir runtime_dir groups p = Inr groups'" "best_groups files ps groups"
  shows "best_groups files (ps @ [p]) groups'"
proof -
  obtain m merge where p: "p = (m, merge)" by (cases p)
  obtain base entries where old: "unwrap_or (map_of groups (mm_target merge)) (merge_base app_dir runtime_dir m merge, []) = (base, entries)"
    by fastforce
  have "best_entries (offered_for files ps (mm_target merge)) entries"
  proof (cases "map_of groups (mm_target merge)")
    case None
    then have "mm_target merge \<notin> dom (map_of groups)" by (simp add: domIff)
    then have "mm_target merge \<notin> (\<lambda>(m, merge). mm_target merge) ` set ps" using assms(2) unfolding best_groups_def by simp
    then have "filter (\<lambda>(m, mg). mm_target mg = mm_target merge) ps = []" by (force simp: filter_empty_conv)
    moreover have "entries = []" using old None by (simp add: unwrap_or_def)
    ultimately show ?thesis by (simp add: offered_for_def best_entries_Nil)
  next
    case (Some g)
    then show ?thesis using old assms(2) by (simp add: best_groups_def unwrap_or_def)
  qed
  moreover obtain entries' where entries': "(case directory_entries files (merge_source m merge) of
               None \<Rightarrow> Inr entries | Some listed \<Rightarrow> fold_result (merge_entry m merge) entries listed) = Inr entries'"
    and groups': "groups' = bt_insert (mm_target merge) (base, entries') groups"
    using assms(1) old by (auto simp: merge_step_def p rbind_Inr_iff)
  ultimately have "best_entries (offered_for files ps (mm_target merge) @ offered files p) entries'"
    using fold_merge_entry_best by (auto simp: offered_def p map_filter_simps split: option.splits)
  then have new: "best_entries (offered_for files (ps @ [p]) (mm_target merge)) entries'" by (simp add: offered_for_def p)
  have other: "offered_for files (ps @ [p]) t = offered_for files ps t" if "t \<noteq> mm_target merge" for t
    using that by (simp add: offered_for_def p)
  show ?thesis using assms(2) new other
    by (auto simp: best_groups_def groups' bt_sorted_insert map_of_bt_insert p)
qed

lemma fold_merge_step_best:
  "fold_result (merge_step files app_dir runtime_dir) groups qs = Inr groups' \<Longrightarrow> best_groups files ps groups
     \<Longrightarrow> best_groups files (ps @ qs) groups'"
proof (induction qs arbitrary: ps groups)
  case (Cons q qs)
  then obtain g where "merge_step files app_dir runtime_dir groups q = Inr g" "fold_result (merge_step files app_dir runtime_dir) g qs = Inr groups'"
    by (auto simp: rbind_Inr_iff)
  then show ?case using Cons.IH [of g "ps @ [q]"] merge_step_best Cons.prems(2) by simp
qed simp

lemma pair_le_fst: "(a, b) \<le> (c, d) \<Longrightarrow> a \<le> c" for a c :: nat
  by auto

lemma sorted_map_mono: "sorted (map f xs) \<Longrightarrow> (\<And>x y. f x \<le> f y \<Longrightarrow> g x \<le> g y) \<Longrightarrow> sorted (map g xs)"
  by (induction xs) auto

text \<open>
  C27. The best extension provides a merged entry: the merged directories are exactly the targets of the merge
  directories of the mounts, each once and parents before children; a directory has exactly the names that some
  extension lists for it, and the source of a name is that of an extension that lists it and that no other listing
  extension beats, by a higher priority or by the same priority and a smaller reference.
\<close>

theorem merged_entries_best:
  assumes "merge_directories files app_dir runtime_dir ms = Inr ds"
  shows "distinct (map md_target ds) \<and> sorted (map (length \<circ> md_target) ds)
    \<and> md_target ` set ds = {mm_target merge |m merge. m \<in> set ms \<and> merge \<in> set (em_merge_dirs m)}
    \<and> (\<forall>d\<in>set ds. fst ` set (md_entries d) = fst ` set (offered_for files (merge_pairs ms) (md_target d))
        \<and> (\<forall>(name, source)\<in>set (md_entries d). \<exists>c. (name, c) \<in> set (offered_for files (merge_pairs ms) (md_target d)) \<and> ca_source c = source
             \<and> (\<forall>c'. (name, c') \<in> set (offered_for files (merge_pairs ms) (md_target d)) \<longrightarrow>
                   ca_priority c' < ca_priority c \<or> ca_priority c' = ca_priority c \<and> ca_ref_name c \<le> ca_ref_name c')))"
proof -
  let ?dir = "\<lambda>(target, base, entries). \<lparr>md_target = target, md_base_source = base, md_entries = map (\<lambda>(name, c). (name, ca_source c)) entries\<rparr>"
  obtain groups where fold: "fold_result (merge_step files app_dir runtime_dir) [] (merge_pairs ms) = Inr groups"
    and ds: "ds = sort_key (\<lambda>d. (length (md_target d), md_target d)) (map ?dir groups)"
    using assms by (auto simp: merge_directories_def merge_pairs_def rbind_Inr_iff)
  have "best_groups files ([] @ merge_pairs ms) groups"
    by (rule fold_merge_step_best [OF fold]) (simp add: best_groups_def)
  then have sorted: "bt_sorted groups" and targets: "dom (map_of groups) = (\<lambda>(m, merge). mm_target merge) ` set (merge_pairs ms)"
    and best: "\<And>target base entries. map_of groups target = Some (base, entries) \<Longrightarrow> best_entries (offered_for files (merge_pairs ms) target) entries"
    by (simp_all add: best_groups_def)
  have keys: "map md_target (map ?dir groups) = map fst groups" by auto
  have "distinct (map md_target (map ?dir groups))" unfolding keys by (rule bt_sorted_distinct [OF sorted])
  then have distinct: "distinct (map md_target ds)" unfolding ds distinct_map [of md_target] by simp
  have "sorted (map (\<lambda>d. (length (md_target d), md_target d)) ds)" unfolding ds by simp
  then have lengths: "sorted (map (length \<circ> md_target) ds)"
  proof (rule sorted_map_mono)
    fix x y :: ExtensionMergeDirectory
    assume "(length (md_target x), md_target x) \<le> (length (md_target y), md_target y)"
    then show "(length \<circ> md_target) x \<le> (length \<circ> md_target) y" unfolding comp_def by (rule pair_le_fst)
  qed
  have "md_target ` set ds = set (map md_target (map ?dir groups))" unfolding ds set_map set_sort by (rule refl)
  also have "\<dots> = fst ` set groups" unfolding keys set_map by (rule refl)
  also have "\<dots> = (\<lambda>(m, merge). mm_target merge) ` set (merge_pairs ms)" using targets by (simp add: dom_map_of_conv_image_fst)
  also have "\<dots> = {mm_target merge |m merge. m \<in> set ms \<and> merge \<in> set (em_merge_dirs m)}" by (force simp: merge_pairs_def)
  finally have targets': "md_target ` set ds = {mm_target merge |m merge. m \<in> set ms \<and> merge \<in> set (em_merge_dirs m)}" .
  show ?thesis
  proof (intro conjI ballI distinct lengths targets')
    fix d
    assume "d \<in> set ds"
    then obtain target base entries where d: "d = ?dir (target, base, entries)" and "(target, base, entries) \<in> set groups" unfolding ds by auto
    then have "map_of groups target = Some (base, entries)" using bt_sorted_distinct [OF sorted] by simp
    then have b: "best_entries (offered_for files (merge_pairs ms) (md_target d)) entries" using best d by simp
    show "fst ` set (md_entries d) = fst ` set (offered_for files (merge_pairs ms) (md_target d))"
      using b by (auto simp: d best_entries_def dom_map_of_conv_image_fst image_image case_prod_beta)
    fix e
    assume e: "e \<in> set (md_entries d)"
    then obtain name c where nc: "(name, c) \<in> set entries" "e = (name, ca_source c)" by (auto simp: d)
    have "distinct (map fst entries)" using b bt_sorted_distinct by (auto simp: best_entries_def)
    then have "map_of entries name = Some c" using nc(1) by simp
    then have c: "(name, c) \<in> set (offered_for files (merge_pairs ms) (md_target d))"
      "\<And>c'. (name, c') \<in> set (offered_for files (merge_pairs ms) (md_target d)) \<Longrightarrow> candidate_key c \<le> candidate_key c'"
      using b by (auto simp: best_entries_def)
    show "case e of (name, source) \<Rightarrow> \<exists>c. (name, c) \<in> set (offered_for files (merge_pairs ms) (md_target d)) \<and> ca_source c = source
             \<and> (\<forall>c'. (name, c') \<in> set (offered_for files (merge_pairs ms) (md_target d)) \<longrightarrow>
                   ca_priority c' < ca_priority c \<or> ca_priority c' = ca_priority c \<and> ca_ref_name c \<le> ca_ref_name c')"
      using c by (auto simp: nc(2) candidate_key_le intro!: exI [of _ c])
  qed
qed


definition merging_files :: host_files where
  "merging_files = \<lparr>read_text = (\<lambda>_. None), directory_at = (\<lambda>_. True),
     directory_entries = (\<lambda>p. if p = [RootDir, Normal ''x'', Normal ''files'', Normal ''share''] then Some [Inr ''icd'', Inr ''own'']
       else if p = [RootDir, Normal ''y'', Normal ''files'', Normal ''share''] then Some [Inr ''icd''] else None)\<rparr>"

definition merging_mount :: "string \<Rightarrow> int \<Rightarrow> ExtensionMount" where
  "merging_mount d p = gl_mount\<lparr>em_ref_name := ''runtime/'' @ d, em_checkout_dir := [RootDir, Normal d], em_priority := p\<rparr>"

definition merged_share :: ExtensionMergeDirectory where
  "merged_share = \<lparr>md_target = [Normal ''app'', Normal ''lib'', Normal ''gl'', Normal ''share''],
     md_base_source = [RootDir, Normal ''a'', Normal ''files'', Normal ''lib'', Normal ''gl'', Normal ''share''],
     md_entries = [([Normal ''icd''], [RootDir, Normal ''y'', Normal ''files'', Normal ''share'', Normal ''icd'']),
                   ([Normal ''own''], [RootDir, Normal ''x'', Normal ''files'', Normal ''share'', Normal ''own''])]\<rparr>"

theorem merged_entries_best_witness:
  "merge_directories merging_files [RootDir, Normal ''a''] [RootDir, Normal ''p''] [merging_mount ''x'' 1, merging_mount ''y'' 2] = Inr [merged_share]
   \<and> (\<exists>c :: Candidate. ca_source c = [RootDir, Normal ''y'', Normal ''files'', Normal ''share'', Normal ''icd'']
        \<and> (\<forall>c'. ([Normal ''icd''], c') \<in> set (offered_for merging_files (merge_pairs [merging_mount ''x'' 1, merging_mount ''y'' 2])
              (md_target merged_share)) \<longrightarrow> ca_priority c' \<le> ca_priority c))"
proof -
  let ?ms = "[merging_mount ''x'' 1, merging_mount ''y'' 2]"
  have run: "merge_directories merging_files [RootDir, Normal ''a''] [RootDir, Normal ''p''] ?ms = Inr [merged_share]" by code_simp
  have d: "merged_share \<in> set [merged_share]" by simp
  have entry: "([Normal ''icd''], [RootDir, Normal ''y'', Normal ''files'', Normal ''share'', Normal ''icd'']) \<in> set (md_entries merged_share)"
    by (simp add: merged_share_def)
  from bspec [OF conjunct2 [OF bspec [OF conjunct2 [OF conjunct2 [OF conjunct2 [OF merged_entries_best [OF run]]]] d]] entry]
  obtain c :: Candidate where c: "ca_source c = [RootDir, Normal ''y'', Normal ''files'', Normal ''share'', Normal ''icd'']"
    "\<forall>c'. ([Normal ''icd''], c') \<in> set (offered_for merging_files (merge_pairs ?ms) (md_target merged_share)) \<longrightarrow>
       ca_priority c' < ca_priority c \<or> ca_priority c' = ca_priority c \<and> ca_ref_name c \<le> ca_ref_name c'"
    unfolding prod.case by (elim exE conjE) (rule that; assumption)
  from c(2) have "\<forall>c'. ([Normal ''icd''], c') \<in> set (offered_for merging_files (merge_pairs ?ms) (md_target merged_share)) \<longrightarrow>
       ca_priority c' \<le> ca_priority c"
    using order.strict_implies_order by auto
  with c(1) run show ?thesis by blast
qed


section \<open>The full extension of a point with subdirectories\<close>

lemma traverse_Inl: "x \<in> set xs \<Longrightarrow> f x = Inl e \<Longrightarrow> \<exists>e'. traverse f xs = Inl e'"
  by (induction xs) (auto simp: rbind_def split: sum.splits)

lemma mount_target_full_extension:
  assumes "ep_subdirectories point" "runtime_name rname = Some (ep_name point)"
  shows "\<exists>e. mount_target point rname scope = Inl e"
proof -
  have "strip_prefix (ep_name point) (ep_name point @ ''.'') = None" by (simp add: strip_prefix_def starts_with_def)
  then have "\<exists>e. subdirectory_of point rname = Inl e" using assms by (simp add: subdirectory_of_def unwrap_or_def)
  then show ?thesis by (cases "ep_directory point") (auto simp: mount_target_def)
qed

text \<open>
  A point with \<^verbatim>\<open>subdirectories\<close> resolves and keeps an installed extension that has exactly the name of the point,
  but no launch with it succeeds: its mount target is refused, and with it the mounts of every other extension.
\<close>

theorem full_extension_blocks_launch:
  assumes "read_text files (metadata_path dir) = Some metadata" "ExtensionParent_from_ref parent_ref = Inr parent"
    and "rname \<in> set (resolve_extension_refs (parse_extension_points metadata) parent (sort_dedup (map (\<lambda>r. full_runtime_ref (rr_runtime_ref r)) rs)))"
    and "point_for_ref (parse_extension_points metadata) parent rname = Some point"
    and "ep_subdirectories point" "runtime_name rname = Some (ep_name point)" "ep_enable_if point = []" "installed_by_ref rs rname = Some r"
  shows "\<exists>e. resolve_metadata_mounts files paths facts rs dir parent_ref scope = Inl e"
proof -
  obtain e where "mount_target point rname scope = Inl e" using mount_target_full_extension [OF assms(5,6)] by blast
  then obtain e' where "extension_mount files paths facts scope r point rname = Inl e'"
    by (cases "validate_extension_checkout files rname (absolute_data_path paths (rr_runtime_dir r))") (simp_all add: extension_mount_def)
  then have "mount_for_ref files paths facts rs scope (parse_extension_points metadata) parent rname = Inl e'"
    using assms(4,7,8) by (simp add: mount_for_ref_def launch_enabled_def)
  then show ?thesis
    using traverse_Inl [OF assms(3)] assms(1,2) unfolding resolve_metadata_mounts_def Let_def by fastforce
qed

theorem full_extension_blocks_launch_witness:
  "resolve_extension_refs (parse_extension_points gl_metadata) \<lparr>xp_arch = ''x86'', xp_branch = ''1''\<rparr> [''runtime/org.a.Gl/x86/1''] = [''runtime/org.a.Gl/x86/1'']
   \<and> (\<exists>e. resolve_metadata_mounts gl_files gl_paths gl_facts [gl_record\<lparr>rr_runtime_ref := ''org.a.Gl/x86/1''\<rparr>]
         (fa_app_dir gl_app) ''app/org.a.App/x86/1'' AppScope = Inl e)"
proof -
  let ?parent = "\<lparr>xp_arch = ''x86'', xp_branch = ''1''\<rparr>" and ?r = "''runtime/org.a.Gl/x86/1''" and ?rec = "gl_record\<lparr>rr_runtime_ref := ''org.a.Gl/x86/1''\<rparr>"
  have resolved: "resolve_extension_refs (parse_extension_points gl_metadata) ?parent [?r] = [?r]" by code_simp
  have avail: "sort_dedup (map (\<lambda>r. full_runtime_ref (rr_runtime_ref r)) [?rec]) = [?r]" by code_simp
  have "read_text gl_files (metadata_path (fa_app_dir gl_app)) = Some gl_metadata" "ExtensionParent_from_ref ''app/org.a.App/x86/1'' = Inr ?parent"
    and "point_for_ref (parse_extension_points gl_metadata) ?parent ?r = Some gl_point" "ep_subdirectories gl_point"
    "runtime_name ?r = Some (ep_name gl_point)" "ep_enable_if gl_point = []" "installed_by_ref [?rec] ?r = Some ?rec"
    by code_simp+
  note facts = this
  have "?r \<in> set (resolve_extension_refs (parse_extension_points gl_metadata) ?parent (sort_dedup (map (\<lambda>r. full_runtime_ref (rr_runtime_ref r)) [?rec])))"
    unfolding avail resolved by simp
  from full_extension_blocks_launch [OF facts(1,2) this facts(3-7)] resolved show ?thesis by (intro conjI)
qed

end
