(* ===== verification/Process_Supervision.thy ===== *)
theory Process_Supervision
  imports Paths Wire
begin

unbundle bit_operations_syntax

text \<open>
  Supervision of sandbox processes (\<^verbatim>\<open>src/src/sandbox/process_supervision.rs\<close>) and the identity of a process
  (\<^verbatim>\<open>src/src/process_identity.rs\<close>): the process reaper, the termination of a process tree, the forced stop of a
  launcher, and the processes that refer to a sandbox root.

  The host is a function from the calls made so far, with their answers, to the answer of the next call: it may
  answer the same call differently each time. Time is a clock in milliseconds that every call may advance and that
  a \<^verbatim>\<open>thread::sleep\<close> advances by at least its duration, as the documentation of \<^verbatim>\<open>std::thread::sleep\<close> and
  \<^verbatim>\<open>std::time::Instant\<close> has it.
\<close>

section \<open>The host\<close>

record ReaperPidInfo =
  rp_pid :: int
  rp_subtree :: int
  rp_flags :: u32

text \<open>
  \<open>ReapStatus\<close>, \<open>ReapGetPids\<close>, \<open>ReapKill\<close>, \<open>ReapAcquire\<close> and \<open>ReapRelease\<close> are the uses of \<^verbatim>\<open>procctl\<close>, \<open>SysctlProc\<close> the
  one of \<^verbatim>\<open>sysctl\<close>; \<open>TerminationSignal\<close> is the question put to the caller of a wait. The calls from \<open>MountTable\<close> on
  are those of the recovery of stale sandboxes: the \<^verbatim>\<open>mount\<close> command, the secure mount helper, and files.
\<close>

datatype host_call =
    ReapAcquire
  | ReapRelease
  | ReapStatus int
  | ReapGetPids u32
  | ReapKill int int
  | WaitPid int
  | TryWait
  | Kill int int
  | SysctlProc int
  | Procstat
  | TerminationSignal
  | Sleep nat
  | MountTable
  | HelperUnmount path "nat \<times> nat" path bool
  | HelperRecover path "nat \<times> nat" path bool
  | FileMetadata path
  | PathExists path
  | IsFile path
  | RemoveDirAll path
  | RemoveFile path
  | ReadRuns

datatype host_answer =
    Fine
  | OsErr nat
  | Reaper u32 u32
  | PidInfos "ReaperPidInfo list"
  | Proc "(int \<times> int \<times> int) option"
  | Output bool string
  | ExitStatus "int option"
  | Signal "int option"
  | Holds bool
  | Identity "nat \<times> nat"
  | Files "(path \<times> string) list"

type_synonym host_trace = "(host_call \<times> host_answer) list"

record host =
  h_trace :: host_trace
  h_clock :: nat

record host_os =
  os_answer :: "host_trace \<Rightarrow> host_call \<Rightarrow> host_answer"
  os_elapsed :: "host_trace \<Rightarrow> nat"

fun slept :: "host_call \<Rightarrow> nat" where
  "slept (Sleep ms) = ms"
| "slept _ = 0"

definition host_do :: "host_os \<Rightarrow> host_call \<Rightarrow> host \<Rightarrow> host \<times> host_answer" where
  "host_do os c st =
     (let a = os_answer os (h_trace st) c in
      (st\<lparr>h_trace := h_trace st @ [(c, a)], h_clock := h_clock st + slept c + os_elapsed os (h_trace st)\<rparr>, a))"

definition ESRCH :: nat where "ESRCH = 3"
definition EPERM :: nat where "EPERM = 1"
definition SIGKILL :: int where "SIGKILL = 9"
definition SIGTERM :: int where "SIGTERM = 15"
definition FORCE_STOP_SIGNAL :: int where "FORCE_STOP_SIGNAL = 30"

fun os_error :: "host_answer \<Rightarrow> error" where
  "os_error (OsErr n) = Bail (''os error '' @ nat_digits n)"
| "os_error _ = Bail ''unexpected answer''"

definition host_unit :: "host_os \<Rightarrow> host_call \<Rightarrow> string \<Rightarrow> host \<Rightarrow> host \<times> unit result" where
  "host_unit os c msg st =
     (case host_do os c st of (st', a) \<Rightarrow> (st', if a = Fine then Inr () else Inl (Context msg (os_error a))))"

section \<open>Process identities\<close>

record ProcessIdentity =
  start_seconds :: int
  start_microseconds :: int

definition for_pid :: "host_os \<Rightarrow> int \<Rightarrow> host \<Rightarrow> host \<times> ProcessIdentity option result" where
  "for_pid os pid st =
     (if pid \<le> 0 then (st, Inr None)
      else case host_do os (SysctlProc pid) st of
        (st', a) \<Rightarrow>
          (st', case a of
             Proc None \<Rightarrow> Inr None
           | Proc (Some (ki_pid, sec, usec)) \<Rightarrow>
               if ki_pid \<noteq> pid then Inr None else Inr (Some \<lparr>start_seconds = sec, start_microseconds = usec\<rparr>)
           | _ \<Rightarrow> if a = OsErr ESRCH then Inr None
                  else Inl (Context (''read identity for process '' @ int_digits pid) (os_error a))))"

definition ProcessIdentity_parse :: "string \<Rightarrow> ProcessIdentity option" where
  "ProcessIdentity_parse v =
     (case split_once (CHR '':'') v of
        None \<Rightarrow> None
      | Some (seconds, microseconds) \<Rightarrow>
          (case (parse_sint 64 seconds, parse_sint 64 microseconds) of
             (Some s, Some u) \<Rightarrow> Some \<lparr>start_seconds = s, start_microseconds = u\<rparr>
           | _ \<Rightarrow> None))"

definition ProcessIdentity_display :: "ProcessIdentity \<Rightarrow> string" where
  "ProcessIdentity_display i = int_digits (start_seconds i) @ '':'' @ int_digits (start_microseconds i)"

section \<open>The reaper\<close>

definition POLL_INTERVAL :: nat where "POLL_INTERVAL = 100"
definition TERMINATION_GRACE :: nat where "TERMINATION_GRACE = 2000"
definition REAPER_PIDINFO_VALID :: u32 where "REAPER_PIDINFO_VALID = 1"
definition REAPER_STATUS_OWNED :: u32 where "REAPER_STATUS_OWNED = 1"

definition set_reaper_status :: "host_os \<Rightarrow> bool \<Rightarrow> host \<Rightarrow> host \<times> unit result" where
  "set_reaper_status os acquire st =
     host_unit os (if acquire then ReapAcquire else ReapRelease)
       (if acquire then ''acquire sandbox process reaper'' else ''release sandbox process reaper'') st"

text \<open>The value is the field \<^verbatim>\<open>acquired\<close>.\<close>

definition ProcessReaper_acquire :: "host_os \<Rightarrow> host \<Rightarrow> host \<times> bool result" where
  "ProcessReaper_acquire os st = sbind (set_reaper_status os True st) (\<lambda>st _. (st, Inr True))"

definition ProcessReaper_drop :: "host_os \<Rightarrow> bool \<Rightarrow> host \<Rightarrow> host" where
  "ProcessReaper_drop os acquired st = (if acquired then fst (set_reaper_status os False st) else st)"

definition reaper_status :: "host_os \<Rightarrow> host \<Rightarrow> host \<times> (u32 \<times> u32) result" where
  "reaper_status os st =
     (case host_do os (ReapStatus 0) st of
        (st', a) \<Rightarrow>
          (st', case a of
             Reaper flags descendants \<Rightarrow> Inr (flags, descendants)
           | _ \<Rightarrow> Inl (Context ''read sandbox process reaper status'' (os_error a))))"

definition valid_pid_infos :: "ReaperPidInfo list \<Rightarrow> ReaperPidInfo list" where
  "valid_pid_infos infos = takeWhile (\<lambda>p. rp_flags p AND REAPER_PIDINFO_VALID \<noteq> 0) infos"

text \<open>The vector has 16 entries more than the counted descendants; the kernel fills no more than it is told.\<close>

definition reaper_pid_info :: "host_os \<Rightarrow> host \<Rightarrow> host \<times> ReaperPidInfo list result" where
  "reaper_pid_info os st =
     sbind (reaper_status os st) (\<lambda>st (_, descendants).
     if descendants = 0 then (st, Inr [])
     else
       let count = word_of_nat (unat descendants + 16) in
       (case host_do os (ReapGetPids count) st of
          (st', a) \<Rightarrow>
            (st', case a of
               PidInfos infos \<Rightarrow> Inr (valid_pid_infos (take (unat count) infos))
             | _ \<Rightarrow> Inl (Context ''list sandbox process descendants'' (os_error a)))))"

definition pid_t :: "string \<Rightarrow> u32 \<Rightarrow> int result" where
  "pid_t msg n = (if unat n < 2 ^ 31 then Inr (int (unat n)) else Inl (Context msg (Bail ''out of range integral type conversion attempted'')))"

definition track :: "u32 \<Rightarrow> int result" where
  "track subtree = pid_t ''sandbox process id exceeds pid_t'' subtree"

definition subtree_for_descendant :: "host_os \<Rightarrow> u32 \<Rightarrow> host \<Rightarrow> host \<times> int option result" where
  "subtree_for_descendant os descendant st =
     (case pid_t ''sandbox descendant id exceeds pid_t'' descendant of
        Inl e \<Rightarrow> (st, Inl e)
      | Inr d \<Rightarrow> sbind (reaper_pid_info os st) (\<lambda>st ps. (st, Inr (map_option rp_subtree (find (\<lambda>p. rp_pid p = d) ps)))))"

section \<open>The process tree\<close>

definition subtree_pids :: "host_os \<Rightarrow> int \<Rightarrow> host \<Rightarrow> host \<times> int list result" where
  "subtree_pids os subtree st =
     sbind (reaper_pid_info os st) (\<lambda>st ps. (st, Inr (map rp_pid (filter (\<lambda>p. rp_subtree p = subtree) ps))))"

fun reap_pids :: "host_os \<Rightarrow> int \<Rightarrow> bool \<Rightarrow> int list \<Rightarrow> host \<Rightarrow> host" where
  "reap_pids os subtree reap [] st = st"
| "reap_pids os subtree reap (pid # pids) st =
     (if \<not> reap \<and> pid = subtree then reap_pids os subtree reap pids st
      else reap_pids os subtree reap pids (fst (host_do os (WaitPid pid) st)))"

definition processes_remain :: "host_os \<Rightarrow> int \<Rightarrow> bool \<Rightarrow> host \<Rightarrow> host \<times> bool result" where
  "processes_remain os subtree reap st =
     sbind (subtree_pids os subtree st) (\<lambda>st pids.
     let st = reap_pids os subtree reap pids st in
     if pids = [] then (st, Inr False)
     else sbind (subtree_pids os subtree st) (\<lambda>st remaining. (st, Inr (remaining \<noteq> []))))"

definition signal_tree :: "host_os \<Rightarrow> int \<Rightarrow> int \<Rightarrow> host \<Rightarrow> host \<times> unit result" where
  "signal_tree os subtree sig st =
     (case host_do os (ReapKill sig subtree) st of
        (st', a) \<Rightarrow>
          (st', if a = Fine \<or> a = OsErr ESRCH then Inr ()
                else Inl (Context ''signal sandbox process descendants'' (os_error a))))"

definition pause :: "host_os \<Rightarrow> host \<Rightarrow> host" where
  "pause os st = fst (host_do os (Sleep POLL_INTERVAL) st)"


lemma sbind_cong [fundef_cong]:
  assumes "m = m'" "\<And>s x. m' = (s, Inr x) \<Longrightarrow> f s x = f' s x"
  shows "sbind m f = sbind m' f'"
  using assms by (cases m'; cases "snd m'") (auto simp: sbind_def)

text \<open>The clock never goes back.\<close>

lemma host_do_clock: "h_clock st + slept c \<le> h_clock (fst (host_do os c st))"
  by (simp add: host_do_def Let_def)

lemma pause_clock: "h_clock st < h_clock (pause os st)"
  using host_do_clock [of st "Sleep POLL_INTERVAL" os] by (simp add: pause_def POLL_INTERVAL_def)

lemma clock_mono_do: "host_do os c st = (st', a) \<Longrightarrow> h_clock st \<le> h_clock st'"
  using host_do_clock [of st c os] by simp

lemma clock_mono_sbind:
  assumes "h_clock st \<le> h_clock (fst m)" "\<And>st' x. m = (st', Inr x) \<Longrightarrow> h_clock st' \<le> h_clock (fst (f st' x))"
  shows "h_clock st \<le> h_clock (fst (sbind m f))"
  using assms by (cases m; cases "snd m") (auto simp: sbind_def dest: le_trans)

lemma reaper_status_clock: "h_clock st \<le> h_clock (fst (reaper_status os st))"
  by (auto simp: reaper_status_def split: prod.splits dest: clock_mono_do)

lemma reaper_pid_info_clock: "h_clock st \<le> h_clock (fst (reaper_pid_info os st))"
  unfolding reaper_pid_info_def
  by (rule clock_mono_sbind [OF reaper_status_clock]) (auto simp: Let_def split: prod.splits dest: clock_mono_do)

lemma subtree_pids_clock: "h_clock st \<le> h_clock (fst (subtree_pids os subtree st))"
  unfolding subtree_pids_def by (rule clock_mono_sbind [OF reaper_pid_info_clock]) simp

lemma reap_pids_clock: "h_clock st \<le> h_clock (reap_pids os subtree reap pids st)"
proof (induction pids arbitrary: st)
  case (Cons pid pids)
  then show ?case using host_do_clock [of st "WaitPid pid" os] by (auto intro: le_trans)
qed simp

lemma processes_remain_clock: "h_clock st \<le> h_clock (fst (processes_remain os subtree reap st))"
  unfolding processes_remain_def
proof (rule clock_mono_sbind [OF subtree_pids_clock])
  fix st' pids
  show "h_clock st' \<le> h_clock (fst (let st = reap_pids os subtree reap pids st' in
     if pids = [] then (st, Inr False)
     else sbind (subtree_pids os subtree st) (\<lambda>st remaining. (st, Inr (remaining \<noteq> [])))))"
    using reap_pids_clock [of st' os subtree reap pids]
    by (auto simp: Let_def intro!: le_trans [OF _ clock_mono_sbind [OF subtree_pids_clock]])
qed

lemma signal_tree_clock: "h_clock st \<le> h_clock (fst (signal_tree os subtree sig st))"
  by (auto simp: signal_tree_def split: prod.splits dest: clock_mono_do)

section \<open>Termination of a tree\<close>

function wait_until_empty_loop :: "host_os \<Rightarrow> int \<Rightarrow> nat \<Rightarrow> int \<Rightarrow> bool \<Rightarrow> host \<Rightarrow> host \<times> bool result" where
  "wait_until_empty_loop os subtree deadline sig reap st =
     sbind (processes_remain os subtree reap st) (\<lambda>st remain.
     if \<not> remain then (st, Inr True)
     else
       sbind (signal_tree os subtree sig st) (\<lambda>st _.
       if deadline \<le> h_clock st then (st, Inr False)
       else wait_until_empty_loop os subtree deadline sig reap (pause os st)))"
  by pat_completeness auto
termination
proof (relation "measure (\<lambda>(os, subtree, deadline, sig, reap, st). deadline - h_clock st)", goal_cases)
  case (2 os subtree deadline sig reap st st1 remain st2 u)
  have "h_clock st \<le> h_clock st1" using processes_remain_clock [of st os subtree reap] 2(1) by simp
  also have "\<dots> \<le> h_clock st2" using signal_tree_clock [of st1 os subtree sig] 2(3) by simp
  finally have "h_clock st \<le> h_clock st2" .
  moreover have "h_clock st2 < h_clock (pause os st2)" by (rule pause_clock)
  ultimately show ?case using 2(4) by (simp add: diff_less_mono2)
qed auto

declare wait_until_empty_loop.simps [simp del]

definition wait_until_empty :: "host_os \<Rightarrow> int \<Rightarrow> nat \<Rightarrow> int \<Rightarrow> bool \<Rightarrow> host \<Rightarrow> host \<times> bool result" where
  "wait_until_empty os subtree timeout sig reap st = wait_until_empty_loop os subtree (h_clock st + timeout) sig reap st"

definition survived :: "int \<Rightarrow> error" where
  "survived subtree = Bail (''sandbox process tree rooted at pid '' @ int_digits subtree @ '' survived SIGKILL'')"

definition terminate_with_signal_mode :: "host_os \<Rightarrow> int \<Rightarrow> int \<Rightarrow> bool \<Rightarrow> host \<Rightarrow> host \<times> unit result" where
  "terminate_with_signal_mode os subtree sig reap st =
     sbind (wait_until_empty os subtree TERMINATION_GRACE sig reap st) (\<lambda>st gone.
     if gone then (st, Inr ())
     else
       sbind (wait_until_empty os subtree TERMINATION_GRACE SIGKILL reap st) (\<lambda>st gone.
       if gone then (st, Inr ()) else (st, Inl (survived subtree))))"

definition terminate_with_signal :: "host_os \<Rightarrow> int \<Rightarrow> int \<Rightarrow> host \<Rightarrow> host \<times> unit result" where
  "terminate_with_signal os subtree sig st = terminate_with_signal_mode os subtree sig True st"

definition terminate :: "host_os \<Rightarrow> int \<Rightarrow> host \<Rightarrow> host \<times> unit result" where
  "terminate os subtree st = terminate_with_signal os subtree SIGTERM st"

definition SandboxProcessTree_drop :: "host_os \<Rightarrow> int \<Rightarrow> host \<Rightarrow> host" where
  "SandboxProcessTree_drop os subtree st = fst (terminate os subtree st)"

definition terminate_orphaned_subtree_with_signal :: "host_os \<Rightarrow> int \<Rightarrow> int \<Rightarrow> host \<Rightarrow> host \<times> bool result" where
  "terminate_orphaned_subtree_with_signal os subtree sig st =
     sbind (reaper_pid_info os st) (\<lambda>st ps.
     if list_ex (\<lambda>p. rp_pid p = subtree) ps then (st, Inr False)
     else sbind (terminate_with_signal_mode os subtree sig False st) (\<lambda>st _. (st, Inr True)))"

section \<open>Waiting for the application\<close>

definition try_wait :: "host_os \<Rightarrow> int option \<Rightarrow> host \<Rightarrow> host \<times> int option result" where
  "try_wait os status st =
     (if status \<noteq> None then (st, Inr status)
      else case host_do os TryWait st of
        (st', a) \<Rightarrow>
          (st', case a of ExitStatus s \<Rightarrow> Inr s | _ \<Rightarrow> Inl (Context ''wait for app process'' (os_error a))))"

definition termination_signal :: "host_os \<Rightarrow> (int \<times> nat) option \<Rightarrow> host \<Rightarrow> host \<times> (int \<times> nat) option" where
  "termination_signal os termination st =
     (if termination \<noteq> None then (st, termination)
      else case host_do os TerminationSignal st of
        (st', a) \<Rightarrow> (st', case a of Signal (Some sig) \<Rightarrow> Some (sig, h_clock st' + TERMINATION_GRACE) | _ \<Rightarrow> None))"

partial_function (option) wait_for_exit_loop ::
  "host_os \<Rightarrow> int \<Rightarrow> int option \<Rightarrow> (int \<times> nat) option \<Rightarrow> host \<Rightarrow> (host \<times> int result) option" where
  "wait_for_exit_loop os subtree status0 termination0 st0 =
     (case try_wait os status0 st0 of
        (st1, Inl e) \<Rightarrow> Some (st1, Inl e)
      | (st1, Inr status) \<Rightarrow>
          (case processes_remain os subtree False st1 of
             (st2, Inl e) \<Rightarrow> Some (st2, Inl e)
           | (st2, Inr remain) \<Rightarrow>
               if \<not> remain then Some (st2, ok_or (Bail ''sandbox process tree exited without app status'') status)
               else
                 (case termination_signal os termination0 st2 of
                    (st3, None) \<Rightarrow> wait_for_exit_loop os subtree status None (pause os st3)
                  | (st3, Some (sig, deadline)) \<Rightarrow>
                      (case signal_tree os subtree sig st3 of
                         (st4, Inl e) \<Rightarrow> Some (st4, Inl e)
                       | (st4, Inr _) \<Rightarrow>
                           if h_clock st4 < deadline
                           then wait_for_exit_loop os subtree status (Some (sig, deadline)) (pause os st4)
                           else if sig = SIGKILL then Some (st4, Inl (survived subtree))
                           else wait_for_exit_loop os subtree status (Some (SIGKILL, h_clock st4 + TERMINATION_GRACE)) (pause os st4)))))"

definition wait_for_exit_with_signal :: "host_os \<Rightarrow> int \<Rightarrow> host \<Rightarrow> (host \<times> int result) option" where
  "wait_for_exit_with_signal os subtree st = wait_for_exit_loop os subtree None None st"

section \<open>Forced stop\<close>

datatype ForceStopResult = Signaled | Exited | Stale

definition force_stop_launcher :: "host_os \<Rightarrow> int \<Rightarrow> ProcessIdentity \<Rightarrow> host \<Rightarrow> host \<times> ForceStopResult result" where
  "force_stop_launcher os pid expected st =
     sbind (for_pid os pid st) (\<lambda>st current.
     if current \<noteq> Some expected then (st, Inr Stale)
     else
       (case host_do os (ReapStatus pid) st of
          (st, Reaper flags _) \<Rightarrow>
            if flags AND REAPER_STATUS_OWNED = 0 then (st, Inr Stale)
            else
              sbind (for_pid os pid st) (\<lambda>st current.
              if current \<noteq> Some expected then (st, Inr Exited)
              else
                (case host_do os (Kill pid FORCE_STOP_SIGNAL) st of
                   (st, a) \<Rightarrow>
                     (st, if a = Fine then Inr Signaled
                          else if a = OsErr ESRCH then Inr Exited
                          else Inl (Context (''request force-stop from launcher '' @ int_digits pid) (os_error a)))))
        | (st, a) \<Rightarrow>
            (st, if a = OsErr ESRCH then Inr Exited
                 else Inl (Context (''inspect launcher process '' @ int_digits pid) (os_error a)))))"

section \<open>Processes that refer to a root\<close>

fun find_str :: "string \<Rightarrow> string \<Rightarrow> nat option" where
  "find_str pat [] = (if pat = [] then Some 0 else None)"
| "find_str pat (c # s) = (if starts_with (c # s) pat then Some 0 else map_option Suc (find_str pat s))"

text \<open>\<^verbatim>\<open>str::get\<close> fails between the bytes of a character.\<close>

definition char_boundary :: "string \<Rightarrow> nat \<Rightarrow> bool" where
  "char_boundary s i \<longleftrightarrow> i \<le> length s \<and> (i = length s \<or> \<not> continuation (of_char (s ! i)))"

definition get_str :: "string \<Rightarrow> nat \<Rightarrow> nat \<Rightarrow> string option" where
  "get_str s i j = (if char_boundary s i \<and> char_boundary s j then get_slice s i j else None)"

record ProcstatLayout =
  pid_end :: nat
  fd_start :: nat
  fd_end :: nat
  name_start :: nat

definition from_header :: "string \<Rightarrow> ProcstatLayout option" where
  "from_header header =
     (case (find_str '' COMM'' header, find_str '' T V FLAGS'' header, find_str ''NAME'' header) of
        (Some p, Some f, Some n) \<Rightarrow>
          if f < 4 then None else Some \<lparr>pid_end = p, fd_start = f - 4, fd_end = f, name_start = n\<rparr>
      | _ \<Rightarrow> None)"

definition trim_end :: "string \<Rightarrow> string" where
  "trim_end s = rev (dropWhile is_whitespace (rev s))"

definition procstat_reference :: "ProcstatLayout \<Rightarrow> string \<Rightarrow> (int \<times> string \<times> path) option" where
  "procstat_reference layout line =
     (case Option.bind (get_str line 0 (pid_end layout)) (\<lambda>s. parse_sint 32 (trim s)) of
        None \<Rightarrow> None
      | Some pid \<Rightarrow>
          (case get_str line (fd_start layout) (fd_end layout) of
             None \<Rightarrow> None
           | Some fd \<Rightarrow>
               map_option (\<lambda>name. (pid, trim fd, parse_path (trim_end name))) (get_str line (name_start layout) (length line))))"

type_synonym snapshot = "(int \<times> path) list"

definition SandboxProcessSnapshot_parse :: "string \<Rightarrow> snapshot" where
  "SandboxProcessSnapshot_parse out =
     (case lines out of
        [] \<Rightarrow> []
      | header # rest \<Rightarrow>
          (case from_header header of
             None \<Rightarrow> []
           | Some layout \<Rightarrow>
               map (\<lambda>(pid, _, path). (pid, path))
                 (filter (\<lambda>(_, fd, _). fd \<in> set [''cwd'', ''root'', ''jail'']) (List.map_filter (procstat_reference layout) rest))))"

definition capture :: "host_os \<Rightarrow> host \<Rightarrow> host \<times> snapshot result" where
  "capture os st =
     (case host_do os Procstat st of
        (st', a) \<Rightarrow>
          (st', case a of
             Output ok out \<Rightarrow>
               if \<not> ok then Inl (Bail ''procstat -a -f failed'')
               else if \<not> utf8_ok out then Inl (Bail ''invalid utf-8 sequence'')
               else Inr (SandboxProcessSnapshot_parse out)
           | _ \<Rightarrow> Inl (Context ''inspect sandbox process roots'' (os_error a))))"

definition references_root :: "snapshot \<Rightarrow> path \<Rightarrow> bool" where
  "references_root snap root = list_ex (\<lambda>(_, p). path_starts_with p root) snap"

definition pids_referencing_roots :: "snapshot \<Rightarrow> path list \<Rightarrow> int list" where
  "pids_referencing_roots snap roots =
     sort_dedup (map fst (filter (\<lambda>(_, p). list_ex (path_starts_with p) roots) snap))"

fun kill_pids :: "host_os \<Rightarrow> int \<Rightarrow> int list \<Rightarrow> host \<Rightarrow> host" where
  "kill_pids os sig [] st = st"
| "kill_pids os sig (pid # pids) st = kill_pids os sig pids (fst (host_do os (Kill pid sig) st))"

text \<open>Rounds of one signal: \<^term>\<open>True\<close> when a round finds no process, \<^term>\<open>False\<close> when every round was used.\<close>

fun signal_rounds :: "host_os \<Rightarrow> (host \<Rightarrow> host \<times> int list result) \<Rightarrow> int \<Rightarrow> nat \<Rightarrow> host \<Rightarrow> host \<times> bool result" where
  "signal_rounds os processes sig 0 st = (st, Inr False)"
| "signal_rounds os processes sig (Suc n) st =
     sbind (processes st) (\<lambda>st pids.
     if pids = [] then (st, Inr True)
     else signal_rounds os processes sig n (pause os (kill_pids os sig pids st)))"

definition live_pids :: "host_os \<Rightarrow> path list \<Rightarrow> host \<Rightarrow> host \<times> int list result" where
  "live_pids os roots st = sbind (capture os st) (\<lambda>st snap. (st, Inr (pids_referencing_roots snap roots)))"

definition other_pids :: "host_os \<Rightarrow> int \<Rightarrow> path list \<Rightarrow> host \<Rightarrow> host \<times> int list result" where
  "other_pids os own roots st = sbind (live_pids os roots st) (\<lambda>st pids. (st, Inr (filter (\<lambda>pid. pid \<noteq> own) pids)))"

definition terminate_processes_referencing_roots :: "host_os \<Rightarrow> int \<Rightarrow> path list \<Rightarrow> host \<Rightarrow> host \<times> bool result" where
  "terminate_processes_referencing_roots os own roots st =
     sbind (live_pids os roots st) (\<lambda>st initial.
     if initial = [] then (st, Inr False)
     else
       sbind (signal_rounds os (other_pids os own roots) SIGTERM 20 st) (\<lambda>st ended.
       if ended then (st, Inr True)
       else
         sbind (signal_rounds os (other_pids os own roots) SIGKILL 20 st) (\<lambda>st ended.
         if ended then (st, Inr True)
         else
           sbind (live_pids os roots st) (\<lambda>st remaining.
           if remaining = [] then (st, Inr True)
           else (st, Inl (Bail (''sandbox processes survived SIGKILL: [''
                  @ join_with '', '' (map int_digits remaining) @ '']'')))))))"


section \<open>Calls made\<close>

text \<open>Every call added to the trace satisfies a predicate on the calls before it and itself.\<close>

definition made :: "(host_trace \<Rightarrow> host_call \<times> host_answer \<Rightarrow> bool) \<Rightarrow> host \<Rightarrow> host \<Rightarrow> bool" where
  "made Q st st' \<longleftrightarrow> (\<exists>ext. h_trace st' = h_trace st @ ext \<and> (\<forall>i<length ext. Q (h_trace st @ take i ext) (ext ! i)))"

named_theorems made_intros \<open>the calls an operation makes\<close>

lemma made_refl [simp, intro]: "made Q st st"
  by (simp add: made_def)

lemma made_trans [trans]:
  assumes "made Q st st'" "made Q st' st''"
  shows "made Q st st''"
proof -
  obtain e1 where e1: "h_trace st' = h_trace st @ e1" "\<forall>i<length e1. Q (h_trace st @ take i e1) (e1 ! i)"
    using assms(1) by (auto simp: made_def)
  obtain e2 where e2: "h_trace st'' = h_trace st' @ e2" "\<forall>i<length e2. Q (h_trace st' @ take i e2) (e2 ! i)"
    using assms(2) by (auto simp: made_def)
  have "Q (h_trace st @ take i (e1 @ e2)) ((e1 @ e2) ! i)" if "i < length (e1 @ e2)" for i
  proof (cases "i < length e1")
    case True
    then show ?thesis using e1(2) by (simp add: nth_append)
  next
    case False
    then show ?thesis using that e2(2) [rule_format, of "i - length e1"] e1(1) by (simp add: nth_append)
  qed
  then show ?thesis using e1(1) e2(1) by (auto simp: made_def intro!: exI [of _ "e1 @ e2"])
qed

lemma made_do: "Q (h_trace st) (c, os_answer os (h_trace st) c) \<Longrightarrow> made Q st (fst (host_do os c st))"
  by (auto simp: made_def host_do_def Let_def)

lemma made_doE:
  assumes "host_do os c st = (st', a)" "Q (h_trace st) (c, a)"
  shows "made Q st st'"
  using assms made_do [of Q st c os] by (auto simp: host_do_def Let_def)

lemma host_do_trace: "host_do os c st = (st', a) \<Longrightarrow> h_trace st' = h_trace st @ [(c, a)]"
  by (auto simp: host_do_def Let_def)

lemma made_sbind:
  assumes "made Q st (fst m)" "\<And>st' x. m = (st', Inr x) \<Longrightarrow> made Q st' (fst (f st' x))"
  shows "made Q st (fst (sbind m f))"
proof (cases "snd m")
  case (Inl e)
  then show ?thesis using assms(1) by (simp add: sbind_def)
next
  case (Inr x)
  then have "m = (fst m, Inr x)" by (simp add: prod_eq_iff)
  then have "made Q (fst m) (fst (sbind m f))" using assms(2) Inr by (metis sbind_simps(1))
  then show ?thesis using assms(1) made_trans by blast
qed

section \<open>Calls of a process tree\<close>

text \<open>The processes of a subtree in the last listing of a trace.\<close>

fun is_listing :: "host_call \<times> host_answer \<Rightarrow> bool" where
  "is_listing (ReapGetPids _, _) = True"
| "is_listing _ = False"

fun listing_pids :: "int \<Rightarrow> host_call \<times> host_answer \<Rightarrow> int list" where
  "listing_pids subtree (ReapGetPids n, PidInfos infos) =
     map rp_pid (filter (\<lambda>p. rp_subtree p = subtree) (valid_pid_infos (take (unat n) infos)))"
| "listing_pids subtree _ = []"

definition listed_pids :: "int \<Rightarrow> host_trace \<Rightarrow> int list" where
  "listed_pids subtree t = (case find is_listing (rev t) of None \<Rightarrow> [] | Some e \<Rightarrow> listing_pids subtree e)"

fun tree_call :: "int \<Rightarrow> int set \<Rightarrow> bool \<Rightarrow> host_trace \<Rightarrow> host_call \<times> host_answer \<Rightarrow> bool" where
  "tree_call subtree sigs reap t (ReapKill s target, _) \<longleftrightarrow> target = subtree \<and> s \<in> sigs"
| "tree_call subtree sigs reap t (WaitPid pid, _) \<longleftrightarrow> pid \<in> set (listed_pids subtree t) \<and> (reap \<or> pid \<noteq> subtree)"
| "tree_call subtree sigs reap t (ReapStatus p, _) \<longleftrightarrow> p = 0"
| "tree_call subtree sigs reap t (ReapGetPids _, _) \<longleftrightarrow> True"
| "tree_call subtree sigs reap t (Sleep _, _) \<longleftrightarrow> True"
| "tree_call subtree sigs reap t (TryWait, _) \<longleftrightarrow> True"
| "tree_call subtree sigs reap t (TerminationSignal, _) \<longleftrightarrow> True"
| "tree_call subtree sigs reap t _ \<longleftrightarrow> False"

text \<open>The answer that shows a subtree without processes.\<close>

definition shows_empty :: "int \<Rightarrow> host_call \<times> host_answer \<Rightarrow> bool" where
  "shows_empty subtree e \<longleftrightarrow>
     (\<exists>flags. e = (ReapStatus 0, Reaper flags 0)) \<or> (\<exists>n infos. e = (ReapGetPids n, PidInfos infos) \<and> listing_pids subtree e = [])"

lemma reaper_status_made: "made (tree_call subtree sigs reap) st (fst (reaper_status os st))"
  unfolding reaper_status_def by (cases "host_do os (ReapStatus 0) st") (auto elim: made_doE)

lemma reaper_pid_info_made: "made (tree_call subtree sigs reap) st (fst (reaper_pid_info os st))"
  unfolding reaper_pid_info_def
  by (rule made_sbind [OF reaper_status_made]) (auto simp: Let_def split: prod.splits elim: made_doE)

lemma reaper_status_InrD:
  "reaper_status os st = (st', Inr (flags, descendants)) \<Longrightarrow> h_trace st' = h_trace st @ [(ReapStatus 0, Reaper flags descendants)]"
  by (auto simp: reaper_status_def host_do_def Let_def split: host_answer.splits)

lemma reaper_pid_info_InrD:
  assumes "reaper_pid_info os st = (st', Inr ps)"
  shows "ps = [] \<and> (\<exists>flags. h_trace st' = h_trace st @ [(ReapStatus 0, Reaper flags 0)])
    \<or> (\<exists>status n infos. h_trace st' = h_trace st @ [status, (ReapGetPids n, PidInfos infos)] \<and> ps = valid_pid_infos (take (unat n) infos))"
proof -
  obtain st1 flags descendants where st1: "reaper_status os st = (st1, Inr (flags, descendants))"
    and rest: "(if descendants = 0 then (st1, Inr [])
     else
       let count = word_of_nat (unat descendants + 16) in
       (case host_do os (ReapGetPids count) st1 of
          (st', a) \<Rightarrow>
            (st', case a of
               PidInfos infos \<Rightarrow> Inr (valid_pid_infos (take (unat count) infos))
             | _ \<Rightarrow> Inl (Context ''list sandbox process descendants'' (os_error a))))) = (st', Inr ps)"
    using assms unfolding reaper_pid_info_def by (elim sbind_InrE) auto
  note t1 = reaper_status_InrD [OF st1]
  show ?thesis
  proof (cases "descendants = 0")
    case True
    then show ?thesis using rest t1 by auto
  next
    case False
    define count :: u32 where "count = word_of_nat (unat descendants + 16)"
    obtain a where a: "host_do os (ReapGetPids count) st1 = (st', a)"
      and ps: "(case a of PidInfos infos \<Rightarrow> Inr (valid_pid_infos (take (unat count) infos))
             | _ \<Rightarrow> Inl (Context ''list sandbox process descendants'' (os_error a))) = Inr ps"
      using rest False unfolding Let_def count_def [symmetric] by (cases "host_do os (ReapGetPids count) st1") auto
    then obtain infos where "a = PidInfos infos" by (cases a) auto
    then show ?thesis using host_do_trace [OF a] t1 ps by auto
  qed
qed

lemma subtree_pids_made: "made (tree_call subtree' sigs reap) st (fst (subtree_pids os subtree st))"
  unfolding subtree_pids_def by (rule made_sbind [OF reaper_pid_info_made]) simp

lemma subtree_pids_listed:
  assumes "subtree_pids os subtree st = (st', Inr pids)"
  shows "pids = [] \<or> listed_pids subtree (h_trace st') = pids"
    and "pids = [] \<Longrightarrow> shows_empty subtree (last (h_trace st'))"
proof -
  obtain ps where ps: "reaper_pid_info os st = (st', Inr ps)" and pids: "pids = map rp_pid (filter (\<lambda>p. rp_subtree p = subtree) ps)"
    using assms unfolding subtree_pids_def by (elim sbind_InrE) auto
  from reaper_pid_info_InrD [OF ps] show "pids = [] \<or> listed_pids subtree (h_trace st') = pids"
    by (auto simp: pids listed_pids_def)
  from reaper_pid_info_InrD [OF ps] show "shows_empty subtree (last (h_trace st'))" if "pids = []"
    using that by (auto simp: pids shows_empty_def)
qed

lemma reap_pids_made:
  assumes "set pids \<subseteq> set (listed_pids subtree (h_trace st))"
  shows "made (tree_call subtree sigs reap) st (reap_pids os subtree reap pids st)"
  using assms
proof (induction pids arbitrary: st)
  case (Cons pid pids)
  show ?case
  proof (cases "\<not> reap \<and> pid = subtree")
    case True
    then show ?thesis using Cons by simp
  next
    case False
    let ?st = "fst (host_do os (WaitPid pid) st)"
    have "listed_pids subtree (h_trace ?st) = listed_pids subtree (h_trace st)"
      by (simp add: host_do_def Let_def listed_pids_def)
    then have "made (tree_call subtree sigs reap) ?st (reap_pids os subtree reap pids ?st)" using Cons by simp
    moreover have "made (tree_call subtree sigs reap) st ?st" by (rule made_do) (use False Cons.prems in auto)
    ultimately show ?thesis using False made_trans by auto
  qed
qed simp

lemma processes_remain_made: "made (tree_call subtree sigs reap) st (fst (processes_remain os subtree reap st))"
  unfolding processes_remain_def
proof (rule made_sbind [OF subtree_pids_made])
  fix st' pids
  assume "subtree_pids os subtree st = (st', Inr pids)"
  then have "set pids \<subseteq> set (listed_pids subtree (h_trace st'))" using subtree_pids_listed(1) by fastforce
  then have reaped: "made (tree_call subtree sigs reap) st' (reap_pids os subtree reap pids st')" by (rule reap_pids_made)
  show "made (tree_call subtree sigs reap) st' (fst (let st = reap_pids os subtree reap pids st' in
     if pids = [] then (st, Inr False) else sbind (subtree_pids os subtree st) (\<lambda>st remaining. (st, Inr (remaining \<noteq> [])))))"
    by (auto simp: Let_def reaped intro!: made_trans [OF reaped made_sbind [OF subtree_pids_made]])
qed

lemma processes_remain_False:
  assumes "processes_remain os subtree reap st = (st', Inr False)"
  shows "shows_empty subtree (last (h_trace st'))"
proof -
  obtain st1 pids where pids: "subtree_pids os subtree st = (st1, Inr pids)"
    and rest: "(let st = reap_pids os subtree reap pids st1 in
     if pids = [] then (st, Inr False) else sbind (subtree_pids os subtree st) (\<lambda>st remaining. (st, Inr (remaining \<noteq> [])))) = (st', Inr False)"
    using assms unfolding processes_remain_def by (elim sbind_InrE) blast
  show ?thesis
  proof (cases "pids = []")
    case True
    then show ?thesis using rest subtree_pids_listed(2) [OF pids] by simp
  next
    case False
    then have "subtree_pids os subtree (reap_pids os subtree reap pids st1) = (st', Inr [])"
      using rest by (auto simp: Let_def elim!: sbind_InrE)
    then show ?thesis by (rule subtree_pids_listed(2)) simp
  qed
qed

lemma signal_tree_made: "sig \<in> sigs \<Longrightarrow> made (tree_call subtree sigs reap) st (fst (signal_tree os subtree sig st))"
  unfolding signal_tree_def by (cases "host_do os (ReapKill sig subtree) st") (auto elim: made_doE)

lemma pause_made: "made (tree_call subtree sigs reap) st (pause os st)"
  unfolding pause_def by (rule made_do) simp

lemma wait_until_empty_loop_made:
  assumes "sig \<in> sigs"
  shows "made (tree_call subtree sigs reap) st (fst (wait_until_empty_loop os subtree deadline sig reap st))"
  using assms
proof (induction os subtree deadline sig reap st rule: wait_until_empty_loop.induct)
  case (1 os subtree deadline sig reap st)
  show ?case
    apply (subst wait_until_empty_loop.simps)
    apply (rule made_sbind [OF processes_remain_made])
    apply (auto intro!: made_sbind [OF signal_tree_made [OF "1.prems"]] made_trans [OF pause_made "1.IH"] "1.prems")
    done
qed

lemma wait_until_empty_loop_True:
  "wait_until_empty_loop os subtree deadline sig reap st = (st', Inr True) \<Longrightarrow> shows_empty subtree (last (h_trace st'))"
proof (induction os subtree deadline sig reap st rule: wait_until_empty_loop.induct)
  case (1 os subtree deadline sig reap st)
  obtain st1 remain where r: "processes_remain os subtree reap st = (st1, Inr remain)"
    and rest: "(if \<not> remain then (st1, Inr True)
     else
       sbind (signal_tree os subtree sig st1) (\<lambda>st _.
       if deadline \<le> h_clock st then (st, Inr False)
       else wait_until_empty_loop os subtree deadline sig reap (pause os st))) = (st', Inr True)"
    using "1.prems" by (subst (asm) wait_until_empty_loop.simps) (elim sbind_InrE, blast)
  show ?case
  proof (cases remain)
    case True
    then obtain st2 where "signal_tree os subtree sig st1 = (st2, Inr ())" "\<not> deadline \<le> h_clock st2"
      "wait_until_empty_loop os subtree deadline sig reap (pause os st2) = (st', Inr True)"
      using rest by (auto elim!: sbind_InrE split: if_splits)
    then show ?thesis using "1.IH" [OF r _ _ _ _] True by auto
  next
    case False
    then show ?thesis using rest processes_remain_False r by auto
  qed
qed


section \<open>Bounds\<close>

text \<open>The signals sent to trees.\<close>

fun is_tree_kill :: "host_call \<times> host_answer \<Rightarrow> bool" where
  "is_tree_kill (ReapKill _ _, _) = True"
| "is_tree_kill _ = False"

definition tree_kills :: "host \<Rightarrow> nat" where
  "tree_kills st = length (filter is_tree_kill (h_trace st))"

lemma tree_kills_do: "tree_kills (fst (host_do os c st)) = tree_kills st + (if is_tree_kill (c, Fine) then 1 else 0)"
  by (cases c) (simp_all add: tree_kills_def host_do_def Let_def)

lemma host_do_kills: "host_do os c st = (st', a) \<Longrightarrow> \<not> is_tree_kill (c, Fine) \<Longrightarrow> tree_kills st' = tree_kills st"
  using tree_kills_do [of os c st] by simp

lemma kills_sbind:
  assumes "tree_kills (fst m) = k" "\<And>st' x. m = (st', Inr x) \<Longrightarrow> tree_kills (fst (f st' x)) = tree_kills st'"
  shows "tree_kills (fst (sbind m f)) = k"
  using assms by (cases m; cases "snd m") (auto simp: sbind_def)

lemma reaper_status_kills: "tree_kills (fst (reaper_status os st)) = tree_kills st"
  unfolding reaper_status_def by (cases "host_do os (ReapStatus 0) st") (simp add: host_do_kills)

lemma reaper_pid_info_kills: "tree_kills (fst (reaper_pid_info os st)) = tree_kills st"
  unfolding reaper_pid_info_def
  by (rule kills_sbind [OF reaper_status_kills]) (auto simp: Let_def host_do_kills split: prod.splits)

lemma subtree_pids_kills: "tree_kills (fst (subtree_pids os subtree st)) = tree_kills st"
  unfolding subtree_pids_def by (rule kills_sbind [OF reaper_pid_info_kills]) simp

lemma reap_pids_kills: "tree_kills (reap_pids os subtree reap pids st) = tree_kills st"
  by (induction os subtree reap pids st rule: reap_pids.induct) (auto simp: tree_kills_do)

lemma processes_remain_kills: "tree_kills (fst (processes_remain os subtree reap st)) = tree_kills st"
  unfolding processes_remain_def
  by (rule kills_sbind [OF subtree_pids_kills])
    (auto simp: Let_def reap_pids_kills intro!: kills_sbind [OF trans [OF subtree_pids_kills reap_pids_kills]])

lemma signal_tree_kills: "tree_kills (fst (signal_tree os subtree sig st)) = Suc (tree_kills st)"
  unfolding signal_tree_def using tree_kills_do [of os "ReapKill sig subtree" st]
  by (cases "host_do os (ReapKill sig subtree) st") simp

lemma pause_kills [simp]: "tree_kills (pause os st) = tree_kills st"
  by (simp add: pause_def tree_kills_do)

lemma pause_clock_100: "h_clock st + 100 \<le> h_clock (pause os st)"
  using host_do_clock [of st "Sleep POLL_INTERVAL" os] by (simp add: pause_def POLL_INTERVAL_def)

lemma poll_rounds:
  fixes deadline t t' :: nat
  assumes "t + 100 \<le> t'" "t < deadline"
  shows "(deadline - t' + 99) div 100 + 1 \<le> (deadline - t + 99) div 100"
proof -
  have "deadline - t' + 99 + 100 \<le> deadline - t + 99 \<or> deadline - t' = 0" using assms by linarith
  then show ?thesis
  proof
    assume "deadline - t' + 99 + 100 \<le> deadline - t + 99"
    then have "(deadline - t' + 99 + 1 * 100) div 100 \<le> (deadline - t + 99) div 100" by (intro div_le_mono) simp
    then show ?thesis by (simp only: div_mult_self1 [of 100])
  next
    assume "deadline - t' = 0"
    moreover have "100 div 100 \<le> (deadline - t + 99) div 100" using assms(2) by (intro div_le_mono) simp
    ultimately show ?thesis by simp
  qed
qed

lemma wait_until_empty_loop_kills:
  "tree_kills (fst (wait_until_empty_loop os subtree deadline sig reap st)) \<le> tree_kills st + (deadline - h_clock st + 99) div 100 + 1"
proof (induction os subtree deadline sig reap st rule: wait_until_empty_loop.induct)
  case (1 os subtree deadline sig reap st)
  obtain st1 r1 where r1: "processes_remain os subtree reap st = (st1, r1)" by fastforce
  have k1: "tree_kills st1 = tree_kills st" "h_clock st \<le> h_clock st1"
    using processes_remain_kills [of os subtree reap st] processes_remain_clock [of st os subtree reap] r1 by simp_all
  obtain st2 r2 where r2: "signal_tree os subtree sig st1 = (st2, r2)" by fastforce
  have k2: "tree_kills st2 = Suc (tree_kills st1)" "h_clock st1 \<le> h_clock st2"
    using signal_tree_kills [of os subtree sig st1] signal_tree_clock [of st1 os subtree sig] r2 by simp_all
  show ?case
  proof (cases "r1 = Inr True \<and> r2 = Inr () \<and> \<not> deadline \<le> h_clock st2")
    case True
    let ?next = "wait_until_empty_loop os subtree deadline sig reap (pause os st2)"
    have eq: "wait_until_empty_loop os subtree deadline sig reap st = ?next"
      by (subst wait_until_empty_loop.simps) (use True r1 r2 in simp)
    have "tree_kills (fst ?next) \<le> Suc (tree_kills st) + (deadline - h_clock (pause os st2) + 99) div 100 + 1"
      using "1.IH" [of st1 True st2 "()"] True r1 r2 k1 k2 by simp
    also have "\<dots> \<le> tree_kills st + (deadline - h_clock st2 + 99) div 100 + 1"
      using poll_rounds [OF pause_clock_100 [of st2 os], of deadline] True by simp
    also have "\<dots> \<le> tree_kills st + (deadline - h_clock st + 99) div 100 + 1"
      using k1 k2 by (intro add_mono div_le_mono) simp_all
    finally show ?thesis using eq by simp
  next
    case False
    have "fst (wait_until_empty_loop os subtree deadline sig reap st) \<in> {st1, st2}"
      by (subst wait_until_empty_loop.simps) (use False r1 r2 in \<open>auto simp: sbind_def split: sum.splits\<close>)
    then show ?thesis using k1 k2 by auto
  qed
qed

lemma wait_until_empty_kills:
  "tree_kills (fst (wait_until_empty os subtree TERMINATION_GRACE sig reap st)) \<le> tree_kills st + 21"
  using wait_until_empty_loop_kills [of os subtree "h_clock st + TERMINATION_GRACE" sig reap st]
  by (simp add: wait_until_empty_def TERMINATION_GRACE_def)


text \<open>
  C12. Terminating a sandbox process tree touches nothing else and ends: whatever the host answers, every signal goes
  to the subtree and is the requested one or \<^verbatim>\<open>SIGKILL\<close>, at most 42 signals are sent, only processes that the last
  listing of the subtree shows are reaped, the root of the subtree only when asked for, and success is reported
  only when the last answer shows the subtree without processes.
\<close>

theorem tree_termination_confined:
  "\<exists>ext. h_trace (fst (terminate_with_signal_mode os subtree sig reap st)) = h_trace st @ ext
     \<and> (\<forall>i<length ext. tree_call subtree {sig, SIGKILL} reap (h_trace st @ take i ext) (ext ! i))
     \<and> length (filter is_tree_kill ext) \<le> 42
     \<and> (snd (terminate_with_signal_mode os subtree sig reap st) = Inr () \<longrightarrow>
          shows_empty subtree (last (h_trace (fst (terminate_with_signal_mode os subtree sig reap st)))))"
proof -
  let ?wait = "\<lambda>sig st. wait_until_empty os subtree TERMINATION_GRACE sig reap st"
  let ?run = "terminate_with_signal_mode os subtree sig reap st"
  have wait: "made (tree_call subtree {sig, SIGKILL} reap) st (fst (?wait s st))" if "s \<in> {sig, SIGKILL}" for s st
    unfolding wait_until_empty_def by (rule wait_until_empty_loop_made [OF that])
  have "made (tree_call subtree {sig, SIGKILL} reap) st (fst ?run)"
    unfolding terminate_with_signal_mode_def by (rule made_sbind [OF wait]) (auto intro!: made_sbind [OF wait])
  then obtain ext where ext: "h_trace (fst ?run) = h_trace st @ ext"
    "\<forall>i<length ext. tree_call subtree {sig, SIGKILL} reap (h_trace st @ take i ext) (ext ! i)"
    by (auto simp: made_def)
  have "tree_kills (fst ?run) \<le> tree_kills st + 42"
  proof -
    obtain st1 r1 where r1: "?wait sig st = (st1, r1)" by fastforce
    obtain st2 r2 where r2: "?wait SIGKILL st1 = (st2, r2)" by fastforce
    have "tree_kills st1 \<le> tree_kills st + 21" "tree_kills st2 \<le> tree_kills st1 + 21"
      using wait_until_empty_kills [of os subtree sig reap st] wait_until_empty_kills [of os subtree SIGKILL reap st1] r1 r2 by simp_all
    moreover have "fst ?run \<in> {st1, st2}"
      by (auto simp: terminate_with_signal_mode_def r1 r2 sbind_def split: sum.splits)
    ultimately show ?thesis by auto
  qed
  then have "length (filter is_tree_kill ext) \<le> 42" using ext(1) by (simp add: tree_kills_def)
  moreover have "shows_empty subtree (last (h_trace (fst ?run)))" if ok: "snd ?run = Inr ()"
  proof -
    obtain st' where run: "?run = (st', Inr ())" using ok by (metis prod.collapse)
    then have "\<exists>s st1. ?wait s st1 = (st', Inr True)"
      unfolding terminate_with_signal_mode_def by (auto elim!: sbind_InrE split: if_splits) blast+
    then show ?thesis using run wait_until_empty_loop_True unfolding wait_until_empty_def by fastforce
  qed
  ultimately show ?thesis using ext by blast
qed

section \<open>Waiting for the application\<close>

lemma try_wait_made: "made (tree_call subtree sigs reap) st (fst (try_wait os status st))"
  unfolding try_wait_def by (cases "host_do os TryWait st") (auto elim: made_doE)

lemma try_wait_clock: "h_clock st \<le> h_clock (fst (try_wait os status st))"
  unfolding try_wait_def by (auto split: prod.splits dest: clock_mono_do)

lemma termination_signal_Some [simp]: "termination_signal os (Some x) st = (st, Some x)"
  by (simp add: termination_signal_def)

text \<open>The exit status that a wait may report: the one it knew, or one that the host gave.\<close>

definition known_status :: "int option \<Rightarrow> host \<Rightarrow> host \<Rightarrow> int option \<Rightarrow> bool" where
  "known_status status0 st st' status \<longleftrightarrow>
     (\<forall>code. status = Some code \<longrightarrow> status0 = Some code
        \<or> (TryWait, ExitStatus (Some code)) \<in> set (drop (length (h_trace st)) (h_trace st')))"

lemma try_wait_known: "try_wait os status st = (st', Inr s) \<Longrightarrow> known_status status st st' s"
  by (auto simp: try_wait_def known_status_def host_do_def Let_def split: if_splits host_answer.splits)

lemma made_drop: "made Q st st' \<Longrightarrow> h_trace st' = h_trace st @ drop (length (h_trace st)) (h_trace st')"
  by (auto simp: made_def)

lemma known_status_trans:
  assumes "known_status s0 st st1 s1" "known_status s1 st1 st2 s2" "made Q st st1" "made Q st1 st2"
  shows "known_status s0 st st2 s2"
proof -
  have "set (drop (length (h_trace st)) (h_trace st2)) = set (drop (length (h_trace st)) (h_trace st1)) \<union> set (drop (length (h_trace st1)) (h_trace st2))"
    using made_drop [OF assms(3)] made_drop [OF assms(4)] by (metis append.assoc append_eq_conv_conj set_append)
  then show ?thesis using assms(1,2) by (auto simp: known_status_def)
qed


text \<open>The outcome of a wait: the calls it made, and what a reported status means.\<close>

definition exit_outcome :: "int \<Rightarrow> int set \<Rightarrow> int option \<Rightarrow> host \<Rightarrow> (host \<times> int result) option \<Rightarrow> bool" where
  "exit_outcome subtree sigs status st res \<longleftrightarrow>
     (\<exists>st' r. res = Some (st', r) \<and> made (tree_call subtree sigs False) st st'
        \<and> (\<forall>code. r = Inr code \<longrightarrow> shows_empty subtree (last (h_trace st')) \<and> known_status status st st' (Some code)))"

lemma exit_outcome_later:
  assumes "exit_outcome subtree sigs status1 st1 res" "made (tree_call subtree sigs False) st st1" "known_status status st st1 status1"
  shows "exit_outcome subtree sigs status st res"
  using assms made_trans known_status_trans unfolding exit_outcome_def by blast

lemma exit_outcome_error: "made (tree_call subtree sigs False) st st' \<Longrightarrow> exit_outcome subtree sigs status st (Some (st', Inl e))"
  by (auto simp: exit_outcome_def)

lemma known_status_made:
  assumes "known_status s0 st st1 s" "made Q st st1" "made Q st1 st2"
  shows "known_status s0 st st2 s"
  by (rule known_status_trans [OF assms(1) _ assms(2,3)]) (simp add: known_status_def)

text \<open>One round of the wait after a termination was requested.\<close>

lemma wait_for_exit_round:
  assumes "sig \<in> sigs" "SIGKILL \<in> sigs"
    and again: "\<And>status' st' sig' deadline'. h_clock st < h_clock st'
       \<Longrightarrow> sig' = sig \<and> deadline' = deadline \<and> h_clock st < deadline \<or> sig \<noteq> SIGKILL \<and> sig' = SIGKILL
       \<Longrightarrow> exit_outcome subtree sigs status' st' (wait_for_exit_loop os subtree status' (Some (sig', deadline')) st')"
  shows "exit_outcome subtree sigs status st (wait_for_exit_loop os subtree status (Some (sig, deadline)) st)"
proof -
  let ?M = "made (tree_call subtree sigs False)"
  obtain st1 r1 where r1: "try_wait os status st = (st1, r1)" by fastforce
  have m1: "?M st st1" "h_clock st \<le> h_clock st1"
    using try_wait_made [of subtree sigs False st os status] try_wait_clock [of st os status] r1 by simp_all
  obtain st2 r2 where r2: "processes_remain os subtree False st1 = (st2, r2)" by fastforce
  have m2: "?M st st2" "?M st1 st2" "h_clock st1 \<le> h_clock st2"
    using made_trans [OF m1(1)] processes_remain_made [of subtree sigs False st1 os] processes_remain_clock [of st1 os subtree False] r2 by simp_all
  obtain st4 r4 where r4: "signal_tree os subtree sig st2 = (st4, r4)" by fastforce
  have m4: "?M st st4" "?M st2 st4" "h_clock st2 \<le> h_clock st4"
    using made_trans [OF m2(1)] signal_tree_made [OF assms(1), of subtree False st2 os] signal_tree_clock [of st2 os subtree sig] r4 by simp_all
  have m5: "?M st (pause os st4)" "h_clock st < h_clock (pause os st4)"
    using made_trans [OF m4(1) pause_made] pause_clock [of st4 os] m1 m2 m4 by simp_all
  show ?thesis
  proof (cases r1)
    case (Inl e)
    then show ?thesis by (subst wait_for_exit_loop.simps) (simp add: r1 exit_outcome_error m1)
  next
    case status: (Inr status1)
    have known: "known_status status st st1 status1" using try_wait_known r1 status by blast
    have later: "known_status status st st' status1" if "?M st1 st'" for st' using known_status_made [OF known m1(1) that] .
    show ?thesis
    proof (cases "r2 = Inr True \<and> r4 = Inr ()")
      case True
      have m15: "?M st1 (pause os st4)" using made_trans [OF m2(2) made_trans [OF m4(2) pause_made]] .
      have loop: "exit_outcome subtree sigs status st (wait_for_exit_loop os subtree status1 (Some (s, d)) (pause os st4))"
        if "s = sig \<and> d = deadline \<and> h_clock st < deadline \<or> sig \<noteq> SIGKILL \<and> s = SIGKILL" for s d
        by (rule exit_outcome_later [OF again m5(1) later [OF m15]]) (use that m5(2) in auto)
      have "h_clock st < deadline" if "h_clock st4 < deadline" using that m1 m2 m4 by simp
      then show ?thesis
        by (subst wait_for_exit_loop.simps) (use True r1 r2 r4 status loop in \<open>auto simp: exit_outcome_error m4\<close>)
    next
      case False
      have empty: "exit_outcome subtree sigs status st (Some (st2, ok_or e status1))" if "r2 = Inr False" for e
        using that processes_remain_False [of os subtree False st1 st2] later [OF m2(2)] r2 m2(1)
        by (cases status1) (auto simp: exit_outcome_def)
      show ?thesis
        by (subst wait_for_exit_loop.simps)
          (use False r1 r2 r4 status empty in \<open>auto simp: exit_outcome_error m2 m4 split: sum.splits\<close>)
    qed
  qed
qed

lemma wait_for_exit_terminating:
  assumes "sig \<in> sigs" "SIGKILL \<in> sigs"
  shows "exit_outcome subtree sigs status st (wait_for_exit_loop os subtree status (Some (sig, deadline)) st)"
  using assms
proof (induction "(if sig = SIGKILL then 0 else 1 :: nat, deadline - h_clock st)" arbitrary: sig deadline status st
    rule: wf_induct_rule [OF wf_lex_prod [OF wf_less_than wf_less_than]])
  case (1 sig deadline st status)
  show ?case
  proof (rule wait_for_exit_round [OF 1(2,3)])
    fix status' :: "int option" and st' :: host and sig' :: int and deadline' :: nat
    assume "h_clock st < h_clock st'"
      and "sig' = sig \<and> deadline' = deadline \<and> h_clock st < deadline \<or> sig \<noteq> SIGKILL \<and> sig' = SIGKILL"
    then show "exit_outcome subtree sigs status' st' (wait_for_exit_loop os subtree status' (Some (sig', deadline')) st')"
      using 1(2,3) by (intro 1(1)) auto
  qed
qed

text \<open>
  C17. A wait with a requested termination returns: after the request, whatever the host answers, the wait for the
  application ends; it signals only the subtree, with the requested signal or \<^verbatim>\<open>SIGKILL\<close>, never reaps the application
  itself, and a status it returns is one the host reported for the application while the subtree shows no process.
\<close>

theorem wait_for_exit_returns:
  "\<exists>st' r. wait_for_exit_loop os subtree status (Some (sig, deadline)) st = Some (st', r)
     \<and> (\<exists>ext. h_trace st' = h_trace st @ ext \<and> (\<forall>i<length ext. tree_call subtree {sig, SIGKILL} False (h_trace st @ take i ext) (ext ! i)))
     \<and> (\<forall>code. r = Inr code \<longrightarrow> shows_empty subtree (last (h_trace st')) \<and> known_status status st st' (Some code))"
  using wait_for_exit_terminating [of sig "{sig, SIGKILL}" subtree status st os deadline]
  by (simp add: exit_outcome_def made_def)

section \<open>Forced stop\<close>

lemma for_pid_Some:
  assumes "for_pid os pid st = (st', Inr (Some i))"
  shows "0 < pid \<and> h_trace st' = h_trace st @ [(SysctlProc pid, Proc (Some (pid, start_seconds i, start_microseconds i)))]"
  using assms by (auto simp: for_pid_def host_do_def Let_def split: if_splits host_answer.splits option.splits)

definition quiet_call :: "host_trace \<Rightarrow> host_call \<times> host_answer \<Rightarrow> bool" where
  "quiet_call t e \<longleftrightarrow> (\<forall>p s. fst e \<noteq> Kill p s)"

lemma for_pid_quiet: "made quiet_call st (fst (for_pid os pid st))"
  unfolding for_pid_def by (cases "host_do os (SysctlProc pid) st") (auto elim: made_doE simp: quiet_call_def)

lemma for_pid_fst: "made quiet_call st st'" if "for_pid os pid st = (st', r)"
  using for_pid_quiet [of st os pid] that by simp

lemma force_stop_calls:
  "\<exists>ext. h_trace (fst (force_stop_launcher os pid expected st)) = h_trace st @ ext
     \<and> (\<forall>i<length ext. \<forall>p s. fst (ext ! i) = Kill p s \<longrightarrow>
          p = pid \<and> s = FORCE_STOP_SIGNAL \<and> 0 < pid \<and> i = 3 \<and> length ext = 4
          \<and> ext ! 2 = (SysctlProc pid, Proc (Some (pid, start_seconds expected, start_microseconds expected)))
          \<and> (\<exists>flags n. ext ! 1 = (ReapStatus pid, Reaper flags n) \<and> flags AND REAPER_STATUS_OWNED \<noteq> 0))
     \<and> (snd (force_stop_launcher os pid expected st) = Inr Signaled \<longleftrightarrow> (\<exists>p s. (Kill p s, Fine) \<in> set ext))"
proof -
  have quiet: ?thesis if "made quiet_call st (fst (force_stop_launcher os pid expected st))"
    "snd (force_stop_launcher os pid expected st) \<noteq> Inr Signaled"
    using that by (fastforce simp: made_def quiet_call_def in_set_conv_nth)
  obtain st1 r1 where r1: "for_pid os pid st = (st1, r1)" by fastforce
  note q1 = for_pid_fst [OF r1]
  show ?thesis
  proof (cases "r1 = Inr (Some expected)")
    case False
    then show ?thesis using r1 q1 by (intro quiet) (auto simp: force_stop_launcher_def sbind_def split: sum.splits)
  next
    case id1: True
    obtain st2 a2 where r2: "host_do os (ReapStatus pid) st1 = (st2, a2)" by fastforce
    have q2: "made quiet_call st st2" by (rule made_trans [OF q1 made_doE [OF r2]]) (simp add: quiet_call_def)
    obtain st3 r3 where r3: "for_pid os pid st2 = (st3, r3)" by fastforce
    have q3: "made quiet_call st st3" by (rule made_trans [OF q2 for_pid_fst [OF r3]])
    show ?thesis
    proof (cases "\<exists>flags n. a2 = Reaper flags n \<and> flags AND REAPER_STATUS_OWNED \<noteq> 0 \<and> r3 = Inr (Some expected)")
      case False
      then show ?thesis using r1 r2 r3 q2 q3 id1
        by (intro quiet) (auto simp: force_stop_launcher_def sbind_def split: sum.splits host_answer.splits)
    next
      case True
      then obtain flags n where a2: "a2 = Reaper flags n" "flags AND REAPER_STATUS_OWNED \<noteq> 0" and id3: "r3 = Inr (Some expected)" by blast
      obtain st4 a4 where r4: "host_do os (Kill pid FORCE_STOP_SIGNAL) st3 = (st4, a4)" by fastforce
      let ?id = "(SysctlProc pid, Proc (Some (pid, start_seconds expected, start_microseconds expected)))"
      have "h_trace st4 = h_trace st @ [?id, (ReapStatus pid, a2), ?id, (Kill pid FORCE_STOP_SIGNAL, a4)]"
        using for_pid_Some [of os pid st st1 expected] for_pid_Some [of os pid st2 st3 expected] r1 r3 id1 id3
          host_do_trace [OF r2] host_do_trace [OF r4] by simp
      moreover have "force_stop_launcher os pid expected st = (st4, if a4 = Fine then Inr Signaled
                          else if a4 = OsErr ESRCH then Inr Exited
                          else Inl (Context (''request force-stop from launcher '' @ int_digits pid) (os_error a4)))"
        using r1 r2 r3 r4 id1 id3 a2 by (simp add: force_stop_launcher_def)
      moreover have "0 < pid" using for_pid_Some [of os pid st st1 expected] r1 id1 by simp
      ultimately show ?thesis using a2
        by (intro exI [of _ "[?id, (ReapStatus pid, a2), ?id, (Kill pid FORCE_STOP_SIGNAL, a4)]"]) (auto simp: less_Suc_eq nth_Cons')
    qed
  qed
qed

text \<open>
  C16. A forced stop hits only the launcher it was meant for: the one signal that is sent is the force-stop signal
  to the requested process, directly after the kernel gave that process the expected identity, and after it was
  found to own its descendants; the result says whether that signal was delivered.
\<close>

theorem force_stop_identity_checked:
  "\<exists>ext. h_trace (fst (force_stop_launcher os pid expected st)) = h_trace st @ ext
     \<and> (\<forall>i<length ext. \<forall>p s. fst (ext ! i) = Kill p s \<longrightarrow>
          p = pid \<and> s = FORCE_STOP_SIGNAL \<and> 0 < pid \<and> i = 3 \<and> length ext = 4
          \<and> ext ! 2 = (SysctlProc pid, Proc (Some (pid, start_seconds expected, start_microseconds expected)))
          \<and> (\<exists>flags n. ext ! 1 = (ReapStatus pid, Reaper flags n) \<and> flags AND REAPER_STATUS_OWNED \<noteq> 0))
     \<and> (snd (force_stop_launcher os pid expected st) = Inr Signaled \<longleftrightarrow> (\<exists>p s. (Kill p s, Fine) \<in> set ext))"
  by (rule force_stop_calls)

lemma identity_parses:
  assumes "- (2 ^ 63) \<le> start_seconds i" "start_seconds i < 2 ^ 63" "- (2 ^ 63) \<le> start_microseconds i" "start_microseconds i < 2 ^ 63"
  shows "ProcessIdentity_parse (ProcessIdentity_display i) = Some i"
proof -
  have "\<not> is_ascii_digit (CHR '':'')" by code_simp
  then have "CHR '':'' \<notin> set (nat_digits n)" for n using nat_digits_digit by blast
  then have colon: "CHR '':'' \<notin> set (int_digits n)" for n by (simp add: int_digits_def)
  have "split_once (CHR '':'') (ProcessIdentity_display i) = Some (int_digits (start_seconds i), int_digits (start_microseconds i))"
    by (simp add: ProcessIdentity_display_def split_once_Some_iff colon)
  then show ?thesis using assms by (simp add: ProcessIdentity_parse_def parse_sint_int_digits)
qed

text \<open>
  The identity of a process survives its record: what \<^verbatim>\<open>Display\<close> prints parses back to the same identity, for
  all 64-bit times.
\<close>

theorem process_identity_roundtrip:
  assumes "- (2 ^ 63) \<le> start_seconds i" "start_seconds i < 2 ^ 63" "- (2 ^ 63) \<le> start_microseconds i" "start_microseconds i < 2 ^ 63"
  shows "ProcessIdentity_parse (ProcessIdentity_display i) = Some i"
  using assms by (rule identity_parses)

theorem process_identity_roundtrip_witness:
  "ProcessIdentity_parse (ProcessIdentity_display \<lparr>start_seconds = 1700000000, start_microseconds = 12\<rparr>)
     = Some \<lparr>start_seconds = 1700000000, start_microseconds = 12\<rparr>"
  by (rule process_identity_roundtrip) simp_all


section \<open>Killing the processes of a root\<close>

text \<open>The processes of the last snapshot of a trace, and the pauses made.\<close>

fun is_snapshot :: "host_call \<times> host_answer \<Rightarrow> bool" where
  "is_snapshot (Procstat, _) = True"
| "is_snapshot _ = False"

fun snapshot_of :: "host_call \<times> host_answer \<Rightarrow> snapshot" where
  "snapshot_of (Procstat, Output True out) = SandboxProcessSnapshot_parse out"
| "snapshot_of _ = []"

definition last_snapshot :: "host_trace \<Rightarrow> snapshot" where
  "last_snapshot t = (case find is_snapshot (rev t) of None \<Rightarrow> [] | Some e \<Rightarrow> snapshot_of e)"

fun is_pause :: "host_call \<times> host_answer \<Rightarrow> bool" where
  "is_pause (Sleep _, _) = True"
| "is_pause _ = False"

definition pauses :: "host_trace \<Rightarrow> nat" where
  "pauses t = length (filter is_pause t)"

text \<open>A kill names a process of the last snapshot other than this one, \<^verbatim>\<open>SIGKILL\<close> only after \<open>patience\<close> pauses.\<close>

fun root_call :: "int \<Rightarrow> path list \<Rightarrow> nat \<Rightarrow> host_trace \<Rightarrow> host_call \<times> host_answer \<Rightarrow> bool" where
  "root_call own roots patience t (Kill pid sig, _) \<longleftrightarrow>
     pid \<noteq> own \<and> pid \<in> set (pids_referencing_roots (last_snapshot t) roots)
     \<and> (sig = SIGTERM \<or> sig = SIGKILL \<and> patience \<le> pauses t)"
| "root_call own roots patience t (Procstat, _) \<longleftrightarrow> True"
| "root_call own roots patience t (Sleep _, _) \<longleftrightarrow> True"
| "root_call own roots patience t _ \<longleftrightarrow> False"

lemma capture_made: "made (root_call own roots patience) st (fst (capture os st))"
  unfolding capture_def by (cases "host_do os Procstat st") (auto elim: made_doE)

lemma capture_InrD:
  assumes "capture os st = (st', Inr snap)"
  shows "last_snapshot (h_trace st') = snap \<and> pauses (h_trace st') = pauses (h_trace st)"
  using assms by (auto simp: capture_def host_do_def Let_def last_snapshot_def pauses_def split: host_answer.splits if_splits)

lemma live_pids_made: "made (root_call own roots patience) st (fst (live_pids os roots' st))"
  unfolding live_pids_def by (rule made_sbind [OF capture_made]) simp

lemma live_pids_InrD:
  assumes "live_pids os roots st = (st', Inr pids)"
  shows "pids = pids_referencing_roots (last_snapshot (h_trace st')) roots \<and> pauses (h_trace st') = pauses (h_trace st)"
  using assms unfolding live_pids_def by (elim sbind_InrE) (auto dest: capture_InrD)

lemma other_pids_made: "made (root_call own roots patience) st (fst (other_pids os own' roots' st))"
  unfolding other_pids_def by (rule made_sbind [OF live_pids_made]) simp

lemma other_pids_InrD:
  assumes "other_pids os own roots st = (st', Inr pids)"
  shows "pids = filter (\<lambda>pid. pid \<noteq> own) (pids_referencing_roots (last_snapshot (h_trace st')) roots)
    \<and> pauses (h_trace st') = pauses (h_trace st)"
  using assms unfolding other_pids_def by (elim sbind_InrE) (auto dest: live_pids_InrD)

lemma kill_pids_made:
  assumes "\<forall>pid\<in>set pids. pid \<noteq> own \<and> pid \<in> set (pids_referencing_roots (last_snapshot (h_trace st)) roots)"
    and "sig = SIGTERM \<or> sig = SIGKILL \<and> patience \<le> pauses (h_trace st)"
  shows "made (root_call own roots patience) st (kill_pids os sig pids st) \<and> pauses (h_trace (kill_pids os sig pids st)) = pauses (h_trace st)"
  using assms
proof (induction pids arbitrary: st)
  case (Cons pid pids)
  let ?st = "fst (host_do os (Kill pid sig) st)"
  have same: "last_snapshot (h_trace ?st) = last_snapshot (h_trace st)" "pauses (h_trace ?st) = pauses (h_trace st)"
    by (simp_all add: host_do_def Let_def last_snapshot_def pauses_def)
  have "made (root_call own roots patience) st ?st" by (rule made_do) (use Cons.prems in auto)
  then show ?case using Cons.IH [of ?st] Cons.prems same made_trans by auto
qed simp

lemma pause_pauses: "pauses (h_trace (pause os st)) = Suc (pauses (h_trace st))"
  by (simp add: pause_def host_do_def Let_def pauses_def)

lemma root_pause_made: "made (root_call own roots patience) st (pause os st)"
  unfolding pause_def by (rule made_do) simp

lemma signal_rounds_made:
  assumes "sig = SIGTERM \<or> sig = SIGKILL \<and> patience \<le> pauses (h_trace st)"
  shows "made (root_call own roots patience) st (fst (signal_rounds os (other_pids os own roots) sig n st))"
  using assms
proof (induction n arbitrary: st)
  case (Suc n)
  show ?case unfolding signal_rounds.simps
  proof (rule made_sbind [OF other_pids_made])
    fix st' pids
    assume r: "other_pids os own roots st = (st', Inr pids)"
    note pids = other_pids_InrD [OF r]
    have kill: "made (root_call own roots patience) st' (kill_pids os sig pids st')"
      "pauses (h_trace (kill_pids os sig pids st')) = pauses (h_trace st)"
      using kill_pids_made [of pids own st' roots sig patience os] pids Suc.prems by auto
    let ?next = "pause os (kill_pids os sig pids st')"
    have "made (root_call own roots patience) ?next (fst (signal_rounds os (other_pids os own roots) sig n ?next))"
      by (rule Suc.IH) (use Suc.prems kill(2) in \<open>auto simp: pause_pauses\<close>)
    then show "made (root_call own roots patience) st' (fst (if pids = [] then (st', Inr True)
       else signal_rounds os (other_pids os own roots) sig n ?next))"
      using made_trans [OF made_trans [OF kill(1) root_pause_made]] by simp
  qed
qed simp

lemma signal_rounds_False:
  "signal_rounds os (other_pids os own roots) sig n st = (st', Inr False) \<Longrightarrow> sig = SIGTERM \<Longrightarrow> pauses (h_trace st') = pauses (h_trace st) + n"
proof (induction n arbitrary: st)
  case (Suc n)
  then obtain st1 pids where r: "other_pids os own roots st = (st1, Inr pids)"
    and rest: "signal_rounds os (other_pids os own roots) sig n (pause os (kill_pids os sig pids st1)) = (st', Inr False)"
    by (auto elim!: sbind_InrE split: if_splits)
  have "pauses (h_trace (kill_pids os sig pids st1)) = pauses (h_trace st)"
    using kill_pids_made [of pids own st1 roots sig 0 os] other_pids_InrD [OF r] Suc.prems(2) by auto
  then show ?case using Suc.IH [OF rest Suc.prems(2)] by (simp add: pause_pauses)
qed simp

lemma signal_rounds_True:
  "signal_rounds os (other_pids os own roots) sig n st = (st', Inr True)
     \<Longrightarrow> set (pids_referencing_roots (last_snapshot (h_trace st')) roots) \<subseteq> {own}"
proof (induction n arbitrary: st)
  case (Suc n)
  then obtain st1 pids where r: "other_pids os own roots st = (st1, Inr pids)"
    and rest: "(if pids = [] then (st1, Inr True)
       else signal_rounds os (other_pids os own roots) sig n (pause os (kill_pids os sig pids st1))) = (st', Inr True)"
    unfolding signal_rounds.simps by (elim sbind_InrE) blast
  show ?case
  proof (cases "pids = []")
    case True
    then have "filter (\<lambda>pid. pid \<noteq> own) (pids_referencing_roots (last_snapshot (h_trace st')) roots) = []"
      using other_pids_InrD [OF r] rest by simp
    then show ?thesis by (auto simp: filter_empty_conv)
  next
    case False
    then show ?thesis using Suc.IH rest by simp
  qed
qed simp

lemma root_termination_calls:
  "\<exists>ext. h_trace (fst (terminate_processes_referencing_roots os own roots st)) = h_trace st @ ext
     \<and> (\<forall>i<length ext. root_call own roots (pauses (h_trace st) + 20) (h_trace st @ take i ext) (ext ! i))
     \<and> (\<forall>b. snd (terminate_processes_referencing_roots os own roots st) = Inr b \<longrightarrow>
          set (pids_referencing_roots (last_snapshot (h_trace (fst (terminate_processes_referencing_roots os own roots st)))) roots) \<subseteq> {own})"
proof -
  let ?run = "terminate_processes_referencing_roots os own roots st"
  let ?Q = "root_call own roots (pauses (h_trace st) + 20)"
  have "made ?Q st (fst ?run)"
    unfolding terminate_processes_referencing_roots_def
  proof (rule made_sbind [OF live_pids_made])
    fix st1 initial
    assume r1: "live_pids os roots st = (st1, Inr initial)"
    have rounds: "made ?Q st1 (fst (signal_rounds os (other_pids os own roots) SIGTERM 20 st1))" by (rule signal_rounds_made) simp
    have kills: "made ?Q st2 (fst (signal_rounds os (other_pids os own roots) SIGKILL 20 st2))"
      if "signal_rounds os (other_pids os own roots) SIGTERM 20 st1 = (st2, Inr False)" for st2
      using signal_rounds_False [OF that refl] live_pids_InrD [OF r1] by (intro signal_rounds_made) simp
    show "made ?Q st1 (fst (if initial = [] then (st1, Inr False)
     else
       sbind (signal_rounds os (other_pids os own roots) SIGTERM 20 st1) (\<lambda>st ended.
       if ended then (st, Inr True)
       else
         sbind (signal_rounds os (other_pids os own roots) SIGKILL 20 st) (\<lambda>st ended.
         if ended then (st, Inr True)
         else
           sbind (live_pids os roots st) (\<lambda>st remaining.
           if remaining = [] then (st, Inr True)
           else (st, Inl (Bail (''sandbox processes survived SIGKILL: [''
                  @ join_with '', '' (map int_digits remaining) @ '']'')))))))) "
      by (auto intro!: made_sbind [OF rounds] made_sbind [OF kills] made_sbind [OF live_pids_made])
  qed
  moreover have "set (pids_referencing_roots (last_snapshot (h_trace (fst ?run))) roots) \<subseteq> {own}" if ok: "snd ?run = Inr b" for b
  proof -
    obtain st' where "?run = (st', Inr b)" using ok by (metis prod.collapse)
    moreover then have "set (pids_referencing_roots (last_snapshot (h_trace st')) roots) \<subseteq> {own}"
      unfolding terminate_processes_referencing_roots_def
      by (auto elim!: sbind_InrE split: if_splits dest!: live_pids_InrD signal_rounds_True) blast+
    ultimately show ?thesis by simp
  qed
  ultimately show ?thesis unfolding made_def by blast
qed

text \<open>
  C30. Processes are killed only for the root they run in: whatever the host answers, every signal of the termination
  of a set of roots goes to a process other than this one that the snapshot taken just before shows with its working,
  root or jail directory below one of the roots, \<^verbatim>\<open>SIGKILL\<close> only after twenty rounds of \<^verbatim>\<open>SIGTERM\<close>, and success means
  that the last snapshot shows no other process there.
\<close>

theorem root_termination_confined:
  "\<exists>ext. h_trace (fst (terminate_processes_referencing_roots os own roots st)) = h_trace st @ ext
     \<and> (\<forall>i<length ext. root_call own roots (pauses (h_trace st) + 20) (h_trace st @ take i ext) (ext ! i))
     \<and> (\<forall>b. snd (terminate_processes_referencing_roots os own roots st) = Inr b \<longrightarrow>
          set (pids_referencing_roots (last_snapshot (h_trace (fst (terminate_processes_referencing_roots os own roots st)))) roots) \<subseteq> {own})"
  by (rule root_termination_calls)


section \<open>A host with one child\<close>

text \<open>The child 7 runs until it is signalled or asked to stop, and its launcher 9 owns its descendants.\<close>

lemma parse_sint_code [code]:
  "parse_sint width s =
     (case s of
        [] \<Rightarrow> None
      | c # cs \<Rightarrow>
          let ds = (if c = CHR ''-'' \<or> c = CHR ''+'' then cs else s); n = int (digits_value ds) in
          if ds = [] \<or> list_ex (\<lambda>c. \<not> is_ascii_digit c) ds then None
          else if c = CHR ''-'' then if n \<le> 2 ^ (width - 1) then Some (- n) else None
          else if n \<le> 2 ^ (width - 1) - 1 then Some n else None)"
proof -
  have "int (2 ^ (width - 1) - 1) = 2 ^ (width - 1) - 1" by (simp add: of_nat_diff)
  then have le: "n \<le> 2 ^ (width - 1) - 1 \<longleftrightarrow> int n \<le> 2 ^ (width - 1) - 1" for n :: nat by (metis of_nat_le_iff)
  have le': "n \<le> 2 ^ (width - 1) \<longleftrightarrow> int n \<le> 2 ^ (width - 1)" for n :: nat by simp
  show ?thesis
  proof (cases s)
    case (Cons c cs)
    consider "c = CHR ''-''" | "c = CHR ''+''" | "c \<noteq> CHR ''-''" "c \<noteq> CHR ''+''" by blast
    then show ?thesis
      by cases (simp_all only: parse_sint_def parse_uint_def parse_digits_def Let_def Cons list.case le le' if_True if_False simp_thms char.inject
          if_distrib [of "map_option int"] if_distrib [of "map_option (\<lambda>n. - int n)"] option.map)
  qed (simp add: parse_sint_def)
qed

definition child_os :: host_os where
  "child_os = \<lparr>os_answer = (\<lambda>t c.
       let alive = \<not> list_ex (\<lambda>(c, _). case c of ReapKill _ _ \<Rightarrow> True | Kill _ _ \<Rightarrow> True | _ \<Rightarrow> False) t in
       case c of
         ReapStatus _ \<Rightarrow> Reaper 1 (if alive then 1 else 0)
       | ReapGetPids _ \<Rightarrow> PidInfos [\<lparr>rp_pid = 7, rp_subtree = 7, rp_flags = 1\<rparr>]
       | SysctlProc p \<Rightarrow> Proc (Some (p, 5, 6))
       | TryWait \<Rightarrow> ExitStatus (if alive then None else Some 0)
       | Procstat \<Rightarrow> Output True (''  PID COMM   FD T V FLAGS   NAME'' @ (if alive then CHR 0x0A # ''    7 app   cwd v d r---    /c/n/bin'' else []))
       | _ \<Rightarrow> Fine), os_elapsed = (\<lambda>_. 0)\<rparr>"

abbreviation fresh_host :: host where
  "fresh_host \<equiv> \<lparr>h_trace = [], h_clock = 0\<rparr>"

theorem tree_termination_confined_witness:
  "\<exists>t. h_trace (fst (terminate_with_signal_mode child_os 7 SIGTERM True fresh_host)) = t
     \<and> (ReapKill SIGTERM 7, Fine) \<in> set t \<and> shows_empty 7 (last t) \<and> length (filter is_tree_kill t) \<le> 42"
proof -
  let ?run = "terminate_with_signal_mode child_os 7 SIGTERM True fresh_host"
  have "snd ?run = Inr ()" "(ReapKill SIGTERM 7, Fine) \<in> set (h_trace (fst ?run))" by code_simp+
  then show ?thesis using tree_termination_confined [of child_os 7 SIGTERM True fresh_host] by auto
qed

theorem wait_for_exit_returns_witness:
  "\<exists>st' r. wait_for_exit_loop child_os 7 None (Some (SIGTERM, 2000)) fresh_host = Some (st', r)
     \<and> (\<forall>code. r = Inr code \<longrightarrow> shows_empty 7 (last (h_trace st')))"
  using wait_for_exit_returns [of child_os 7 None SIGTERM 2000 fresh_host] by blast

theorem force_stop_identity_checked_witness:
  "snd (force_stop_launcher child_os 9 \<lparr>start_seconds = 5, start_microseconds = 6\<rparr> fresh_host) = Inr Signaled
     \<and> (\<exists>ext. h_trace (fst (force_stop_launcher child_os 9 \<lparr>start_seconds = 5, start_microseconds = 6\<rparr> fresh_host)) = ext
          \<and> length ext = 4 \<and> ext ! 2 = (SysctlProc 9, Proc (Some (9, 5, 6))) \<and> fst (ext ! 3) = Kill 9 FORCE_STOP_SIGNAL)"
proof -
  let ?i = "\<lparr>start_seconds = 5, start_microseconds = 6\<rparr>"
  let ?run = "force_stop_launcher child_os 9 ?i fresh_host"
  have ok: "snd ?run = Inr Signaled" "fst (h_trace (fst ?run) ! 3) = Kill 9 FORCE_STOP_SIGNAL" "length (h_trace (fst ?run)) = 4" by code_simp+
  obtain ext where ext: "h_trace (fst ?run) = ext" "\<forall>i<length ext. \<forall>p s. fst (ext ! i) = Kill p s \<longrightarrow>
       p = 9 \<and> s = FORCE_STOP_SIGNAL \<and> 0 < (9::int) \<and> i = 3 \<and> length ext = 4 \<and> ext ! 2 = (SysctlProc 9, Proc (Some (9, 5, 6)))
          \<and> (\<exists>flags n. ext ! 1 = (ReapStatus 9, Reaper flags n) \<and> flags AND REAPER_STATUS_OWNED \<noteq> 0)"
    using force_stop_identity_checked [of child_os 9 ?i fresh_host] by (elim exE conjE) (rule that; simp)
  have "(3::nat) < length ext" "fst (ext ! 3) = Kill 9 FORCE_STOP_SIGNAL" using ok ext(1) by simp_all
  then have "ext ! 2 = (SysctlProc 9, Proc (Some (9, 5, 6)))" using ext(2) by blast
  then show ?thesis using ok ext(1) by blast
qed



theorem root_termination_confined_witness:
  "snd (terminate_processes_referencing_roots child_os 1 [[RootDir, Normal ''c'', Normal ''n'']] fresh_host) = Inr True
     \<and> (\<exists>ext. h_trace (fst (terminate_processes_referencing_roots child_os 1 [[RootDir, Normal ''c'', Normal ''n'']] fresh_host)) = ext
          \<and> (Kill 7 SIGTERM, Fine) \<in> set ext
          \<and> (\<forall>i<length ext. root_call 1 [[RootDir, Normal ''c'', Normal ''n'']] 20 (take i ext) (ext ! i)))"
proof -
  let ?run = "terminate_processes_referencing_roots child_os 1 [[RootDir, Normal ''c'', Normal ''n'']] fresh_host"
  have "snd ?run = Inr True" "(Kill 7 SIGTERM, Fine) \<in> set (h_trace (fst ?run))" "pauses (h_trace fresh_host) = 0" by code_simp+
  moreover obtain ext where "h_trace (fst ?run) = h_trace fresh_host @ ext" "\<forall>i<length ext. root_call 1 [[RootDir, Normal ''c'', Normal ''n'']]
       (pauses (h_trace fresh_host) + 20) (h_trace fresh_host @ take i ext) (ext ! i)"
    using root_termination_confined [of child_os 1 "[[RootDir, Normal ''c'', Normal ''n'']]" fresh_host] by (elim exE conjE) (rule that)
  ultimately show ?thesis by (intro conjI exI [of _ ext]) simp_all
qed

end
