(* ===== verification/Run_Records.thy ===== *)
theory Run_Records
  imports Extensions Process_Supervision
begin

text \<open>
  The records of running sandboxes (\<^verbatim>\<open>src/src/installation/run_records.rs\<close>): what a launcher writes, what is read
  back, and whether the launcher of a record still runs.

  The directory of run records is the list of its files. The failure of a write is an argument; the identity of the
  launcher is asked of the host of \<^verbatim>\<open>Process_Supervision\<close>.
\<close>

section \<open>Operations\<close>

type_synonym run_files = "(path \<times> string) list"
type_synonym run_values = "string \<Rightarrow> string option"

definition runs :: "Installation \<Rightarrow> path" where
  "runs paths = join_str (runtime_root paths) ''runs''"

definition run_record_path :: "Installation \<Rightarrow> string \<Rightarrow> string \<Rightarrow> path result" where
  "run_record_path paths app_id instance_id =
     rbind (safe_name app_id) (\<lambda>a.
     rbind (safe_name instance_id) (\<lambda>i.
     Inr (join_str (runs paths) (a @ ''.'' @ i @ ''.ini''))))"

record run_record =
  rn_app_id :: string
  rn_instance_id :: string
  rn_root :: path
  rn_launcher_pid :: u32
  rn_child_pid :: u32
  rn_parent_root :: "path option"
  rn_deployment :: "AppRecord option"
  rn_checkout_paths :: "(path \<times> path) option"
  rn_extension_refs :: "string list"
  rn_extension_dirs :: "path list"

definition deployment_values :: "AppRecord \<Rightarrow> (string \<times> string) list" where
  "deployment_values a =
     [(''app_ref'', ar_app_ref a), (''app_commit'', ar_app_commit a), (''installed_size'', nat_digits (ar_installed_size a)),
      (''app_dir'', display_path (ar_app_dir a)), (''arch'', ar_arch a), (''branch'', ar_branch a),
      (''runtime_ref'', ar_runtime_ref a), (''runtime_commit'', ar_runtime_commit a),
      (''runtime_dir'', display_path (ar_runtime_dir a)), (''command'', ar_command a)]"

definition run_record_values :: "run_record \<Rightarrow> ProcessIdentity option \<Rightarrow> (string \<times> string) list" where
  "run_record_values r ident =
     [(''app_id'', rn_app_id r), (''instance_id'', rn_instance_id r), (''root'', display_path (rn_root r)),
      (''launcher_pid'', nat_digits (unat (rn_launcher_pid r))), (''child_pid'', nat_digits (unat (rn_child_pid r)))]
     @ (case rn_parent_root r of None \<Rightarrow> [] | Some p \<Rightarrow> [(''parent_root'', display_path p)])
     @ (case ident of None \<Rightarrow> [] | Some i \<Rightarrow> [(''launcher_start'', ProcessIdentity_display i)])
     @ (case rn_deployment r of
          Some a \<Rightarrow> deployment_values a
        | None \<Rightarrow>
            (case rn_checkout_paths r of
               None \<Rightarrow> []
             | Some (app_dir, runtime_dir) \<Rightarrow> [(''app_dir'', display_path app_dir), (''runtime_dir'', display_path runtime_dir)]))
     @ (if rn_extension_refs r = [] then [] else [(''extension_refs'', join_with '';'' (rn_extension_refs r))])
     @ (if rn_extension_dirs r = [] then [] else [(''extension_dirs'', join_with '';'' (map display_path (rn_extension_dirs r)))])"

text \<open>\<^verbatim>\<open>launcher_pid as libc::pid_t\<close> reads the 32 bits as a signed number.\<close>

definition write_run_record_inner ::
  "host_os \<Rightarrow> Installation \<Rightarrow> (path \<Rightarrow> error option) \<Rightarrow> run_record \<Rightarrow> run_files \<Rightarrow> host \<Rightarrow> host \<times> (run_files \<times> path) result" where
  "write_run_record_inner os paths faults r files st =
     (case run_record_path paths (rn_app_id r) (rn_instance_id r) of
        Inl e \<Rightarrow> (st, Inl e)
      | Inr path \<Rightarrow>
          sbind (for_pid os (sint (rn_launcher_pid r)) st) (\<lambda>st ident.
          (st, case faults path of
                 Some e \<Rightarrow> Inl e
               | None \<Rightarrow> Inr (AList.update path (kv_text (run_record_values r ident)) files, path))))"

definition write_run_record where
  "write_run_record os paths faults app_id instance_id root launcher_pid child_pid =
     write_run_record_inner os paths faults
       \<lparr>rn_app_id = app_id, rn_instance_id = instance_id, rn_root = root, rn_launcher_pid = launcher_pid, rn_child_pid = child_pid,
        rn_parent_root = None, rn_deployment = None, rn_checkout_paths = None, rn_extension_refs = [], rn_extension_dirs = []\<rparr>"

definition write_nested_run_record where
  "write_nested_run_record os paths faults app_id instance_id root parent_root launcher_pid =
     write_run_record_inner os paths faults
       \<lparr>rn_app_id = app_id, rn_instance_id = instance_id, rn_root = root, rn_launcher_pid = launcher_pid, rn_child_pid = 0,
        rn_parent_root = Some parent_root, rn_deployment = None, rn_checkout_paths = None, rn_extension_refs = [], rn_extension_dirs = []\<rparr>"

definition write_checkout_pin where
  "write_checkout_pin os own paths faults app_id instance_id root app_dir runtime_dir =
     write_run_record_inner os paths faults
       \<lparr>rn_app_id = app_id, rn_instance_id = instance_id, rn_root = root, rn_launcher_pid = own, rn_child_pid = 0,
        rn_parent_root = None, rn_deployment = None, rn_checkout_paths = Some (app_dir, runtime_dir), rn_extension_refs = [],
        rn_extension_dirs = []\<rparr>"

definition write_pinned_run_record_with_extension_deployments where
  "write_pinned_run_record_with_extension_deployments os paths faults instance_id root launcher_pid child_pid app refs dirs =
     write_run_record_inner os paths faults
       \<lparr>rn_app_id = ar_app_id app, rn_instance_id = instance_id, rn_root = root, rn_launcher_pid = launcher_pid, rn_child_pid = child_pid,
        rn_parent_root = None, rn_deployment = Some app, rn_checkout_paths = None, rn_extension_refs = refs, rn_extension_dirs = dirs\<rparr>"

definition write_pinned_run_record_with_extensions where
  "write_pinned_run_record_with_extensions os paths faults instance_id root launcher_pid child_pid app refs =
     write_pinned_run_record_with_extension_deployments os paths faults instance_id root launcher_pid child_pid app refs []"

definition write_pinned_run_record where
  "write_pinned_run_record os paths faults instance_id root launcher_pid child_pid app =
     write_pinned_run_record_with_extensions os paths faults instance_id root launcher_pid child_pid app []"

definition app_from_run_record :: "record_store \<Rightarrow> run_values \<Rightarrow> AppRecord result" where
  "app_from_run_record st kvs =
     (if kvs ''app_commit'' \<noteq> None then app_from_values kvs
      else rbind (required_value kvs ''app_id'') (get_app st))"

definition pinned_deployment_for_app ::
  "host_files \<Rightarrow> Installation \<Rightarrow> record_store \<Rightarrow> string \<Rightarrow> path \<Rightarrow> path \<Rightarrow> AppRecord result" where
  "pinned_deployment_for_app files paths st app_id app_dir runtime_dir =
     rbind (get_app st app_id) (\<lambda>app.
     let relative = (\<lambda>p. case relative_data_path paths p of Inl _ \<Rightarrow> p | Inr q \<Rightarrow> q);
         app = app\<lparr>ar_app_dir := relative app_dir, ar_runtime_dir := relative runtime_dir\<rparr> in
     rbind (deployment_marker files app_dir) (\<lambda>m.
     let app = (case m of None \<Rightarrow> app | Some (r, c) \<Rightarrow> app\<lparr>ar_app_ref := r, ar_app_commit := c\<rparr>) in
     rbind (deployment_marker files runtime_dir) (\<lambda>m.
     Inr (case m of
            None \<Rightarrow> app
          | Some (r, c) \<Rightarrow> app\<lparr>ar_runtime_ref := unwrap_or (strip_prefix r ''runtime/'') r, ar_runtime_commit := c\<rparr>))))"

definition remove_run_record :: "(path \<Rightarrow> error option) \<Rightarrow> path \<Rightarrow> run_files \<Rightarrow> run_files result" where
  "remove_run_record faults path files =
     (if map_of files path = None then Inr files
      else case faults path of
        Some e \<Rightarrow> Inl (Context (''remove '' @ display_path path) e)
      | None \<Rightarrow> Inr (AList.delete path files))"

definition portal_inactive_text :: "string \<Rightarrow> string" where
  "portal_inactive_text data =
     concat (map (\<lambda>l. l @ [newline]) (filter (\<lambda>l. \<not> starts_with l ''portal_active='') (lines data)))
     @ ''portal_active=false'' @ [newline]"

definition mark_run_record_portal_inactive :: "(path \<Rightarrow> error option) \<Rightarrow> path \<Rightarrow> run_files \<Rightarrow> run_files result" where
  "mark_run_record_portal_inactive faults path files =
     (case map_of files path of
        None \<Rightarrow> Inl (Bail (''read '' @ display_path path))
      | Some data \<Rightarrow>
          (case faults path of
             Some e \<Rightarrow> Inl (Context (''mark portal inactive in '' @ display_path path) e)
           | None \<Rightarrow> Inr (AList.update path (portal_inactive_text data) files)))"

definition ownership_record :: "path \<times> string \<Rightarrow> run_values result" where
  "ownership_record f = rbind (read_kv_file (snd f)) (\<lambda>r. Inr (r(''_path'' \<mapsto> display_path (fst f))))"

definition ownership_records :: "run_files \<Rightarrow> run_values list result" where
  "ownership_records files = traverse ownership_record files"

definition recorded_pid :: "run_values \<Rightarrow> int option" where
  "recorded_pid kvs =
     (case Option.bind (kvs ''launcher_pid'') (parse_sint 32) of
        None \<Rightarrow> None
      | Some pid \<Rightarrow> if 0 < pid then Some pid else None)"

definition run_record_launcher_active :: "host_os \<Rightarrow> run_values \<Rightarrow> host \<Rightarrow> host \<times> bool result" where
  "run_record_launcher_active os kvs st =
     (case recorded_pid kvs of
        None \<Rightarrow> (st, Inr False)
      | Some pid \<Rightarrow>
          (case kvs ''launcher_start'' of
             None \<Rightarrow>
               (case host_do os (Kill pid 0) st of
                  (st, a) \<Rightarrow>
                    (st, if a = Fine \<or> a = OsErr EPERM then Inr True
                         else if a = OsErr ESRCH then Inr False
                         else Inl (Context (''inspect legacy run-record launcher '' @ int_digits pid) (os_error a))))
           | Some recorded_value \<Rightarrow>
               (case ProcessIdentity_parse recorded_value of
                  None \<Rightarrow> (st, Inl (Bail (''invalid identity for run-record launcher '' @ int_digits pid)))
                | Some recorded \<Rightarrow> sbind (for_pid os pid st) (\<lambda>st current. (st, Inr (current = Some recorded))))))"


section \<open>Reading back\<close>

lemma run_record_keys: "list_all clean_key (map fst (run_record_values r ident))"
  unfolding run_record_values_def deployment_values_def
  by (auto simp: clean_key_def char_class_defs split: option.splits)

lemma map_of_run_record:
  "map_of (rev (run_record_values r ident)) ''root'' = Some (display_path (rn_root r))"
  "map_of (rev (run_record_values r ident)) ''app_id'' = Some (rn_app_id r)"
  "map_of (rev (run_record_values r ident)) ''launcher_pid'' = Some (nat_digits (unat (rn_launcher_pid r)))"
  "map_of (rev (run_record_values r ident)) ''launcher_start'' = map_option ProcessIdentity_display ident"
  "map_of (rev (run_record_values r ident)) ''parent_root'' = map_option display_path (rn_parent_root r)"
  by (auto simp: run_record_values_def deployment_values_def map_add_def split: option.splits)

lemma map_of_run_deployment:
  assumes "rn_deployment r = Some a"
  shows "map_of (rev (run_record_values r ident)) ''app_ref'' = Some (ar_app_ref a)"
  "map_of (rev (run_record_values r ident)) ''app_commit'' = Some (ar_app_commit a)"
  "map_of (rev (run_record_values r ident)) ''installed_size'' = Some (nat_digits (ar_installed_size a))"
  "map_of (rev (run_record_values r ident)) ''app_dir'' = Some (display_path (ar_app_dir a))"
  "map_of (rev (run_record_values r ident)) ''arch'' = Some (ar_arch a)"
  "map_of (rev (run_record_values r ident)) ''branch'' = Some (ar_branch a)"
  "map_of (rev (run_record_values r ident)) ''runtime_ref'' = Some (ar_runtime_ref a)"
  "map_of (rev (run_record_values r ident)) ''runtime_commit'' = Some (ar_runtime_commit a)"
  "map_of (rev (run_record_values r ident)) ''runtime_dir'' = Some (display_path (ar_runtime_dir a))"
  "map_of (rev (run_record_values r ident)) ''command'' = Some (ar_command a)"
  "map_of (rev (run_record_values r ident)) ''origin'' = None"
  "map_of (rev (run_record_values r ident)) ''runtime_origin'' = None"
  using assms by (auto simp: run_record_values_def deployment_values_def map_add_def split: option.splits)

lemma read_run_record:
  assumes "list_all clean_value (map snd (run_record_values r ident))"
  shows "ownership_record (path, kv_text (run_record_values r ident))
      = Inr ((map_of (rev (run_record_values r ident)))(''_path'' \<mapsto> display_path path))"
  using assms run_record_keys [of r ident] read_kv_text [of "run_record_values r ident"]
  by (simp add: ownership_record_def list_all_fst_snd)

lemma parse_pid: "n < 2 ^ 31 \<Longrightarrow> parse_sint 32 (nat_digits n) = Some (int n)"
  using parse_sint_int_digits [of 32 "int n"] by (simp add: int_digits_def)



definition run_demo_app :: AppRecord where
  "run_demo_app = \<lparr>ar_origin = ''beta'', ar_runtime_origin = ''beta'', ar_app_id = ''org.a.App'', ar_app_ref = ''app/org.a.App/x86/1'',
     ar_app_commit = ''c'', ar_installed_size = 1, ar_app_dir = [Normal ''a''], ar_arch = ''x86'', ar_branch = ''1'',
     ar_runtime_ref = ''org.a.P/x86/1'', ar_runtime_commit = ''p'', ar_runtime_dir = [Normal ''r''], ar_command = ''run''\<rparr>"

definition run_demo :: run_record where
  "run_demo = \<lparr>rn_app_id = ''org.a.App'', rn_instance_id = ''7'', rn_root = [RootDir, Normal ''c''], rn_launcher_pid = 42, rn_child_pid = 0,
     rn_parent_root = None, rn_deployment = Some run_demo_app, rn_checkout_paths = None, rn_extension_refs = [], rn_extension_dirs = []\<rparr>"

definition run_demo_identity :: ProcessIdentity where
  "run_demo_identity = \<lparr>start_seconds = 5, start_microseconds = 6\<rparr>"

definition run_demo_os :: host_os where
  "run_demo_os = \<lparr>os_answer = (\<lambda>_ c. case c of SysctlProc p \<Rightarrow> Proc (Some (p, 5, 6)) | _ \<Rightarrow> Fine), os_elapsed = (\<lambda>_. 0)\<rparr>"


end
