(* ===== verification/Stale_Recovery.thy ===== *)
theory Stale_Recovery
  imports Run_Records
begin

text \<open>
  Recovery of the mounts that a dead launcher left behind (\<^verbatim>\<open>src/src/sandbox/stale_sandbox_recovery.rs\<close>): which
  sandbox roots are in use, the order of the teardown, the termination of the processes of a root, and the unmounts.

  The host is that of \<^verbatim>\<open>Process_Supervision\<close>: the mount table, the run records, the process snapshot, the presence of
  \<^verbatim>\<open>.flatpak-info\<close> files and the outcome of every helper run are answers of the host, which may change between calls.
  The \<^verbatim>\<open>.flatpak-info\<close> files are looked at as they are when a view of the host is complete. Sets of paths
  (\<^verbatim>\<open>BTreeSet\<close>) are sorted lists. Creating missing directories and the warnings are left out.
\<close>

section \<open>The mount table\<close>

record MountInfo =
  mi_source :: path
  mi_mountpoint :: path
  mi_options :: string

fun split_at_str :: "string \<Rightarrow> string \<Rightarrow> (string \<times> string) option" where
  "split_at_str pat s =
     (case find_str pat s of None \<Rightarrow> None | Some i \<Rightarrow> Some (take i s, drop (i + length pat) s))"

definition parse_mount_line :: "string \<Rightarrow> MountInfo option" where
  "parse_mount_line line =
     (case split_at_str '' on '' line of
        None \<Rightarrow> None
      | Some (src, rest) \<Rightarrow>
          (case split_at_str '' ('' rest of
             None \<Rightarrow> None
           | Some (mountpoint, options) \<Rightarrow>
               Some \<lparr>mi_source = parse_path src, mi_mountpoint = parse_path mountpoint, mi_options = trim_end_matches '')'' options\<rparr>))"

definition mount_infos :: "host_os \<Rightarrow> host \<Rightarrow> host \<times> MountInfo list result" where
  "mount_infos os st =
     (case host_do os MountTable st of
        (st', a) \<Rightarrow>
          (st', case a of
             Output ok out \<Rightarrow>
               if \<not> ok then Inl (Bail ''mount command failed'')
               else if \<not> utf8_ok out then Inl (Bail ''invalid utf-8 sequence'')
               else Inr (List.map_filter parse_mount_line (lines out))
           | _ \<Rightarrow> Inl (Context ''read mount table'' (os_error a))))"

definition mount_points :: "host_os \<Rightarrow> host \<Rightarrow> host \<times> path list result" where
  "mount_points os st = sbind (mount_infos os st) (\<lambda>st ms. (st, Inr (map mi_mountpoint ms)))"

definition is_mounted :: "host_os \<Rightarrow> path \<Rightarrow> host \<Rightarrow> host \<times> bool result" where
  "is_mounted os target st = sbind (mount_points os st) (\<lambda>st ps. (st, Inr (target \<in> set ps)))"

text \<open>\<open>sort_mountpoints_deepest_first\<close>: by descending number of components, then descending.\<close>

definition sort_mountpoints_deepest_first :: "path list \<Rightarrow> path list" where
  "sort_mountpoints_deepest_first ps = rev (sort_key (\<lambda>p. (length p, p)) ps)"

definition mount_points_under :: "host_os \<Rightarrow> path \<Rightarrow> host \<Rightarrow> host \<times> path list result" where
  "mount_points_under os root st =
     sbind (mount_points os st) (\<lambda>st ps. (st, Inr (sort_mountpoints_deepest_first (filter (\<lambda>p. path_starts_with p root) ps))))"

definition ensure_mountpoint_free :: "host_os \<Rightarrow> path \<Rightarrow> host \<Rightarrow> host \<times> unit result" where
  "ensure_mountpoint_free os target st =
     sbind (is_mounted os target st) (\<lambda>st mounted.
     (st, if mounted then Inl (Bail (''sandbox mountpoint is already mounted; clean it first: '' @ display_path target)) else Inr ()))"

definition mountpoint_is_read_only :: "host_os \<Rightarrow> path \<Rightarrow> host \<Rightarrow> host \<times> bool result" where
  "mountpoint_is_read_only os mountpoint st =
     sbind (mount_infos os st) (\<lambda>st ms.
     (st, Inr (case find (\<lambda>m. mi_mountpoint m = mountpoint) ms of
                 None \<Rightarrow> False
               | Some m \<Rightarrow> ''read-only'' \<in> set (map trim (split_on (CHR '','') (mi_options m))))))"

section \<open>Roots\<close>

type_synonym edges = "(path \<times> path) list"

definition has_info :: "host_os \<Rightarrow> host \<Rightarrow> path \<Rightarrow> bool" where
  "has_info os st p \<longleftrightarrow> os_answer os (h_trace st) (IsFile (p @ [Normal ''.flatpak-info''])) = Holds True"

text \<open>The ancestors of a path, from its parent upwards.\<close>

function proper_ancestors :: "path \<Rightarrow> path list" where
  "proper_ancestors p = (case path_parent p of None \<Rightarrow> [] | Some q \<Rightarrow> q # proper_ancestors q)"
  by pat_completeness auto
termination
  by (relation "measure length") (auto simp: path_parent_def split: if_splits)

declare proper_ancestors.simps [simp del]

definition chroot_root_for_mount :: "(path \<Rightarrow> bool) \<Rightarrow> path \<Rightarrow> path \<Rightarrow> path option" where
  "chroot_root_for_mount info chroot_root mountpoint =
     find (\<lambda>p. path_starts_with p chroot_root \<and> info p) (takeWhile (\<lambda>p. p \<noteq> chroot_root) (proper_ancestors mountpoint))"

definition record_path_value :: "run_values \<Rightarrow> string \<Rightarrow> path option" where
  "record_path_value r key = map_option parse_path (r key)"

definition sandbox_roots :: "(path \<Rightarrow> bool) \<Rightarrow> path \<Rightarrow> run_values list \<Rightarrow> MountInfo list \<Rightarrow> path list" where
  "sandbox_roots info base records mounts =
     sort_dedup (List.map_filter (\<lambda>r. record_path_value r ''root'') records
       @ List.map_filter (\<lambda>m. chroot_root_for_mount info base (mi_mountpoint m)) mounts)"

text \<open>A root keeps its parent, and the root that a mount belongs to keeps the root of its source.\<close>

definition pair_option :: "'a option \<Rightarrow> 'b option \<Rightarrow> ('a \<times> 'b) option" where
  "pair_option x y = (case (x, y) of (Some a, Some b) \<Rightarrow> Some (a, b) | _ \<Rightarrow> None)"

definition parent_edges :: "run_values list \<Rightarrow> edges" where
  "parent_edges records =
     List.map_filter (\<lambda>r. pair_option (record_path_value r ''root'') (record_path_value r ''parent_root'')) records"

definition mount_edges :: "(path \<Rightarrow> bool) \<Rightarrow> path \<Rightarrow> MountInfo list \<Rightarrow> edges" where
  "mount_edges info base mounts =
     List.map_filter (\<lambda>m. pair_option (chroot_root_for_mount info base (mi_mountpoint m)) (chroot_root_for_mount info base (mi_source m))) mounts"

fun activate_edges :: "edges \<Rightarrow> path list \<Rightarrow> bool \<Rightarrow> path list \<times> bool" where
  "activate_edges [] active changed = (active, changed)"
| "activate_edges ((a, b) # es) active changed =
     (if a \<in> set active \<and> b \<notin> set active then activate_edges es (sort_dedup (b # active)) True
      else activate_edges es active changed)"

lemma activate_edges_grows:
  "activate_edges es active changed = (active', changed') \<Longrightarrow>
     set active \<subseteq> set active' \<and> set active' \<subseteq> set active \<union> snd ` set es
     \<and> (changed' \<longrightarrow> changed \<or> set active \<noteq> set active')"
proof (induction es active changed rule: activate_edges.induct)
  case (2 a b es active changed)
  show ?case
  proof (cases "a \<in> set active \<and> b \<notin> set active")
    case True
    then show ?thesis using "2.IH"(1) [OF True] "2.prems" by auto
  next
    case False
    then show ?thesis using "2.IH"(2) [OF False] "2.prems" by auto
  qed
qed simp

function saturate :: "edges \<Rightarrow> path list \<Rightarrow> path list" where
  "saturate es active =
     (case activate_edges es active False of (active', changed) \<Rightarrow> if changed then saturate es active' else active')"
  by pat_completeness auto
termination
proof (relation "measure (\<lambda>(es, active). card (snd ` set es - set active))", goal_cases)
  case (2 es active active' changed)
  have "set active \<subset> set active'" "set active' \<subseteq> set active \<union> snd ` set es"
    using activate_edges_grows [of es active False active' changed] 2 by auto
  then have "snd ` set es - set active' \<subset> snd ` set es - set active" by blast
  then show ?case by (simp add: psubset_card_mono)
qed simp

declare saturate.simps [simp del]

fun recorded_active :: "host_os \<Rightarrow> snapshot \<Rightarrow> run_values list \<Rightarrow> host \<Rightarrow> host \<times> path list result" where
  "recorded_active os snap [] st = (st, Inr [])"
| "recorded_active os snap (r # rs) st =
     (case record_path_value r ''root'' of
        None \<Rightarrow> recorded_active os snap rs st
      | Some root \<Rightarrow>
          sbind (if references_root snap root then (st, Inr True) else run_record_launcher_active os r st) (\<lambda>st active.
          sbind (recorded_active os snap rs st) (\<lambda>st roots. (st, Inr (if active then root # roots else roots)))))"

definition active_roots_from_records :: "host_os \<Rightarrow> snapshot \<Rightarrow> run_values list \<Rightarrow> host \<Rightarrow> host \<times> path list result" where
  "active_roots_from_records os snap records st =
     sbind (recorded_active os snap records st) (\<lambda>st roots. (st, Inr (saturate (parent_edges records) (sort_dedup roots))))"

definition active_sandbox_roots ::
  "host_os \<Rightarrow> path \<Rightarrow> run_values list \<Rightarrow> MountInfo list \<Rightarrow> path list \<Rightarrow> snapshot \<Rightarrow> host \<Rightarrow> host \<times> path list result" where
  "active_sandbox_roots os base records mounts roots snap st =
     sbind (active_roots_from_records os snap records st) (\<lambda>st active.
     (st, Inr (saturate (parent_edges records @ mount_edges (has_info os st) base mounts)
       (sort_dedup (active @ filter (references_root snap) roots)))))"

section \<open>Order\<close>

definition path_key :: "path \<Rightarrow> nat \<times> path" where
  "path_key p = (length p, p)"

definition max_path :: "path list \<Rightarrow> path option" where
  "max_path ps = (if ps = [] then None else Some (last (sort_key path_key ps)))"

definition ready :: "edges \<Rightarrow> path list \<Rightarrow> path list" where
  "ready deps remaining =
     filter (\<lambda>c. \<not> list_ex (\<lambda>(before, after). after = c \<and> before \<in> set remaining) deps) remaining"

definition next_path :: "edges \<Rightarrow> path list \<Rightarrow> path" where
  "next_path deps remaining = (case max_path (ready deps remaining) of Some p \<Rightarrow> p | None \<Rightarrow> last remaining)"

lemma max_path_in: "max_path ps = Some p \<Longrightarrow> p \<in> set ps"
proof -
  assume p: "max_path ps = Some p"
  then have "ps \<noteq> []" "p = last (sort_key path_key ps)" by (auto simp: max_path_def split: if_splits)
  moreover have "sort_key path_key ps \<noteq> []" using \<open>ps \<noteq> []\<close> by (metis set_empty set_sort)
  ultimately show "p \<in> set ps" using last_in_set [of "sort_key path_key ps"] by simp
qed

lemma next_path_in: "remaining \<noteq> [] \<Longrightarrow> next_path deps remaining \<in> set remaining"
  by (auto simp: next_path_def ready_def split: option.splits dest!: max_path_in)

function topological_path_order :: "edges \<Rightarrow> path list \<Rightarrow> path list" where
  "topological_path_order deps remaining =
     (if remaining = [] then []
      else
        let p = next_path deps remaining in
        p # topological_path_order deps (filter (\<lambda>q. q \<noteq> p) remaining))"
  by pat_completeness auto
termination
proof (relation "measure (length \<circ> snd)", goal_cases)
  case (2 deps remaining p)
  then show ?case using length_filter_less [OF next_path_in [of remaining deps]] by simp
qed simp

declare topological_path_order.simps [simp del]

definition order_sandbox_roots_for_recovery ::
  "(path \<Rightarrow> bool) \<Rightarrow> path \<Rightarrow> path list \<Rightarrow> run_values list \<Rightarrow> MountInfo list \<Rightarrow> path list" where
  "order_sandbox_roots_for_recovery info base roots records mounts =
     topological_path_order
       (sort_dedup (filter (\<lambda>(a, b). a \<in> set roots \<and> b \<in> set roots) (parent_edges records)
         @ filter (\<lambda>(a, b). a \<noteq> b \<and> a \<in> set roots \<and> b \<in> set roots) (mount_edges info base mounts))) roots"

definition mount_dependencies :: "MountInfo list \<Rightarrow> edges" where
  "mount_dependencies mounts =
     sort_dedup (concat (map (\<lambda>m. map (\<lambda>p. (mi_mountpoint m, mi_mountpoint p))
       (filter (\<lambda>p. mi_mountpoint m \<noteq> mi_mountpoint p
          \<and> (path_starts_with (mi_mountpoint m) (mi_mountpoint p) \<or> path_starts_with (mi_source m) (mi_mountpoint p))) mounts)) mounts))"

definition order_mounts_for_recovery :: "MountInfo list \<Rightarrow> MountInfo list" where
  "order_mounts_for_recovery mounts =
     List.map_filter (map_of (rev (map (\<lambda>m. (mi_mountpoint m, m)) mounts)))
       (topological_path_order (mount_dependencies mounts) (sort_dedup (map mi_mountpoint mounts)))"


section \<open>Unmounting\<close>

definition run_command :: "host_os \<Rightarrow> host_call \<Rightarrow> string \<Rightarrow> host \<Rightarrow> host \<times> unit result" where
  "run_command os c action st =
     (case host_do os c st of
        (st', a) \<Rightarrow>
          (st', case a of
             Output ok _ \<Rightarrow> if ok then Inr () else Inl (Bail (action @ '' failed''))
           | _ \<Rightarrow> Inl (Context action (os_error a))))"

definition mount_identity :: "host_os \<Rightarrow> path \<Rightarrow> string \<Rightarrow> host \<Rightarrow> host \<times> (nat \<times> nat) result" where
  "mount_identity os p msg st =
     (case host_do os (FileMetadata p) st of
        (st', a) \<Rightarrow> (st', case a of Identity i \<Rightarrow> Inr i | _ \<Rightarrow> Inl (Context (msg @ display_path p) (os_error a))))"

text \<open>\<^verbatim>\<open>ancestors()\<close> starts with the path itself.\<close>

definition sandbox_mount_target :: "host_os \<Rightarrow> path \<Rightarrow> host \<Rightarrow> host \<times> (path \<times> path \<times> nat \<times> nat) result" where
  "sandbox_mount_target os mountpoint st =
     (case find (has_info os st) (mountpoint # proper_ancestors mountpoint) of
        None \<Rightarrow> (st, Inl (Bail ''mountpoint is not below a freebsd-flatpak sandbox root''))
      | Some root \<Rightarrow>
          (case path_strip_prefix mountpoint root of
             None \<Rightarrow> (st, Inl (Bail ''mountpoint is outside its sandbox root''))
           | Some target \<Rightarrow>
               if target = [] then (st, Inl (Bail ''refusing to unmount sandbox root''))
               else sbind (mount_identity os root ''inspect sandbox root '' st) (\<lambda>st i. (st, Inr (root, target, i)))))"

text \<open>The two closures are the arguments of the function; both may change the host.\<close>

definition unmount_mountpoint_with ::
  "bool \<Rightarrow> (host \<Rightarrow> host \<times> bool result) \<Rightarrow> (bool \<Rightarrow> host \<Rightarrow> host \<times> unit result) \<Rightarrow> host \<Rightarrow> host \<times> unit result" where
  "unmount_mountpoint_with allow_force mounted unmount st =
     sbind (mounted st) (\<lambda>st m.
     if \<not> m then (st, Inr ())
     else
       (case unmount False st of
          (st, Inr _) \<Rightarrow> (st, Inr ())
        | (st, Inl normal_error) \<Rightarrow>
            sbind (mounted st) (\<lambda>st m.
            if \<not> m then (st, Inr ())
            else
              sbind (if allow_force then mounted st else (st, Inr False)) (\<lambda>st force.
              if force then sbind (unmount True st) (\<lambda>st _. (st, Inr ()))
              else sbind (mounted st) (\<lambda>st m. (st, if \<not> m then Inr () else Inl normal_error))))))"

definition unmount_mountpoint :: "host_os \<Rightarrow> path \<Rightarrow> bool \<Rightarrow> string \<Rightarrow> host \<Rightarrow> host \<times> unit result" where
  "unmount_mountpoint os mountpoint allow_force action st =
     sbind (sandbox_mount_target os mountpoint st) (\<lambda>st (root, target, i).
     unmount_mountpoint_with allow_force (is_mounted os mountpoint)
       (\<lambda>force. run_command os (HelperUnmount root i target force)
          (action @ (if force then '' -f'' else []) @ '' '' @ display_path mountpoint)) st)"

fun unmount_each :: "host_os \<Rightarrow> path list \<Rightarrow> host \<Rightarrow> host \<times> error list" where
  "unmount_each os [] st = (st, [])"
| "unmount_each os (p # ps) st =
     (case mountpoint_is_read_only os p st of
        (st, ro) \<Rightarrow>
          (case unmount_mountpoint os p (case ro of Inl _ \<Rightarrow> False | Inr b \<Rightarrow> b) ''recover umount'' st of
             (st, r) \<Rightarrow>
               (case unmount_each os ps st of
                  (st, errors) \<Rightarrow> (st, (case r of Inl e \<Rightarrow> [e] | Inr _ \<Rightarrow> []) @ errors))))"

definition unmount_mountpoints :: "host_os \<Rightarrow> path list \<Rightarrow> host \<Rightarrow> host \<times> unit result" where
  "unmount_mountpoints os ps st =
     (case unmount_each os ps st of
        (st, errors) \<Rightarrow> (st, if errors = [] then Inr () else Inl (Bail ''stale mount recovery failed'')))"

definition unmount_under :: "host_os \<Rightarrow> path \<Rightarrow> host \<Rightarrow> host \<times> unit result" where
  "unmount_under os root st =
     sbind (mount_infos os st) (\<lambda>st ms.
     unmount_mountpoints os
       (map mi_mountpoint (order_mounts_for_recovery (filter (\<lambda>m. path_starts_with (mi_mountpoint m) root) ms))) st)"

section \<open>Processes\<close>

definition chroot_processes :: "host_os \<Rightarrow> int \<Rightarrow> path \<Rightarrow> host \<Rightarrow> host \<times> int list result" where
  "chroot_processes os own root st = other_pids os own [root] st"

definition terminate_processes_with :: "host_os \<Rightarrow> (host \<Rightarrow> host \<times> int list result) \<Rightarrow> host \<Rightarrow> host \<times> int list result" where
  "terminate_processes_with os processes st =
     sbind (signal_rounds os processes SIGTERM 20 st) (\<lambda>st ended.
     if ended then (st, Inr [])
     else
       sbind (signal_rounds os processes SIGKILL 20 st) (\<lambda>st ended.
       if ended then (st, Inr []) else processes st))"

definition terminate_chroot_processes :: "host_os \<Rightarrow> int \<Rightarrow> path \<Rightarrow> host \<Rightarrow> host \<times> unit result" where
  "terminate_chroot_processes os own root st =
     sbind (chroot_processes os own root st) (\<lambda>st initial.
     if initial = [] then (st, Inr ())
     else
       sbind (terminate_processes_with os (chroot_processes os own root) st) (\<lambda>st remaining.
       (st, if remaining = [] then Inr () else Inl (Bail ''sandbox processes survived SIGKILL''))))"

section \<open>Recovery\<close>

definition remove_instance_root :: "host_os \<Rightarrow> path \<Rightarrow> host \<Rightarrow> host \<times> unit result" where
  "remove_instance_root os root st =
     (case host_do os (RemoveDirAll root) st of
        (st', a) \<Rightarrow>
          (st', if a = Fine \<or> a = OsErr 2 then Inr () else Inl (Context (''remove sandbox root '' @ display_path root) (os_error a))))"

definition remove_record_file :: "host_os \<Rightarrow> path \<Rightarrow> host \<Rightarrow> host \<times> unit result" where
  "remove_record_file os p st =
     (case host_do os (PathExists p) st of
        (st, a) \<Rightarrow> if a = Holds True then host_unit os (RemoveFile p) (''remove '' @ display_path p) st else (st, Inr ()))"

fun remove_root_records :: "host_os \<Rightarrow> path \<Rightarrow> run_values list \<Rightarrow> host \<Rightarrow> host \<times> unit result" where
  "remove_root_records os root [] st = (st, Inr ())"
| "remove_root_records os root (r # rs) st =
     sbind (if record_path_value r ''root'' = Some root
            then (case record_path_value r ''_path'' of None \<Rightarrow> (st, Inr ()) | Some p \<Rightarrow> remove_record_file os p st)
            else (st, Inr ())) (\<lambda>st _. remove_root_records os root rs st)"

record view =
  vw_records :: "run_values list"
  vw_mounts :: "MountInfo list"
  vw_roots :: "path list"
  vw_active :: "path list"

definition read_records :: "host_os \<Rightarrow> host \<Rightarrow> host \<times> run_values list result" where
  "read_records os st =
     (case host_do os ReadRuns st of
        (st', a) \<Rightarrow> (st', case a of Files fs \<Rightarrow> ownership_records fs | _ \<Rightarrow> Inl (Context ''read run state directory'' (os_error a))))"

definition read_view :: "host_os \<Rightarrow> Installation \<Rightarrow> host \<Rightarrow> host \<times> view result" where
  "read_view os paths st =
     sbind (read_records os st) (\<lambda>st records.
     sbind (mount_infos os st) (\<lambda>st mounts.
     let roots = sandbox_roots (has_info os st) (chroots paths) records mounts in
     sbind (capture os st) (\<lambda>st snap.
     sbind (active_sandbox_roots os (chroots paths) records mounts roots snap st) (\<lambda>st active.
     (st, Inr \<lparr>vw_records = records, vw_mounts = mounts, vw_roots = roots, vw_active = active\<rparr>)))))"

definition tear_down :: "host_os \<Rightarrow> int \<Rightarrow> path \<Rightarrow> run_values list \<Rightarrow> host \<Rightarrow> host \<times> unit result" where
  "tear_down os own root records st =
     sbind (terminate_chroot_processes os own root st) (\<lambda>st _.
     sbind (unmount_under os root st) (\<lambda>st _.
     sbind (mount_points_under os root st) (\<lambda>st left.
     if left \<noteq> [] then (st, Inr ())
     else
       sbind (remove_instance_root os root st) (\<lambda>st _.
       remove_root_records os root records st))))"

definition recover_root :: "host_os \<Rightarrow> int \<Rightarrow> Installation \<Rightarrow> path \<Rightarrow> host \<Rightarrow> host \<times> unit result" where
  "recover_root os own paths root st =
     sbind (read_view os paths st) (\<lambda>st v.
     if root \<in> set (vw_active v) then (st, Inr ()) else tear_down os own root (vw_records v) st)"

fun recover_roots :: "host_os \<Rightarrow> int \<Rightarrow> Installation \<Rightarrow> path list \<Rightarrow> host \<Rightarrow> host \<times> unit result" where
  "recover_roots os own paths [] st = (st, Inr ())"
| "recover_roots os own paths (root # roots) st = sbind (recover_root os own paths root st) (\<lambda>st _. recover_roots os own paths roots st)"

definition document_mount :: "path \<Rightarrow> path \<Rightarrow> path option" where
  "document_mount base mountpoint =
     (case path_strip_prefix mountpoint base of
        Some [Normal app, Normal inst, Normal run, Normal user, Normal uid, Normal doc, Normal grant, Normal name] \<Rightarrow>
          if run = ''run'' \<and> user = ''user'' \<and> doc = ''doc'' then Some (base @ [Normal app, Normal inst]) else None
      | _ \<Rightarrow> None)"

definition is_orphaned_regular_document_mount :: "host_os \<Rightarrow> path \<Rightarrow> path \<Rightarrow> host \<Rightarrow> host \<times> bool" where
  "is_orphaned_regular_document_mount os base mountpoint st =
     (case document_mount base mountpoint of
        None \<Rightarrow> (st, False)
      | Some instance_dir \<Rightarrow> (case host_do os (PathExists instance_dir) st of (st, a) \<Rightarrow> (st, a \<noteq> Holds True)))"

fun recover_documents :: "host_os \<Rightarrow> path \<Rightarrow> nat \<times> nat \<Rightarrow> path list \<Rightarrow> host \<Rightarrow> host \<times> unit result" where
  "recover_documents os base i [] st = (st, Inr ())"
| "recover_documents os base i (p # ps) st =
     (case is_orphaned_regular_document_mount os base p st of
        (st, orphaned) \<Rightarrow>
          if \<not> orphaned then recover_documents os base i ps st
          else
            (case run_command os (HelperRecover base i p False) (''recover orphaned document mount '' @ display_path p) st of
               (st, Inr _) \<Rightarrow> recover_documents os base i ps st
             | (st, Inl e) \<Rightarrow>
                 sbind (is_mounted os p st) (\<lambda>st m.
                 if \<not> m then recover_documents os base i ps st
                 else
                   sbind (run_command os (HelperRecover base i p True) (''recover orphaned document mount '' @ display_path p) st) (\<lambda>st _.
                   recover_documents os base i ps st))))"

definition recover_orphaned_document_mounts :: "host_os \<Rightarrow> Installation \<Rightarrow> host \<Rightarrow> host \<times> unit result" where
  "recover_orphaned_document_mounts os paths st =
     sbind (mount_identity os (chroots paths) ''read metadata for '' st) (\<lambda>st i.
     sbind (mount_points_under os (chroots paths) st) (\<lambda>st ps. recover_documents os (chroots paths) i ps st))"

definition recover_stale_mounts :: "host_os \<Rightarrow> int \<Rightarrow> Installation \<Rightarrow> host \<Rightarrow> host \<times> unit result" where
  "recover_stale_mounts os own paths st =
     sbind (recover_orphaned_document_mounts os paths st) (\<lambda>st _.
     sbind (read_view os paths st) (\<lambda>st v.
     let stale = filter (\<lambda>r. r \<notin> set (vw_active v)) (vw_roots v) in
     sbind (recover_roots os own paths
       (order_sandbox_roots_for_recovery (has_info os st) (chroots paths) stale (vw_records v) (vw_mounts v)) st) (\<lambda>st _.
     recover_orphaned_document_mounts os paths st)))"


section \<open>Roots in use\<close>

lemma activate_edges_unchanged:
  "activate_edges es active changed = (active', False) \<Longrightarrow> active' = active \<and> (\<forall>(a, b)\<in>set es. a \<in> set active \<longrightarrow> b \<in> set active)"
proof (induction es active changed rule: activate_edges.induct)
  case (2 a b es active changed)
  have "activate_edges es xs True \<noteq> (active', False)" for xs
  proof (induction es arbitrary: xs)
    case (Cons e es)
    then show ?case by (cases e) simp
  qed simp
  then show ?case using 2 by (cases "a \<in> set active \<and> b \<notin> set active") auto
qed simp

lemma activate_edges_reachable:
  "activate_edges es active changed = (active', changed') \<Longrightarrow> set es \<subseteq> E \<Longrightarrow> set active \<subseteq> E\<^sup>* `` A \<Longrightarrow> set active' \<subseteq> E\<^sup>* `` A"
proof (induction es active changed rule: activate_edges.induct)
  case (2 a b es active changed)
  show ?case
  proof (cases "a \<in> set active \<and> b \<notin> set active")
    case True
    then obtain x where "x \<in> A" "(x, a) \<in> E\<^sup>*" "(a, b) \<in> E" using 2(4,5) by auto
    then have "b \<in> E\<^sup>* `` A" by (auto intro: rtrancl_into_rtrancl)
    then show ?thesis using 2(1) [OF True] 2(3-5) True by auto
  next
    case False
    then show ?thesis using 2(2) [OF False] 2(3-5) by auto
  qed
qed simp

lemma activate_edges_progress: "activate_edges es active False = (active', True) \<Longrightarrow> set active \<noteq> set active'"
  using activate_edges_grows by blast

text \<open>The loop computes the roots reachable from those in use.\<close>

interpretation roots_in_use: closure_loop "\<lambda>active. activate_edges es active False" "saturate es" "set es" for es
proof
  show "saturate es active = (case activate_edges es active False of (active', changed) \<Rightarrow> if changed then saturate es active' else active')" for active
    by (rule saturate.simps)
  show "set active' \<subseteq> (set es)\<^sup>* `` set active" if "activate_edges es active False = (active', changed)" for active active' changed
    by (rule activate_edges_reachable [OF that]) auto
  show "set active' \<subseteq> set active \<and> set es `` set active \<subseteq> set active" if "activate_edges es active False = (active', False)" for active active'
    using activate_edges_unchanged [OF that] by auto
qed (auto dest: activate_edges_grows activate_edges_progress)

lemma nested_closure: "(E1 \<union> E2)\<^sup>* `` (E1\<^sup>* `` A \<union> B) = (E1 \<union> E2)\<^sup>* `` (A \<union> B)"
proof
  have "E1\<^sup>* `` A \<subseteq> (E1 \<union> E2)\<^sup>* `` A" by (intro Image_mono rtrancl_mono) auto
  then have "E1\<^sup>* `` A \<union> B \<subseteq> (E1 \<union> E2)\<^sup>* `` (A \<union> B)" by blast
  then have "(E1 \<union> E2)\<^sup>* `` (E1\<^sup>* `` A \<union> B) \<subseteq> (E1 \<union> E2)\<^sup>* `` ((E1 \<union> E2)\<^sup>* `` (A \<union> B))" by (intro Image_mono) auto
  then show "(E1 \<union> E2)\<^sup>* `` (E1\<^sup>* `` A \<union> B) \<subseteq> (E1 \<union> E2)\<^sup>* `` (A \<union> B)" by (auto intro: rtrancl_trans)
  show "(E1 \<union> E2)\<^sup>* `` (A \<union> B) \<subseteq> (E1 \<union> E2)\<^sup>* `` (E1\<^sup>* `` A \<union> B)" by (intro Image_mono) auto
qed

text \<open>
  C18. The roots in use are exactly those reachable from a live one: the loops compute the closure of the roots with a
  live launcher or process under the two relations that keep a sandbox alive, from a nested sandbox to its parent and
  from the root that a mount belongs to to the root of its source.
\<close>

theorem active_roots_closure:
  assumes "recorded_active os snap records st = (st', Inr recorded)"
  shows "\<exists>active. active_sandbox_roots os base records mounts roots snap st = (st', Inr active)
     \<and> set active = (set (parent_edges records) \<union> set (mount_edges (has_info os st') base mounts))\<^sup>*
          `` (set recorded \<union> {r \<in> set roots. references_root snap r})"
proof -
  let ?P = "parent_edges records" and ?M = "mount_edges (has_info os st') base mounts"
  let ?a = "saturate (?P @ ?M) (sort_dedup (saturate ?P (sort_dedup recorded) @ filter (references_root snap) roots))"
  have "active_sandbox_roots os base records mounts roots snap st = (st', Inr ?a)"
    by (simp add: active_sandbox_roots_def active_roots_from_records_def assms)
  moreover have "set ?a = (set ?P \<union> set ?M)\<^sup>* `` ((set ?P)\<^sup>* `` set recorded \<union> {r \<in> set roots. references_root snap r})"
    by (simp add: roots_in_use.closure)
  ultimately show ?thesis unfolding nested_closure by blast
qed

definition nested_runs :: "run_values list" where
  "nested_runs = [[''root'' \<mapsto> ''/c/p''], [''root'' \<mapsto> ''/c/n'', ''parent_root'' \<mapsto> ''/c/p'']]"

theorem active_roots_closure_witness:
  "\<exists>active. active_sandbox_roots run_demo_os [RootDir, Normal ''c''] nested_runs [] [] [(9, [RootDir, Normal ''c'', Normal ''n'', Normal ''bin''])]
       \<lparr>h_trace = [], h_clock = 0\<rparr> = (\<lparr>h_trace = [], h_clock = 0\<rparr>, Inr active)
     \<and> set active = {[RootDir, Normal ''c'', Normal ''n''], [RootDir, Normal ''c'', Normal ''p'']}"
proof -
  let ?st = "\<lparr>h_trace = [], h_clock = 0\<rparr>" and ?n = "[RootDir, Normal ''c'', Normal ''n'']" and ?p = "[RootDir, Normal ''c'', Normal ''p'']"
  have live: "recorded_active run_demo_os [(9, ?n @ [Normal ''bin''])] nested_runs ?st = (?st, Inr [?n])" by code_simp
  have edges: "parent_edges nested_runs = [(?n, ?p)]" by code_simp
  have no_mounts: "mount_edges (has_info run_demo_os ?st) [RootDir, Normal ''c''] [] = []" by (simp add: mount_edges_def map_filter_simps)
  have "{(?n, ?p)}\<^sup>* `` {?n} = {?n, ?p}" by (auto elim: rtranclE)
  then show ?thesis
    using active_roots_closure [OF live, of "[RootDir, Normal ''c'']" "[]" "[]"] unfolding edges no_mounts by simp
qed

section \<open>The order of the teardown\<close>

lemma max_path_None: "max_path ps = None \<longleftrightarrow> ps = []"
  by (simp add: max_path_def)

lemma topological_members: "set (topological_path_order deps remaining) = set remaining"
proof (induction deps remaining rule: topological_path_order.induct)
  case (1 deps remaining)
  then show ?case by (subst topological_path_order.simps) (auto simp: Let_def next_path_in)
qed

lemma topological_distinct: "distinct (topological_path_order deps remaining)"
proof (induction deps remaining rule: topological_path_order.induct)
  case (1 deps remaining)
  then show ?case by (subst topological_path_order.simps) (auto simp: Let_def topological_members)
qed

lemma ready_exists:
  assumes "acyclic (set deps)" "remaining \<noteq> []"
  shows "ready deps remaining \<noteq> []"
proof -
  have "wf (set deps)" using assms(1) by (simp add: finite_acyclic_wf)
  then obtain c where "c \<in> set remaining" "\<And>b. (b, c) \<in> set deps \<Longrightarrow> b \<notin> set remaining"
    using assms(2) by (metis wfE_min set_empty ex_in_conv)
  then have "c \<in> set (ready deps remaining)" by (auto simp: ready_def list_ex_iff)
  then show ?thesis by auto
qed

lemma next_path_ready:
  assumes "acyclic (set deps)" "remaining \<noteq> []" "(b, next_path deps remaining) \<in> set deps"
  shows "b \<notin> set remaining"
proof -
  obtain p where "max_path (ready deps remaining) = Some p" using ready_exists [OF assms(1,2)] max_path_None by fastforce
  then have "next_path deps remaining \<in> set (ready deps remaining)" by (simp add: next_path_def max_path_in)
  then show ?thesis using assms(3) by (auto simp: ready_def list_ex_iff)
qed




section \<open>What recovery touches\<close>

lemma made_mono: "made Q st st' \<Longrightarrow> (\<And>t e. Q t e \<Longrightarrow> Q' t e) \<Longrightarrow> made Q' st st'"
  unfolding made_def by blast

lemma made_since: "made Q st st' \<Longrightarrow> made (\<lambda>t e. Q t e \<and> (\<exists>u. t = h_trace st @ u)) st st'"
  unfolding made_def by blast

text \<open>Calls that only look.\<close>

fun looks :: "host_call \<times> host_answer \<Rightarrow> bool" where
  "looks (Kill _ sig, _) \<longleftrightarrow> sig = 0"
| "looks (HelperUnmount _ _ _ _, _) \<longleftrightarrow> False"
| "looks (HelperRecover _ _ _ _, _) \<longleftrightarrow> False"
| "looks (RemoveDirAll _, _) \<longleftrightarrow> False"
| "looks (RemoveFile _, _) \<longleftrightarrow> False"
| "looks (ReapKill _ _, _) \<longleftrightarrow> False"
| "looks (ReapAcquire, _) \<longleftrightarrow> False"
| "looks (ReapRelease, _) \<longleftrightarrow> False"
| "looks (WaitPid _, _) \<longleftrightarrow> False"
| "looks _ \<longleftrightarrow> True"

text \<open>The mounts of the last mount table of a trace.\<close>

fun is_table :: "host_call \<times> host_answer \<Rightarrow> bool" where
  "is_table (MountTable, _) = True"
| "is_table _ = False"

fun table_of :: "host_call \<times> host_answer \<Rightarrow> MountInfo list" where
  "table_of (MountTable, Output True out) = List.map_filter parse_mount_line (lines out)"
| "table_of _ = []"

definition last_table :: "host_trace \<Rightarrow> MountInfo list" where
  "last_table t = (case find is_table (rev t) of None \<Rightarrow> [] | Some e \<Rightarrow> table_of e)"

definition read_only_in :: "path \<Rightarrow> host_call \<times> host_answer \<Rightarrow> bool" where
  "read_only_in p e \<longleftrightarrow> (\<exists>m\<in>set (table_of e). mi_mountpoint m = p \<and> ''read-only'' \<in> set (map trim (split_on (CHR '','') (mi_options m))))"

text \<open>
  What the teardown of a root does: it signals processes of the root, unmounts below it, by force only what a mount
  table shows mounted read-only and what a normal unmount failed for, removes the root when nothing is mounted in it,
  and removes the records of the root.
\<close>

fun tears :: "int \<Rightarrow> path \<Rightarrow> path set \<Rightarrow> host_trace \<Rightarrow> host_call \<times> host_answer \<Rightarrow> bool" where
  "tears own root files t (Kill pid sig, _) \<longleftrightarrow>
     pid \<noteq> own \<and> pid \<in> set (pids_referencing_roots (last_snapshot t) [root]) \<and> sig \<in> {SIGTERM, SIGKILL}"
| "tears own root files t (HelperUnmount r i target force, _) \<longleftrightarrow>
     target \<noteq> [] \<and> path_starts_with (r @ target) root
     \<and> (force \<longrightarrow> (\<exists>e\<in>set t. read_only_in (r @ target) e) \<and> r @ target \<in> mi_mountpoint ` set (last_table t)
          \<and> (\<exists>a. (HelperUnmount r i target False, a) \<in> set t))"
| "tears own root files t (RemoveDirAll p, _) \<longleftrightarrow> p = root \<and> \<not> (\<exists>m\<in>set (last_table t). path_starts_with (mi_mountpoint m) root)"
| "tears own root files t (RemoveFile p, _) \<longleftrightarrow> p \<in> files"
| "tears own root files t _ \<longleftrightarrow> False"

abbreviation looking :: "host_trace \<Rightarrow> host_call \<times> host_answer \<Rightarrow> bool" where
  "looking \<equiv> \<lambda>_ e. looks e"

abbreviation tearing :: "int \<Rightarrow> path \<Rightarrow> path set \<Rightarrow> host_trace \<Rightarrow> host_call \<times> host_answer \<Rightarrow> bool" where
  "tearing own root files \<equiv> \<lambda>t e. looks e \<or> tears own root files t e"

lemma looking_tearing: "made looking st st' \<Longrightarrow> made (tearing own root files) st st'"
  by (erule made_mono) simp

lemma mount_infos_looking: "made looking st (fst (mount_infos os st))"
  unfolding mount_infos_def by (cases "host_do os MountTable st") (auto elim: made_doE)

lemma mount_infos_InrD:
  assumes "mount_infos os st = (st', Inr ms)"
  shows "\<exists>a. h_trace st' = h_trace st @ [(MountTable, a)] \<and> table_of (MountTable, a) = ms"
  using assms by (auto simp: mount_infos_def host_do_def Let_def split: host_answer.splits if_splits)

lemma last_table_snoc: "last_table (t @ [(MountTable, a)]) = table_of (MountTable, a)"
  by (simp add: last_table_def)

lemma mount_points_looking: "made looking st (fst (mount_points os st))"
  unfolding mount_points_def by (rule made_sbind [OF mount_infos_looking]) simp

lemma mount_points_InrD:
  "mount_points os st = (st', Inr ps) \<Longrightarrow> ps = map mi_mountpoint (last_table (h_trace st')) \<and> (\<exists>a. h_trace st' = h_trace st @ [(MountTable, a)])"
  unfolding mount_points_def by (elim sbind_InrE) (auto dest!: mount_infos_InrD simp: last_table_snoc)

lemma is_mounted_looking: "made looking st (fst (is_mounted os p st))"
  unfolding is_mounted_def by (rule made_sbind [OF mount_points_looking]) simp

lemma is_mounted_InrD:
  "is_mounted os p st = (st', Inr b) \<Longrightarrow>
     (b \<longleftrightarrow> p \<in> mi_mountpoint ` set (last_table (h_trace st'))) \<and> (\<exists>a. h_trace st' = h_trace st @ [(MountTable, a)])"
  unfolding is_mounted_def by (elim sbind_InrE) (auto dest!: mount_points_InrD)

lemma mount_points_under_looking: "made looking st (fst (mount_points_under os p st))"
  unfolding mount_points_under_def by (rule made_sbind [OF mount_points_looking]) simp

lemma mount_points_under_InrD:
  "mount_points_under os root st = (st', Inr ps) \<Longrightarrow> set ps = {p \<in> mi_mountpoint ` set (last_table (h_trace st')). path_starts_with p root}"
  unfolding mount_points_under_def by (elim sbind_InrE) (auto dest!: mount_points_InrD simp: sort_mountpoints_deepest_first_def)

lemma read_only_looking: "made looking st (fst (mountpoint_is_read_only os p st))"
  unfolding mountpoint_is_read_only_def by (rule made_sbind [OF mount_infos_looking]) simp

lemma read_only_InrD:
  assumes "mountpoint_is_read_only os p st = (st', Inr True)"
  shows "\<exists>e\<in>set (h_trace st'). read_only_in p e"
proof -
  obtain ms where ms: "mount_infos os st = (st', Inr ms)"
    and ro: "(case find (\<lambda>m. mi_mountpoint m = p) ms of None \<Rightarrow> False
               | Some m \<Rightarrow> ''read-only'' \<in> set (map trim (split_on (CHR '','') (mi_options m))))"
    using assms unfolding mountpoint_is_read_only_def by (elim sbind_InrE) auto
  obtain m where "find (\<lambda>m. mi_mountpoint m = p) ms = Some m" using ro by (auto split: option.splits)
  then have "m \<in> set ms" "mi_mountpoint m = p" by (auto simp: find_Some_iff)
  moreover have "''read-only'' \<in> set (map trim (split_on (CHR '','') (mi_options m)))"
    using ro \<open>find (\<lambda>m. mi_mountpoint m = p) ms = Some m\<close> by simp
  moreover obtain a where "h_trace st' = h_trace st @ [(MountTable, a)]" "table_of (MountTable, a) = ms"
    using mount_infos_InrD [OF ms] by blast
  ultimately show ?thesis by (intro bexI [of _ "(MountTable, a)"]) (auto simp: read_only_in_def simp del: set_map)
qed

lemma mount_identity_looking: "made looking st (fst (mount_identity os p msg st))"
  unfolding mount_identity_def by (cases "host_do os (FileMetadata p) st") (auto elim: made_doE)

lemma sandbox_mount_target_looking: "made looking st (fst (sandbox_mount_target os p st))"
  unfolding sandbox_mount_target_def
  by (auto split: option.splits intro!: made_sbind [OF mount_identity_looking])

lemma sandbox_mount_target_InrD:
  assumes "sandbox_mount_target os p st = (st', Inr (root, target, i))"
  shows "root @ target = p \<and> target \<noteq> []"
  using assms unfolding sandbox_mount_target_def
  by (auto split: option.splits if_splits elim!: sbind_InrE simp: strip_prefix_Some_iff)

section \<open>Unmounts\<close>

lemma run_command_made: "Q (h_trace st) (c, os_answer os (h_trace st) c) \<Longrightarrow> made Q st (fst (run_command os c action st))"
  unfolding run_command_def using made_do [of Q st c os] by (cases "host_do os c st") auto

lemma run_command_trace: "run_command os c action st = (st', r) \<Longrightarrow> \<exists>a. h_trace st' = h_trace st @ [(c, a)]"
  by (auto simp: run_command_def host_do_def Let_def)

lemma unmount_with_made:
  assumes starts: "path_starts_with (r @ target) root" "target \<noteq> []"
    and ro: "allow_force \<Longrightarrow> \<exists>e\<in>set (h_trace st). read_only_in (r @ target) e"
  shows "made (tearing own root files) st (fst (unmount_mountpoint_with allow_force (is_mounted os (r @ target))
     (\<lambda>force. run_command os (HelperUnmount r i target force) (action force)) st))"
  unfolding unmount_mountpoint_with_def
proof (rule made_sbind [OF looking_tearing [OF is_mounted_looking]])
  let ?mounted = "is_mounted os (r @ target)" and ?unmount = "\<lambda>force. run_command os (HelperUnmount r i target force) (action force)"
  let ?M = "made (tearing own root files)"
  fix st1 m
  assume m: "?mounted st = (st1, Inr m)"
  obtain st2 r2 where r2: "?unmount False st1 = (st2, r2)" by fastforce
  have "tearing own root files (h_trace st1) (HelperUnmount r i target False, os_answer os (h_trace st1) (HelperUnmount r i target False))"
    using starts by simp
  then have m2: "?M st1 st2" using run_command_made [of "tearing own root files" st1 "HelperUnmount r i target False" os "action False"] r2 by simp
  obtain a2 where a2: "h_trace st2 = h_trace st1 @ [(HelperUnmount r i target False, a2)]" using run_command_trace [OF r2] by blast
  have table: "\<exists>a. h_trace st1 = h_trace st @ [(MountTable, a)]" using is_mounted_InrD [OF m] by blast
  have look: "?M st (fst (?mounted st))" for st by (rule looking_tearing [OF is_mounted_looking])
  have force: "?M st4 (fst (?unmount True st4))" if f: "allow_force" and "?mounted st2 = (st3, Inr True)" "?mounted st3 = (st4, Inr True)" for st3 st4
  proof (rule run_command_made)
    have t4: "\<exists>a b. h_trace st4 = h_trace st2 @ [(MountTable, a), (MountTable, b)]" "r @ target \<in> mi_mountpoint ` set (last_table (h_trace st4))"
      using is_mounted_InrD [OF that(2)] is_mounted_InrD [OF that(3)] by auto
    then show "tearing own root files (h_trace st4) (HelperUnmount r i target True, os_answer os (h_trace st4) (HelperUnmount r i target True))"
      using starts ro [OF f] a2 table by auto
  qed
  show "?M st1 (fst (if \<not> m then (st1, Inr ())
     else
       (case ?unmount False st1 of
          (st, Inr _) \<Rightarrow> (st, Inr ())
        | (st, Inl normal_error) \<Rightarrow>
            sbind (?mounted st) (\<lambda>st m.
            if \<not> m then (st, Inr ())
            else
              sbind (if allow_force then ?mounted st else (st, Inr False)) (\<lambda>st force.
              if force then sbind (?unmount True st) (\<lambda>st _. (st, Inr ()))
              else sbind (?mounted st) (\<lambda>st m. (st, if \<not> m then Inr () else Inl normal_error)))))))"
    using m2
    by (auto simp: r2 split: sum.splits intro!: made_trans [OF m2] made_sbind [OF look] made_sbind [OF force] split: if_splits) (rule refl)+
qed


lemma unmount_mountpoint_made:
  assumes "path_starts_with p root" and "allow_force \<Longrightarrow> \<exists>e\<in>set (h_trace st). read_only_in p e"
  shows "made (tearing own root files) st (fst (unmount_mountpoint os p allow_force action st))"
  unfolding unmount_mountpoint_def
proof (rule made_sbind [OF looking_tearing [OF sandbox_mount_target_looking]])
  fix st' x
  assume r: "sandbox_mount_target os p st = (st', Inr x)"
  obtain r target i where x: "x = (r, target, i)" by (cases x)
  have p: "p = r @ target" "target \<noteq> []" using sandbox_mount_target_InrD r unfolding x by blast+
  have "made looking st st'" using sandbox_mount_target_looking [of st os p] r by simp
  then have "set (h_trace st) \<subseteq> set (h_trace st')" by (auto simp: made_def)
  then have ro: "allow_force \<Longrightarrow> \<exists>e\<in>set (h_trace st'). read_only_in (r @ target) e" using assms(2) p(1) by blast
  show "made (tearing own root files) st' (fst (case x of (root, target, i) \<Rightarrow>
     unmount_mountpoint_with allow_force (is_mounted os p)
       (\<lambda>force. run_command os (HelperUnmount root i target force)
          (action @ (if force then '' -f'' else []) @ '' '' @ display_path p)) st'))"
    unfolding x prod.case p(1) by (rule unmount_with_made) (use assms(1) p ro in simp_all)
qed

lemma unmount_each_made:
  "\<forall>p\<in>set ps. path_starts_with p root \<Longrightarrow> made (tearing own root files) st (fst (unmount_each os ps st))"
proof (induction ps arbitrary: st)
  case (Cons p ps)
  obtain st1 ro where r1: "mountpoint_is_read_only os p st = (st1, ro)" by fastforce
  have m1: "made (tearing own root files) st st1" using looking_tearing [OF read_only_looking [of st os p]] r1 by simp
  let ?force = "case ro of Inl _ \<Rightarrow> False | Inr b \<Rightarrow> b"
  obtain st2 r2 where r2: "unmount_mountpoint os p ?force ''recover umount'' st1 = (st2, r2)" by fastforce
  have "?force \<Longrightarrow> \<exists>e\<in>set (h_trace st1). read_only_in p e" using read_only_InrD r1 by (cases ro) auto
  then have m2: "made (tearing own root files) st1 st2"
    using unmount_mountpoint_made [of p root ?force st1 own files os "''recover umount''"] Cons.prems r2 by simp
  have "made (tearing own root files) st2 (fst (unmount_each os ps st2))" using Cons by simp
  then show ?case using made_trans [OF made_trans [OF m1 m2]] by (auto simp: r1 r2 split: prod.splits)
qed simp

lemma map_filter_member: "y \<in> set (List.map_filter f xs) \<Longrightarrow> \<exists>x\<in>set xs. f x = Some y"
  by (auto simp: map_filter_def)

lemma order_mounts_member: "m \<in> set (order_mounts_for_recovery ms) \<Longrightarrow> m \<in> set ms"
  unfolding order_mounts_for_recovery_def by (drule map_filter_member) (auto dest!: map_of_SomeD)

lemma unmount_under_made: "made (tearing own root files) st (fst (unmount_under os root st))"
  unfolding unmount_under_def
proof (rule made_sbind [OF looking_tearing [OF mount_infos_looking]])
  fix st' ms
  let ?ps = "map mi_mountpoint (order_mounts_for_recovery (filter (\<lambda>m. path_starts_with (mi_mountpoint m) root) ms))"
  have "path_starts_with p root" if "p \<in> set ?ps" for p
  proof -
    from that obtain m where "m \<in> set (order_mounts_for_recovery (filter (\<lambda>m. path_starts_with (mi_mountpoint m) root) ms))" "p = mi_mountpoint m"
      by auto
    then show ?thesis using order_mounts_member by fastforce
  qed
  then have "made (tearing own root files) st' (fst (unmount_each os ?ps st'))" by (intro unmount_each_made) blast
  then show "made (tearing own root files) st' (fst (unmount_mountpoints os ?ps st'))"
    by (cases "unmount_each os ?ps st'") (simp add: unmount_mountpoints_def)
qed

section \<open>Processes of a root\<close>

lemma root_call_tearing: "root_call own [root] patience t e \<Longrightarrow> tearing own root files t e"
  by (cases e; cases "fst e") auto

lemma chroot_processes_made: "made (tearing own root files) st (fst (chroot_processes os own root st))"
  unfolding chroot_processes_def by (rule made_mono [OF other_pids_made [of own "[root]" 0] root_call_tearing])

lemma signal_rounds_tearing:
  assumes "sig = SIGTERM \<or> sig = SIGKILL"
  shows "made (tearing own root files) st (fst (signal_rounds os (chroot_processes os own root) sig n st))"
proof -
  have "chroot_processes os own root = other_pids os own [root]" by (simp add: fun_eq_iff chroot_processes_def)
  then show ?thesis
    using made_mono [OF signal_rounds_made [of sig 0 st own "[root]" os n] root_call_tearing] assms by simp
qed

lemma terminate_chroot_processes_made: "made (tearing own root files) st (fst (terminate_chroot_processes os own root st))"
  unfolding terminate_chroot_processes_def terminate_processes_with_def
  by (auto intro!: made_sbind [OF chroot_processes_made] made_sbind [OF made_sbind [OF signal_rounds_tearing]]
      made_sbind [OF signal_rounds_tearing] chroot_processes_made)

section \<open>Teardown\<close>

lemma remove_instance_root_made:
  assumes "\<not> (\<exists>m\<in>set (last_table (h_trace st)). path_starts_with (mi_mountpoint m) root)"
  shows "made (tearing own root files) st (fst (remove_instance_root os root st))"
proof -
  have "made (tearing own root files) st (fst (host_do os (RemoveDirAll root) st))" by (rule made_do) (use assms in simp)
  then show ?thesis by (auto simp: remove_instance_root_def split: prod.splits)
qed

lemma remove_record_file_made:
  assumes "p \<in> files"
  shows "made (tearing own root files) st (fst (remove_record_file os p st))"
proof -
  obtain st1 a where r: "host_do os (PathExists p) st = (st1, a)" by fastforce
  have m1: "made (tearing own root files) st st1" by (rule made_doE [OF r]) simp
  have "made (tearing own root files) st1 (fst (host_do os (RemoveFile p) st1))" by (rule made_do) (use assms in simp)
  then show ?thesis using m1 made_trans by (auto simp: remove_record_file_def r host_unit_def split: prod.splits)
qed

definition record_files :: "path \<Rightarrow> run_values list \<Rightarrow> path set" where
  "record_files root records =
     {p. \<exists>r\<in>set records. record_path_value r ''root'' = Some root \<and> record_path_value r ''_path'' = Some p}"

lemma remove_root_records_made:
  "record_files root records \<subseteq> files \<Longrightarrow> made (tearing own root' files) st (fst (remove_root_records os root records st))"
proof (induction records arbitrary: st)
  case (Cons r rs)
  have rest: "record_files root rs \<subseteq> files" using Cons.prems by (auto simp: record_files_def)
  have "made (tearing own root' files) st (fst (if record_path_value r ''root'' = Some root
            then (case record_path_value r ''_path'' of None \<Rightarrow> (st, Inr ()) | Some p \<Rightarrow> remove_record_file os p st)
            else (st, Inr ())))"
    using Cons.prems by (auto split: option.splits simp: record_files_def intro!: remove_record_file_made)
  then show ?case unfolding remove_root_records.simps by (rule made_sbind) (rule Cons.IH [OF rest])
qed simp

lemma tear_down_made: "made (tearing own root (record_files root records)) st (fst (tear_down os own root records st))"
  unfolding tear_down_def
proof (rule made_sbind [OF terminate_chroot_processes_made], rule made_sbind [OF unmount_under_made],
    rule made_sbind [OF looking_tearing [OF mount_points_under_looking]])
  fix st1 st2 left
  assume "mount_points_under os root st1 = (st2, Inr left)"
  note left = mount_points_under_InrD [OF this]
  show "made (tearing own root (record_files root records)) st2 (fst (if left \<noteq> [] then (st2, Inr ())
     else sbind (remove_instance_root os root st2) (\<lambda>st _. remove_root_records os root records st)))"
    using left by (auto intro!: made_sbind [OF remove_instance_root_made] remove_root_records_made)
qed

section \<open>Views\<close>

lemma for_pid_looking: "made looking st (fst (for_pid os pid st))"
  unfolding for_pid_def by (cases "host_do os (SysctlProc pid) st") (auto elim: made_doE)

lemma launcher_active_looking: "made looking st (fst (run_record_launcher_active os r st))"
  unfolding run_record_launcher_active_def
  by (auto split: option.splits prod.splits elim!: made_doE intro!: made_sbind [OF for_pid_looking])

lemma recorded_active_looking: "made looking st (fst (recorded_active os snap rs st))"
proof (induction rs arbitrary: st)
  case (Cons r rs)
  then show ?case by (auto split: option.splits intro!: made_sbind [OF launcher_active_looking] made_sbind [OF Cons.IH])
qed simp

lemma capture_looking: "made looking st (fst (capture os st))"
  unfolding capture_def by (cases "host_do os Procstat st") (auto elim: made_doE)

lemma read_records_looking: "made looking st (fst (read_records os st))"
  unfolding read_records_def by (cases "host_do os ReadRuns st") (auto elim: made_doE)

lemma active_sandbox_roots_looking: "made looking st (fst (active_sandbox_roots os base records mounts roots snap st))"
  unfolding active_sandbox_roots_def active_roots_from_records_def
  by (auto intro!: made_sbind made_sbind [OF recorded_active_looking])

lemma read_view_looking: "made looking st (fst (read_view os paths st))"
  unfolding read_view_def Let_def
  by (auto intro!: made_sbind [OF read_records_looking] made_sbind [OF mount_infos_looking] made_sbind [OF capture_looking]
      made_sbind [OF active_sandbox_roots_looking])


section \<open>Recovery as a whole\<close>

text \<open>
  A call is justified when it only looks, when it tears down a root that was not in use in a view read before, or when
  it unmounts a document of an instance that was seen not to exist.
\<close>

definition stale_call :: "host_os \<Rightarrow> int \<Rightarrow> Installation \<Rightarrow> host_trace \<Rightarrow> host_call \<times> host_answer \<Rightarrow> bool" where
  "stale_call os own paths t e \<longleftrightarrow>
     (\<exists>root st v u. t = h_trace (fst (read_view os paths st)) @ u \<and> snd (read_view os paths st) = Inr v
        \<and> root \<notin> set (vw_active v) \<and> tears own root (record_files root (vw_records v)) t e)"

fun document_call :: "path \<Rightarrow> host_trace \<Rightarrow> host_call \<times> host_answer \<Rightarrow> bool" where
  "document_call base t (HelperRecover b i p force, _) \<longleftrightarrow>
     b = base \<and> (\<exists>d a. document_mount base p = Some d \<and> (PathExists d, a) \<in> set t \<and> a \<noteq> Holds True)
     \<and> (force \<longrightarrow> p \<in> mi_mountpoint ` set (last_table t) \<and> (\<exists>a. (HelperRecover b i p False, a) \<in> set t))"
| "document_call base t _ \<longleftrightarrow> False"

definition justified :: "host_os \<Rightarrow> int \<Rightarrow> Installation \<Rightarrow> host_trace \<Rightarrow> host_call \<times> host_answer \<Rightarrow> bool" where
  "justified os own paths t e \<longleftrightarrow> looks e \<or> stale_call os own paths t e \<or> document_call (chroots paths) t e"

lemma looking_justified: "made looking st st' \<Longrightarrow> made (justified os own paths) st st'"
  by (erule made_mono) (simp add: justified_def)

lemma recover_root_made: "made (justified os own paths) st (fst (recover_root os own paths root st))"
  unfolding recover_root_def
proof (rule made_sbind [OF looking_justified [OF read_view_looking]])
  fix st' v
  assume view: "read_view os paths st = (st', Inr v)"
  show "made (justified os own paths) st' (fst (if root \<in> set (vw_active v) then (st', Inr ()) else tear_down os own root (vw_records v) st'))"
  proof (cases "root \<in> set (vw_active v)")
    case False
    have "made (justified os own paths) st' (fst (tear_down os own root (vw_records v) st'))"
    proof (rule made_mono [OF made_since [OF tear_down_made]])
      fix t e
      assume te: "(looks e \<or> tears own root (record_files root (vw_records v)) t e) \<and> (\<exists>u. t = h_trace st' @ u)"
      have "stale_call os own paths t e" if "tears own root (record_files root (vw_records v)) t e"
        unfolding stale_call_def using that te False view
        by (intro exI [of _ root] exI [of _ st] exI [of _ v]) auto
      then show "justified os own paths t e" using te by (auto simp: justified_def)
    qed
    then show ?thesis using False by simp
  qed simp
qed

lemma recover_roots_made: "made (justified os own paths) st (fst (recover_roots os own paths roots st))"
  by (induction roots arbitrary: st) (auto intro!: made_sbind [OF recover_root_made])

lemma document_call_made:
  assumes "is_orphaned_regular_document_mount os (chroots paths) p st0 = (st1, True)"
  shows "made (justified os own paths) st1 (fst (run_command os (HelperRecover (chroots paths) i p False) action st1))"
    and "run_command os (HelperRecover (chroots paths) i p False) action st1 = (st2, r2) \<Longrightarrow> is_mounted os p st2 = (st3, Inr True)
      \<Longrightarrow> made (justified os own paths) st3 (fst (run_command os (HelperRecover (chroots paths) i p True) action st3))"
proof -
  obtain d a where d: "document_mount (chroots paths) p = Some d" "a \<noteq> Holds True" "(PathExists d, a) \<in> set (h_trace st1)"
    using assms by (auto simp: is_orphaned_regular_document_mount_def host_do_def Let_def split: option.splits)
  then show "made (justified os own paths) st1 (fst (run_command os (HelperRecover (chroots paths) i p False) action st1))"
    by (intro run_command_made) (auto simp: justified_def)
  assume r2: "run_command os (HelperRecover (chroots paths) i p False) action st1 = (st2, r2)" and m: "is_mounted os p st2 = (st3, Inr True)"
  obtain a2 b where "h_trace st3 = h_trace st1 @ [(HelperRecover (chroots paths) i p False, a2), (MountTable, b)]"
    using run_command_trace [OF r2] is_mounted_InrD [OF m] by auto
  then show "made (justified os own paths) st3 (fst (run_command os (HelperRecover (chroots paths) i p True) action st3))"
    using d is_mounted_InrD [OF m] by (intro run_command_made) (auto simp: justified_def)
qed

lemma orphaned_looking: "made looking st (fst (is_orphaned_regular_document_mount os base p st))"
  unfolding is_orphaned_regular_document_mount_def by (auto split: option.splits prod.splits elim: made_doE)

lemma recover_documents_made: "made (justified os own paths) st (fst (recover_documents os (chroots paths) i ps st))"
proof (induction ps arbitrary: st)
  case (Cons p ps)
  obtain st1 orphaned where r1: "is_orphaned_regular_document_mount os (chroots paths) p st = (st1, orphaned)" by fastforce
  have m1: "made (justified os own paths) st st1" using looking_justified [OF orphaned_looking [of st os "chroots paths" p]] r1 by simp
  show ?case
  proof (cases orphaned)
    case False
    then show ?thesis using made_trans [OF m1 Cons.IH] by (simp add: r1)
  next
    case True
    define action where "action = ''recover orphaned document mount '' @ display_path p"
    have r1: "is_orphaned_regular_document_mount os (chroots paths) p st = (st1, True)" using r1 True by simp
    obtain st2 r2 where r2: "run_command os (HelperRecover (chroots paths) i p False) action st1 = (st2, r2)" by fastforce
    have m2: "made (justified os own paths) st st2"
      using made_trans [OF m1 document_call_made(1) [OF r1, of own i action]] r2 by simp
    have forced: "made (justified os own paths) st3 (fst (run_command os (HelperRecover (chroots paths) i p True) action st3))"
      if "is_mounted os p st2 = (st3, Inr True)" for st3 by (rule document_call_made(2) [OF r1 r2 that])
    define step where "step = (\<lambda>st m. if \<not> m then recover_documents os (chroots paths) i ps st
                 else sbind (run_command os (HelperRecover (chroots paths) i p True) action st) (\<lambda>st _. recover_documents os (chroots paths) i ps st))"
    have "made (justified os own paths) st2 (fst (sbind (is_mounted os p st2) step))"
      by (rule made_sbind [OF looking_justified [OF is_mounted_looking]])
        (auto simp: step_def Cons.IH intro!: made_sbind [OF forced] Cons.IH)
    then show ?thesis using made_trans [OF m2] made_trans [OF m2 Cons.IH] unfolding recover_documents.simps action_def [symmetric] r1 prod.case r2 step_def
      by (cases r2) (simp_all only: sum.case not_True_eq_False if_False prod.case)
  qed
qed simp

lemma recover_orphaned_made: "made (justified os own paths) st (fst (recover_orphaned_document_mounts os paths st))"
  unfolding recover_orphaned_document_mounts_def
  by (auto intro!: made_sbind [OF looking_justified [OF mount_identity_looking]]
      made_sbind [OF looking_justified [OF mount_points_under_looking]] recover_documents_made)

text \<open>
  C4. Recovery never touches a sandbox in use: whatever the host answers, every signal, unmount and removal of the
  recovery concerns one root that was not in use in a view of records, mounts and processes read before; it signals
  only processes of the last snapshot that run in that root, unmounts only below it, by force only what is mounted
  read-only after a normal unmount was tried, removes the root only when the last mount table shows nothing mounted
  in it, and removes only records of that root. Document mounts are recovered only for instances that do not exist.
\<close>

theorem recovery_spares_active:
  "\<exists>ext. h_trace (fst (recover_stale_mounts os own paths st)) = h_trace st @ ext
     \<and> (\<forall>i<length ext. justified os own paths (h_trace st @ take i ext) (ext ! i))"
proof -
  have "made (justified os own paths) st (fst (recover_stale_mounts os own paths st))"
    unfolding recover_stale_mounts_def Let_def
    by (rule made_sbind [OF recover_orphaned_made], rule made_sbind [OF looking_justified [OF read_view_looking]],
        rule made_sbind [OF recover_roots_made]) (rule recover_orphaned_made)
  then show ?thesis by (simp add: made_def)
qed


text \<open>A host with the record and the root of one instance, left behind by a launcher that is gone.\<close>

definition stale_os :: host_os where
  "stale_os = \<lparr>os_answer = (\<lambda>t c.
       case c of
         MountTable \<Rightarrow> Output True []
       | ReadRuns \<Rightarrow> Files [([RootDir, Normal ''a.ini''], ''root=/c'')]
       | Procstat \<Rightarrow> Output True []
       | FileMetadata _ \<Rightarrow> Identity (1, 2)
       | PathExists _ \<Rightarrow> Holds True
       | _ \<Rightarrow> Fine), os_elapsed = (\<lambda>_. 0)\<rparr>"

definition stale_record :: run_values where
  "stale_record = [''root'' \<mapsto> ''/c'', ''_path'' \<mapsto> ''/a.ini'']"

definition logged :: "host_call \<Rightarrow> host \<Rightarrow> host" where
  "logged c st = fst (host_do stale_os c st)"

lemma stale_do: "host_do stale_os c st = (logged c st, os_answer stale_os [] c)"
  by (simp add: logged_def host_do_def Let_def stale_os_def)

lemma logged_trace: "h_trace (logged c st) = h_trace st @ [(c, os_answer stale_os [] c)]"
  by (simp add: logged_def host_do_def Let_def stale_os_def)

lemma stale_answers:
  "os_answer stale_os [] MountTable = Output True []" "os_answer stale_os [] Procstat = Output True []"
  "os_answer stale_os [] ReadRuns = Files [([RootDir, Normal ''a.ini''], ''root=/c'')]"
  "os_answer stale_os [] (FileMetadata p) = Identity (1, 2)" "os_answer stale_os [] (PathExists p) = Holds True"
  "os_answer stale_os [] (RemoveDirAll p) = Fine" "os_answer stale_os [] (RemoveFile p) = Fine"
  by (simp_all add: stale_os_def)

lemma empty_text: "utf8_ok []" "lines [] = []" "SandboxProcessSnapshot_parse [] = []"
  by code_simp+

lemma stale_mounts: "mount_infos stale_os st = (logged MountTable st, Inr [])"
  by (simp add: mount_infos_def stale_do stale_answers empty_text)

lemma stale_no_mounts:
  "mount_points_under stale_os root st = (logged MountTable st, Inr [])" "unmount_under stale_os root st = (logged MountTable st, Inr ())"
  by (simp_all add: mount_points_under_def mount_points_def stale_mounts sort_mountpoints_deepest_first_def unmount_under_def
      order_mounts_for_recovery_def unmount_mountpoints_def mount_dependencies_def topological_path_order.simps sort_dedup_def)

lemma stale_documents:
  "recover_orphaned_document_mounts stale_os paths st = (logged MountTable (logged (FileMetadata (chroots paths)) st), Inr ())"
  by (simp add: recover_orphaned_document_mounts_def mount_identity_def stale_do stale_answers stale_no_mounts)

lemma stale_records: "ownership_records [([RootDir, Normal ''a.ini''], ''root=/c'')] = Inr [stale_record]"
proof -
  have "read_kv_lines (lines ''root=/c'') = Inr [(''root'', ''/c'')]" "display_path [RootDir, Normal ''a.ini''] = ''/a.ini''" by code_simp+
  then show ?thesis by (simp add: ownership_records_def ownership_record_def stale_record_def read_kv_file_def)
qed

lemma stale_values:
  "record_path_value stale_record ''root'' = Some [RootDir, Normal ''c'']" "record_path_value stale_record ''_path'' = Some [RootDir, Normal ''a.ini'']"
  "record_path_value stale_record ''parent_root'' = None" "recorded_pid stale_record = None"
  by code_simp+

lemma stale_snapshot: "capture stale_os st = (logged Procstat st, Inr [])"
  by (simp add: capture_def stale_do stale_answers empty_text)

lemma stale_view: "read_view stale_os paths st =
  (logged Procstat (logged MountTable (logged ReadRuns st)),
   Inr \<lparr>vw_records = [stale_record], vw_mounts = [], vw_roots = [[RootDir, Normal ''c'']], vw_active = []\<rparr>)"
  by (simp add: read_view_def read_records_def stale_do stale_answers stale_records stale_mounts stale_snapshot Let_def sandbox_roots_def
      stale_values active_sandbox_roots_def active_roots_from_records_def references_root_def run_record_launcher_active_def
      parent_edges_def mount_edges_def pair_option_def saturate.simps sort_dedup_def)

lemma stale_processes: "terminate_chroot_processes stale_os own root st = (logged Procstat st, Inr ())"
  by (simp add: terminate_chroot_processes_def chroot_processes_def other_pids_def live_pids_def stale_snapshot
      pids_referencing_roots_def sort_dedup_def)

text \<open>The recovery of that host removes the root and the record.\<close>

lemma stale_recovery:
  "{(RemoveDirAll [RootDir, Normal ''c''], Fine), (RemoveFile [RootDir, Normal ''a.ini''], Fine)}
     \<subseteq> set (h_trace (fst (recover_stale_mounts stale_os own paths st)))"
  by (simp add: recover_stale_mounts_def stale_documents stale_view order_sandbox_roots_for_recovery_def parent_edges_def mount_edges_def
      pair_option_def stale_values sort_dedup_def topological_path_order.simps next_path_def ready_def max_path_def
      recover_root_def tear_down_def stale_processes stale_no_mounts remove_instance_root_def remove_record_file_def host_unit_def
      stale_do stale_answers logged_trace)

theorem recovery_spares_active_witness:
  "\<exists>ext. h_trace (fst (recover_stale_mounts stale_os 1 gl_paths fresh_host)) = ext
     \<and> (RemoveDirAll [RootDir, Normal ''c''], Fine) \<in> set ext \<and> (RemoveFile [RootDir, Normal ''a.ini''], Fine) \<in> set ext
     \<and> (\<forall>i<length ext. justified stale_os 1 gl_paths (take i ext) (ext ! i))"
proof -
  let ?run = "recover_stale_mounts stale_os 1 gl_paths fresh_host"
  obtain ext where "h_trace (fst ?run) = h_trace fresh_host @ ext"
      "\<forall>i<length ext. justified stale_os 1 gl_paths (h_trace fresh_host @ take i ext) (ext ! i)"
    using recovery_spares_active [of stale_os 1 gl_paths fresh_host] by (elim exE conjE) (rule that)
  then show ?thesis using stale_recovery [of 1 gl_paths fresh_host] by (intro conjI exI [of _ ext]) simp_all
qed

end
