(* ===== verification/Kill.thy ===== *)
theory Kill
  imports Stale_Recovery
begin

text \<open>
  \<^verbatim>\<open>flatpak kill\<close> (\<^verbatim>\<open>src/src/cli/kill.rs\<close>): the running instances that a name selects, the roots nested in an instance, and the
  stop of each instance through its launcher or, when the launcher cannot be asked, through its processes.
\<close>

section \<open>Instances\<close>

record Launcher =
  l_pid :: int
  l_identity :: ProcessIdentity

record RunningInstance =
  ri_app_id :: string
  ri_instance_id :: string
  ri_root :: "path option"
  ri_launcher :: "Launcher option"

definition instance_launcher :: "run_values \<Rightarrow> Launcher option" where
  "instance_launcher r =
     Option.bind (recorded_pid r) (\<lambda>pid.
     Option.bind (r ''launcher_start'') (\<lambda>v.
     map_option (\<lambda>i. \<lparr>l_pid = pid, l_identity = i\<rparr>) (ProcessIdentity_parse v)))"

definition instance_name :: "run_values \<Rightarrow> string \<Rightarrow> string" where
  "instance_name r app_id =
     (case r ''instance_id'' of
        Some i \<Rightarrow> i
      | None \<Rightarrow> (case recorded_pid r of Some pid \<Rightarrow> int_digits pid | None \<Rightarrow> app_id))"

definition RunningInstance_from_record :: "run_values \<Rightarrow> RunningInstance option" where
  "RunningInstance_from_record r =
     map_option (\<lambda>app_id. \<lparr>ri_app_id = app_id, ri_instance_id = instance_name r app_id,
         ri_root = record_path_value r ''root'', ri_launcher = instance_launcher r\<rparr>) (r ''app_id'')"

definition instance_matches :: "RunningInstance \<Rightarrow> string \<Rightarrow> bool" where
  "instance_matches i target \<longleftrightarrow> ri_app_id i = target \<or> ri_instance_id i = target"

section \<open>Nested roots\<close>

text \<open>One pass of the loop over the records: the list of roots and whether it grew.\<close>

fun nested_roots_pass :: "run_values list \<Rightarrow> path list \<Rightarrow> bool \<Rightarrow> path list \<times> bool" where
  "nested_roots_pass [] roots changed = (roots, changed)"
| "nested_roots_pass (r # rs) roots changed =
     (case record_path_value r ''parent_root'' of
        None \<Rightarrow> nested_roots_pass rs roots changed
      | Some parent \<Rightarrow>
          if parent \<in> set roots then
            (case record_path_value r ''root'' of
               None \<Rightarrow> nested_roots_pass rs roots changed
             | Some child \<Rightarrow>
                 if child \<notin> set roots then nested_roots_pass rs (roots @ [child]) True
                 else nested_roots_pass rs roots changed)
          else nested_roots_pass rs roots changed)"

lemma nested_roots_pass_Cons:
  "nested_roots_pass (r # rs) roots changed =
     (case pair_option (record_path_value r ''root'') (record_path_value r ''parent_root'') of
        Some (child, parent) \<Rightarrow>
          if parent \<in> set roots \<and> child \<notin> set roots then nested_roots_pass rs (roots @ [child]) True
          else nested_roots_pass rs roots changed
      | None \<Rightarrow> nested_roots_pass rs roots changed)"
  by (simp add: pair_option_def split: option.split)

declare nested_roots_pass.simps(2) [simp del]

lemma parent_edges_Cons:
  "parent_edges (r # rs) =
     (case pair_option (record_path_value r ''root'') (record_path_value r ''parent_root'') of
        Some e \<Rightarrow> e # parent_edges rs | None \<Rightarrow> parent_edges rs)"
  by (simp add: parent_edges_def split: option.split)

lemma nested_roots_pass_grows:
  "nested_roots_pass rs roots changed = (roots', changed') \<Longrightarrow>
     set roots \<subseteq> set roots' \<and> set roots' \<subseteq> set roots \<union> fst ` set (parent_edges rs)
     \<and> (changed' \<longrightarrow> changed \<or> set roots \<noteq> set roots') \<and> (changed \<longrightarrow> changed')"
proof (induction rs arbitrary: roots changed)
  case (Cons r rs)
  show ?case
  proof (cases "pair_option (record_path_value r ''root'') (record_path_value r ''parent_root'')")
    case None
    then show ?thesis using Cons.IH [of roots changed] Cons.prems by (simp add: nested_roots_pass_Cons parent_edges_Cons)
  next
    case (Some e)
    obtain child parent where e: "e = (child, parent)" by fastforce
    show ?thesis
    proof (cases "parent \<in> set roots \<and> child \<notin> set roots")
      case True
      then have "nested_roots_pass rs (roots @ [child]) True = (roots', changed')"
        using Cons.prems Some e by (simp add: nested_roots_pass_Cons)
      from Cons.IH [OF this] show ?thesis using Some e True by (auto simp: parent_edges_Cons)
    next
      case False
      then have "nested_roots_pass rs roots changed = (roots', changed')"
        using Cons.prems Some e by (auto simp: nested_roots_pass_Cons split: if_splits)
      from Cons.IH [OF this] show ?thesis using Some e by (auto simp: parent_edges_Cons)
    qed
  qed
qed auto

lemma nested_roots_pass_unchanged:
  "nested_roots_pass rs roots changed = (roots', False) \<Longrightarrow> roots' = roots \<and> (set (parent_edges rs))\<inverse> `` set roots \<subseteq> set roots"
proof (induction rs arbitrary: roots changed)
  case (Cons r rs)
  show ?case
  proof (cases "pair_option (record_path_value r ''root'') (record_path_value r ''parent_root'')")
    case None
    then show ?thesis using Cons by (simp add: nested_roots_pass_Cons parent_edges_Cons)
  next
    case (Some e)
    obtain child parent where e: "e = (child, parent)" by fastforce
    have "\<not> (parent \<in> set roots \<and> child \<notin> set roots)"
      using Cons.prems Some e nested_roots_pass_grows [of rs "roots @ [child]" True roots' False] by (auto simp: nested_roots_pass_Cons split: if_splits)
    moreover then have "nested_roots_pass rs roots changed = (roots', False)"
      using Cons.prems Some e by (auto simp: nested_roots_pass_Cons split: if_splits)
    ultimately show ?thesis using Cons.IH [of roots changed] Some e by (auto simp: parent_edges_Cons)
  qed
qed (auto simp: parent_edges_def)

lemma nested_roots_pass_reachable:
  "nested_roots_pass rs roots changed = (roots', changed') \<Longrightarrow> set (parent_edges rs) \<subseteq> E \<Longrightarrow> set roots \<subseteq> (E\<inverse>)\<^sup>* `` A
     \<Longrightarrow> set roots' \<subseteq> (E\<inverse>)\<^sup>* `` A"
proof (induction rs arbitrary: roots changed)
  case (Cons r rs)
  show ?case
  proof (cases "pair_option (record_path_value r ''root'') (record_path_value r ''parent_root'')")
    case None
    then show ?thesis using Cons by (simp add: nested_roots_pass_Cons parent_edges_Cons)
  next
    case (Some e)
    obtain child parent where e: "e = (child, parent)" by fastforce
    have E: "set (parent_edges rs) \<subseteq> E" "(parent, child) \<in> E\<inverse>" using Cons.prems(2) Some e by (auto simp: parent_edges_Cons)
    show ?thesis
    proof (cases "parent \<in> set roots \<and> child \<notin> set roots")
      case True
      then have run: "nested_roots_pass rs (roots @ [child]) True = (roots', changed')"
        using Cons.prems Some e by (simp add: nested_roots_pass_Cons)
      have "child \<in> (E\<inverse>)\<^sup>* `` A" using True Cons.prems(3) E(2) by (auto intro: rtrancl_into_rtrancl)
      then show ?thesis using Cons.IH [OF run E(1)] Cons.prems(3) by simp
    next
      case False
      then have run: "nested_roots_pass rs roots changed = (roots', changed')"
        using Cons.prems Some e by (auto simp: nested_roots_pass_Cons split: if_splits)
      show ?thesis by (rule Cons.IH [OF run E(1) Cons.prems(3)])
    qed
  qed
qed simp

function nested_roots_loop :: "run_values list \<Rightarrow> path list \<Rightarrow> path list" where
  "nested_roots_loop records roots =
     (case nested_roots_pass records roots False of
        (roots', changed) \<Rightarrow> if changed then nested_roots_loop records roots' else roots')"
  by pat_completeness auto
termination
proof (relation "measure (\<lambda>(records, roots). card (fst ` set (parent_edges records) - set roots))", goal_cases)
  case (2 records roots roots' changed)
  then have "set roots \<subset> set roots'" "set roots' \<subseteq> set roots \<union> fst ` set (parent_edges records)"
    using nested_roots_pass_grows [of records roots False roots' changed] by auto
  then have "fst ` set (parent_edges records) - set roots' \<subset> fst ` set (parent_edges records) - set roots" by blast
  then show ?case by (simp add: psubset_card_mono)
qed simp

declare nested_roots_loop.simps [simp del]

interpretation nested: closure_loop "\<lambda>roots. nested_roots_pass records roots False" "nested_roots_loop records"
    "(set (parent_edges records))\<inverse>" for records
proof
  show "nested_roots_loop records roots = (case nested_roots_pass records roots False of
      (roots', changed) \<Rightarrow> if changed then nested_roots_loop records roots' else roots')" for roots
    by (rule nested_roots_loop.simps)
  show "set roots' \<subseteq> ((set (parent_edges records))\<inverse>)\<^sup>* `` set roots"
    if "nested_roots_pass records roots False = (roots', changed)" for roots roots' changed
    by (rule nested_roots_pass_reachable [OF that]) auto
  show "set roots' \<subseteq> set roots \<and> (set (parent_edges records))\<inverse> `` set roots \<subseteq> set roots"
    if "nested_roots_pass records roots False = (roots', False)" for roots roots'
    using nested_roots_pass_unchanged [OF that] by simp
qed (auto dest: nested_roots_pass_grows)

definition ownership_roots :: "RunningInstance \<Rightarrow> run_values list \<Rightarrow> path list" where
  "ownership_roots i records = (case ri_root i of None \<Rightarrow> [] | Some root \<Rightarrow> nested_roots_loop records [root])"

section \<open>Stopping\<close>

text \<open>The trait \<^verbatim>\<open>StopRequester\<close> and its implementation on the system.\<close>

record StopRequester =
  request_launcher :: "Launcher \<Rightarrow> host \<Rightarrow> host \<times> ForceStopResult result"
  terminate_roots :: "path list \<Rightarrow> host \<Rightarrow> host \<times> bool result"

definition SystemStopRequester :: "host_os \<Rightarrow> int \<Rightarrow> StopRequester" where
  "SystemStopRequester os own =
     \<lparr>request_launcher = (\<lambda>l. force_stop_launcher os (l_pid l) (l_identity l)),
      terminate_roots = terminate_processes_referencing_roots os own\<rparr>"

definition parse_kill_args :: "string list \<Rightarrow> string result" where
  "parse_kill_args args = (case args of [target] \<Rightarrow> Inr target | _ \<Rightarrow> Inl (Bail ''usage: flatpak kill INSTANCE''))"

text \<open>The outcome for one instance: \<^term>\<open>Inr True\<close> counts it as stopped, \<^term>\<open>Inl\<close> is the text of its error.\<close>

definition launcher_error :: "RunningInstance \<Rightarrow> Launcher \<Rightarrow> error \<Rightarrow> string" where
  "launcher_error i l e = ''instance '' @ ri_instance_id i @ '' (launcher '' @ int_digits (l_pid l) @ ''): '' @ display_error e"

definition processes_error :: "RunningInstance \<Rightarrow> error \<Rightarrow> string" where
  "processes_error i e = ''instance '' @ ri_instance_id i @ '' (owned processes): '' @ display_error e"

definition stop_owned :: "StopRequester \<Rightarrow> RunningInstance \<Rightarrow> path list \<Rightarrow> bool \<Rightarrow> host \<Rightarrow> host \<times> (string + bool)" where
  "stop_owned requester i roots owned st =
     (if owned then
        (case terminate_roots requester roots st of
           (st, Inr _) \<Rightarrow> (st, Inr True)
         | (st, Inl e) \<Rightarrow> (st, Inl (processes_error i e)))
      else (st, Inr False))"

definition stop_instance ::
  "StopRequester \<Rightarrow> int \<Rightarrow> snapshot \<Rightarrow> run_values list \<Rightarrow> RunningInstance \<Rightarrow> host \<Rightarrow> host \<times> (string + bool)" where
  "stop_instance requester own processes records i st =
     (let roots = ownership_roots i records;
          owned = list_ex (\<lambda>pid. pid \<noteq> own) (pids_referencing_roots processes roots) in
      case ri_launcher i of
        None \<Rightarrow> stop_owned requester i roots owned st
      | Some l \<Rightarrow>
          (case request_launcher requester l st of
             (st, Inl e) \<Rightarrow> (st, Inl (launcher_error i l e))
           | (st, Inr result) \<Rightarrow>
               if result = Signaled \<or> result = Exited \<and> \<not> owned then (st, Inr True)
               else stop_owned requester i roots owned st))"

fun stop_instances ::
  "(RunningInstance \<Rightarrow> host \<Rightarrow> host \<times> (string + bool)) \<Rightarrow> RunningInstance list \<Rightarrow> host \<Rightarrow> host \<times> nat \<times> string list" where
  "stop_instances stop [] st = (st, 0, [])"
| "stop_instances stop (i # is) st =
     (case stop i st of
        (st, r) \<Rightarrow>
          (case stop_instances stop is st of
             (st, stopped, errors) \<Rightarrow>
               (case r of
                  Inl e \<Rightarrow> (st, stopped, e # errors)
                | Inr b \<Rightarrow> (st, (if b then Suc stopped else stopped), errors))))"

definition selected_instances :: "run_values list \<Rightarrow> string \<Rightarrow> RunningInstance list" where
  "selected_instances records target =
     filter (\<lambda>i. instance_matches i target)
       (List.map_filter RunningInstance_from_record (filter (\<lambda>r. r ''parent_root'' = None) records))"

definition kill_records :: "run_values list \<Rightarrow> string \<Rightarrow> snapshot \<Rightarrow> int \<Rightarrow> StopRequester \<Rightarrow> host \<Rightarrow> host \<times> unit result" where
  "kill_records records target processes own requester st =
     (case stop_instances (stop_instance requester own processes records) (selected_instances records target) st of
        (st, stopped, errors) \<Rightarrow>
          (st, if errors \<noteq> [] then Inl (Bail (''failed to stop '' @ target @ '': '' @ join_with ''; '' errors))
               else if stopped = 0 then Inl (Bail (target @ '' is not running''))
               else Inr ()))"

definition cmd_kill :: "host_os \<Rightarrow> int \<Rightarrow> string list \<Rightarrow> host \<Rightarrow> host \<times> unit result" where
  "cmd_kill os own args st =
     sbind (st, parse_kill_args args) (\<lambda>st target.
     sbind (read_records os st) (\<lambda>st records.
     sbind (capture os st) (\<lambda>st processes.
     kill_records records target processes own (SystemStopRequester os own) st)))"

section \<open>Who is stopped\<close>

text \<open>
  A signal of the command is justified when it goes to a launcher named by a top-level record that the target selects,
  directly after the kernel gave that process the recorded identity, or to a process other than the caller that the
  last snapshot shows below a root that descends from the root of a selected instance.
\<close>

definition selected :: "run_values list \<Rightarrow> string \<Rightarrow> RunningInstance \<Rightarrow> bool" where
  "selected records target i \<longleftrightarrow>
     (\<exists>r\<in>set records. r ''parent_root'' = None \<and> RunningInstance_from_record r = Some i \<and> instance_matches i target)"

fun kill_call :: "int \<Rightarrow> run_values list \<Rightarrow> string \<Rightarrow> host_trace \<Rightarrow> host_call \<times> host_answer \<Rightarrow> bool" where
  "kill_call own records target t (Kill pid sig, _) \<longleftrightarrow>
     (\<exists>i. selected records target i \<and>
        ((\<exists>l. ri_launcher i = Some l \<and> pid = l_pid l \<and> sig = FORCE_STOP_SIGNAL \<and> t \<noteq> []
            \<and> last t = (SysctlProc pid, Proc (Some (pid, start_seconds (l_identity l), start_microseconds (l_identity l)))))
         \<or> sig \<in> {SIGTERM, SIGKILL} \<and> pid \<noteq> own
            \<and> (\<exists>p root top. (pid, p) \<in> set (last_snapshot t) \<and> path_starts_with p root
                 \<and> ri_root i = Some top \<and> (root, top) \<in> (set (parent_edges records))\<^sup>*)))"
| "kill_call own records target t _ \<longleftrightarrow> True"

lemma selected_instances_selected: "i \<in> set (selected_instances records target) \<longleftrightarrow> selected records target i"
  by (force simp: selected_instances_def selected_def List.map_filter_def)

lemma ownership_roots_descend:
  "root \<in> set (ownership_roots i records) \<longleftrightarrow> (\<exists>top. ri_root i = Some top \<and> (root, top) \<in> (set (parent_edges records))\<^sup>*)"
  by (cases "ri_root i") (auto simp: ownership_roots_def nested.closure rtrancl_converse)

lemma root_call_kill_call:
  assumes "root_call own (ownership_roots i records) n t e" "selected records target i"
  shows "kill_call own records target t e"
proof (cases "\<exists>pid sig. fst e = Kill pid sig")
  case True
  then obtain pid sig a where e: "e = (Kill pid sig, a)" by (cases e) auto
  then obtain p root where "(pid, p) \<in> set (last_snapshot t)" "root \<in> set (ownership_roots i records)" "path_starts_with p root"
    using assms(1) by (auto simp: pids_referencing_roots_def list_ex_iff)
  then show ?thesis using assms e unfolding ownership_roots_descend by auto
next
  case False
  then show ?thesis by (cases e; cases "fst e") auto
qed

lemma terminate_roots_kill_call:
  assumes "selected records target i"
  shows "made (kill_call own records target) st (fst (terminate_processes_referencing_roots os own (ownership_roots i records) st))"
  using root_termination_calls [of os own "ownership_roots i records" st] root_call_kill_call [OF _ assms]
  unfolding made_def by blast

lemma force_stop_kill_call:
  assumes "selected records target i" "ri_launcher i = Some l"
  shows "made (kill_call own records target) st (fst (force_stop_launcher os (l_pid l) (l_identity l) st))"
proof -
  let ?run = "force_stop_launcher os (l_pid l) (l_identity l) st"
  obtain ext where ext: "h_trace (fst ?run) = h_trace st @ ext" and kills: "\<forall>i<length ext. \<forall>p s. fst (ext ! i) = Kill p s \<longrightarrow>
          p = l_pid l \<and> s = FORCE_STOP_SIGNAL \<and> 0 < l_pid l \<and> i = 3 \<and> length ext = 4
          \<and> ext ! 2 = (SysctlProc (l_pid l), Proc (Some (l_pid l, start_seconds (l_identity l), start_microseconds (l_identity l))))
          \<and> (\<exists>flags n. ext ! 1 = (ReapStatus (l_pid l), Reaper flags n) \<and> flags AND REAPER_STATUS_OWNED \<noteq> 0)"
    using force_stop_calls [of os "l_pid l" "l_identity l" st] by (elim exE conjE) (rule that)
  have "kill_call own records target (h_trace st @ take k ext) (ext ! k)" if k: "k < length ext" for k
  proof (cases "\<exists>p s. fst (ext ! k) = Kill p s")
    case True
    then obtain p s a where e: "ext ! k = (Kill p s, a)" by (cases "ext ! k") auto
    then have p: "p = l_pid l" "s = FORCE_STOP_SIGNAL" "k = 3" "length ext = 4"
        "ext ! 2 = (SysctlProc (l_pid l), Proc (Some (l_pid l, start_seconds (l_identity l), start_microseconds (l_identity l))))"
      using kills k by auto
    have "take 3 ext = take 2 ext @ [ext ! 2]" using p(4) by (simp add: take_Suc_conv_app_nth numeral_3_eq_3 numeral_2_eq_2)
    then have "last (h_trace st @ take k ext) = ext ! 2" "h_trace st @ take k ext \<noteq> []" using p(3) by simp_all
    then show ?thesis using assms e p(1,2,5) by auto
  next
    case False
    then show ?thesis by (cases "ext ! k"; cases "fst (ext ! k)") auto
  qed
  then show ?thesis using ext by (auto simp: made_def)
qed

lemma stop_instance_made:
  assumes "selected records target i"
  shows "made (kill_call own records target) st (fst (stop_instance (SystemStopRequester os own) own processes records i st))"
proof -
  let ?rq = "SystemStopRequester os own" and ?Q = "kill_call own records target"
  have owned: "made ?Q st (fst (stop_owned ?rq i (ownership_roots i records) b st))" for b st
    using terminate_roots_kill_call [OF assms, of own st os]
    by (auto simp: stop_owned_def SystemStopRequester_def split: prod.splits sum.splits)
  show ?thesis
  proof (cases "ri_launcher i")
    case None
    then show ?thesis using owned by (simp add: stop_instance_def Let_def)
  next
    case (Some l)
    obtain st1 r where r: "force_stop_launcher os (l_pid l) (l_identity l) st = (st1, r)" by fastforce
    have "made ?Q st st1" using force_stop_kill_call [OF assms Some, of own st os] r by simp
    then show ?thesis using Some r owned
      by (auto simp: stop_instance_def Let_def SystemStopRequester_def [of os own] split: sum.splits intro: made_trans)
  qed
qed

lemma stop_instances_made:
  assumes "\<And>i st. i \<in> set is \<Longrightarrow> made Q st (fst (stop i st))"
  shows "made Q st (fst (stop_instances stop is st))"
  using assms
proof (induction "is" arbitrary: st)
  case (Cons i rest)
  obtain st1 r where r: "stop i st = (st1, r)" by fastforce
  obtain st2 n es where n: "stop_instances stop rest st1 = (st2, n, es)" by (metis prod_cases3)
  have "made Q st st1" using Cons.prems [of i st] r by simp
  moreover have "made Q st1 st2" using Cons.IH [of st1] Cons.prems n by simp
  ultimately have "made Q st st2" by (rule made_trans)
  then show ?case using r n by (auto split: sum.splits)
qed simp

lemma stopped_some: "stop_instances stop is st = (st', n, es) \<Longrightarrow> 0 < n \<Longrightarrow> is \<noteq> []"
  by auto

text \<open>
  C0. Stopping an application stops nothing else: whatever the host answers, every signal of \<^verbatim>\<open>flatpak kill\<close> goes to the
  launcher of an instance that the target selects among the records just read, directly after the kernel gave that
  process the recorded identity, or to a process other than the caller that the last snapshot shows below the root of
  a selected instance or below a root nested in it, however deep. A kill that succeeds selected an instance.
\<close>

theorem kill_confined:
  "\<exists>ext. h_trace (fst (cmd_kill os own args st)) = h_trace st @ ext
     \<and> (\<forall>k<length ext. \<forall>pid sig. fst (ext ! k) = Kill pid sig \<longrightarrow>
          (\<exists>target fs records. args = [target] \<and> ext ! 0 = (ReadRuns, Files fs) \<and> ownership_records fs = Inr records
             \<and> kill_call own records target (h_trace st @ take k ext) (ext ! k)))
     \<and> (snd (cmd_kill os own args st) = Inr () \<longrightarrow>
          (\<exists>target fs records i. args = [target] \<and> ext ! 0 = (ReadRuns, Files fs) \<and> ownership_records fs = Inr records
             \<and> selected records target i))"
proof -
  let ?run = "cmd_kill os own args st"
  define harmless :: "host_trace \<Rightarrow> host_call \<times> host_answer \<Rightarrow> bool" where "harmless t e \<longleftrightarrow> (\<forall>p s. fst e \<noteq> Kill p s)" for t e
  have quiet: ?thesis if "made harmless st (fst ?run)" "snd ?run \<noteq> Inr ()"
    using that by (fastforce simp: made_def harmless_def)
  show ?thesis
  proof (cases "\<exists>target fs records. args = [target] \<and> os_answer os (h_trace st) ReadRuns = Files fs \<and> ownership_records fs = Inr records")
    case False
    show ?thesis
    proof (cases "\<exists>target. args = [target]")
      case one: True
      obtain st1 r where r: "read_records os st = (st1, r)" by fastforce
      have "made harmless st st1"
        using r unfolding read_records_def by (cases "host_do os ReadRuns st") (auto elim: made_doE simp: harmless_def)
      moreover obtain e where "r = Inl e"
        using False one r by (cases "os_answer os (h_trace st) ReadRuns"; cases r) (auto simp: read_records_def host_do_def Let_def)
      ultimately show ?thesis using one r by (intro quiet) (auto simp: cmd_kill_def parse_kill_args_def)
    next
      case none: False
      then show ?thesis by (intro quiet) (auto simp: cmd_kill_def parse_kill_args_def split: list.splits)
    qed
  next
    case True
    then obtain target fs records where a: "args = [target]" "os_answer os (h_trace st) ReadRuns = Files fs" "ownership_records fs = Inr records"
      by blast
    obtain st1 where st1: "read_records os st = (st1, Inr records)" "h_trace st1 = h_trace st @ [(ReadRuns, Files fs)]"
      using a by (auto simp: read_records_def host_do_def Let_def)
    let ?Q = "kill_call own records target"
    let ?stop = "\<lambda>snap. stop_instances (stop_instance (SystemStopRequester os own) own snap records) (selected_instances records target)"
    have run: "?run = sbind (capture os st1) (\<lambda>st snap. kill_records records target snap own (SystemStopRequester os own) st)"
      using a st1(1) by (simp add: cmd_kill_def parse_kill_args_def)
    have "made ?Q st1 (fst ?run)"
      unfolding run
    proof (rule made_sbind)
      show "made ?Q st1 (fst (capture os st1))"
        unfolding capture_def by (cases "host_do os Procstat st1") (auto elim: made_doE)
      fix st2 snap
      have "made ?Q st2 (fst (?stop snap st2))"
        by (rule stop_instances_made) (simp add: selected_instances_selected stop_instance_made)
      then show "made ?Q st2 (fst (kill_records records target snap own (SystemStopRequester os own) st2))"
        by (auto simp: kill_records_def split: prod.splits)
    qed
    then obtain ext where ext: "h_trace (fst ?run) = h_trace st1 @ ext" "\<forall>k<length ext. ?Q (h_trace st1 @ take k ext) (ext ! k)"
      by (auto simp: made_def)
    let ?ext = "(ReadRuns, Files fs) # ext"
    have "?Q (h_trace st @ take k ?ext) (?ext ! k)" if "k < length ?ext" for k
      using that ext(2) st1(2) by (cases k) auto
    moreover have "h_trace (fst ?run) = h_trace st @ ?ext" using ext(1) st1(2) by simp
    moreover have "\<exists>i. selected records target i" if ok: "snd ?run = Inr ()"
    proof -
      obtain st2 snap where "snd (kill_records records target snap own (SystemStopRequester os own) st2) = Inr ()"
        using ok unfolding run by (auto simp: sbind_def split: prod.splits sum.splits)
      then obtain st3 n es where "?stop snap st2 = (st3, n, es)" "0 < n"
        by (auto simp: kill_records_def split: prod.splits if_splits)
      then have "selected_instances records target \<noteq> []" by (rule stopped_some)
      then show ?thesis using selected_instances_selected [of _ records target] by (meson last_in_set)
    qed
    ultimately show ?thesis using a by (intro exI [of _ ?ext] conjI allI impI) (auto simp del: kill_call.simps)
  qed
qed

definition kill_os :: host_os where
  "kill_os = child_os\<lparr>os_answer := (\<lambda>t c.
     if c = ReadRuns then Files [([RootDir, Normal ''a.ini''], ''app_id=a'' @ newline # ''launcher_pid=9'' @ newline # ''launcher_start=5:6'' @ newline # ''root=/c'')]
     else os_answer child_os t c)\<rparr>"

theorem kill_confined_witness:
  "\<exists>ext. h_trace (fst (cmd_kill kill_os 1 [''a''] fresh_host)) = ext
     \<and> (\<exists>k target fs records i. k < length ext \<and> fst (ext ! k) = Kill 9 FORCE_STOP_SIGNAL \<and> ext ! 0 = (ReadRuns, Files fs)
          \<and> ownership_records fs = Inr records \<and> kill_call 1 records target (take k ext) (ext ! k) \<and> selected records target i)"
proof -
  let ?run = "cmd_kill kill_os 1 [''a''] fresh_host"
  have ok: "snd ?run = Inr ()" "Kill 9 FORCE_STOP_SIGNAL \<in> set (map fst (h_trace (fst ?run)))" by code_simp+
  obtain ext where ext: "h_trace (fst ?run) = h_trace fresh_host @ ext"
    and kills: "\<forall>k<length ext. \<forall>pid sig. fst (ext ! k) = Kill pid sig \<longrightarrow>
          (\<exists>target fs records. [''a''] = [target] \<and> ext ! 0 = (ReadRuns, Files fs) \<and> ownership_records fs = Inr records
             \<and> kill_call 1 records target (h_trace fresh_host @ take k ext) (ext ! k))"
    and sel: "snd ?run = Inr () \<longrightarrow> (\<exists>target fs records i. [''a''] = [target] \<and> ext ! 0 = (ReadRuns, Files fs) \<and> ownership_records fs = Inr records
             \<and> selected records target i)"
    using kill_confined [of kill_os 1 "[''a'']" fresh_host] by (elim exE conjE) (rule that)
  obtain k where k: "k < length ext" "fst (ext ! k) = Kill 9 FORCE_STOP_SIGNAL"
    using ok(2) unfolding ext in_set_conv_nth by auto
  obtain target fs records where r: "[''a''] = [target]" "ext ! 0 = (ReadRuns, Files fs)" "ownership_records fs = Inr records"
      "kill_call 1 records target (h_trace fresh_host @ take k ext) (ext ! k)"
    using kills [rule_format, OF k] by (elim exE conjE) (rule that)
  moreover obtain i where "selected records target i" using sel ok(1) r(1-3) by auto
  ultimately show ?thesis using k ext by (intro exI [of _ ext] conjI exI [of _ k] exI [of _ target] exI [of _ fs] exI [of _ records] exI [of _ i]) simp_all
qed

end
