(* ===== verification/Secure_Mount.thy ===== *)
theory Secure_Mount
  imports Paths Wire "HOL-Library.Sublist"
begin

unbundle bit_operations_syntax

text \<open>
  The set-user-ID mount helper (\<^verbatim>\<open>src/src/secure_mount.rs\<close>): the command lines its clients build, the
  parsing and validation of a request, the descent to the mount target by descriptors, the mounts and
  unmounts, and the protection of the parent directory of a regular-file mount.

  The helper runs against a kernel that an untrusted caller shares with it. Every system call is an entry
  of a trace with the answer it got, and the kernel is a function from the trace so far and the next call
  to the answer: it may answer the same call differently each time. A descriptor is the way it was
  obtained, with the position of the call in the trace, so two openings of one name differ.
\<close>

section \<open>System calls\<close>

datatype fd = Slash nat | Child nat fd string

record stat =
  st_dev :: nat
  st_ino :: nat
  st_uid :: nat
  st_gid :: nat
  st_mode :: u16

record statfs =
  f_mntonname :: string
  f_fstypename :: string
  f_fsid :: "int \<times> int"
  f_flags :: "64 word"

datatype errno = EEXIST | ENOENT | EROFS | Errno nat

type_synonym mount_option = "string \<times> string option"

text \<open>
  \<open>OpenDir\<close>, \<open>OpenEntry\<close>, \<open>OpenInfo\<close> and \<open>CreateFile\<close> are the four uses of \<^verbatim>\<open>openat\<close>: all with
  \<^verbatim>\<open>O_NOFOLLOW\<close>, all but \<open>OpenInfo\<close> with \<^verbatim>\<open>O_RESOLVE_BENEATH\<close>, the first with \<^verbatim>\<open>O_DIRECTORY\<close>, the last with
  \<^verbatim>\<open>O_CREAT | O_EXCL\<close>.
\<close>

datatype call =
    OpenSlash
  | OpenDir fd string
  | OpenEntry fd string
  | OpenInfo fd string
  | CreateFile fd string
  | DupFd fd
  | Fstat fd
  | Fstatfs fd
  | Mkdirat fd string u16
  | Fchownat fd string nat nat
  | Fchown fd nat nat
  | Fchmod fd u16
  | Fchdir fd
  | Nmount "string option list" u32
  | Unmount string u32
  | Canonicalize string
  | Metadata path
  | Getmntinfo

datatype answer = Failed errno | Done | Stats stat | Fs statfs | PathIs string | Mounts "statfs list"

type_synonym trace = "(call \<times> answer) list"

record mount_os =
  kernel :: "trace \<Rightarrow> call \<Rightarrow> answer"
  effective_uid :: nat
  real_uid :: nat
  strerror :: "errno \<Rightarrow> string"

section \<open>Errors and sequencing\<close>

datatype mount_error = Message string | OsError errno | InContext string mount_error

fun mentions_errno :: "errno \<Rightarrow> mount_error \<Rightarrow> bool" where
  "mentions_errno n (Message _) = False"
| "mentions_errno n (OsError m) = (m = n)"
| "mentions_errno n (InContext _ e) = mentions_errno n e"

fun error_chain :: "(errno \<Rightarrow> string) \<Rightarrow> mount_error \<Rightarrow> string" where
  "error_chain names (Message s) = s"
| "error_chain names (OsError n) = names n"
| "error_chain names (InContext s e) = s @ '': '' @ error_chain names e"

type_synonym 'a act = "trace \<Rightarrow> trace \<times> (mount_error + 'a)"

definition act_ok :: "'a \<Rightarrow> 'a act" where
  "act_ok x t = (t, Inr x)"

definition act_fail :: "mount_error \<Rightarrow> 'a act" where
  "act_fail e t = (t, Inl e)"

definition act_bind :: "'a act \<Rightarrow> ('a \<Rightarrow> 'b act) \<Rightarrow> 'b act" where
  "act_bind m f t = (case m t of (t', Inl e) \<Rightarrow> (t', Inl e) | (t', Inr x) \<Rightarrow> f x t')"

definition act_context :: "string \<Rightarrow> 'a act \<Rightarrow> 'a act" where
  "act_context msg m t = (case m t of (t', Inl e) \<Rightarrow> (t', Inl (InContext msg e)) | (t', Inr x) \<Rightarrow> (t', Inr x))"

text \<open>The outcome of a fallible step as a value, for the code that matches on it.\<close>

definition act_try :: "'a act \<Rightarrow> (mount_error + 'a) act" where
  "act_try m t = (case m t of (t', r) \<Rightarrow> (t', Inr r))"

definition sys :: "mount_os \<Rightarrow> call \<Rightarrow> answer act" where
  "sys os c t = (let a = kernel os t c in (t @ [(c, a)], Inr a))"

fun answer_error :: "answer \<Rightarrow> mount_error" where
  "answer_error (Failed n) = OsError n"
| "answer_error _ = OsError (Errno 0)"

definition sys_unit :: "mount_os \<Rightarrow> call \<Rightarrow> string \<Rightarrow> unit act" where
  "sys_unit os c msg =
     act_bind (sys os c) (\<lambda>a. if a = Done then act_ok () else act_fail (InContext msg (answer_error a)))"

text \<open>A new descriptor is named by the position of the call that opened it.\<close>

definition sys_open :: "mount_os \<Rightarrow> call \<Rightarrow> (nat \<Rightarrow> fd) \<Rightarrow> string \<Rightarrow> fd act" where
  "sys_open os c new msg t =
     act_bind (sys os c) (\<lambda>a. if a = Done then act_ok (new (length t)) else act_fail (InContext msg (answer_error a))) t"

definition sys_stat :: "mount_os \<Rightarrow> call \<Rightarrow> string \<Rightarrow> stat act" where
  "sys_stat os c msg =
     act_bind (sys os c) (\<lambda>a. case a of Stats st \<Rightarrow> act_ok st | _ \<Rightarrow> act_fail (InContext msg (answer_error a)))"

definition sys_statfs :: "mount_os \<Rightarrow> call \<Rightarrow> string \<Rightarrow> statfs act" where
  "sys_statfs os c msg =
     act_bind (sys os c) (\<lambda>a. case a of Fs st \<Rightarrow> act_ok st | _ \<Rightarrow> act_fail (InContext msg (answer_error a)))"

definition sys_canonicalize :: "mount_os \<Rightarrow> string \<Rightarrow> string \<Rightarrow> path act" where
  "sys_canonicalize os p msg =
     act_bind (sys os (Canonicalize p)) (\<lambda>a. case a of PathIs q \<Rightarrow> act_ok (parse_path q) | _ \<Rightarrow> act_fail (InContext msg (answer_error a)))"

definition bail :: "string \<Rightarrow> 'a act" where
  "bail msg = act_fail (Message msg)"

definition act_option :: "string \<Rightarrow> 'a option \<Rightarrow> 'a act" where
  "act_option msg x = (case x of None \<Rightarrow> bail msg | Some y \<Rightarrow> act_ok y)"

definition ensure :: "bool \<Rightarrow> string \<Rightarrow> unit act" where
  "ensure b msg = (if b then act_ok () else bail msg)"

section \<open>Identities and modes\<close>

definition S_IFMT :: u16 where "S_IFMT = 0xF000"
definition S_IFDIR :: u16 where "S_IFDIR = 0x4000"
definition S_IFREG :: u16 where "S_IFREG = 0x8000"
definition MNT_RDONLY :: u32 where "MNT_RDONLY = 1"
definition MNT_FORCE :: u32 where "MNT_FORCE = 0x80000"
definition MNT_BYFSID :: u32 where "MNT_BYFSID = 0x8000000"

definition MOUNT_HELPER_PATH :: string where "MOUNT_HELPER_PATH = ''/usr/local/libexec/freebsd-flatpak/secure-mount''"
definition PRIVATE_SOURCE_ROOT :: string where "PRIVATE_SOURCE_ROOT = ''.freebsd-flatpak-mount-sources''"

record FileIdentity =
  device :: nat
  inode :: nat
  owner :: nat
  owner_group :: nat

definition FileIdentity_from_fd :: "mount_os \<Rightarrow> fd \<Rightarrow> FileIdentity act" where
  "FileIdentity_from_fd os d =
     act_bind (sys_stat os (Fstat d) ''fstat'') (\<lambda>st.
     act_ok \<lparr>device = st_dev st, inode = st_ino st, owner = st_uid st, owner_group = st_gid st\<rparr>)"

definition parse_u64 :: "string \<Rightarrow> string \<Rightarrow> nat act" where
  "parse_u64 v label = act_option (''invalid '' @ label) (parse_uint u64_max v)"

definition FileIdentity_parse :: "string \<Rightarrow> string \<Rightarrow> FileIdentity act" where
  "FileIdentity_parse dev ino =
     act_bind (parse_u64 dev ''device'') (\<lambda>dev.
     act_bind (parse_u64 ino ''inode'') (\<lambda>ino.
     act_ok \<lparr>device = dev, inode = ino, owner = 0, owner_group = 0\<rparr>))"

definition verify :: "mount_os \<Rightarrow> FileIdentity \<Rightarrow> fd \<Rightarrow> string \<Rightarrow> unit act" where
  "verify os expected d label =
     act_bind (FileIdentity_from_fd os d) (\<lambda>actual.
     ensure (device expected = device actual \<and> inode expected = inode actual) (label @ '' changed while preparing the mount''))"

definition file_type :: "mount_os \<Rightarrow> fd \<Rightarrow> u16 act" where
  "file_type os d = act_bind (sys_stat os (Fstat d) ''fstat mount path'') (\<lambda>st. act_ok (st_mode st AND S_IFMT))"

section \<open>Paths\<close>

definition c_string :: "string \<Rightarrow> string act" where
  "c_string s = (if CHR 0x00 \<in> set s then bail ''path contains a NUL byte'' else act_ok s)"

definition relative_ok :: "string \<Rightarrow> bool" where
  "relative_ok p \<longleftrightarrow> p \<noteq> [] \<and> list_all is_normal (parse_path p)"

definition validate_relative :: "string \<Rightarrow> unit act" where
  "validate_relative p = ensure (relative_ok p) ''mount target must be a non-empty normalized relative path''"

text \<open>\<^verbatim>\<open>Path::join\<close> on the text of the paths.\<close>

definition text_join :: "string \<Rightarrow> string \<Rightarrow> string" where
  "text_join p q =
     (if starts_with q ''/'' \<or> p = [] then q
      else if ends_with p ''/'' then p @ q else p @ ''/'' @ q)"

section \<open>Descending by descriptors\<close>

definition open_child_dir_cstr :: "mount_os \<Rightarrow> fd \<Rightarrow> string \<Rightarrow> fd act" where
  "open_child_dir_cstr os parent name =
     sys_open os (OpenDir parent name) (\<lambda>n. Child n parent name) ''openat directory component''"

definition open_child_dir :: "mount_os \<Rightarrow> fd \<Rightarrow> string \<Rightarrow> fd act" where
  "open_child_dir os parent name = act_bind (c_string name) (open_child_dir_cstr os parent)"

definition open_child_entry_cstr :: "mount_os \<Rightarrow> fd \<Rightarrow> string \<Rightarrow> fd act" where
  "open_child_entry_cstr os parent name =
     sys_open os (OpenEntry parent name) (\<lambda>n. Child n parent name) ''openat mount target final component''"

definition open_child_entry :: "mount_os \<Rightarrow> fd \<Rightarrow> string \<Rightarrow> fd act" where
  "open_child_entry os parent name = act_bind (c_string name) (open_child_entry_cstr os parent)"

fun open_components :: "mount_os \<Rightarrow> fd \<Rightarrow> path \<Rightarrow> fd act" where
  "open_components os current [] = act_ok current"
| "open_components os current (RootDir # cs) = open_components os current cs"
| "open_components os current (Normal name # cs) =
     act_bind (open_child_dir os current name) (\<lambda>current. open_components os current cs)"
| "open_components os current (c # cs) = bail ''absolute path is not normalized''"

definition open_absolute_path :: "mount_os \<Rightarrow> path \<Rightarrow> fd act" where
  "open_absolute_path os p =
     act_bind (ensure (is_absolute p) ''descriptor-anchored path must be absolute'') (\<lambda>_.
     act_bind (sys_open os OpenSlash Slash ''open filesystem root'') (\<lambda>current.
     open_components os current p))"

definition open_absolute_dir :: "mount_os \<Rightarrow> string \<Rightarrow> fd act" where
  "open_absolute_dir os p = open_absolute_path os (parse_path p)"

definition open_absolute_entry :: "mount_os \<Rightarrow> string \<Rightarrow> fd act" where
  "open_absolute_entry os text =
     (let p = parse_path text in
      act_bind (ensure (is_absolute p) ''descriptor-anchored path must be absolute'') (\<lambda>_.
      act_bind (act_option ''absolute path has no parent'' (path_parent p)) (\<lambda>parent.
      act_bind (act_option ''absolute path has no final component'' (file_name p)) (\<lambda>name.
      act_bind (open_absolute_path os parent) (\<lambda>parent.
      open_child_entry os parent name)))))"

definition duplicate_dir :: "mount_os \<Rightarrow> fd \<Rightarrow> fd act" where
  "duplicate_dir os d =
     act_bind (sys_unit os (DupFd d) ''duplicate directory descriptor'') (\<lambda>_. act_ok d)"

fun open_names :: "mount_os \<Rightarrow> fd \<Rightarrow> path \<Rightarrow> fd act" where
  "open_names os current [] = act_ok current"
| "open_names os current (Normal name # cs) =
     act_bind (open_child_dir os current name) (\<lambda>current. open_names os current cs)"
| "open_names os current (c # cs) = bail ''mount target is not normalized''"

text \<open>
  \<^verbatim>\<open>open_relative_dir\<close> and \<^verbatim>\<open>chase_and_mkdir\<close> take a path; \<open>relative_path_ok\<close> is \<^verbatim>\<open>validate_relative\<close> on its
  components, for a path that is the parent of another.
\<close>

definition relative_path_ok :: "path \<Rightarrow> bool" where
  "relative_path_ok p \<longleftrightarrow> p \<noteq> [] \<and> list_all is_normal p"

definition open_relative_dir :: "mount_os \<Rightarrow> fd \<Rightarrow> path \<Rightarrow> fd act" where
  "open_relative_dir os start p =
     act_bind (ensure (relative_path_ok p) ''mount target must be a non-empty normalized relative path'') (\<lambda>_.
     act_bind (duplicate_dir os start) (\<lambda>current. open_names os current p))"

definition make_child :: "mount_os \<Rightarrow> fd \<Rightarrow> string \<Rightarrow> u16 \<Rightarrow> nat \<Rightarrow> nat \<Rightarrow> unit act" where
  "make_child os current name mode u g =
     act_bind (sys os (Mkdirat current name mode)) (\<lambda>a.
     if a = Done then sys_unit os (Fchownat current name u g) ''chown mount target''
     else if a = Failed EEXIST then act_ok ()
     else act_fail (InContext ''mkdirat mount target'' (answer_error a)))"

fun chase_names :: "mount_os \<Rightarrow> u16 \<Rightarrow> nat \<Rightarrow> nat \<Rightarrow> fd \<Rightarrow> path \<Rightarrow> fd act" where
  "chase_names os mode u g current [] = act_ok current"
| "chase_names os mode u g current (Normal name # cs) =
     act_bind (c_string name) (\<lambda>name.
     act_bind (make_child os current name mode u g) (\<lambda>_.
     act_bind (open_child_dir_cstr os current name) (\<lambda>current.
     chase_names os mode u g current cs)))"
| "chase_names os mode u g current (c # cs) = bail ''mount target is not normalized''"

definition chase_and_mkdir :: "mount_os \<Rightarrow> fd \<Rightarrow> path \<Rightarrow> u16 \<Rightarrow> nat \<Rightarrow> nat \<Rightarrow> fd act" where
  "chase_and_mkdir os start p mode u g =
     act_bind (ensure (relative_path_ok p) ''mount target must be a non-empty normalized relative path'') (\<lambda>_.
     act_bind (duplicate_dir os start) (\<lambda>current. chase_names os mode u g current p))"

definition validate_relative_mount_target :: "mount_os \<Rightarrow> fd \<Rightarrow> string \<Rightarrow> fd act" where
  "validate_relative_mount_target os start text =
     (let p = parse_path text in
      act_bind (validate_relative text) (\<lambda>_.
      act_bind
        (case path_parent p of
           Some parent \<Rightarrow> if parent \<noteq> [] then open_relative_dir os start parent else duplicate_dir os start
         | None \<Rightarrow> duplicate_dir os start) (\<lambda>parent.
      act_bind (act_option ''mount target has no final component'' (file_name p)) (\<lambda>name.
      act_bind (open_child_entry os parent name) (\<lambda>target.
      act_bind (file_type os target) (\<lambda>kind.
      act_bind (ensure (kind = S_IFDIR \<or> kind = S_IFREG) ''mount target final component is not a regular file or directory'') (\<lambda>_.
      act_ok target)))))))"


section \<open>Mount options\<close>

record MountOptions =
  strings :: "string list"
  pairs :: "(nat \<times> nat option) list"

definition MountOptions_new :: MountOptions where
  "MountOptions_new = \<lparr>strings = [], pairs = []\<rparr>"

definition option_value_cstr :: "string \<Rightarrow> string \<Rightarrow> MountOptions \<Rightarrow> MountOptions" where
  "option_value_cstr name v mo =
     \<lparr>strings = strings mo @ [name, v],
      pairs = pairs mo @ [(length (strings mo), Some (length (strings mo @ [name])))]\<rparr>"

definition option_value :: "string \<Rightarrow> string \<Rightarrow> MountOptions \<Rightarrow> MountOptions act" where
  "option_value name v mo =
     act_bind (c_string name) (\<lambda>name. act_bind (c_string v) (\<lambda>v. act_ok (option_value_cstr name v mo)))"

definition option_flag :: "string \<Rightarrow> MountOptions \<Rightarrow> MountOptions act" where
  "option_flag name mo =
     act_bind (c_string name) (\<lambda>name.
     act_ok \<lparr>strings = strings mo @ [name], pairs = pairs mo @ [(length (strings mo), None)]\<rparr>)"

text \<open>The vector handed to \<^verbatim>\<open>nmount\<close>: a name and a value for each option, a null pointer for a flag.\<close>

definition option_iov :: "MountOptions \<Rightarrow> string option list" where
  "option_iov mo =
     concat (map (\<lambda>(name, v). [Some (strings mo ! name), map_option (\<lambda>i. strings mo ! i) v]) (pairs mo))"

definition options_mount :: "mount_os \<Rightarrow> MountOptions \<Rightarrow> u32 \<Rightarrow> unit act" where
  "options_mount os mo flags = sys_unit os (Nmount (option_iov mo) flags) ''nmount''"

definition anchor_mount_target :: "mount_os \<Rightarrow> fd \<Rightarrow> unit act" where
  "anchor_mount_target os d = sys_unit os (Fchdir d) ''fchdir mount target''"

definition nmount_nullfs :: "mount_os \<Rightarrow> string \<Rightarrow> fd \<Rightarrow> string \<Rightarrow> bool \<Rightarrow> unit act" where
  "nmount_nullfs os source target_parent target_name read_only =
     act_bind (anchor_mount_target os target_parent) (\<lambda>_.
     act_bind (c_string source) (\<lambda>source_path.
     act_bind (option_value ''fstype'' ''nullfs'' MountOptions_new) (\<lambda>mo.
     let mo = option_value_cstr ''fspath'' target_name mo;
         mo = option_value_cstr ''target'' source_path mo in
     act_bind (option_flag ''nocover'' mo) (\<lambda>mo.
     options_mount os mo (if read_only then MNT_RDONLY else 0)))))"

definition nmount_special :: "mount_os \<Rightarrow> fd \<Rightarrow> string \<Rightarrow> string \<Rightarrow> unit act" where
  "nmount_special os target fs_type source =
     act_bind (anchor_mount_target os target) (\<lambda>_.
     act_bind (option_value ''fstype'' fs_type MountOptions_new) (\<lambda>mo.
     act_bind (option_value ''fspath'' ''.'' mo) (\<lambda>mo.
     act_bind (option_value ''from'' source mo) (\<lambda>mo.
     options_mount os mo 0))))"

text \<open>\<^verbatim>\<open>u32::from_str_radix(value, 8)\<close>, then \<^verbatim>\<open>try_into\<close> to the 16 bits of a \<^verbatim>\<open>mode_t\<close>.\<close>

definition is_octal_digit :: "char \<Rightarrow> bool" where
  "is_octal_digit c \<longleftrightarrow> is_ascii_digit c \<and> digit_value c < 8"

definition parse_octal :: "nat \<Rightarrow> string \<Rightarrow> nat option" where
  "parse_octal bound s =
     (let ds = (case s of c # cs \<Rightarrow> if c = CHR ''+'' then cs else s | [] \<Rightarrow> s);
          n = foldl (\<lambda>n c. n * 8 + digit_value c) 0 ds in
      if ds = [] \<or> \<not> list_all is_octal_digit ds then None else if n \<le> bound then Some n else None)"

definition parse_mode :: "string \<Rightarrow> u16 act" where
  "parse_mode v =
     act_bind (act_option ''invalid tmpfs mode'' (parse_octal u32_max v)) (\<lambda>n.
     act_bind (ensure (n < 65536) ''tmpfs mode is out of range'') (\<lambda>_. act_ok (of_nat n)))"

record tmpfs_request =
  tr_options :: MountOptions
  tr_mode :: "u16 option"
  tr_uid :: "nat option"
  tr_gid :: "nat option"

definition tmpfs_option :: "string \<Rightarrow> tmpfs_request \<Rightarrow> tmpfs_request act" where
  "tmpfs_option opt r =
     (case split_once (CHR ''='') opt of
        None \<Rightarrow> bail ''tmpfs option requires a value''
      | Some (name, v) \<Rightarrow>
          act_bind
            (if name = ''mode'' then act_bind (parse_mode v) (\<lambda>mode. act_ok (r\<lparr>tr_mode := Some mode\<rparr>))
             else if name = ''uid'' \<or> name = ''gid'' then
               act_bind (act_option ''invalid tmpfs owner'' (parse_uint u32_max v)) (\<lambda>i.
               act_ok (if name = ''uid'' then r\<lparr>tr_uid := Some i\<rparr> else r\<lparr>tr_gid := Some i\<rparr>))
             else bail ''unsupported tmpfs option'') (\<lambda>r.
          act_bind (option_value name v (tr_options r)) (\<lambda>mo. act_ok (r\<lparr>tr_options := mo\<rparr>))))"

fun tmpfs_options :: "string list \<Rightarrow> tmpfs_request \<Rightarrow> tmpfs_request act" where
  "tmpfs_options [] r = act_ok r"
| "tmpfs_options (opt # opts) r = act_bind (tmpfs_option opt r) (tmpfs_options opts)"

definition tmpfs_metadata :: "mount_os \<Rightarrow> fd \<Rightarrow> tmpfs_request \<Rightarrow> unit act" where
  "tmpfs_metadata os mounted_root r =
     act_bind (case tr_mode r of None \<Rightarrow> act_ok () | Some mode \<Rightarrow> sys_unit os (Fchmod mounted_root mode) ''chmod tmpfs root'') (\<lambda>_.
     if tr_uid r \<noteq> None \<or> tr_gid r \<noteq> None
     then sys_unit os (Fchown mounted_root (case tr_uid r of None \<Rightarrow> u32_max | Some u \<Rightarrow> u)
            (case tr_gid r of None \<Rightarrow> u32_max | Some g \<Rightarrow> g)) ''chown tmpfs root''
     else act_ok ())"

definition nmount_tmpfs :: "mount_os \<Rightarrow> fd \<Rightarrow> string \<Rightarrow> fd \<Rightarrow> string \<Rightarrow> unit act" where
  "nmount_tmpfs os root target_relative target options =
     act_bind (anchor_mount_target os target) (\<lambda>_.
     act_bind (option_value ''fstype'' ''tmpfs'' MountOptions_new) (\<lambda>mo.
     act_bind (option_value ''fspath'' ''.'' mo) (\<lambda>mo.
     act_bind (option_value ''from'' ''tmpfs'' mo) (\<lambda>mo.
     act_bind (option_flag ''nocover'' mo) (\<lambda>mo.
     act_bind (tmpfs_options (filter (\<lambda>opt. opt \<noteq> []) (split_on (CHR '','') options))
        \<lparr>tr_options = mo, tr_mode = None, tr_uid = None, tr_gid = None\<rparr>) (\<lambda>r.
     act_bind (options_mount os (tr_options r) 0) (\<lambda>_.
     act_bind (open_relative_dir os root (parse_path target_relative)) (\<lambda>mounted_root.
     tmpfs_metadata os mounted_root r))))))))"

section \<open>Unmounting\<close>

definition fsid_text :: "int \<times> int \<Rightarrow> string" where
  "fsid_text f = ''FSID:'' @ int_digits (fst f) @ '':'' @ int_digits (snd f)"

definition unmount_filesystem :: "mount_os \<Rightarrow> int \<times> int \<Rightarrow> bool \<Rightarrow> unit act" where
  "unmount_filesystem os f force =
     sys_unit os (Unmount (fsid_text f) (MNT_BYFSID OR (if force then MNT_FORCE else 0))) ''unmount by filesystem ID''"

text \<open>\<^verbatim>\<open>mounted_filesystem\<close> compares the text of the mount point.\<close>

definition mounted_filesystem :: "mount_os \<Rightarrow> fd \<Rightarrow> string \<Rightarrow> statfs act" where
  "mounted_filesystem os target expected =
     act_bind (sys_statfs os (Fstatfs target) ''fstatfs mount target'') (\<lambda>st.
     act_bind (ensure (f_mntonname st = expected) ''mount target is not an exact mountpoint'') (\<lambda>_.
     act_ok st))"

definition unmount_regular_file_target :: "mount_os \<Rightarrow> fd \<Rightarrow> string \<Rightarrow> bool \<Rightarrow> unit act" where
  "unmount_regular_file_target os target expected force =
     act_bind (mounted_filesystem os target expected) (\<lambda>st. unmount_filesystem os (f_fsid st) force)"

definition unmount_directory_target :: "mount_os \<Rightarrow> fd \<Rightarrow> string \<Rightarrow> bool \<Rightarrow> unit act" where
  "unmount_directory_target os root target_relative force =
     act_bind (validate_relative target_relative) (\<lambda>_.
     act_bind (sys_unit os (Fchdir root) ''fchdir sandbox root for unmount'') (\<lambda>_.
     act_bind (c_string target_relative) (\<lambda>p.
     sys_unit os (Unmount p (if force then MNT_FORCE else 0)) ''unmount'')))"

definition getmntinfo_mounts :: "mount_os \<Rightarrow> statfs list act" where
  "getmntinfo_mounts os =
     act_bind (sys os Getmntinfo) (\<lambda>a.
     case a of
       Mounts ms \<Rightarrow> if ms = [] then act_fail (InContext ''getmntinfo'' (answer_error a)) else act_ok ms
     | _ \<Rightarrow> act_fail (InContext ''getmntinfo'' (answer_error a)))"

definition mounted_filesystem_named :: "mount_os \<Rightarrow> string \<Rightarrow> statfs act" where
  "mounted_filesystem_named os expected =
     act_bind (getmntinfo_mounts os) (\<lambda>ms.
     act_option ''orphaned document mount is no longer present'' (find (\<lambda>st. f_mntonname st = expected) ms))"

section \<open>Regular files\<close>

definition prepare_nullfs_parent :: "mount_os \<Rightarrow> fd \<Rightarrow> string \<Rightarrow> nat \<Rightarrow> nat \<Rightarrow> (fd \<times> string) act" where
  "prepare_nullfs_parent os root target_relative u g =
     (let p = parse_path target_relative in
      act_bind (validate_relative target_relative) (\<lambda>_.
      act_bind (act_option ''mount target has no final component'' (file_name p)) (\<lambda>name.
      act_bind (c_string name) (\<lambda>name.
      act_bind
        (case path_parent p of
           Some parent \<Rightarrow> if parent \<noteq> [] then chase_and_mkdir os root parent 0x1ED u g else duplicate_dir os root
         | None \<Rightarrow> duplicate_dir os root) (\<lambda>parent.
      act_ok (parent, name))))))"

definition open_or_create_regular_file :: "mount_os \<Rightarrow> fd \<Rightarrow> string \<Rightarrow> nat \<Rightarrow> nat \<Rightarrow> fd act" where
  "open_or_create_regular_file os parent name u g t =
     act_bind (sys os (CreateFile parent name)) (\<lambda>a.
     if a = Done then
       act_bind (sys_unit os (Fchownat parent name u g) ''chown mount target'') (\<lambda>_. act_ok (Child (length t) parent name))
     else if a \<noteq> Failed EEXIST then act_fail (InContext ''create regular-file mount target'' (answer_error a))
     else
       act_bind (open_child_entry_cstr os parent name) (\<lambda>entry.
       act_bind (file_type os entry) (\<lambda>kind.
       act_bind (ensure (kind = S_IFREG) ''mount target final component is not a regular file'') (\<lambda>_.
       act_ok entry)))) t"

record DirectoryAttributes =
  da_mode :: u16
  da_uid :: nat
  da_gid :: nat

datatype RegularFileParentProtection = ReadOnly | Locked DirectoryAttributes

definition directory_attributes :: "mount_os \<Rightarrow> fd \<Rightarrow> DirectoryAttributes act" where
  "directory_attributes os d =
     act_bind (file_type os d) (\<lambda>kind.
     act_bind (ensure (kind = S_IFDIR) ''mount target parent is not a directory'') (\<lambda>_.
     act_bind (sys_stat os (Fstat d) ''fstat mount target parent'') (\<lambda>st.
     act_ok \<lparr>da_mode = st_mode st AND 0xFFF, da_uid = st_uid st, da_gid = st_gid st\<rparr>)))"

definition set_directory_mode :: "mount_os \<Rightarrow> fd \<Rightarrow> u16 \<Rightarrow> unit act" where
  "set_directory_mode os d mode = sys_unit os (Fchmod d mode) ''chmod mount target parent''"

definition restore_directory_attributes :: "mount_os \<Rightarrow> fd \<Rightarrow> DirectoryAttributes \<Rightarrow> unit act" where
  "restore_directory_attributes os parent attributes =
     act_bind (sys_unit os (Fchown parent (da_uid attributes) (da_gid attributes)) ''restore regular-file mount parent owner'') (\<lambda>_.
     set_directory_mode os parent (da_mode attributes))"

fun restore :: "mount_os \<Rightarrow> fd \<Rightarrow> RegularFileParentProtection \<Rightarrow> unit act" where
  "restore os parent ReadOnly = act_ok ()"
| "restore os parent (Locked attributes) = restore_directory_attributes os parent attributes"

definition mount_is_read_only :: "mount_os \<Rightarrow> fd \<Rightarrow> bool act" where
  "mount_is_read_only os d =
     act_bind (sys_statfs os (Fstatfs d) ''fstatfs mount target parent'') (\<lambda>st.
     act_ok (f_flags st AND 1 \<noteq> 0))"

definition lock_parent :: "mount_os \<Rightarrow> fd \<Rightarrow> DirectoryAttributes \<Rightarrow> RegularFileParentProtection act" where
  "lock_parent os parent attributes =
     act_bind (act_try (set_directory_mode os parent (da_mode attributes AND NOT 0x92))) (\<lambda>locked.
     case locked of
       Inr _ \<Rightarrow> act_ok (Locked attributes)
     | Inl lock_error \<Rightarrow>
         act_bind (act_try (restore_directory_attributes os parent attributes)) (\<lambda>restored.
         case restored of
           Inr _ \<Rightarrow> act_fail (InContext ''lock regular-file mount parent'' lock_error)
         | Inl restore_error \<Rightarrow>
             act_fail (InContext (''lock regular-file mount parent; restoration also failed: '' @ error_chain (strerror os) restore_error) lock_error)))"

definition protect_regular_file_parent :: "mount_os \<Rightarrow> fd \<Rightarrow> RegularFileParentProtection act" where
  "protect_regular_file_parent os parent =
     act_bind (directory_attributes os parent) (\<lambda>attributes.
     act_bind (sys os (Fchown parent 0 0)) (\<lambda>a.
     if a = Done then lock_parent os parent attributes
     else if a = Failed EROFS then
       act_bind (mount_is_read_only os parent) (\<lambda>read_only.
       if read_only then act_ok ReadOnly else act_fail (InContext ''chown regular-file mount parent'' (answer_error a)))
     else act_fail (InContext ''chown regular-file mount parent'' (answer_error a))))"

datatype RegularFileMountCompletion = Clean | NeedsTrackedCleanup string

definition describe_result :: "mount_os \<Rightarrow> mount_error + unit \<Rightarrow> string" where
  "describe_result os r = (case r of Inr _ \<Rightarrow> ''ok'' | Inl e \<Rightarrow> error_chain (strerror os) e)"

text \<open>
  The format strings have a doubled backslash where a line continuation is meant: the message has a backslash, the line break
  and the indentation of the source.
\<close>

definition raw_continuation :: "nat \<Rightarrow> string" where
  "raw_continuation indent = CHR 0x5C # newline # replicate indent (CHR '' '')"

definition finish_regular_file_mount ::
  "mount_os \<Rightarrow> unit act \<Rightarrow> unit act \<Rightarrow> unit act \<Rightarrow> RegularFileMountCompletion act" where
  "finish_regular_file_mount os mount_it restore_it rollback =
     act_bind (act_try mount_it) (\<lambda>mount_result.
     act_bind (act_try restore_it) (\<lambda>restored.
     case mount_result of
       Inl mount_error \<Rightarrow>
         (case restored of
            Inr _ \<Rightarrow> act_fail mount_error
          | Inl restore_error \<Rightarrow>
              act_fail (InContext (''regular-file mount failed and parent restoration also failed: ''
                @ error_chain (strerror os) restore_error) mount_error))
     | Inr _ \<Rightarrow>
         (case restored of
            Inr _ \<Rightarrow> act_ok Clean
          | Inl restore_error \<Rightarrow>
              act_bind (act_try rollback) (\<lambda>rollback_result.
              act_bind (act_try restore_it) (\<lambda>final_restore.
              case (rollback_result, final_restore) of
                (Inr _, Inr _) \<Rightarrow>
                  act_fail (InContext ''parent restoration failed after regular-file mount; mount was rolled back'' restore_error)
              | (Inl rollback_error, final_restore) \<Rightarrow>
                  act_ok (NeedsTrackedCleanup (''parent restoration failed after regular-file mount: ''
                    @ error_chain (strerror os) restore_error @ ''; '' @ raw_continuation 29 @ ''rollback failed: '' @ error_chain (strerror os) rollback_error
                    @ ''; final parent restoration result: '' @ describe_result os final_restore))
              | (Inr _, Inl final_restore) \<Rightarrow>
                  bail (''parent restoration failed after regular-file mount; mount was rolled back; ''
                    @ raw_continuation 25 @ ''final parent restoration result: '' @ error_chain (strerror os) final_restore))))))"

definition rollback_regular_file_mount :: "mount_os \<Rightarrow> fd \<Rightarrow> string \<Rightarrow> string \<Rightarrow> unit act" where
  "rollback_regular_file_mount os parent name expected =
     act_bind (act_context ''open regular-file mount for rollback'' (open_child_entry_cstr os parent name)) (\<lambda>target.
     act_context ''rollback regular-file mount'' (unmount_regular_file_target os target expected True))"

definition mount_protected_file :: "mount_os \<Rightarrow> string \<Rightarrow> fd \<Rightarrow> string \<Rightarrow> nat \<Rightarrow> nat \<Rightarrow> bool \<Rightarrow> unit act" where
  "mount_protected_file os source parent name u g read_only =
     act_bind (open_or_create_regular_file os parent name u g) (\<lambda>target.
     act_bind (file_type os target) (\<lambda>kind.
     act_bind (ensure (kind = S_IFREG) ''mount target final component is not a regular file'') (\<lambda>_.
     nmount_nullfs os source parent name read_only)))"

definition nmount_regular_file_nullfs ::
  "mount_os \<Rightarrow> string \<Rightarrow> string \<Rightarrow> fd \<Rightarrow> string \<Rightarrow> nat \<Rightarrow> nat \<Rightarrow> bool \<Rightarrow> unit act" where
  "nmount_regular_file_nullfs os source root_path root target_relative u g read_only =
     act_bind (prepare_nullfs_parent os root target_relative u g) (\<lambda>(parent, name).
     act_bind (protect_regular_file_parent os parent) (\<lambda>protection.
     act_bind
       (finish_regular_file_mount os (mount_protected_file os source parent name u g read_only)
          (restore os parent protection)
          (rollback_regular_file_mount os parent name (text_join root_path target_relative))) (\<lambda>_.
     act_ok ())))"

section \<open>Requests\<close>

definition required_arg :: "string \<Rightarrow> string list \<Rightarrow> (string \<times> string list) act" where
  "required_arg label args = (case args of [] \<Rightarrow> bail (''missing '' @ label) | a # rest \<Rightarrow> act_ok (a, rest))"

definition reject_extra_args :: "string list \<Rightarrow> unit act" where
  "reject_extra_args args = ensure (args = []) ''unexpected secure mount helper argument''"

definition parse_force :: "string \<Rightarrow> bool act" where
  "parse_force v =
     (if v = ''normal'' then act_ok False else if v = ''force'' then act_ok True else bail ''invalid secure unmount mode'')"

definition private_to :: "nat \<Rightarrow> stat \<Rightarrow> bool" where
  "private_to caller st \<longleftrightarrow> st_uid st = caller \<and> st_mode st AND 0x3F = 0"

definition validate_mount_root :: "mount_os \<Rightarrow> string \<Rightarrow> fd \<Rightarrow> nat \<Rightarrow> unit act" where
  "validate_mount_root os root root_fd caller_uid =
     act_bind (sys_canonicalize os root (''canonicalize sandbox root '' @ root)) (\<lambda>canonical_root.
     act_bind (act_option ''sandbox root has no app parent'' (path_parent canonical_root)) (\<lambda>app.
     act_bind (act_option ''sandbox root has no chroots parent'' (path_parent app)) (\<lambda>chroots.
     act_bind (act_option ''sandbox root has no runtime parent'' (path_parent chroots)) (\<lambda>runtime.
     act_bind (ensure (file_name chroots = Some ''chroots'' \<and> file_name canonical_root \<noteq> None \<and> file_name app \<noteq> None)
        ''sandbox root is not a freebsd-flatpak instance'') (\<lambda>_.
     act_bind (sys_stat os (Metadata runtime) ''inspect sandbox runtime root'') (\<lambda>runtime_metadata.
     act_bind (FileIdentity_from_fd os root_fd) (\<lambda>root_identity.
     act_bind (ensure (private_to caller_uid runtime_metadata \<and> owner root_identity = caller_uid)
        ''sandbox root is not private to caller'') (\<lambda>_.
     act_bind (sys_open os (OpenInfo root_fd ''.flatpak-info'') (\<lambda>n. Child n root_fd ''.flatpak-info'') ''open sandbox .flatpak-info'') (\<lambda>info.
     act_bind (FileIdentity_from_fd os info) (\<lambda>identity.
     act_bind (sys_stat os (Fstat info) ''inspect sandbox .flatpak-info'') (\<lambda>st.
     ensure (st_mode st AND S_IFMT = S_IFREG \<and> owner identity = caller_uid)
        ''sandbox .flatpak-info is not a caller-owned regular file'')))))))))))"

definition document_grant :: "nat \<Rightarrow> path \<Rightarrow> bool" where
  "document_grant caller_uid parts \<longleftrightarrow>
     (case parts of
        [Normal app, Normal inst, Normal run, Normal user, Normal uid_text, Normal doc, Normal grant, Normal f] \<Rightarrow>
          run = ''run'' \<and> user = ''user'' \<and> doc = ''doc'' \<and> parse_uint u32_max uid_text = Some caller_uid
      | _ \<Rightarrow> False)"

definition instance_gone :: "mount_os \<Rightarrow> fd \<Rightarrow> path \<Rightarrow> unit act" where
  "instance_gone os chroots_fd instance_path =
     act_bind (act_try (open_relative_dir os chroots_fd instance_path)) (\<lambda>found.
     case found of
       Inr _ \<Rightarrow> bail ''refusing recovery for an existing sandbox instance''
     | Inl e \<Rightarrow> if mentions_errno ENOENT e then act_ok () else act_fail (InContext ''inspect orphaned sandbox instance'' e))"

definition validate_orphaned_document_mountpoint :: "mount_os \<Rightarrow> string \<Rightarrow> fd \<Rightarrow> string \<Rightarrow> nat \<Rightarrow> unit act" where
  "validate_orphaned_document_mountpoint os chroots chroots_fd mountpoint caller_uid =
     act_bind (sys_canonicalize os chroots (''canonicalize chroots root '' @ chroots)) (\<lambda>canonical_chroots.
     act_bind (ensure (file_name canonical_chroots = Some ''chroots'') ''chroots root is not a freebsd-flatpak chroots directory'') (\<lambda>_.
     act_bind (act_option ''chroots root has no runtime parent'' (path_parent canonical_chroots)) (\<lambda>runtime.
     act_bind (sys_stat os (Metadata runtime) ''inspect sandbox runtime root'') (\<lambda>runtime_metadata.
     act_bind (FileIdentity_from_fd os chroots_fd) (\<lambda>identity.
     act_bind (ensure (private_to caller_uid runtime_metadata \<and> owner identity = caller_uid)
        ''chroots root is not private to caller'') (\<lambda>_.
     let p = parse_path mountpoint in
     act_bind (ensure (is_absolute p \<and> list_all (\<lambda>c. c = RootDir \<or> is_normal c) p)
        ''orphaned document mountpoint is not an absolute normalized path'') (\<lambda>_.
     act_bind (act_option ''orphaned document mountpoint is outside chroots root'' (path_strip_prefix p canonical_chroots)) (\<lambda>parts.
     act_bind (ensure (length parts = 8 \<and> list_all is_normal parts) ''orphaned mountpoint is not a regular-file document grant'') (\<lambda>_.
     act_bind (ensure (document_grant caller_uid parts) ''orphaned mountpoint is not a caller document grant'') (\<lambda>_.
     instance_gone os chroots_fd (take 2 parts)))))))))))"

definition recover_orphaned_document_unmount :: "mount_os \<Rightarrow> string list \<Rightarrow> nat \<Rightarrow> unit act" where
  "recover_orphaned_document_unmount os args caller_uid =
     act_bind (required_arg ''chroots root'' args) (\<lambda>(chroots, args).
     act_bind (required_arg ''chroots root device'' args) (\<lambda>(dev, args).
     act_bind (required_arg ''chroots root inode'' args) (\<lambda>(ino, args).
     act_bind (FileIdentity_parse dev ino) (\<lambda>expected_chroots.
     act_bind (required_arg ''orphaned document mountpoint'' args) (\<lambda>(mountpoint, args).
     act_bind (required_arg ''unmount mode'' args) (\<lambda>(mode, args).
     act_bind (parse_force mode) (\<lambda>force.
     act_bind (reject_extra_args args) (\<lambda>_.
     act_bind (act_context (''open chroots root '' @ chroots) (open_absolute_dir os chroots)) (\<lambda>chroots_fd.
     act_bind (verify os expected_chroots chroots_fd ''chroots root'') (\<lambda>_.
     act_bind (validate_orphaned_document_mountpoint os chroots chroots_fd mountpoint caller_uid) (\<lambda>_.
     act_bind (mounted_filesystem_named os mountpoint) (\<lambda>fs.
     act_bind (ensure (f_fstypename fs = ''nullfs'') ''orphaned document mount is not nullfs'') (\<lambda>_.
     unmount_filesystem os (f_fsid fs) force)))))))))))))"

definition prepare_target :: "string \<Rightarrow> 'a act \<Rightarrow> 'a act" where
  "prepare_target target m = act_context (''prepare mount target '' @ target) m"

definition expected_source :: "string \<Rightarrow> string \<Rightarrow> string \<Rightarrow> string \<Rightarrow> FileIdentity option act" where
  "expected_source root source dev ino =
     (if dev = ''-'' \<and> ino = ''-'' then
        (if path_starts_with (parse_path source) (path_join (parse_path root) [Normal PRIVATE_SOURCE_ROOT])
         then act_ok None else bail ''unverified nullfs source is outside private mount staging'')
      else act_bind (FileIdentity_parse dev ino) (\<lambda>i. act_ok (Some i)))"

definition parse_access :: "string \<Rightarrow> bool act" where
  "parse_access v =
     (if v = ''ro'' then act_ok True else if v = ''rw'' then act_ok False else bail ''invalid nullfs access mode'')"

definition helper_nullfs :: "mount_os \<Rightarrow> string \<Rightarrow> fd \<Rightarrow> FileIdentity \<Rightarrow> string \<Rightarrow> string list \<Rightarrow> unit act" where
  "helper_nullfs os root root_fd root_identity target args =
     act_bind (required_arg ''nullfs source'' args) (\<lambda>(source, args).
     act_bind (required_arg ''nullfs source device'' args) (\<lambda>(dev, args).
     act_bind (required_arg ''nullfs source inode'' args) (\<lambda>(ino, args).
     act_bind (expected_source root source dev ino) (\<lambda>expected.
     act_bind (required_arg ''nullfs access mode'' args) (\<lambda>(access, args).
     act_bind (parse_access access) (\<lambda>read_only.
     act_bind (reject_extra_args args) (\<lambda>_.
     act_bind (act_context (''open nullfs source '' @ source) (open_absolute_entry os source)) (\<lambda>source_fd.
     act_bind (case expected of None \<Rightarrow> act_ok () | Some i \<Rightarrow> verify os i source_fd ''nullfs source'') (\<lambda>_.
     act_bind (file_type os source_fd) (\<lambda>kind.
     act_bind (ensure (kind = S_IFDIR \<or> kind = S_IFREG) ''nullfs source is not a regular file or directory'') (\<lambda>_.
     if kind = S_IFDIR then
       act_bind (prepare_target target
         (chase_and_mkdir os root_fd (parse_path target) 0x1ED (owner root_identity) (owner_group root_identity))) (\<lambda>d.
       nmount_nullfs os source d ''.'' read_only)
     else
       prepare_target target
         (nmount_regular_file_nullfs os source root root_fd target (owner root_identity) (owner_group root_identity) read_only))))))))))))"

definition helper_tmpfs :: "mount_os \<Rightarrow> fd \<Rightarrow> FileIdentity \<Rightarrow> string \<Rightarrow> string list \<Rightarrow> unit act" where
  "helper_tmpfs os root_fd root_identity target args =
     act_bind (required_arg ''tmpfs options'' args) (\<lambda>(options, args).
     act_bind (reject_extra_args args) (\<lambda>_.
     act_bind (prepare_target target
       (chase_and_mkdir os root_fd (parse_path target) 0x1ED (owner root_identity) (owner_group root_identity))) (\<lambda>d.
     nmount_tmpfs os root_fd target d options)))"

definition special_filesystems :: "string list" where
  "special_filesystems = [''devfs'', ''fdescfs'', ''linprocfs'', ''linsysfs'']"

definition helper_special :: "mount_os \<Rightarrow> fd \<Rightarrow> FileIdentity \<Rightarrow> string \<Rightarrow> string list \<Rightarrow> unit act" where
  "helper_special os root_fd root_identity target args =
     act_bind (required_arg ''special filesystem type'' args) (\<lambda>(fs_type, args).
     act_bind (required_arg ''special filesystem source'' args) (\<lambda>(source, args).
     act_bind (reject_extra_args args) (\<lambda>_.
     act_bind (ensure (fs_type \<in> set special_filesystems \<and> source = fs_type) ''unsupported secure special mount'') (\<lambda>_.
     act_bind (prepare_target target
       (chase_and_mkdir os root_fd (parse_path target) 0x1ED (owner root_identity) (owner_group root_identity))) (\<lambda>d.
     nmount_special os d fs_type source)))))"

definition helper_unmount :: "mount_os \<Rightarrow> string \<Rightarrow> fd \<Rightarrow> string \<Rightarrow> string list \<Rightarrow> unit act" where
  "helper_unmount os root root_fd target args =
     act_bind (required_arg ''unmount mode'' args) (\<lambda>(mode, args).
     act_bind (parse_force mode) (\<lambda>force.
     act_bind (reject_extra_args args) (\<lambda>_.
     act_bind (prepare_target target (validate_relative_mount_target os root_fd target)) (\<lambda>d.
     act_bind (file_type os d) (\<lambda>kind.
     if kind = S_IFREG then unmount_regular_file_target os d (text_join root target) force
     else if kind = S_IFDIR then unmount_directory_target os root_fd target force
     else bail ''mount target was validated as a file or directory'')))))"

definition helper_operation :: "mount_os \<Rightarrow> string \<Rightarrow> string \<Rightarrow> fd \<Rightarrow> FileIdentity \<Rightarrow> string \<Rightarrow> string list \<Rightarrow> unit act" where
  "helper_operation os operation root root_fd root_identity target args =
     (if operation = ''nullfs'' then helper_nullfs os root root_fd root_identity target args
      else if operation = ''tmpfs'' then helper_tmpfs os root_fd root_identity target args
      else if operation = ''special'' then helper_special os root_fd root_identity target args
      else if operation = ''unmount'' then helper_unmount os root root_fd target args
      else bail ''unsupported secure mount operation'')"

definition run_mount_helper :: "mount_os \<Rightarrow> string list \<Rightarrow> unit act" where
  "run_mount_helper os args =
     act_bind (ensure (effective_uid os = 0) ''secure mount helper must run as root'') (\<lambda>_.
     act_bind (ensure (real_uid os \<noteq> 0) ''secure mount helper does not accept root callers'') (\<lambda>_.
     act_bind (required_arg ''mount operation'' (tl args)) (\<lambda>(operation, args).
     if operation = ''recover-orphaned-document-unmount''
     then recover_orphaned_document_unmount os args (real_uid os)
     else
       act_bind (required_arg ''sandbox root'' args) (\<lambda>(root, args).
       act_bind (required_arg ''sandbox root device'' args) (\<lambda>(dev, args).
       act_bind (required_arg ''sandbox root inode'' args) (\<lambda>(ino, args).
       act_bind (FileIdentity_parse dev ino) (\<lambda>expected_root.
       act_bind (required_arg ''sandbox-relative target'' args) (\<lambda>(target, args).
       act_bind (act_context (''open sandbox root '' @ root) (open_absolute_dir os root)) (\<lambda>root_fd.
       act_bind (verify os expected_root root_fd ''sandbox root'') (\<lambda>_.
       act_bind (FileIdentity_from_fd os root_fd) (\<lambda>root_identity.
       act_bind (validate_mount_root os root root_fd (real_uid os)) (\<lambda>_.
       helper_operation os operation root root_fd root_identity target args))))))))))))"

section \<open>Command lines\<close>

definition identity_text :: "(nat \<times> nat) option \<Rightarrow> string list" where
  "identity_text i = (case i of None \<Rightarrow> [''-'', ''-''] | Some (dev, ino) \<Rightarrow> [nat_digits dev, nat_digits ino])"

definition nullfs_command :: "string \<Rightarrow> nat \<times> nat \<Rightarrow> string \<Rightarrow> (nat \<times> nat) option \<Rightarrow> string \<Rightarrow> bool \<Rightarrow> string list option" where
  "nullfs_command root root_identity source source_identity target read_only =
     (if relative_ok target
      then Some ([MOUNT_HELPER_PATH, ''nullfs'', root] @ identity_text (Some root_identity) @ [target, source]
             @ identity_text source_identity @ [if read_only then ''ro'' else ''rw''])
      else None)"

definition tmpfs_command :: "string \<Rightarrow> nat \<times> nat \<Rightarrow> string \<Rightarrow> string \<Rightarrow> string list option" where
  "tmpfs_command root root_identity target options =
     (if relative_ok target
      then Some ([MOUNT_HELPER_PATH, ''tmpfs'', root] @ identity_text (Some root_identity) @ [target, options]) else None)"

definition special_command :: "string \<Rightarrow> nat \<times> nat \<Rightarrow> string \<Rightarrow> string \<Rightarrow> string \<Rightarrow> string list option" where
  "special_command root root_identity target fs_type source =
     (if relative_ok target
      then Some ([MOUNT_HELPER_PATH, ''special'', root] @ identity_text (Some root_identity) @ [target, fs_type, source]) else None)"

definition unmount_command :: "string \<Rightarrow> nat \<times> nat \<Rightarrow> string \<Rightarrow> bool \<Rightarrow> string list option" where
  "unmount_command root root_identity target force =
     (if relative_ok target
      then Some ([MOUNT_HELPER_PATH, ''unmount'', root] @ identity_text (Some root_identity)
             @ [target, if force then ''force'' else ''normal'']) else None)"

definition recover_orphaned_document_unmount_command :: "string \<Rightarrow> nat \<times> nat \<Rightarrow> string \<Rightarrow> bool \<Rightarrow> string list option" where
  "recover_orphaned_document_unmount_command chroots chroots_identity mountpoint force =
     (if is_absolute (parse_path mountpoint)
      then Some ([MOUNT_HELPER_PATH, ''recover-orphaned-document-unmount'', chroots] @ identity_text (Some chroots_identity)
             @ [mountpoint, if force then ''force'' else ''normal'']) else None)"


section \<open>What a step emits\<close>

text \<open>
  \<open>emits P m\<close>: whatever the kernel answers, \<open>m\<close> only adds calls that satisfy \<open>P\<close> to the trace. \<open>guarded A t m\<close>:
  every mount or unmount that \<open>m\<close> performs from the trace \<open>t\<close> satisfies \<open>A\<close> together with the trace before it.
\<close>

named_theorems emits_intros

definition emits :: "(call \<Rightarrow> bool) \<Rightarrow> 'a act \<Rightarrow> bool" where
  "emits P m \<longleftrightarrow> (\<forall>t. \<exists>ext. fst (m t) = t @ ext \<and> (\<forall>e\<in>set ext. P (fst e)))"

fun mounting :: "call \<Rightarrow> bool" where
  "mounting (Nmount _ _) = True"
| "mounting (Unmount _ _) = True"
| "mounting _ = False"

definition guarded :: "(trace \<Rightarrow> call \<Rightarrow> bool) \<Rightarrow> trace \<Rightarrow> 'a act \<Rightarrow> bool" where
  "guarded A t m \<longleftrightarrow> (\<exists>ext. fst (m t) = t @ ext
     \<and> (\<forall>i<length ext. mounting (fst (ext ! i)) \<longrightarrow> A (t @ take i ext) (fst (ext ! i))))"

lemma act_bind_apply:
  "act_bind m f t = (case snd (m t) of Inl e \<Rightarrow> (fst (m t), Inl e) | Inr x \<Rightarrow> f x (fst (m t)))"
  by (simp add: act_bind_def split: prod.splits sum.splits)

lemma act_bind_InrE:
  assumes "act_bind m f t = (t', Inr y)"
  obtains t1 x where "m t = (t1, Inr x)" "f x t1 = (t', Inr y)"
  using assms by (auto simp: act_bind_def split: prod.splits sum.splits)

lemma act_bind_InlE:
  assumes "act_bind m f t = (t', Inl e)"
  obtains "m t = (t', Inl e)" | t1 x where "m t = (t1, Inr x)" "f x t1 = (t', Inl e)"
  using assms by (auto simp: act_bind_def split: prod.splits sum.splits)

lemma act_ok_Inr [simp]: "act_ok x t = (t', Inr y) \<longleftrightarrow> t' = t \<and> y = x"
  by (auto simp: act_ok_def)

lemma act_fail_Inr [simp]: "act_fail e t \<noteq> (t', Inr y)" "bail msg t \<noteq> (t', Inr y)"
  by (simp_all add: act_fail_def bail_def)

lemma ensure_Inr [simp]: "ensure b msg t = (t', Inr y) \<longleftrightarrow> b \<and> t' = t"
  by (auto simp: ensure_def)

lemma act_option_Inr [simp]: "act_option msg x t = (t', Inr y) \<longleftrightarrow> x = Some y \<and> t' = t"
  by (auto simp: act_option_def split: option.splits)

lemma c_string_Inr [simp]: "c_string s t = (t', Inr y) \<longleftrightarrow> CHR 0x00 \<notin> set s \<and> y = s \<and> t' = t"
  by (auto simp: c_string_def)

lemma act_context_Inr [simp]: "act_context msg m t = (t', Inr y) \<longleftrightarrow> m t = (t', Inr y)"
  by (auto simp: act_context_def split: prod.splits sum.splits)

lemma act_try_apply [simp]: "act_try m t = (t', Inr r) \<longleftrightarrow> m t = (t', r)" "act_try m t \<noteq> (t', Inl e)"
  by (auto simp: act_try_def split: prod.splits)

lemma fst_wrap [simp]: "fst (act_context msg m t) = fst (m t)" "fst (act_try m t) = fst (m t)"
  by (auto simp: act_context_def act_try_def split: prod.splits sum.splits)

lemma sys_unit_Inr: "sys_unit os c msg t = (t', Inr y) \<longleftrightarrow> kernel os t c = Done \<and> t' = t @ [(c, Done)]"
  by (auto simp: sys_unit_def sys_def act_bind_def Let_def act_fail_def)

lemma sys_open_Inr: "sys_open os c new msg t = (t', Inr d) \<longleftrightarrow> kernel os t c = Done \<and> t' = t @ [(c, Done)] \<and> d = new (length t)"
  by (auto simp: sys_open_def sys_def act_bind_def Let_def act_fail_def)

lemma sys_stat_Inr: "sys_stat os c msg t = (t', Inr st) \<longleftrightarrow> kernel os t c = Stats st \<and> t' = t @ [(c, Stats st)]"
  by (auto simp: sys_stat_def sys_def act_bind_def Let_def act_fail_def split: answer.splits)

lemma sys_statfs_Inr: "sys_statfs os c msg t = (t', Inr st) \<longleftrightarrow> kernel os t c = Fs st \<and> t' = t @ [(c, Fs st)]"
  by (auto simp: sys_statfs_def sys_def act_bind_def Let_def act_fail_def split: answer.splits)

lemma sys_canonicalize_Inr:
  "sys_canonicalize os p msg t = (t', Inr q) \<longleftrightarrow>
     (\<exists>r. kernel os t (Canonicalize p) = PathIs r \<and> q = parse_path r \<and> t' = t @ [(Canonicalize p, PathIs r)])"
  by (auto simp: sys_canonicalize_def sys_def act_bind_def Let_def act_fail_def split: answer.splits)

lemmas sys_results = sys_unit_Inr sys_open_Inr sys_stat_Inr sys_statfs_Inr sys_canonicalize_Inr

lemma act_bind_Inr_iff: "act_bind m f t = (t', Inr y) \<longleftrightarrow> (\<exists>t1 x. m t = (t1, Inr x) \<and> f x t1 = (t', Inr y))"
  by (auto simp: act_bind_def split: prod.splits sum.splits)

lemma emits_ok [emits_intros]: "emits P (act_ok x)" "emits P (act_fail e)" "emits P (bail msg)"
    "emits P (ensure b msg)" "emits P (act_option msg opt)" "emits P (c_string s)"
  by (auto simp: emits_def act_ok_def act_fail_def bail_def ensure_def act_option_def c_string_def split: option.splits)

lemma emits_bind [emits_intros]:
  assumes "emits P m" "\<And>x. emits P (f x)"
  shows "emits P (act_bind m f)"
  unfolding emits_def
proof
  fix t
  obtain ext where ext: "fst (m t) = t @ ext" "\<forall>e\<in>set ext. P (fst e)" using assms(1) unfolding emits_def by blast
  show "\<exists>ext. fst (act_bind m f t) = t @ ext \<and> (\<forall>e\<in>set ext. P (fst e))"
  proof (cases "snd (m t)")
    case (Inl e)
    with ext show ?thesis by (auto simp: act_bind_apply)
  next
    case (Inr x)
    obtain ext' where "fst (f x (t @ ext)) = (t @ ext) @ ext'" "\<forall>e\<in>set ext'. P (fst e)"
      using assms(2) [of x] unfolding emits_def by blast
    with ext Inr show ?thesis by (intro exI [of _ "ext @ ext'"]) (auto simp: act_bind_apply)
  qed
qed

lemma emits_sys [emits_intros]: "P c \<Longrightarrow> emits P (sys os c)"
  by (auto simp: emits_def sys_def Let_def)

lemma emits_wrap [emits_intros]: "emits P m \<Longrightarrow> emits P (act_context msg m)" "emits P m \<Longrightarrow> emits P (act_try m)"
  by (simp_all add: emits_def)

lemma emits_if [emits_intros]: "(b \<Longrightarrow> emits P m) \<Longrightarrow> (\<not> b \<Longrightarrow> emits P n) \<Longrightarrow> emits P (if b then m else n)"
  by simp

lemma emits_sum [emits_intros]:
  "(\<And>e. r = Inl e \<Longrightarrow> emits P (f e)) \<Longrightarrow> (\<And>x. r = Inr x \<Longrightarrow> emits P (g x)) \<Longrightarrow> emits P (case r of Inl e \<Rightarrow> f e | Inr x \<Rightarrow> g x)"
  by (simp split: sum.splits)

lemma emits_option [emits_intros]:
  "(r = None \<Longrightarrow> emits P m) \<Longrightarrow> (\<And>x. r = Some x \<Longrightarrow> emits P (g x)) \<Longrightarrow> emits P (case r of None \<Rightarrow> m | Some x \<Rightarrow> g x)"
  by (simp split: option.splits)

lemma emits_prod [emits_intros]: "(\<And>x y. emits P (f x y)) \<Longrightarrow> emits P (case r of (x, y) \<Rightarrow> f x y)"
  by (simp split: prod.splits)

lemma emits_answer:
  "(\<And>x. emits P (f1 x)) \<Longrightarrow> emits P f2 \<Longrightarrow> (\<And>x. emits P (f3 x)) \<Longrightarrow> (\<And>x. emits P (f4 x)) \<Longrightarrow> (\<And>x. emits P (f5 x)) \<Longrightarrow> (\<And>x. emits P (f6 x))
   \<Longrightarrow> emits P (case a of Failed x \<Rightarrow> f1 x | Done \<Rightarrow> f2 | Stats x \<Rightarrow> f3 x | Fs x \<Rightarrow> f4 x | PathIs x \<Rightarrow> f5 x | Mounts x \<Rightarrow> f6 x)"
  by (simp split: answer.splits)

declare emits_answer [emits_intros]

lemma emits_sys_wrappers [emits_intros]:
  "P c \<Longrightarrow> emits P (sys_unit os c msg)" "P c \<Longrightarrow> emits P (sys_stat os c msg)" "P c \<Longrightarrow> emits P (sys_statfs os c msg)"
  "P (Canonicalize p) \<Longrightarrow> emits P (sys_canonicalize os p msg)"
  by (auto simp: sys_unit_def sys_stat_def sys_statfs_def sys_canonicalize_def intro!: emits_intros)

lemma emits_open [emits_intros]: "P c \<Longrightarrow> emits P (sys_open os c new msg)"
  by (auto simp: emits_def sys_open_def sys_def act_bind_def act_ok_def act_fail_def Let_def)

lemma emits_mono: "emits P m \<Longrightarrow> (\<And>c. P c \<Longrightarrow> Q c) \<Longrightarrow> emits Q m"
  unfolding emits_def by meson

lemma emits_trace:
  assumes "emits P m" "m t = (t', r)"
  obtains ext where "t' = t @ ext" "\<forall>e\<in>set ext. P (fst e)"
  using assms unfolding emits_def by (metis fst_conv)

lemma emits_guarded: "emits (\<lambda>c. \<not> mounting c) m \<Longrightarrow> guarded A t m"
  unfolding emits_def guarded_def by (meson nth_mem)

lemma guarded_bind:
  assumes "guarded A t m" and "\<And>t' x. m t = (t', Inr x) \<Longrightarrow> guarded A t' (f x)"
  shows "guarded A t (act_bind m f)"
proof (cases "snd (m t)")
  case (Inl e)
  with assms(1) show ?thesis by (simp add: guarded_def act_bind_apply)
next
  case (Inr x)
  obtain ext where ext: "fst (m t) = t @ ext" "\<forall>i<length ext. mounting (fst (ext ! i)) \<longrightarrow> A (t @ take i ext) (fst (ext ! i))"
    using assms(1) unfolding guarded_def by blast
  have "m t = (t @ ext, Inr x)" using ext(1) Inr by (metis prod.collapse)
  then obtain ext' where ext': "fst (f x (t @ ext)) = (t @ ext) @ ext'"
      "\<forall>i<length ext'. mounting (fst (ext' ! i)) \<longrightarrow> A ((t @ ext) @ take i ext') (fst (ext' ! i))"
    using assms(2) unfolding guarded_def by blast
  have "A (t @ take i (ext @ ext')) (fst ((ext @ ext') ! i))"
    if "i < length (ext @ ext')" "mounting (fst ((ext @ ext') ! i))" for i
    using that ext(2) ext'(2) by (cases "i < length ext") (auto simp: nth_append dest!: spec [of _ "i - length ext"])
  then show ?thesis using ext(1) ext'(1) Inr unfolding guarded_def
    by (intro exI [of _ "ext @ ext'"]) (simp add: act_bind_apply)
qed

lemma guarded_sys:
  assumes "mounting c \<Longrightarrow> A t c"
  shows "guarded A t (sys_unit os c msg)"
proof -
  have "\<exists>a. fst (sys_unit os c msg t) = t @ [(c, a)]"
    by (auto simp: sys_unit_def sys_def act_bind_def act_ok_def act_fail_def Let_def)
  then show ?thesis using assms unfolding guarded_def by fastforce
qed

lemma guarded_wrap [simp]: "guarded A t (act_context msg m) \<longleftrightarrow> guarded A t m" "guarded A t (act_try m) \<longleftrightarrow> guarded A t m"
  by (simp_all add: guarded_def)


text \<open>Calls that change neither a mount, nor the owner or mode of a directory, nor the working directory.\<close>

fun harmless :: "call \<Rightarrow> bool" where
  "harmless (Nmount _ _) = False"
| "harmless (Unmount _ _) = False"
| "harmless (Fchown _ _ _) = False"
| "harmless (Fchmod _ _) = False"
| "harmless (Fchdir _) = False"
| "harmless _ = True"

lemma harmless_not_mounting: "harmless c \<Longrightarrow> \<not> mounting c"
  by (cases c) simp_all

lemma emits_required_arg [emits_intros]: "emits P (required_arg label args)"
  unfolding required_arg_def by (cases args) (simp_all add: emits_intros)

lemma emits_pure [emits_intros]:
  "emits P (parse_u64 v label)" "emits P (FileIdentity_parse dev ino)" "emits P (validate_relative p)"
  "emits P (reject_extra_args args)" "emits P (parse_force v)" "emits P (parse_access v)"
  "emits P (option_value name v mo)" "emits P (option_flag name mo)" "emits P (parse_mode v)"
  "emits P (expected_source root source dev ino)"
  by (simp_all add: parse_u64_def FileIdentity_parse_def validate_relative_def reject_extra_args_def parse_force_def
      parse_access_def option_value_def option_flag_def parse_mode_def expected_source_def emits_intros)

lemma emits_tmpfs_option [emits_intros]: "emits P (tmpfs_option opt r)"
  unfolding tmpfs_option_def by (auto intro!: emits_intros split: option.splits)

lemma emits_tmpfs_options [emits_intros]: "emits P (tmpfs_options opts r)"
  by (induction opts arbitrary: r) (simp_all add: emits_intros)

lemma emits_identity [emits_intros]:
  "emits harmless (FileIdentity_from_fd os d)" "emits harmless (verify os i d label)" "emits harmless (file_type os d)"
  by (simp_all add: FileIdentity_from_fd_def verify_def file_type_def emits_intros)

lemma emits_child [emits_intros]:
  "emits harmless (open_child_dir_cstr os d name)" "emits harmless (open_child_dir os d name)"
  "emits harmless (open_child_entry_cstr os d name)" "emits harmless (open_child_entry os d name)"
  "emits harmless (duplicate_dir os d)" "emits harmless (make_child os d name mode u g)"
  by (simp_all add: open_child_dir_cstr_def open_child_dir_def open_child_entry_cstr_def open_child_entry_def
      duplicate_dir_def make_child_def emits_intros)

lemma emits_components [emits_intros]: "emits harmless (open_components os d p)"
  by (induction os d p rule: open_components.induct) (simp_all add: emits_intros)

lemma emits_names [emits_intros]: "emits harmless (open_names os d p)"
  by (induction os d p rule: open_names.induct) (simp_all add: emits_intros)

lemma emits_chase [emits_intros]: "emits harmless (chase_names os mode u g d p)"
  by (induction os mode u g d p rule: chase_names.induct) (simp_all add: emits_intros)

lemma emits_opens [emits_intros]:
  "emits harmless (open_absolute_path os p)" "emits harmless (open_absolute_dir os text)"
  "emits harmless (open_absolute_entry os text)" "emits harmless (open_relative_dir os d p)"
  "emits harmless (chase_and_mkdir os d p mode u g)" "emits harmless (validate_relative_mount_target os d text)"
  "emits harmless (prepare_nullfs_parent os d text u g)"
  by (auto simp: open_absolute_path_def open_absolute_dir_def open_absolute_entry_def open_relative_dir_def
      chase_and_mkdir_def validate_relative_mount_target_def prepare_nullfs_parent_def Let_def intro!: emits_intros)

lemma emits_create [emits_intros]: "emits harmless (open_or_create_regular_file os d name u g)"
proof -
  have "\<exists>ext. fst (open_or_create_regular_file os d name u g t) = t @ ext \<and> (\<forall>e\<in>set ext. harmless (fst e))" for t
  proof -
    have "emits harmless (\<lambda>t'. open_or_create_regular_file os d name u g t)
       \<or> emits harmless (act_bind (sys os (CreateFile d name)) (\<lambda>a.
     if a = Done then
       act_bind (sys_unit os (Fchownat d name u g) ''chown mount target'') (\<lambda>_. act_ok (Child (length t) d name))
     else if a \<noteq> Failed EEXIST then act_fail (InContext ''create regular-file mount target'' (answer_error a))
     else
       act_bind (open_child_entry_cstr os d name) (\<lambda>entry.
       act_bind (file_type os entry) (\<lambda>kind.
       act_bind (ensure (kind = S_IFREG) ''mount target final component is not a regular file'') (\<lambda>_.
       act_ok entry)))))"
      by (intro disjI2 emits_intros) simp_all
    then show ?thesis unfolding emits_def open_or_create_regular_file_def by blast
  qed
  then show ?thesis by (simp add: emits_def)
qed

lemma emits_statfs [emits_intros]:
  "emits harmless (mounted_filesystem os d expected)" "emits harmless (getmntinfo_mounts os)"
  "emits harmless (mounted_filesystem_named os expected)" "emits harmless (mount_is_read_only os d)"
  "emits harmless (directory_attributes os d)"
  by (auto simp: mounted_filesystem_def getmntinfo_mounts_def mounted_filesystem_named_def mount_is_read_only_def
      directory_attributes_def intro!: emits_intros)

lemma emits_instance_gone [emits_intros]: "emits harmless (instance_gone os d p)"
  unfolding instance_gone_def by (intro emits_intros)

lemma emits_validate [emits_intros]:
  "emits harmless (validate_mount_root os root d caller)"
  "emits harmless (validate_orphaned_document_mountpoint os chroots d mountpoint caller)"
  unfolding validate_mount_root_def validate_orphaned_document_mountpoint_def Let_def
  by (intro emits_intros; simp)+

section \<open>Descents\<close>

definition below :: "fd \<Rightarrow> string list \<Rightarrow> fd \<Rightarrow> bool" where
  "below base names d \<longleftrightarrow> (\<exists>steps. d = foldl (\<lambda>d (n, name). Child n d name) base steps \<and> names = map snd steps)"

lemma below_refl [simp]: "below d [] d"
  by (simp add: below_def)

lemma below_trans:
  assumes "below base names d" "below d names' e"
  shows "below base (names @ names') e"
proof -
  obtain s where s: "d = foldl (\<lambda>d (n, name). Child n d name) base s" "names = map snd s"
    using assms(1) unfolding below_def by blast
  obtain s' where s': "e = foldl (\<lambda>d (n, name). Child n d name) d s'" "names' = map snd s'"
    using assms(2) unfolding below_def by blast
  show ?thesis unfolding below_def by (rule exI [of _ "s @ s'"]) (simp add: s s')
qed

lemma below_one: "below d [name] (Child n d name)"
  unfolding below_def by (rule exI [of _ "[(n, name)]"]) simp

abbreviation names_of :: "path \<Rightarrow> string list" where
  "names_of \<equiv> map component_name"

lemma open_child_Inr:
  "open_child_dir os d name t = (t', Inr e) \<Longrightarrow> below d [name] e"
  "open_child_dir_cstr os d name t = (t', Inr e) \<Longrightarrow> below d [name] e"
  "open_child_entry os d name t = (t', Inr e) \<Longrightarrow> below d [name] e"
  "open_child_entry_cstr os d name t = (t', Inr e) \<Longrightarrow> below d [name] e"
  by (auto simp: open_child_dir_def open_child_dir_cstr_def open_child_entry_def open_child_entry_cstr_def
      act_bind_Inr_iff sys_results below_one)

lemma open_names_Inr:
  "open_names os d p t = (t', Inr e) \<Longrightarrow> list_all is_normal p \<and> below d (names_of p) e"
proof (induction os d p arbitrary: t rule: open_names.induct)
  case (2 os current name cs)
  then obtain t1 x where x: "open_child_dir os current name t = (t1, Inr x)" "open_names os x cs t1 = (t', Inr e)"
    by (auto simp: act_bind_Inr_iff)
  with "2.IH" have "list_all is_normal cs \<and> below x (names_of cs) e" by blast
  then show ?case using below_trans [OF open_child_Inr(1) [OF x(1)]] by auto
qed auto

lemma chase_names_Inr:
  "chase_names os mode u g d p t = (t', Inr e) \<Longrightarrow> list_all is_normal p \<and> below d (names_of p) e"
proof (induction os mode u g d p arbitrary: t rule: chase_names.induct)
  case (2 os mode u g current name cs)
  then obtain t1 t2 x where x: "open_child_dir_cstr os current name t1 = (t2, Inr x)" "chase_names os mode u g x cs t2 = (t', Inr e)"
    by (auto simp: act_bind_Inr_iff)
  with "2.IH" have "list_all is_normal cs \<and> below x (names_of cs) e" by blast
  then show ?case using below_trans [OF open_child_Inr(2) [OF x(1)]] by auto
qed auto

lemma open_components_Inr:
  "open_components os d p t = (t', Inr e) \<Longrightarrow>
     list_all (\<lambda>c. c = RootDir \<or> is_normal c) p \<and> below d (names_of (filter is_normal p)) e"
proof (induction os d p arbitrary: t rule: open_components.induct)
  case (3 os current name cs)
  then obtain t1 x where x: "open_child_dir os current name t = (t1, Inr x)" "open_components os x cs t1 = (t', Inr e)"
    by (auto simp: act_bind_Inr_iff)
  with "3.IH" have "list_all (\<lambda>c. c = RootDir \<or> is_normal c) cs \<and> below x (names_of (filter is_normal cs)) e" by blast
  then show ?case using below_trans [OF open_child_Inr(1) [OF x(1)]] by auto
qed auto

lemma open_absolute_dir_Inr:
  "open_absolute_dir os text t = (t', Inr d) \<Longrightarrow> \<exists>n. below (Slash n) (names_of (filter is_normal (parse_path text))) d"
  unfolding open_absolute_dir_def open_absolute_path_def
  by (auto simp: act_bind_Inr_iff sys_results dest!: open_components_Inr)

lemma chase_and_mkdir_Inr:
  "chase_and_mkdir os root p mode u g t = (t', Inr d) \<Longrightarrow> relative_path_ok p \<and> below root (names_of p) d"
  unfolding chase_and_mkdir_def duplicate_dir_def by (auto simp: act_bind_Inr_iff dest!: chase_names_Inr)

lemma open_relative_dir_Inr:
  "open_relative_dir os root p t = (t', Inr d) \<Longrightarrow> relative_path_ok p \<and> below root (names_of p) d"
  unfolding open_relative_dir_def duplicate_dir_def by (auto simp: act_bind_Inr_iff dest!: open_names_Inr)

lemma parent_and_name:
  assumes "list_all is_normal p" "file_name p = Some name"
  shows "p = butlast p @ [Normal name]" and "path_parent p = Some (butlast p)"
proof -
  have ne: "p \<noteq> []" using assms(2) by (auto simp: file_name_def)
  have "last p = Normal name" using assms(2) ne by (auto simp: file_name_def split: component.splits)
  then show "p = butlast p @ [Normal name]" "path_parent p = Some (butlast p)"
    using ne append_butlast_last_id [OF ne] by (simp_all add: path_parent_def)
qed

lemma prepare_nullfs_parent_Inr:
  assumes "prepare_nullfs_parent os root target u g t = (t', Inr (parent, name))"
  shows "relative_ok target \<and> Normal name \<in> set (parse_path target)
    \<and> (\<exists>names. below root names parent \<and> names_of (parse_path target) = names @ [name])"
proof -
  let ?p = "parse_path target"
  obtain t1 where ok: "relative_ok target" and name: "file_name ?p = Some name"
    and dir: "(case path_parent ?p of
           Some parent \<Rightarrow> if parent \<noteq> [] then chase_and_mkdir os root parent 0x1ED u g else duplicate_dir os root
         | None \<Rightarrow> duplicate_dir os root) t1 = (t', Inr parent)"
    using assms by (auto simp: prepare_nullfs_parent_def Let_def validate_relative_def act_bind_Inr_iff)
  have normal: "list_all is_normal ?p" using ok by (simp add: relative_ok_def)
  note split = parent_and_name [OF normal name]
  have "below root (names_of (butlast ?p)) parent"
    using dir split(2) by (auto simp: duplicate_dir_def act_bind_Inr_iff split: if_splits dest: chase_and_mkdir_Inr)
  moreover have "names_of ?p = names_of (butlast ?p) @ [name]" by (subst split(1)) simp
  moreover have "Normal name \<in> set ?p" by (subst split(1)) simp
  ultimately show ?thesis using ok by blast
qed

lemma validate_relative_mount_target_Inr:
  assumes "validate_relative_mount_target os root target t = (t', Inr d)"
  shows "relative_ok target \<and> below root (names_of (parse_path target)) d"
proof -
  let ?p = "parse_path target"
  obtain t1 t2 t3 name parent where ok: "relative_ok target" and name: "file_name ?p = Some name"
    and dir: "(case path_parent ?p of
           Some parent \<Rightarrow> if parent \<noteq> [] then open_relative_dir os root parent else duplicate_dir os root
         | None \<Rightarrow> duplicate_dir os root) t1 = (t2, Inr parent)"
    and entry: "open_child_entry os parent name t2 = (t3, Inr d)"
    using assms by (auto simp: validate_relative_mount_target_def Let_def validate_relative_def act_bind_Inr_iff)
  have normal: "list_all is_normal ?p" using ok by (simp add: relative_ok_def)
  note split = parent_and_name [OF normal name]
  have "below root (names_of (butlast ?p)) parent"
    using dir split(2) by (auto simp: duplicate_dir_def act_bind_Inr_iff split: if_splits dest: open_relative_dir_Inr)
  then have "below root (names_of (butlast ?p) @ [name]) d"
    using below_trans open_child_Inr(3) [OF entry] by blast
  moreover have "names_of ?p = names_of (butlast ?p) @ [name]" by (subst split(1)) simp
  ultimately show ?thesis using ok by simp
qed


section \<open>Mount options\<close>

definition options_ok :: "MountOptions \<Rightarrow> bool" where
  "options_ok mo \<longleftrightarrow> (\<forall>(n, v)\<in>set (pairs mo). n < length (strings mo) \<and> (case v of None \<Rightarrow> True | Some i \<Rightarrow> i < length (strings mo)))"

lemma options_ok_new [simp]: "options_ok MountOptions_new" "option_iov MountOptions_new = []"
  by (simp_all add: options_ok_def MountOptions_new_def option_iov_def)

lemma iov_grown:
  assumes "options_ok mo"
  shows "concat (map (\<lambda>(n, v). [Some ((strings mo @ added) ! n), map_option (\<lambda>i. (strings mo @ added) ! i) v]) (pairs mo)) = option_iov mo"
proof -
  have "[Some ((strings mo @ added) ! n), map_option (\<lambda>i. (strings mo @ added) ! i) v] = [Some (strings mo ! n), map_option (\<lambda>i. strings mo ! i) v]"
    if "(n, v) \<in> set (pairs mo)" for n v
    using assms that by (cases v) (auto simp: options_ok_def nth_append)
  then show ?thesis unfolding option_iov_def by (intro arg_cong [where f = concat] map_cong) auto
qed

lemma option_value_cstr_iov:
  assumes "options_ok mo"
  shows "options_ok (option_value_cstr name v mo)"
    and "option_iov (option_value_cstr name v mo) = option_iov mo @ [Some name, Some v]"
proof -
  show "options_ok (option_value_cstr name v mo)"
    using assms by (auto simp: options_ok_def option_value_cstr_def split: option.splits)
  show "option_iov (option_value_cstr name v mo) = option_iov mo @ [Some name, Some v]"
    using iov_grown [OF assms, of "[name, v]"] by (simp add: option_iov_def option_value_cstr_def nth_append)
qed

lemma option_value_Inr:
  "option_value name v mo t = (t', Inr mo') \<Longrightarrow> t' = t \<and> mo' = option_value_cstr name v mo"
  by (auto simp: option_value_def act_bind_Inr_iff)

lemma option_flag_iov:
  assumes "options_ok mo" "option_flag name mo t = (t', Inr mo')"
  shows "t' = t" and "options_ok mo'" and "option_iov mo' = option_iov mo @ [Some name, None]"
proof -
  have mo': "mo' = \<lparr>strings = strings mo @ [name], pairs = pairs mo @ [(length (strings mo), None)]\<rparr>" and "t' = t"
    using assms(2) by (auto simp: option_flag_def act_bind_Inr_iff)
  then show "t' = t" by simp
  show "options_ok mo'" using assms(1) by (auto simp: options_ok_def mo' split: option.splits)
  show "option_iov mo' = option_iov mo @ [Some name, None]"
    using iov_grown [OF assms(1), of "[name]"] by (simp add: option_iov_def mo' nth_append)
qed

fun tmpfs_extra :: "string option list \<Rightarrow> bool" where
  "tmpfs_extra [] = True"
| "tmpfs_extra (Some name # Some v # rest) = (name \<in> {''mode'', ''uid'', ''gid''} \<and> tmpfs_extra rest)"
| "tmpfs_extra _ = False"

lemma tmpfs_extra_append: "tmpfs_extra xs \<Longrightarrow> tmpfs_extra ys \<Longrightarrow> tmpfs_extra (xs @ ys)"
  by (induction xs rule: tmpfs_extra.induct) auto

lemma tmpfs_option_iov:
  assumes "tmpfs_option opt r t = (t', Inr r')" "options_ok (tr_options r)"
  shows "t' = t \<and> options_ok (tr_options r') \<and> (\<exists>xs. option_iov (tr_options r') = option_iov (tr_options r) @ xs \<and> tmpfs_extra xs)"
proof -
  obtain name v where nv: "split_once (CHR ''='') opt = Some (name, v)"
    using assms(1) by (cases "split_once (CHR ''='') opt") (auto simp: tmpfs_option_def)
  obtain t1 r1 mo where r1: "(if name = ''mode'' then act_bind (parse_mode v) (\<lambda>mode. act_ok (r\<lparr>tr_mode := Some mode\<rparr>))
             else if name = ''uid'' \<or> name = ''gid'' then
               act_bind (act_option ''invalid tmpfs owner'' (parse_uint u32_max v)) (\<lambda>i.
               act_ok (if name = ''uid'' then r\<lparr>tr_uid := Some i\<rparr> else r\<lparr>tr_gid := Some i\<rparr>))
             else bail ''unsupported tmpfs option'') t = (t1, Inr r1)"
    and mo: "option_value name v (tr_options r1) t1 = (t', Inr mo)" and r': "r' = r1\<lparr>tr_options := mo\<rparr>"
    using assms(1) nv unfolding tmpfs_option_def by (auto simp: act_bind_Inr_iff)
  have name: "name \<in> {''mode'', ''uid'', ''gid''}" using r1 by (auto split: if_splits)
  have "tr_options r1 = tr_options r" "t1 = t"
    using r1 by (auto simp: parse_mode_def act_bind_Inr_iff split: if_splits)
  then show ?thesis
    using option_value_Inr [OF mo] option_value_cstr_iov [OF assms(2), of name v] name r' by auto
qed

lemma tmpfs_options_iov:
  assumes "tmpfs_options opts r t = (t', Inr r')" "options_ok (tr_options r)"
  shows "t' = t \<and> (\<exists>xs. option_iov (tr_options r') = option_iov (tr_options r) @ xs \<and> tmpfs_extra xs)"
  using assms
proof (induction opts arbitrary: r t)
  case (Cons opt opts)
  then obtain t1 r1 where r1: "tmpfs_option opt r t = (t1, Inr r1)" "tmpfs_options opts r1 t1 = (t', Inr r')"
    by (auto simp: act_bind_Inr_iff)
  then obtain xs where xs: "option_iov (tr_options r1) = option_iov (tr_options r) @ xs" "tmpfs_extra xs" "t1 = t" "options_ok (tr_options r1)"
    using tmpfs_option_iov Cons.prems(2) by blast
  then show ?case using Cons.IH [OF r1(2)] by (auto intro: tmpfs_extra_append)
qed auto

section \<open>Evidence\<close>

definition cwd :: "trace \<Rightarrow> fd option" where
  "cwd t = foldl (\<lambda>current (c, a). case c of Fchdir d \<Rightarrow> if a = Done then Some d else current | _ \<Rightarrow> current) None t"

definition last_chown :: "fd \<Rightarrow> trace \<Rightarrow> (nat \<times> nat) option" where
  "last_chown d t =
     foldl (\<lambda>current (c, a). case c of Fchown e u g \<Rightarrow> if e = d \<and> a = Done then Some (u, g) else current | _ \<Rightarrow> current) None t"

definition last_chmod :: "fd \<Rightarrow> trace \<Rightarrow> u16 option" where
  "last_chmod d t =
     foldl (\<lambda>current (c, a). case c of Fchmod e mode \<Rightarrow> if e = d \<and> a = Done then Some mode else current | _ \<Rightarrow> current) None t"

lemma evidence_snoc [simp]:
  "cwd (t @ [(Fchdir d, Done)]) = Some d"
  "last_chown d (t @ [(Fchown d u g, Done)]) = Some (u, g)"
  "last_chmod d (t @ [(Fchmod d mode, Done)]) = Some mode"
  "last_chown d (t @ [(Fchmod e mode, a)]) = last_chown d t"
  "last_chown d (t @ [(Fchdir e, a)]) = last_chown d t"
  "last_chmod d (t @ [(Fchdir e, a)]) = last_chmod d t"
  by (simp_all add: cwd_def last_chown_def last_chmod_def)

lemma evidence_harmless:
  assumes "\<forall>e\<in>set ext. harmless (fst e)"
  shows "last_chown d (t @ ext) = last_chown d t" and "last_chmod d (t @ ext) = last_chmod d t"
proof -
  have "last_chown d (t @ [e]) = last_chown d t \<and> last_chmod d (t @ [e]) = last_chmod d t" if "harmless (fst e)" for e t
    using that by (cases "fst e"; cases e) (simp_all add: last_chown_def last_chmod_def)
  then have "last_chown d (t @ ext) = last_chown d t \<and> last_chmod d (t @ ext) = last_chmod d t"
    using assms by (induction ext rule: rev_induct) (simp_all flip: append_assoc)
  then show "last_chown d (t @ ext) = last_chown d t" "last_chmod d (t @ ext) = last_chmod d t" by simp_all
qed

definition private_location :: "nat \<Rightarrow> trace \<Rightarrow> string \<Rightarrow> fd \<Rightarrow> bool" where
  "private_location caller t root root_fd \<longleftrightarrow>
     (\<exists>canonical runtime app inst md st.
        (Canonicalize root, PathIs canonical) \<in> set t
        \<and> parse_path canonical = runtime @ [Normal ''chroots'', Normal app, Normal inst]
        \<and> (Metadata runtime, Stats md) \<in> set t \<and> private_to caller md
        \<and> (Fstat root_fd, Stats st) \<in> set t \<and> st_uid st = caller)"

definition info_checked :: "nat \<Rightarrow> trace \<Rightarrow> fd \<Rightarrow> bool" where
  "info_checked caller t info \<longleftrightarrow>
     (\<exists>st st'. (Fstat info, Stats st) \<in> set t \<and> st_uid st = caller
        \<and> (Fstat info, Stats st') \<in> set t \<and> st_mode st' AND S_IFMT = S_IFREG)"

definition private_instance :: "nat \<Rightarrow> trace \<Rightarrow> string \<Rightarrow> fd \<Rightarrow> bool" where
  "private_instance caller t root root_fd \<longleftrightarrow>
     private_location caller t root root_fd \<and> (\<exists>n. info_checked caller t (Child n root_fd ''.flatpak-info''))"

definition identity_checked :: "trace \<Rightarrow> fd \<Rightarrow> string \<Rightarrow> string \<Rightarrow> bool" where
  "identity_checked t d dev ino \<longleftrightarrow>
     (\<exists>st. (Fstat d, Stats st) \<in> set t \<and> parse_uint u64_max dev = Some (st_dev st) \<and> parse_uint u64_max ino = Some (st_ino st))"

text \<open>
  The arguments of the helper: \<open>args ! 1\<close> the operation, \<open>args ! 2\<close> the root, \<open>args ! 3\<close> and \<open>args ! 4\<close> its identity,
  \<open>args ! 5\<close> the target, and for nullfs \<open>args ! 6\<close> the source with its identity.
\<close>

definition trusted_root :: "mount_os \<Rightarrow> string list \<Rightarrow> trace \<Rightarrow> fd \<Rightarrow> bool" where
  "trusted_root os args t root_fd \<longleftrightarrow>
     effective_uid os = 0 \<and> real_uid os \<noteq> 0
     \<and> (\<exists>n. below (Slash n) (names_of (filter is_normal (parse_path (args ! 2)))) root_fd)
     \<and> identity_checked t root_fd (args ! 3) (args ! 4)
     \<and> private_instance (real_uid os) t (args ! 2) root_fd"

definition source_checked :: "string list \<Rightarrow> trace \<Rightarrow> bool" where
  "source_checked args t \<longleftrightarrow>
     (\<exists>n d st. below (Slash n) (names_of (filter is_normal (parse_path (args ! 6)))) d
        \<and> (Fstat d, Stats st) \<in> set t \<and> st_mode st AND S_IFMT \<in> {S_IFDIR, S_IFREG}
        \<and> (identity_checked t d (args ! 7) (args ! 8)
           \<or> args ! 7 = ''-'' \<and> args ! 8 = ''-''
             \<and> path_starts_with (parse_path (args ! 6)) (path_join (parse_path (args ! 2)) [Normal PRIVATE_SOURCE_ROOT])))"

definition parent_locked :: "fd \<Rightarrow> trace \<Rightarrow> bool" where
  "parent_locked d t \<longleftrightarrow>
     last_chown d t = Some (0, 0) \<and> (\<exists>mode. last_chmod d t = Some mode \<and> mode AND 0x92 = 0)
     \<or> (Fchown d 0 0, Failed EROFS) \<in> set t \<and> (\<exists>fs. (Fstatfs d, Fs fs) \<in> set t \<and> f_flags fs AND 1 \<noteq> 0)"

definition mount_kind_ok :: "string list \<Rightarrow> trace \<Rightarrow> string \<Rightarrow> string option list \<Rightarrow> bool" where
  "mount_kind_ok args t fs rest \<longleftrightarrow>
     fs = ''nullfs'' \<and> args ! 1 = ''nullfs'' \<and> rest = [Some ''target'', Some (args ! 6), Some ''nocover'', None] \<and> source_checked args t
     \<or> fs = ''tmpfs'' \<and> args ! 1 = ''tmpfs'' \<and> (\<exists>xs. rest = [Some ''from'', Some ''tmpfs'', Some ''nocover'', None] @ xs \<and> tmpfs_extra xs)
     \<or> fs \<in> set special_filesystems \<and> args ! 1 = ''special'' \<and> rest = [Some ''from'', Some fs]"

definition mount_authorised :: "mount_os \<Rightarrow> string list \<Rightarrow> trace \<Rightarrow> string option list \<Rightarrow> bool" where
  "mount_authorised os args t iov \<longleftrightarrow>
     (\<exists>root_fd d names fs fspath rest.
        trusted_root os args t root_fd \<and> cwd t = Some d
        \<and> iov = [Some ''fstype'', Some fs, Some ''fspath'', Some fspath] @ rest \<and> mount_kind_ok args t fs rest
        \<and> relative_ok (args ! 5) \<and> below root_fd names d
        \<and> (fspath = ''.'' \<and> names_of (parse_path (args ! 5)) = names
           \<or> names_of (parse_path (args ! 5)) = names @ [fspath] \<and> parent_locked d t))"

definition orphan_authorised :: "mount_os \<Rightarrow> string list \<Rightarrow> trace \<Rightarrow> string \<Rightarrow> bool" where
  "orphan_authorised os args t s \<longleftrightarrow>
     effective_uid os = 0 \<and> real_uid os \<noteq> 0 \<and> args ! 1 = ''recover-orphaned-document-unmount''
     \<and> (\<exists>d canonical runtime md st parts ms fs.
          identity_checked t d (args ! 3) (args ! 4)
          \<and> (Canonicalize (args ! 2), PathIs canonical) \<in> set t
          \<and> parse_path canonical = runtime @ [Normal ''chroots'']
          \<and> (Metadata runtime, Stats md) \<in> set t \<and> private_to (real_uid os) md
          \<and> (Fstat d, Stats st) \<in> set t \<and> st_uid st = real_uid os
          \<and> parse_path (args ! 5) = parse_path canonical @ parts \<and> document_grant (real_uid os) parts
          \<and> (Getmntinfo, Mounts ms) \<in> set t \<and> fs \<in> set ms \<and> f_mntonname fs = args ! 5 \<and> f_fstypename fs = ''nullfs''
          \<and> s = fsid_text (f_fsid fs))"

definition unmount_authorised :: "mount_os \<Rightarrow> string list \<Rightarrow> trace \<Rightarrow> string \<Rightarrow> u32 \<Rightarrow> bool" where
  "unmount_authorised os args t s flags \<longleftrightarrow>
     (\<exists>root_fd d. trusted_root os args t root_fd \<and> relative_ok (args ! 5) \<and> below root_fd (names_of (parse_path (args ! 5))) d
        \<and> (cwd t = Some root_fd \<and> s = args ! 5 \<and> flags \<in> {0, MNT_FORCE}
             \<and> (\<exists>st. (Fstat d, Stats st) \<in> set t \<and> st_mode st AND S_IFMT = S_IFDIR)
           \<or> flags \<in> {MNT_BYFSID, MNT_BYFSID OR MNT_FORCE}
             \<and> (\<exists>fs. (Fstatfs d, Fs fs) \<in> set t \<and> f_mntonname fs = text_join (args ! 2) (args ! 5) \<and> s = fsid_text (f_fsid fs))))
     \<or> flags \<in> {MNT_BYFSID, MNT_BYFSID OR MNT_FORCE} \<and> orphan_authorised os args t s"

definition authorised :: "mount_os \<Rightarrow> string list \<Rightarrow> trace \<Rightarrow> call \<Rightarrow> bool" where
  "authorised os args t c =
     (case c of
        Nmount iov flags \<Rightarrow> mount_authorised os args t iov
      | Unmount s flags \<Rightarrow> unmount_authorised os args t s flags
      | _ \<Rightarrow> True)"

lemma identity_checked_mono: "identity_checked t d dev ino \<Longrightarrow> set t \<subseteq> set t' \<Longrightarrow> identity_checked t' d dev ino"
  unfolding identity_checked_def by blast

lemma private_location_mono:
  assumes "private_location caller t root d" "set t \<subseteq> set t'"
  shows "private_location caller t' root d"
proof -
  obtain canonical runtime app inst md st where
    "(Canonicalize root, PathIs canonical) \<in> set t" "(Metadata runtime, Stats md) \<in> set t" "(Fstat d, Stats st) \<in> set t"
    and facts: "parse_path canonical = runtime @ [Normal ''chroots'', Normal app, Normal inst]" "private_to caller md" "st_uid st = caller"
    using assms(1) unfolding private_location_def by (elim exE conjE)
  then have "(Canonicalize root, PathIs canonical) \<in> set t'" "(Metadata runtime, Stats md) \<in> set t'" "(Fstat d, Stats st) \<in> set t'"
    using assms(2) by auto
  then show ?thesis using facts unfolding private_location_def by (intro exI conjI)
qed

lemma info_checked_mono: "info_checked caller t info \<Longrightarrow> set t \<subseteq> set t' \<Longrightarrow> info_checked caller t' info"
  unfolding info_checked_def by blast

lemma private_instance_mono: "private_instance caller t root d \<Longrightarrow> set t \<subseteq> set t' \<Longrightarrow> private_instance caller t' root d"
  unfolding private_instance_def using private_location_mono info_checked_mono by blast

lemma trusted_root_mono: "trusted_root os args t d \<Longrightarrow> set t \<subseteq> set t' \<Longrightarrow> trusted_root os args t' d"
  unfolding trusted_root_def using identity_checked_mono private_instance_mono by blast

lemma source_checked_mono: "source_checked args t \<Longrightarrow> set t \<subseteq> set t' \<Longrightarrow> source_checked args t'"
  unfolding source_checked_def using identity_checked_mono by blast

lemma emits_subset:
  assumes "emits P m" "m t = (t', r)"
  shows "set t \<subseteq> set t'"
  by (rule emits_trace [OF assms]) simp


section \<open>Every mount is authorised\<close>

lemma parent_locked_chdir: "parent_locked d t \<Longrightarrow> parent_locked d (t @ [(Fchdir e, a)])"
  by (auto simp: parent_locked_def)

lemma guarded_emits [intro]: "emits harmless m \<Longrightarrow> guarded A t m"
  using emits_guarded emits_mono harmless_not_mounting by metis

lemma guarded_anchor: "guarded A t (anchor_mount_target os d)"
  unfolding anchor_mount_target_def by (rule guarded_sys) simp

text \<open>
  Where a mount lands: \<open>lands os args t root_fd d name\<close> says that the mount of \<open>name\<close> in the directory \<open>d\<close> is the
  requested target below the trusted root.
\<close>

definition lands :: "mount_os \<Rightarrow> string list \<Rightarrow> trace \<Rightarrow> fd \<Rightarrow> string \<Rightarrow> bool" where
  "lands os args t d fspath \<longleftrightarrow>
     (\<exists>root_fd names. trusted_root os args t root_fd \<and> relative_ok (args ! 5) \<and> below root_fd names d
        \<and> (fspath = ''.'' \<and> names_of (parse_path (args ! 5)) = names
           \<or> names_of (parse_path (args ! 5)) = names @ [fspath] \<and> parent_locked d t))"

lemma landsI_dir:
  "trusted_root os args t root_fd \<Longrightarrow> relative_ok (args ! 5) \<Longrightarrow> below root_fd (names_of (parse_path (args ! 5))) d \<Longrightarrow> lands os args t d ''.''"
  unfolding lands_def by blast

lemma lands_chdir: "lands os args t d name \<Longrightarrow> lands os args (t @ [(Fchdir e, a)]) d name"
proof -
  have "trusted_root os args (t @ [(Fchdir e, a)]) r" if "trusted_root os args t r" for r
    using that by (rule trusted_root_mono) auto
  then show "lands os args t d name \<Longrightarrow> lands os args (t @ [(Fchdir e, a)]) d name"
    unfolding lands_def using parent_locked_chdir by blast
qed

lemma mount_authorisedI:
  assumes "lands os args t d name" "mount_kind_ok args (t @ [(Fchdir d, Done)]) fs rest"
    and "iov = [Some ''fstype'', Some fs, Some ''fspath'', Some name] @ rest"
  shows "authorised os args (t @ [(Fchdir d, Done)]) (Nmount iov flags)"
proof -
  obtain root_fd names where "trusted_root os args (t @ [(Fchdir d, Done)]) root_fd" "relative_ok (args ! 5)" "below root_fd names d"
     "name = ''.'' \<and> names_of (parse_path (args ! 5)) = names
           \<or> names_of (parse_path (args ! 5)) = names @ [name] \<and> parent_locked d (t @ [(Fchdir d, Done)])"
    using lands_chdir [OF assms(1)] unfolding lands_def by blast
  then show ?thesis using assms(2,3) evidence_snoc(1)
    unfolding authorised_def mount_authorised_def call.case by blast
qed

lemma option_values_iov:
  assumes "option_value ''fstype'' fs MountOptions_new t = (t', Inr mo)"
  shows "t' = t" and "options_ok mo" and "option_iov mo = [Some ''fstype'', Some fs]"
  using option_value_Inr [OF assms] option_value_cstr_iov [OF options_ok_new(1)] by simp_all

lemma guarded_nmount_nullfs:
  assumes "lands os args t d name" "source_checked args t" "args ! 1 = ''nullfs''" "args ! 6 = source"
  shows "guarded (authorised os args) t (nmount_nullfs os source d name read_only)"
  unfolding nmount_nullfs_def Let_def
proof (intro guarded_bind guarded_anchor)
  fix t1 x t2 s t3 mo t4 mo'
  assume t1: "anchor_mount_target os d t = (t1, Inr x)"
    and s: "c_string source t1 = (t2, Inr s)"
    and mo: "option_value ''fstype'' ''nullfs'' MountOptions_new t2 = (t3, Inr mo)"
    and mo': "option_flag ''nocover'' (option_value_cstr ''target'' s (option_value_cstr ''fspath'' name mo)) t3 = (t4, Inr mo')"
  have trace: "t1 = t @ [(Fchdir d, Done)]" "t2 = t1" "s = source"
    using t1 s by (simp_all add: anchor_mount_target_def sys_results)
  note ok = option_value_cstr_iov [OF option_values_iov(2) [OF mo], of "''fspath''" name]
  note ok' = option_value_cstr_iov [OF ok(1), of "''target''" s]
  note flag = option_flag_iov [OF ok'(1) mo']
  have t4: "t4 = t @ [(Fchdir d, Done)]" using flag(1) option_values_iov(1) [OF mo] trace by simp
  have iov: "option_iov mo' = [Some ''fstype'', Some ''nullfs'', Some ''fspath'', Some name] @ [Some ''target'', Some source, Some ''nocover'', None]"
    using flag(3) ok'(2) ok(2) option_values_iov(3) [OF mo] trace(3) by simp
  have kind: "mount_kind_ok args (t @ [(Fchdir d, Done)]) ''nullfs'' [Some ''target'', Some source, Some ''nocover'', None]"
    using assms(2-4) source_checked_mono [of args t "t @ [(Fchdir d, Done)]"] by (auto simp: mount_kind_ok_def)
  show "guarded (authorised os args) t4 (options_mount os mo' (if read_only then MNT_RDONLY else 0))"
    unfolding options_mount_def t4 by (rule guarded_sys) (rule mount_authorisedI [OF assms(1) kind iov])
qed (auto intro!: emits_intros)

lemma guarded_nmount_special:
  assumes "lands os args t d ''.''" "args ! 1 = ''special''" "fs \<in> set special_filesystems"
  shows "guarded (authorised os args) t (nmount_special os d fs fs)"
  unfolding nmount_special_def
proof (intro guarded_bind guarded_anchor)
  fix t1 x t2 mo1 t3 mo2 t4 mo3
  assume t1: "anchor_mount_target os d t = (t1, Inr x)"
    and mo1: "option_value ''fstype'' fs MountOptions_new t1 = (t2, Inr mo1)"
    and mo2: "option_value ''fspath'' ''.'' mo1 t2 = (t3, Inr mo2)"
    and mo3: "option_value ''from'' fs mo2 t3 = (t4, Inr mo3)"
  note ok = option_value_cstr_iov [OF option_values_iov(2) [OF mo1], of "''fspath''" "''.''"]
  note ok' = option_value_cstr_iov [OF ok(1), of "''from''" fs]
  have t4: "t4 = t @ [(Fchdir d, Done)]"
    using t1 option_values_iov(1) [OF mo1] option_value_Inr [OF mo2] option_value_Inr [OF mo3]
    by (simp add: anchor_mount_target_def sys_results)
  have iov: "option_iov mo3 = [Some ''fstype'', Some fs, Some ''fspath'', Some ''.''] @ [Some ''from'', Some fs]"
    using ok'(2) ok(2) option_values_iov(3) [OF mo1] option_value_Inr [OF mo2] option_value_Inr [OF mo3] by simp
  have kind: "mount_kind_ok args (t @ [(Fchdir d, Done)]) fs [Some ''from'', Some fs]"
    using assms(2,3) by (simp add: mount_kind_ok_def)
  show "guarded (authorised os args) t4 (options_mount os mo3 0)"
    unfolding options_mount_def t4 by (rule guarded_sys) (rule mount_authorisedI [OF assms(1) kind iov])
qed (auto intro!: emits_intros)

lemma guarded_tmpfs_metadata: "guarded A t (tmpfs_metadata os d r)"
  by (rule emits_guarded) (auto simp: tmpfs_metadata_def intro!: emits_intros)

lemma guarded_nmount_tmpfs:
  assumes "lands os args t d ''.''" "args ! 1 = ''tmpfs''"
  shows "guarded (authorised os args) t (nmount_tmpfs os root_fd target d options)"
  unfolding nmount_tmpfs_def
proof (intro guarded_bind guarded_anchor guarded_tmpfs_metadata)
  fix t1 x t2 mo1 t3 mo2 t4 mo3 t5 mo4 t6 r
  assume t1: "anchor_mount_target os d t = (t1, Inr x)"
    and mo1: "option_value ''fstype'' ''tmpfs'' MountOptions_new t1 = (t2, Inr mo1)"
    and mo2: "option_value ''fspath'' ''.'' mo1 t2 = (t3, Inr mo2)"
    and mo3: "option_value ''from'' ''tmpfs'' mo2 t3 = (t4, Inr mo3)"
    and mo4: "option_flag ''nocover'' mo3 t4 = (t5, Inr mo4)"
    and r: "tmpfs_options (filter (\<lambda>opt. opt \<noteq> []) (split_on (CHR '','') options))
        \<lparr>tr_options = mo4, tr_mode = None, tr_uid = None, tr_gid = None\<rparr> t5 = (t6, Inr r)"
  note ok2 = option_value_cstr_iov [OF option_values_iov(2) [OF mo1], of "''fspath''" "''.''"]
  note ok3 = option_value_cstr_iov [OF ok2(1), of "''from''" "''tmpfs''"]
  have mo3_eq: "mo3 = option_value_cstr ''from'' ''tmpfs'' (option_value_cstr ''fspath'' ''.'' mo1)"
    using option_value_Inr [OF mo2] option_value_Inr [OF mo3] by simp
  note ok4 = option_flag_iov [OF ok3(1) mo4 [unfolded mo3_eq]]
  obtain xs where xs: "t6 = t5" "option_iov (tr_options r) = option_iov mo4 @ xs" "tmpfs_extra xs"
    using tmpfs_options_iov [OF r] ok4(2) by auto
  have t6: "t6 = t @ [(Fchdir d, Done)]"
    using t1 option_values_iov(1) [OF mo1] option_value_Inr [OF mo2] option_value_Inr [OF mo3] ok4(1) xs(1)
    by (simp add: anchor_mount_target_def sys_results)
  have iov: "option_iov (tr_options r) = [Some ''fstype'', Some ''tmpfs'', Some ''fspath'', Some ''.'']
      @ ([Some ''from'', Some ''tmpfs'', Some ''nocover'', None] @ xs)"
    using xs(2) ok4(3) ok3(2) ok2(2) option_values_iov(3) [OF mo1] by simp
  have kind: "mount_kind_ok args (t @ [(Fchdir d, Done)]) ''tmpfs'' ([Some ''from'', Some ''tmpfs'', Some ''nocover'', None] @ xs)"
    using assms(2) xs(3) unfolding mount_kind_ok_def by blast
  show "guarded (authorised os args) t6 (options_mount os (tr_options r) 0)"
    unfolding options_mount_def t6 by (rule guarded_sys) (rule mount_authorisedI [OF assms(1) kind iov])
qed (auto intro!: emits_intros)


lemma guarded_subset: "guarded A t m \<Longrightarrow> m t = (t', r) \<Longrightarrow> set t \<subseteq> set t'"
  by (auto simp: guarded_def)

lemma required_arg_Inr [simp]: "required_arg label args t = (t', Inr (a, rest)) \<longleftrightarrow> args = a # rest \<and> t' = t"
  by (auto simp: required_arg_def split: list.splits)

lemma FileIdentity_from_fd_Inr:
  "FileIdentity_from_fd os d t = (t', Inr i) \<Longrightarrow>
     \<exists>st. t' = t @ [(Fstat d, Stats st)] \<and> device i = st_dev st \<and> inode i = st_ino st \<and> owner i = st_uid st"
  by (auto simp: FileIdentity_from_fd_def act_bind_Inr_iff sys_results)

lemma FileIdentity_parse_Inr:
  "FileIdentity_parse dev ino t = (t', Inr i) \<Longrightarrow>
     t' = t \<and> parse_uint u64_max dev = Some (device i) \<and> parse_uint u64_max ino = Some (inode i)"
  by (auto simp: FileIdentity_parse_def parse_u64_def act_bind_Inr_iff)

lemma verify_Inr:
  assumes "verify os i d label t = (t', Inr u)" "FileIdentity_parse dev ino s = (s', Inr i)"
  shows "identity_checked t' d dev ino"
proof -
  obtain actual where "FileIdentity_from_fd os d t = (t', Inr actual)" "device i = device actual" "inode i = inode actual"
    using assms(1) by (auto simp: verify_def act_bind_Inr_iff)
  then show ?thesis
    using FileIdentity_from_fd_Inr FileIdentity_parse_Inr [OF assms(2)] by (fastforce simp: identity_checked_def)
qed

lemma file_type_Inr: "file_type os d t = (t', Inr kind) \<Longrightarrow> \<exists>st. t' = t @ [(Fstat d, Stats st)] \<and> kind = st_mode st AND S_IFMT"
  by (auto simp: file_type_def act_bind_Inr_iff sys_results)

lemma open_absolute_entry_Inr:
  assumes "open_absolute_entry os text t = (t', Inr d)"
  shows "\<exists>n. below (Slash n) (names_of (filter is_normal (parse_path text))) d"
proof -
  let ?p = "parse_path text"
  obtain parent name t0 t1 t2 e where parent: "path_parent ?p = Some parent" and name: "file_name ?p = Some name"
    and e: "open_absolute_path os parent t0 = (t1, Inr e)" and d: "open_child_entry os e name t1 = (t2, Inr d)"
    using assms by (auto simp: open_absolute_entry_def Let_def act_bind_Inr_iff)
  obtain n where "below (Slash n) (names_of (filter is_normal parent)) e"
    using e open_components_Inr by (fastforce simp: open_absolute_path_def act_bind_Inr_iff sys_results)
  then have b: "below (Slash n) (names_of (filter is_normal parent) @ [name]) d"
    using below_trans open_child_Inr(3) [OF d] by blast
  have "?p \<noteq> []" using name by (auto simp: file_name_def)
  moreover have "last ?p = Normal name" using name by (auto simp: file_name_def split: component.splits if_splits)
  ultimately have "?p = parent @ [Normal name]"
    using parent append_butlast_last_id [of ?p] by (auto simp: path_parent_def split: if_splits)
  then have "names_of (filter is_normal ?p) = names_of (filter is_normal parent) @ [name]" by simp
  with b show ?thesis by auto
qed

lemma path_parent_file_name: "path_parent p = Some q \<Longrightarrow> file_name p = Some name \<Longrightarrow> p = q @ [Normal name]"
proof -
  assume "path_parent p = Some q" "file_name p = Some name"
  then have "p \<noteq> []" "q = butlast p" "last p = Normal name"
    by (auto simp: path_parent_def file_name_def split: if_splits component.splits)
  then show "p = q @ [Normal name]" using append_butlast_last_id [of p] by simp
qed

lemma validate_mount_root_Inr:
  assumes "validate_mount_root os root root_fd caller t = (t', Inr u)"
  shows "private_instance caller t' root root_fd"
proof -
  obtain canonical app chroots runtime md i info i2 st t1 t2 t3 t4 t5 t6 where
    c: "sys_canonicalize os root (''canonicalize sandbox root '' @ root) t = (t1, Inr canonical)"
    and p: "path_parent canonical = Some app" "path_parent app = Some chroots" "path_parent chroots = Some runtime"
    and f: "file_name chroots = Some ''chroots''" "file_name canonical \<noteq> None" "file_name app \<noteq> None"
    and md: "sys_stat os (Metadata runtime) ''inspect sandbox runtime root'' t1 = (t2, Inr md)"
    and i: "FileIdentity_from_fd os root_fd t2 = (t3, Inr i)"
    and priv: "private_to caller md" "owner i = caller"
    and info: "sys_open os (OpenInfo root_fd ''.flatpak-info'') (\<lambda>n. Child n root_fd ''.flatpak-info'') ''open sandbox .flatpak-info'' t3 = (t4, Inr info)"
    and i2: "FileIdentity_from_fd os info t4 = (t5, Inr i2)"
    and st: "sys_stat os (Fstat info) ''inspect sandbox .flatpak-info'' t5 = (t', Inr st)"
    and reg: "st_mode st AND S_IFMT = S_IFREG" "owner i2 = caller"
    using assms unfolding validate_mount_root_def act_bind_Inr_iff act_option_Inr ensure_Inr by metis
  obtain a b where "canonical = runtime @ [Normal ''chroots'', Normal a, Normal b]"
    using path_parent_file_name [OF p(3) f(1)] path_parent_file_name [OF p(2)] path_parent_file_name [OF p(1)] f(2,3) by auto
  moreover obtain spelling where "canonical = parse_path spelling" "t1 = t @ [(Canonicalize root, PathIs spelling)]"
    using c by (auto simp: sys_results)
  moreover obtain rst where "t3 = t2 @ [(Fstat root_fd, Stats rst)]" "st_uid rst = caller"
    using FileIdentity_from_fd_Inr [OF i] priv(2) by auto
  moreover obtain ist n where "t5 = t4 @ [(Fstat info, Stats ist)]" "st_uid ist = caller" "info = Child n root_fd ''.flatpak-info''"
    using FileIdentity_from_fd_Inr [OF i2] reg(2) info by (auto simp: sys_results)
  ultimately have "private_location caller t' root root_fd" "info_checked caller t' (Child n root_fd ''.flatpak-info'')"
    using md info st reg(1) priv(1) by (auto simp: private_location_def info_checked_def sys_results)
  then show ?thesis by (auto simp: private_instance_def)
qed

lemma and_not_and: "(x AND NOT m) AND m = (0 :: u16)"
  by (rule bit_eqI) (simp add: bit_simps)

lemma act_bind_try: "act_bind (act_try m) f t = (t', Inr y) \<longleftrightarrow> (\<exists>t1 r. m t = (t1, r) \<and> f r t1 = (t', Inr y))"
  by (simp add: act_bind_Inr_iff)

lemma lock_parent_Inr:
  assumes "lock_parent os parent attributes t = (t', Inr protection)"
  shows "set_directory_mode os parent (da_mode attributes AND NOT 0x92) t = (t', Inr ()) \<and> protection = Locked attributes"
proof -
  obtain t1 locked where locked: "set_directory_mode os parent (da_mode attributes AND NOT 0x92) t = (t1, locked)"
    and cont: "(case locked of
       Inr _ \<Rightarrow> act_ok (Locked attributes)
     | Inl lock_error \<Rightarrow>
         act_bind (act_try (restore_directory_attributes os parent attributes)) (\<lambda>restored.
         case restored of
           Inr _ \<Rightarrow> act_fail (InContext ''lock regular-file mount parent'' lock_error)
         | Inl restore_error \<Rightarrow>
             act_fail (InContext (''lock regular-file mount parent; restoration also failed: '' @ error_chain (strerror os) restore_error) lock_error)))
      t1 = (t', Inr protection)"
    using assms unfolding lock_parent_def act_bind_try by blast
  show ?thesis
  proof (cases locked)
    case (Inl e)
    then obtain t2 and r :: "mount_error + unit" where "(case r of
           Inr _ \<Rightarrow> act_fail (InContext ''lock regular-file mount parent'' e)
         | Inl restore_error \<Rightarrow>
             act_fail (InContext (''lock regular-file mount parent; restoration also failed: '' @ error_chain (strerror os) restore_error) e))
         t2 = (t', Inr protection)"
      using cont [unfolded Inl sum.case act_bind_try] by blast
    then have False by (cases r) simp_all
    then show ?thesis ..
  next
    case (Inr u)
    then show ?thesis using cont locked by simp
  qed
qed

lemma protect_regular_file_parent_Inr:
  assumes "protect_regular_file_parent os parent t = (t', Inr protection)"
  shows "parent_locked parent t'"
proof -
  obtain attributes t1 t2 a where a: "sys os (Fchown parent 0 0) t1 = (t2, Inr a)"
    and rest: "(if a = Done then lock_parent os parent attributes
     else if a = Failed EROFS then
       act_bind (mount_is_read_only os parent) (\<lambda>read_only.
       if read_only then act_ok ReadOnly else act_fail (InContext ''chown regular-file mount parent'' (answer_error a)))
     else act_fail (InContext ''chown regular-file mount parent'' (answer_error a))) t2 = (t', Inr protection)"
    using assms by (auto simp: protect_regular_file_parent_def act_bind_Inr_iff)
  have t2: "t2 = t1 @ [(Fchown parent 0 0, a)]" using a by (auto simp: sys_def Let_def)
  show ?thesis
  proof (cases "a = Done")
    case True
    then have "set_directory_mode os parent (da_mode attributes AND NOT 0x92) t2 = (t', Inr ())"
      using rest lock_parent_Inr by simp
    then have t': "t' = t2 @ [(Fchmod parent (da_mode attributes AND NOT 0x92), Done)]"
      by (simp add: set_directory_mode_def sys_results)
    have "last_chown parent t' = Some (0, 0)" unfolding t' evidence_snoc t2 True ..
    moreover have "last_chmod parent t' = Some (da_mode attributes AND NOT 0x92)" unfolding t' evidence_snoc ..
    ultimately show ?thesis using and_not_and [of "da_mode attributes"] unfolding parent_locked_def by blast
  next
    case False
    then have "a = Failed EROFS" and "\<exists>st. t' = t2 @ [(Fstatfs parent, Fs st)] \<and> f_flags st AND 1 \<noteq> 0"
      using rest by (auto simp: act_bind_Inr_iff mount_is_read_only_def sys_results split: if_splits)
    then show ?thesis using t2 by (auto simp: parent_locked_def)
  qed
qed

lemma parent_locked_harmless:
  assumes "parent_locked d t" "emits harmless m" "m t = (t', r)"
  shows "parent_locked d t'"
proof -
  obtain ext where t': "t' = t @ ext" and ext: "\<forall>e\<in>set ext. harmless (fst e)" by (rule emits_trace [OF assms(2,3)])
  show ?thesis
    using assms(1) unfolding parent_locked_def t' evidence_harmless [OF ext] set_append by blast
qed

abbreviation quiet :: "'a act \<Rightarrow> bool" where
  "quiet m \<equiv> emits (\<lambda>c. \<not> mounting c) m"

lemma quiet_harmless: "emits harmless m \<Longrightarrow> quiet m"
  by (rule emits_mono [of harmless]) (simp_all add: harmless_not_mounting)

lemma quiet_restore: "quiet (restore os parent protection)"
  by (cases protection) (simp_all add: restore_directory_attributes_def set_directory_mode_def emits_intros)

lemma quiet_protect: "quiet (protect_regular_file_parent os parent)"
  unfolding protect_regular_file_parent_def lock_parent_def set_directory_mode_def restore_directory_attributes_def
  by (intro emits_intros quiet_harmless; simp)


lemma guarded_try:
  assumes "guarded A t m" and "\<And>t' r. m t = (t', r) \<Longrightarrow> guarded A t' (f r)"
  shows "guarded A t (act_bind (act_try m) f)"
  using assms by (intro guarded_bind) simp_all

lemma guarded_pure [simp]: "guarded A t (act_ok x)" "guarded A t (act_fail e)" "guarded A t (bail msg)"
  by (simp_all add: guarded_def act_ok_def act_fail_def bail_def)

definition target_entry :: "mount_os \<Rightarrow> string list \<Rightarrow> trace \<Rightarrow> fd \<Rightarrow> bool" where
  "target_entry os args t d \<longleftrightarrow>
     (\<exists>root_fd. trusted_root os args t root_fd \<and> relative_ok (args ! 5) \<and> below root_fd (names_of (parse_path (args ! 5))) d)"

lemma guarded_unmount_filesystem:
  assumes "target_entry os args t d" "(Fstatfs d, Fs fs) \<in> set t" "f_mntonname fs = text_join (args ! 2) (args ! 5)"
  shows "guarded (authorised os args) t (unmount_filesystem os (f_fsid fs) force)"
  unfolding unmount_filesystem_def
proof (rule guarded_sys)
  have "unmount_authorised os args t (fsid_text (f_fsid fs)) flags" if "flags \<in> {MNT_BYFSID, MNT_BYFSID OR MNT_FORCE}" for flags
    using assms that unfolding target_entry_def unmount_authorised_def by blast
  then show "authorised os args t (Unmount (fsid_text (f_fsid fs)) (MNT_BYFSID OR (if force then MNT_FORCE else 0)))"
    unfolding authorised_def call.case by simp
qed

lemma target_entry_mono: "target_entry os args t d \<Longrightarrow> set t \<subseteq> set t' \<Longrightarrow> target_entry os args t' d"
  unfolding target_entry_def using trusted_root_mono by blast

lemma guarded_unmount_regular_file_target:
  assumes "target_entry os args t d"
  shows "guarded (authorised os args) t (unmount_regular_file_target os d (text_join (args ! 2) (args ! 5)) force)"
  unfolding unmount_regular_file_target_def
proof (rule guarded_bind)
  fix t' fs
  assume m: "mounted_filesystem os d (text_join (args ! 2) (args ! 5)) t = (t', Inr fs)"
  then have "t' = t @ [(Fstatfs d, Fs fs)]" "f_mntonname fs = text_join (args ! 2) (args ! 5)"
    by (auto simp: mounted_filesystem_def act_bind_Inr_iff sys_results)
  then show "guarded (authorised os args) t' (unmount_filesystem os (f_fsid fs) force)"
    using target_entry_mono [OF assms, of t'] by (intro guarded_unmount_filesystem [where d = d]) auto
qed (auto intro!: emits_intros)

lemma guarded_rollback:
  assumes "\<And>n. target_entry os args t (Child n parent name)"
  shows "guarded (authorised os args) t (rollback_regular_file_mount os parent name (text_join (args ! 2) (args ! 5)))"
  unfolding rollback_regular_file_mount_def
proof (rule guarded_bind)
  fix t' d
  assume "act_context ''open regular-file mount for rollback'' (open_child_entry_cstr os parent name) t = (t', Inr d)"
  then have "\<exists>n. d = Child n parent name" and "set t \<subseteq> set t'"
    by (auto simp: open_child_entry_cstr_def sys_results)
  then have "target_entry os args t' d" using assms target_entry_mono by blast
  then show "guarded (authorised os args) t' (act_context ''rollback regular-file mount'' (unmount_regular_file_target os d (text_join (args ! 2) (args ! 5)) True))"
    using guarded_unmount_regular_file_target by simp
qed (auto intro!: emits_intros)

lemma guarded_mount_protected_file:
  assumes "lands os args t parent name" "parent_locked parent t" "source_checked args t" "args ! 1 = ''nullfs''" "args ! 6 = source"
    and "name \<noteq> ''.''"
  shows "guarded (authorised os args) t (mount_protected_file os source parent name u g read_only)"
proof -
  have "guarded (authorised os args) t2 (nmount_nullfs os source parent name read_only)"
    if "open_or_create_regular_file os parent name u g t = (t1, Inr d)" "file_type os d t1 = (t2, Inr kind)" for t1 d t2 kind
  proof (rule guarded_nmount_nullfs)
    note e1 = emits_create [of os parent name u g] and e2 = emits_identity(3) [of os d]
    have sub: "set t \<subseteq> set t2" using emits_subset [OF e1 that(1)] emits_subset [OF e2 that(2)] by blast
    have "parent_locked parent t2"
      using parent_locked_harmless [OF parent_locked_harmless [OF assms(2) e1 that(1)] e2 that(2)] .
    then show "lands os args t2 parent name"
      using assms(1,6) trusted_root_mono [OF _ sub] unfolding lands_def by blast
    show "source_checked args t2" by (rule source_checked_mono [OF assms(3) sub])
  qed (fact assms)+
  then show ?thesis
    unfolding mount_protected_file_def
    by (intro guarded_bind) (auto intro!: emits_intros)
qed

lemma guarded_finish:
  assumes "guarded A t m" "\<And>t. guarded A t restore_it"
    and "\<And>t'. set t \<subseteq> set t' \<Longrightarrow> guarded A t' rollback"
  shows "guarded A t (finish_regular_file_mount os m restore_it rollback)"
  unfolding finish_regular_file_mount_def
proof (intro guarded_try)
  show "guarded A t m" by fact
  show "guarded A t1 restore_it" for t1 by (rule assms(2))
  fix t1 r1 t2 r2
  assume m: "m t = (t1, r1)" and restored: "restore_it t1 = (t2, r2)"
  have sub: "set t \<subseteq> set t2"
    using guarded_subset [OF assms(1) m] guarded_subset [OF assms(2) restored] by blast
  have "guarded A t2 (act_bind (act_try rollback) (\<lambda>rollback_result. act_bind (act_try restore_it) (f rollback_result)))"
    if "\<And>x y t. guarded A t (f x y)" for f :: "mount_error + unit \<Rightarrow> mount_error + unit \<Rightarrow> RegularFileMountCompletion act"
    using assms(2) assms(3) [OF sub] that by (intro guarded_try)
  then show "guarded A t2 (case r1 of
       Inl mount_error \<Rightarrow>
         (case r2 of
            Inl restore_error \<Rightarrow>
              act_fail (InContext (''regular-file mount failed and parent restoration also failed: ''
                @ error_chain (strerror os) restore_error) mount_error)
          | Inr _ \<Rightarrow> act_fail mount_error)
     | Inr _ \<Rightarrow>
         (case r2 of
            Inl restore_error \<Rightarrow>
              act_bind (act_try rollback) (\<lambda>rollback_result.
              act_bind (act_try restore_it) (\<lambda>final_restore.
              case (rollback_result, final_restore) of
                (Inl rollback_error, final_restore) \<Rightarrow>
                  act_ok (NeedsTrackedCleanup (''parent restoration failed after regular-file mount: ''
                    @ error_chain (strerror os) restore_error @ ''; '' @ raw_continuation 29 @ ''rollback failed: '' @ error_chain (strerror os) rollback_error
                    @ ''; final parent restoration result: '' @ describe_result os final_restore))
              | (Inr _, Inl final_restore) \<Rightarrow>
                  bail (''parent restoration failed after regular-file mount; mount was rolled back; ''
                    @ raw_continuation 25 @ ''final parent restoration result: '' @ error_chain (strerror os) final_restore)
              | (Inr _, Inr _) \<Rightarrow>
                  act_fail (InContext ''parent restoration failed after regular-file mount; mount was rolled back'' restore_error)))
          | Inr _ \<Rightarrow> act_ok Clean))"
    by (auto split: sum.splits)
qed

lemma parsed_name_not_dot: "Normal name \<in> set (parse_path p) \<Longrightarrow> name \<noteq> ''.''"
  using parse_path_components [of "Normal name" p] by (auto simp: clean_name_def)

lemma guarded_nmount_regular_file:
  assumes "trusted_root os args t root_fd" "source_checked args t" "args ! 1 = ''nullfs''" "args ! 6 = source"
  shows "guarded (authorised os args) t (nmount_regular_file_nullfs os source (args ! 2) root_fd (args ! 5) u g read_only)"
  unfolding nmount_regular_file_nullfs_def
proof (rule guarded_bind)
  fix t1 x
  assume prep: "prepare_nullfs_parent os root_fd (args ! 5) u g t = (t1, Inr x)"
  obtain parent name where x: "x = (parent, name)" by (cases x)
  obtain names where rel: "relative_ok (args ! 5)" "Normal name \<in> set (parse_path (args ! 5))" "below root_fd names parent"
    "names_of (parse_path (args ! 5)) = names @ [name]"
    using prepare_nullfs_parent_Inr [OF prep [unfolded x]] by blast
  have sub1: "set t \<subseteq> set t1" by (rule emits_subset [OF emits_opens(7) prep])
  have "guarded (authorised os args) t2
      (finish_regular_file_mount os (mount_protected_file os source parent name u g read_only) (restore os parent protection)
        (rollback_regular_file_mount os parent name (text_join (args ! 2) (args ! 5))))"
    if protect: "protect_regular_file_parent os parent t1 = (t2, Inr protection)" for t2 protection
  proof (rule guarded_finish)
    have sub: "set t \<subseteq> set t2" using sub1 emits_subset [OF quiet_protect protect] by blast
    have locked: "parent_locked parent t2" by (rule protect_regular_file_parent_Inr [OF protect])
    have "lands os args t2 parent name"
      unfolding lands_def using trusted_root_mono [OF assms(1) sub] rel locked by blast
    then show "guarded (authorised os args) t2 (mount_protected_file os source parent name u g read_only)"
      using locked source_checked_mono [OF assms(2) sub] assms(3,4) parsed_name_not_dot [OF rel(2)]
      by (rule guarded_mount_protected_file)
    show "guarded (authorised os args) s (restore os parent protection)" for s
      by (rule emits_guarded [OF quiet_restore])
    show "guarded (authorised os args) t' (rollback_regular_file_mount os parent name (text_join (args ! 2) (args ! 5)))"
      if "set t2 \<subseteq> set t'" for t'
    proof (rule guarded_rollback)
      fix n
      have "trusted_root os args t' root_fd" using trusted_root_mono [OF assms(1)] sub that by blast
      moreover have "below root_fd (names_of (parse_path (args ! 5))) (Child n parent name)"
        using below_trans [OF rel(3) below_one] rel(4) by simp
      ultimately show "target_entry os args t' (Child n parent name)" using rel(1) unfolding target_entry_def by blast
    qed
  qed
  then have "guarded (authorised os args) t1 (act_bind (protect_regular_file_parent os parent) (\<lambda>protection.
     act_bind (finish_regular_file_mount os (mount_protected_file os source parent name u g read_only) (restore os parent protection)
        (rollback_regular_file_mount os parent name (text_join (args ! 2) (args ! 5)))) (\<lambda>_. act_ok ())))"
    by (intro guarded_bind) (auto intro!: emits_guarded quiet_protect)
  then show "guarded (authorised os args) t1 (case x of (parent, name) \<Rightarrow>
     act_bind (protect_regular_file_parent os parent) (\<lambda>protection.
     act_bind (finish_regular_file_mount os (mount_protected_file os source parent name u g read_only) (restore os parent protection)
        (rollback_regular_file_mount os parent name (text_join (args ! 2) (args ! 5)))) (\<lambda>_. act_ok ())))"
    by (simp add: x)
qed (auto intro!: emits_intros)


lemma guarded_required:
  assumes "\<And>a rest. args = a # rest \<Longrightarrow> guarded A t (f a rest)"
  shows "guarded A t (act_bind (required_arg label args) (case_prod f))"
proof (rule guarded_bind)
  show "guarded A t (required_arg label args)" by (auto intro!: emits_intros)
  show "guarded A t' (case_prod f x)" if "required_arg label args t = (t', Inr x)" for t' x
    using that assms by (cases x) auto
qed

lemma guarded_ensure: "(b \<Longrightarrow> guarded A t (f ())) \<Longrightarrow> guarded A t (act_bind (ensure b msg) f)"
  by (rule guarded_bind) (auto intro!: emits_intros)

lemma guarded_reject: "(args = [] \<Longrightarrow> guarded A t (f ())) \<Longrightarrow> guarded A t (act_bind (reject_extra_args args) f)"
  unfolding reject_extra_args_def by (rule guarded_ensure)

lemma guarded_unchanged:
  assumes "\<And>P. emits P m" and "\<And>x. m t = (t, Inr x) \<Longrightarrow> guarded A t (f x)"
  shows "guarded A t (act_bind m f)"
proof (rule guarded_bind)
  show "guarded A t m" using assms(1) by auto
  show "guarded A t' (f x)" if m: "m t = (t', Inr x)" for t' x
  proof -
    obtain ext where "t' = t @ ext" "\<forall>e\<in>set ext. False" by (rule emits_trace [OF assms(1) m])
    then have "t' = t" by (cases ext) auto
    then show ?thesis using assms(2) m by simp
  qed
qed

lemma guarded_harmless:
  assumes "emits harmless m" and "\<And>t' x. m t = (t', Inr x) \<Longrightarrow> set t \<subseteq> set t' \<Longrightarrow> guarded A t' (f x)"
  shows "guarded A t (act_bind m f)"
  using assms emits_subset [OF assms(1)] by (intro guarded_bind) auto

lemma nth_drop_Cons: "drop n xs = y # ys \<Longrightarrow> xs ! n = y \<and> drop (Suc n) xs = ys"
  by (metis Cons_nth_drop_Suc drop_eq_Nil2 linorder_not_le list.distinct(1) list.inject)

lemma relative_ok_path: "relative_path_ok (parse_path p) \<longleftrightarrow> relative_ok p"
proof -
  have "parse_path p = [] \<longleftrightarrow> p = []" if "list_all is_normal (parse_path p)"
  proof
    assume empty: "parse_path p = []"
    show "p = []"
    proof (rule ccontr)
      assume "p \<noteq> []"
      let ?segs = "split_on slash p"
      have "\<forall>s\<in>set ?segs. s = [] \<or> s = ''.''" "hd ?segs \<noteq> ''.''" "\<not> starts_with p ''/''"
        using empty by (auto simp: parse_path_def Let_def segment_components_def filter_empty_conv split: if_splits)
      moreover obtain w ws where ws: "?segs = w # ws" by (rule split_on_obtain)
      ultimately have "w = []" by simp
      then have "p = [] \<or> starts_with p ''/''"
        using ws join_split_on [of slash p] by (cases ws) (auto simp: join_with_Cons starts_with_iff)
      with \<open>p \<noteq> []\<close> \<open>\<not> starts_with p ''/''\<close> show False by simp
    qed
  qed (simp add: parse_path_def Let_def segment_components_def starts_with_def)
  then show ?thesis by (auto simp: relative_path_ok_def relative_ok_def)
qed

lemma guarded_nullfs_mount:
  assumes "trusted_root os args t root_fd" "source_checked args t" "args ! 1 = ''nullfs''" "args ! 6 = source" "args ! 2 = root" "args ! 5 = target"
  shows "guarded (authorised os args) t
    (if kind = S_IFDIR then
       act_bind (prepare_target target (chase_and_mkdir os root_fd (parse_path target) 0x1ED u g)) (\<lambda>d. nmount_nullfs os source d ''.'' read_only)
     else prepare_target target (nmount_regular_file_nullfs os source root root_fd target u g read_only))"
proof (cases "kind = S_IFDIR")
  case True
  have "guarded (authorised os args) t (act_bind (prepare_target target (chase_and_mkdir os root_fd (parse_path target) 0x1ED u g)) (\<lambda>d. nmount_nullfs os source d ''.'' read_only))"
  proof (rule guarded_harmless)
    fix t' d
    assume "prepare_target target (chase_and_mkdir os root_fd (parse_path target) 0x1ED u g) t = (t', Inr d)" and sub: "set t \<subseteq> set t'"
    then have "relative_path_ok (parse_path target) \<and> below root_fd (names_of (parse_path target)) d"
      unfolding prepare_target_def using chase_and_mkdir_Inr by auto
    moreover from this have "relative_ok target" using relative_ok_path by simp
    ultimately have "lands os args t' d ''.''"
      using trusted_root_mono [OF assms(1) sub] assms(6) by (auto intro: landsI_dir)
    then show "guarded (authorised os args) t' (nmount_nullfs os source d ''.'' read_only)"
      using source_checked_mono [OF assms(2) sub] assms(3,4) by (rule guarded_nmount_nullfs)
  qed (auto simp: prepare_target_def intro!: emits_intros)
  with True show ?thesis by simp
next
  case False
  then show ?thesis
    using guarded_nmount_regular_file [OF assms(1-4), of u g read_only] assms(5,6) by (simp add: prepare_target_def)
qed

lemma expected_source_Inr:
  assumes "expected_source root source dev ino t = (t', Inr i)"
  shows "i = None \<and> dev = ''-'' \<and> ino = ''-'' \<and> path_starts_with (parse_path source) (path_join (parse_path root) [Normal PRIVATE_SOURCE_ROOT])
     \<or> (\<exists>j. i = Some j \<and> FileIdentity_parse dev ino t = (t', Inr j))"
  using assms by (auto simp: expected_source_def act_bind_Inr_iff split: if_splits)

lemma guarded_helper_nullfs:
  assumes "trusted_root os args t root_fd" "args ! 1 = ''nullfs''" "args ! 2 = root" "args ! 5 = target" "drop 6 args = rest"
  shows "guarded (authorised os args) t (helper_nullfs os root root_fd i target rest)"
  unfolding helper_nullfs_def
proof (intro guarded_required)
  fix source r1 dev r2 ino r3
  assume "rest = source # r1" "r1 = dev # r2" "r2 = ino # r3"
  with assms(5) have "drop 6 args = source # dev # ino # r3" by simp
  from nth_drop_Cons [OF this] have a6: "args ! 6 = source" and "drop 7 args = dev # ino # r3" by simp_all
  from nth_drop_Cons [OF this(2)] have a7: "args ! 7 = dev" and "drop 8 args = ino # r3" by simp_all
  from nth_drop_Cons [OF this(2)] have a8: "args ! 8 = ino" by simp
  show "guarded (authorised os args) t (act_bind (expected_source root source dev ino) (\<lambda>expected.
     act_bind (required_arg ''nullfs access mode'' r3) (\<lambda>(access, args').
     act_bind (parse_access access) (\<lambda>read_only.
     act_bind (reject_extra_args args') (\<lambda>_.
     act_bind (act_context (''open nullfs source '' @ source) (open_absolute_entry os source)) (\<lambda>source_fd.
     act_bind (case expected of None \<Rightarrow> act_ok () | Some i \<Rightarrow> verify os i source_fd ''nullfs source'') (\<lambda>_.
     act_bind (file_type os source_fd) (\<lambda>kind.
     act_bind (ensure (kind = S_IFDIR \<or> kind = S_IFREG) ''nullfs source is not a regular file or directory'') (\<lambda>_.
     if kind = S_IFDIR then
       act_bind (prepare_target target
         (chase_and_mkdir os root_fd (parse_path target) 0x1ED (owner i) (owner_group i))) (\<lambda>d.
       nmount_nullfs os source d ''.'' read_only)
     else
       prepare_target target
         (nmount_regular_file_nullfs os source root root_fd target (owner i) (owner_group i) read_only))))))))))"
  proof (rule guarded_unchanged, simp add: emits_intros, intro guarded_required, rule guarded_unchanged, simp add: emits_intros,
      intro guarded_reject guarded_ensure guarded_harmless)
    fix expected access r4 read_only t1 source_fd t2 x t3 kind
    assume ex: "expected_source root source dev ino t = (t, Inr expected)"
      and o: "act_context (''open nullfs source '' @ source) (open_absolute_entry os source) t = (t1, Inr source_fd)"
      and v: "(case expected of None \<Rightarrow> act_ok () | Some i \<Rightarrow> verify os i source_fd ''nullfs source'') t1 = (t2, Inr x)"
      and k: "file_type os source_fd t2 = (t3, Inr kind)" and kind: "kind = S_IFDIR \<or> kind = S_IFREG"
      and sub: "set t \<subseteq> set t1" "set t1 \<subseteq> set t2" "set t2 \<subseteq> set t3"
    obtain n where n: "below (Slash n) (names_of (filter is_normal (parse_path source))) source_fd"
      using open_absolute_entry_Inr o unfolding act_context_Inr by blast
    obtain st where "t3 = t2 @ [(Fstat source_fd, Stats st)]" "kind = st_mode st AND S_IFMT"
      using file_type_Inr [OF k] by blast
    then have st: "(Fstat source_fd, Stats st) \<in> set t3" "st_mode st AND S_IFMT \<in> {S_IFDIR, S_IFREG}"
      using kind by simp_all
    have "identity_checked t2 source_fd dev ino \<or> dev = ''-'' \<and> ino = ''-''
        \<and> path_starts_with (parse_path source) (path_join (parse_path root) [Normal PRIVATE_SOURCE_ROOT])"
      using expected_source_Inr [OF ex] v verify_Inr by auto
    then have "source_checked args t3"
      using n st identity_checked_mono [OF _ sub(3)] a6 a7 a8 assms(3) unfolding source_checked_def by blast
    moreover have "trusted_root os args t3 root_fd" using trusted_root_mono [OF assms(1)] sub by blast
    ultimately show "guarded (authorised os args) t3
       (if kind = S_IFDIR then
         act_bind (prepare_target target
           (chase_and_mkdir os root_fd (parse_path target) 0x1ED (owner i) (owner_group i))) (\<lambda>d.
         nmount_nullfs os source d ''.'' read_only)
       else
         prepare_target target
           (nmount_regular_file_nullfs os source root root_fd target (owner i) (owner_group i) read_only))"
      using assms(2-4) a6 by (intro guarded_nullfs_mount)
  qed (auto intro!: emits_intros split: option.splits)
qed


lemma guarded_directory_target:
  assumes "trusted_root os args t root_fd" "args ! 5 = target"
    and "\<And>t' d. lands os args t' d ''.'' \<Longrightarrow> guarded (authorised os args) t' (f d)"
  shows "guarded (authorised os args) t
    (act_bind (prepare_target target (chase_and_mkdir os root_fd (parse_path target) mode u g)) f)"
proof (rule guarded_harmless)
  fix t' d
  assume "prepare_target target (chase_and_mkdir os root_fd (parse_path target) mode u g) t = (t', Inr d)" and sub: "set t \<subseteq> set t'"
  then have "chase_and_mkdir os root_fd (parse_path target) mode u g t = (t', Inr d)" by (simp add: prepare_target_def)
  from chase_and_mkdir_Inr [OF this] have "relative_ok target \<and> below root_fd (names_of (parse_path target)) d"
    by (simp add: relative_ok_path)
  then have "lands os args t' d ''.''"
    using trusted_root_mono [OF assms(1) sub] assms(2) by (auto intro: landsI_dir)
  then show "guarded (authorised os args) t' (f d)" by (rule assms(3))
qed (auto simp: prepare_target_def intro!: emits_intros)

lemma guarded_helper_tmpfs:
  assumes "trusted_root os args t root_fd" "args ! 1 = ''tmpfs''" "args ! 5 = target"
  shows "guarded (authorised os args) t (helper_tmpfs os root_fd i target rest)"
  unfolding helper_tmpfs_def
  by (intro guarded_required guarded_reject guarded_directory_target [OF assms(1,3)] guarded_nmount_tmpfs assms(2))

lemma guarded_helper_special:
  assumes "trusted_root os args t root_fd" "args ! 1 = ''special''" "args ! 5 = target"
  shows "guarded (authorised os args) t (helper_special os root_fd i target rest)"
  unfolding helper_special_def
  by (intro guarded_required guarded_reject guarded_ensure guarded_directory_target [OF assms(1,3)])
    (auto intro: guarded_nmount_special assms(2))

lemma guarded_unmount_directory:
  assumes "trusted_root os args t root_fd" "relative_ok target" "args ! 5 = target"
    and "below root_fd (names_of (parse_path target)) d" "(Fstat d, Stats st) \<in> set t" "st_mode st AND S_IFMT = S_IFDIR"
  shows "guarded (authorised os args) t (unmount_directory_target os root_fd target force)"
  unfolding unmount_directory_target_def validate_relative_def
proof (intro guarded_ensure guarded_bind)
  fix t1 x t2 p
  assume t1: "sys_unit os (Fchdir root_fd) ''fchdir sandbox root for unmount'' t = (t1, Inr x)" and p: "c_string target t1 = (t2, Inr p)"
  then have t2: "t2 = t @ [(Fchdir root_fd, Done)]" "p = target" by (auto simp: sys_results)
  have "trusted_root os args t2 root_fd" by (rule trusted_root_mono [OF assms(1)]) (auto simp: t2)
  moreover have "cwd t2 = Some root_fd" "(Fstat d, Stats st) \<in> set t2" using assms(5) by (simp_all add: t2)
  ultimately have "unmount_authorised os args t2 target flags" if "flags \<in> {0, MNT_FORCE}" for flags
    using assms(2-4,6) that unfolding unmount_authorised_def by blast
  then show "guarded (authorised os args) t2 (sys_unit os (Unmount p (if force then MNT_FORCE else 0)) ''unmount'')"
    unfolding t2(2) by (intro guarded_sys) (simp add: authorised_def)
qed (auto intro!: guarded_sys emits_intros)

lemma guarded_helper_unmount:
  assumes "trusted_root os args t root_fd" "args ! 2 = root" "args ! 5 = target"
  shows "guarded (authorised os args) t (helper_unmount os root root_fd target rest)"
  unfolding helper_unmount_def
proof (intro guarded_required, rule guarded_unchanged, simp add: emits_intros, intro guarded_reject guarded_harmless)
  fix mode r1 force t1 d t2 kind
  assume v: "prepare_target target (validate_relative_mount_target os root_fd target) t = (t1, Inr d)"
    and k: "file_type os d t1 = (t2, Inr kind)" and sub: "set t \<subseteq> set t1" "set t1 \<subseteq> set t2"
  have rel: "relative_ok target" "below root_fd (names_of (parse_path target)) d"
    using validate_relative_mount_target_Inr v unfolding prepare_target_def act_context_Inr by blast+
  obtain st where st: "t2 = t1 @ [(Fstat d, Stats st)]" "kind = st_mode st AND S_IFMT" using file_type_Inr [OF k] by blast
  have trusted: "trusted_root os args t2 root_fd" using trusted_root_mono [OF assms(1)] sub by blast
  have "target_entry os args t2 d" using trusted rel assms(3) unfolding target_entry_def by blast
  then have reg: "guarded (authorised os args) t2 (unmount_regular_file_target os d (text_join root target) force)"
    using guarded_unmount_regular_file_target assms(2,3) by blast
  have dir: "guarded (authorised os args) t2 (unmount_directory_target os root_fd target force)" if "kind = S_IFDIR"
    by (rule guarded_unmount_directory [OF trusted rel(1) assms(3) rel(2), of st]) (use st that in simp_all)
  show "guarded (authorised os args) t2
      (if kind = S_IFREG then unmount_regular_file_target os d (text_join root target) force
       else if kind = S_IFDIR then unmount_directory_target os root_fd target force
       else bail ''mount target was validated as a file or directory'')"
    using reg dir by simp
qed (auto simp: prepare_target_def intro!: emits_intros)

lemma validate_orphan_Inr:
  assumes "validate_orphaned_document_mountpoint os chroots d mountpoint caller t = (t', Inr u)"
  shows "\<exists>canonical runtime md st parts.
     (Canonicalize chroots, PathIs canonical) \<in> set t' \<and> parse_path canonical = runtime @ [Normal ''chroots'']
     \<and> (Metadata runtime, Stats md) \<in> set t' \<and> private_to caller md
     \<and> (Fstat d, Stats st) \<in> set t' \<and> st_uid st = caller
     \<and> parse_path mountpoint = parse_path canonical @ parts \<and> document_grant caller parts"
proof -
  define msg where "msg = ''canonicalize chroots root '' @ chroots"
  obtain canonical runtime md i parts t1 t2 t3 where
    c: "sys_canonicalize os chroots msg t = (t1, Inr canonical)"
    and f: "file_name canonical = Some ''chroots''" "path_parent canonical = Some runtime"
    and md: "sys_stat os (Metadata runtime) ''inspect sandbox runtime root'' t1 = (t2, Inr md)"
    and i: "FileIdentity_from_fd os d t2 = (t3, Inr i)"
    and priv: "private_to caller md" "owner i = caller"
    and parts: "path_strip_prefix (parse_path mountpoint) canonical = Some parts" "document_grant caller parts"
    and gone: "instance_gone os d (take 2 parts) t3 = (t', Inr u)"
    using assms unfolding validate_orphaned_document_mountpoint_def Let_def msg_def [symmetric]
    by (auto simp only: act_bind_Inr_iff act_option_Inr ensure_Inr)
  have sub: "set t3 \<subseteq> set t'" by (rule emits_subset [OF emits_instance_gone gone])
  obtain spelling where sp: "canonical = parse_path spelling" "t1 = t @ [(Canonicalize chroots, PathIs spelling)]"
    using c by (auto simp: sys_results)
  obtain st where st: "t3 = t2 @ [(Fstat d, Stats st)]" "st_uid st = caller"
    using FileIdentity_from_fd_Inr [OF i] priv(2) by auto
  have t2: "t2 = t1 @ [(Metadata runtime, Stats md)]" using md by (simp add: sys_results)
  have "(Canonicalize chroots, PathIs spelling) \<in> set t'" "(Metadata runtime, Stats md) \<in> set t'" "(Fstat d, Stats st) \<in> set t'"
    using sub by (simp_all add: sp st t2)
  moreover have "parse_path spelling = runtime @ [Normal ''chroots'']" using path_parent_file_name [OF f(2,1)] sp(1) by simp
  moreover have "parse_path mountpoint = parse_path spelling @ parts" using parts(1) sp(1) by (simp add: strip_prefix_Some_iff)
  ultimately show ?thesis using priv(1) parts(2) st(2) by (intro exI conjI)
qed

lemma mounted_filesystem_named_Inr:
  assumes "mounted_filesystem_named os mountpoint t = (t', Inr fs)"
  shows "\<exists>ms. t' = t @ [(Getmntinfo, Mounts ms)] \<and> fs \<in> set ms \<and> f_mntonname fs = mountpoint"
proof -
  obtain ms where ms: "getmntinfo_mounts os t = (t', Inr ms)" and find: "find (\<lambda>st. f_mntonname st = mountpoint) ms = Some fs"
    using assms by (auto simp: mounted_filesystem_named_def act_bind_Inr_iff)
  have "t' = t @ [(Getmntinfo, Mounts ms)]"
    using ms by (auto simp: getmntinfo_mounts_def act_bind_Inr_iff sys_def Let_def split: answer.splits if_splits)
  then show ?thesis using find by (auto simp: find_Some_iff)
qed

lemma guarded_recover:
  assumes "effective_uid os = 0" "real_uid os \<noteq> 0" "args ! 1 = ''recover-orphaned-document-unmount''" "drop 2 args = rest"
  shows "guarded (authorised os args) t (recover_orphaned_document_unmount os rest (real_uid os))"
  unfolding recover_orphaned_document_unmount_def
proof (intro guarded_required, rule guarded_unchanged, simp add: emits_intros, intro guarded_required, rule guarded_unchanged,
    simp add: emits_intros, intro guarded_reject guarded_ensure guarded_harmless)
  fix chroots r1 dev r2 ino r3 expected mountpoint r4 mode r5 force t1 d t2 x t3 y t4 fs
  assume "rest = chroots # r1" "r1 = dev # r2" "r2 = ino # r3" "r3 = mountpoint # r4" "r4 = mode # r5"
    and ex: "FileIdentity_parse dev ino t = (t, Inr expected)"
    and v: "verify os expected d ''chroots root'' t1 = (t2, Inr x)"
    and o: "validate_orphaned_document_mountpoint os chroots d mountpoint (real_uid os) t2 = (t3, Inr y)"
    and fs: "mounted_filesystem_named os mountpoint t3 = (t4, Inr fs)" and null: "f_fstypename fs = ''nullfs''"
    and sub: "set t2 \<subseteq> set t3" "set t3 \<subseteq> set t4"
  then have "drop 2 args = chroots # dev # ino # mountpoint # mode # r5" using assms(4) by simp
  then have a: "args ! 2 = chroots" "args ! 3 = dev" "args ! 4 = ino" "args ! 5 = mountpoint"
    using nth_drop_Cons [of 2 args] nth_drop_Cons [of 3 args] nth_drop_Cons [of 4 args] nth_drop_Cons [of 5 args]
    by (simp_all add: eval_nat_numeral)
  have "identity_checked t4 d dev ino"
    using identity_checked_mono [OF identity_checked_mono [OF verify_Inr [OF v ex] sub(1)] sub(2)] .
  moreover obtain canonical runtime md st parts where
     "(Canonicalize chroots, PathIs canonical) \<in> set t4" "parse_path canonical = runtime @ [Normal ''chroots'']"
     "(Metadata runtime, Stats md) \<in> set t4" "private_to (real_uid os) md"
     "(Fstat d, Stats st) \<in> set t4" "st_uid st = real_uid os"
     "parse_path mountpoint = parse_path canonical @ parts" "document_grant (real_uid os) parts"
    using validate_orphan_Inr [OF o] sub(2) by blast
  moreover obtain ms where "(Getmntinfo, Mounts ms) \<in> set t4" "fs \<in> set ms" "f_mntonname fs = mountpoint"
    using mounted_filesystem_named_Inr [OF fs] by (metis in_set_conv_decomp)
  ultimately have "orphan_authorised os args t4 (fsid_text (f_fsid fs))"
    using assms(1-3) null unfolding orphan_authorised_def a by blast
  then have "unmount_authorised os args t4 (fsid_text (f_fsid fs)) (MNT_BYFSID OR (if force then MNT_FORCE else 0))"
    unfolding unmount_authorised_def by simp
  then show "guarded (authorised os args) t4 (unmount_filesystem os (f_fsid fs) force)"
    unfolding unmount_filesystem_def by (intro guarded_sys) (simp add: authorised_def)
qed (auto intro!: emits_intros)

lemma guarded_run_mount_helper: "guarded (authorised os args) t (run_mount_helper os args)"
  unfolding run_mount_helper_def
proof (intro guarded_ensure guarded_required)
  fix operation rest
  assume ids: "effective_uid os = 0" "real_uid os \<noteq> 0" and "tl args = operation # rest"
  then have d: "drop 1 args = operation # rest" by (simp add: drop_Suc)
  then have a1: "args ! 1 = operation" "drop 2 args = rest" using nth_drop_Cons [OF d] by (simp_all add: numeral_2_eq_2)
  have other: "guarded (authorised os args) t
      (act_bind (required_arg ''sandbox root'' rest) (\<lambda>(root, args).
       act_bind (required_arg ''sandbox root device'' args) (\<lambda>(dev, args).
       act_bind (required_arg ''sandbox root inode'' args) (\<lambda>(ino, args).
       act_bind (FileIdentity_parse dev ino) (\<lambda>expected_root.
       act_bind (required_arg ''sandbox-relative target'' args) (\<lambda>(target, args).
       act_bind (act_context (''open sandbox root '' @ root) (open_absolute_dir os root)) (\<lambda>root_fd.
       act_bind (verify os expected_root root_fd ''sandbox root'') (\<lambda>_.
       act_bind (FileIdentity_from_fd os root_fd) (\<lambda>root_identity.
       act_bind (validate_mount_root os root root_fd (real_uid os)) (\<lambda>_.
       helper_operation os operation root root_fd root_identity target args))))))))))"
  proof (intro guarded_required, rule guarded_unchanged, simp add: emits_intros, intro guarded_required guarded_harmless)
    fix root r1 dev r2 ino r3 expected target r4 t1 root_fd t2 x t3 i t4 y
    assume "rest = root # r1" "r1 = dev # r2" "r2 = ino # r3" "r3 = target # r4"
      and ex: "FileIdentity_parse dev ino t = (t, Inr expected)"
      and o: "act_context (''open sandbox root '' @ root) (open_absolute_dir os root) t = (t1, Inr root_fd)"
      and v: "verify os expected root_fd ''sandbox root'' t1 = (t2, Inr x)"
      and p: "validate_mount_root os root root_fd (real_uid os) t3 = (t4, Inr y)"
      and sub: "set t2 \<subseteq> set t3" "set t3 \<subseteq> set t4"
    then have "drop 2 args = root # dev # ino # target # r4" using a1(2) by simp
    then have a: "args ! 2 = root" "args ! 3 = dev" "args ! 4 = ino" "args ! 5 = target" "drop 6 args = r4"
      using nth_drop_Cons [of 2 args] nth_drop_Cons [of 3 args] nth_drop_Cons [of 4 args] nth_drop_Cons [of 5 args]
      by (simp_all add: eval_nat_numeral)
    have "identity_checked t4 root_fd dev ino"
      using identity_checked_mono [OF identity_checked_mono [OF verify_Inr [OF v ex] sub(1)] sub(2)] .
    then have "trusted_root os args t4 root_fd"
      using open_absolute_dir_Inr o validate_mount_root_Inr [OF p] ids unfolding trusted_root_def a act_context_Inr by blast
    then show "guarded (authorised os args) t4 (helper_operation os operation root root_fd i target r4)"
      using guarded_helper_nullfs guarded_helper_tmpfs guarded_helper_special guarded_helper_unmount a a1
      by (simp add: helper_operation_def)
  qed (auto intro!: emits_intros)
  show "guarded (authorised os args) t
      (if operation = ''recover-orphaned-document-unmount'' then recover_orphaned_document_unmount os rest (real_uid os)
       else
       act_bind (required_arg ''sandbox root'' rest) (\<lambda>(root, args).
       act_bind (required_arg ''sandbox root device'' args) (\<lambda>(dev, args).
       act_bind (required_arg ''sandbox root inode'' args) (\<lambda>(ino, args).
       act_bind (FileIdentity_parse dev ino) (\<lambda>expected_root.
       act_bind (required_arg ''sandbox-relative target'' args) (\<lambda>(target, args).
       act_bind (act_context (''open sandbox root '' @ root) (open_absolute_dir os root)) (\<lambda>root_fd.
       act_bind (verify os expected_root root_fd ''sandbox root'') (\<lambda>_.
       act_bind (FileIdentity_from_fd os root_fd) (\<lambda>root_identity.
       act_bind (validate_mount_root os root root_fd (real_uid os)) (\<lambda>_.
       helper_operation os operation root root_fd root_identity target args))))))))))"
    using other guarded_recover [OF ids] a1 by simp
qed


section \<open>Mounts left behind\<close>

fun mount_weight :: "call \<times> answer \<Rightarrow> int" where
  "mount_weight (Nmount _ _, Done) = 1"
| "mount_weight (Unmount _ _, Done) = - 1"
| "mount_weight _ = 0"

text \<open>The mounts of a trace minus its unmounts, counting the calls that succeeded.\<close>

definition net_mounts :: "trace \<Rightarrow> int" where
  "net_mounts t = sum_list (map mount_weight t)"

definition keeps :: "'a act \<Rightarrow> bool" where
  "keeps m \<longleftrightarrow> (\<forall>t. net_mounts (fst (m t)) = net_mounts t)"

text \<open>A failure of the step leaves the mounts as they were; a success adds \<open>k\<close> of them.\<close>

definition clean_failure :: "'a act \<Rightarrow> bool" where
  "clean_failure m \<longleftrightarrow> (\<forall>t t' e. m t = (t', Inl e) \<longrightarrow> net_mounts t' = net_mounts t)"

definition adds :: "int \<Rightarrow> 'a act \<Rightarrow> bool" where
  "adds k m \<longleftrightarrow> (\<forall>t t' x. m t = (t', Inr x) \<longrightarrow> net_mounts t' = net_mounts t + k)"

lemma mount_weight_quiet: "\<not> mounting (fst e) \<Longrightarrow> mount_weight e = 0"
  by (cases e rule: mount_weight.cases) auto

lemma keeps_quiet: "quiet m \<Longrightarrow> keeps m"
proof -
  have "sum_list (map mount_weight ext) = 0" if "\<forall>e\<in>set ext. \<not> mounting (fst e)" for ext
    using that by (induction ext) (simp_all add: mount_weight_quiet)
  then show "quiet m \<Longrightarrow> keeps m" unfolding emits_def keeps_def net_mounts_def by (metis add.right_neutral map_append sum_list_append)
qed

lemma keeps_harmless: "emits harmless m \<Longrightarrow> keeps m"
  by (rule keeps_quiet [OF quiet_harmless])

lemma keeps_apply: "keeps m \<Longrightarrow> m t = (t', r) \<Longrightarrow> net_mounts t' = net_mounts t"
  by (metis fst_conv keeps_def)

lemma clean_failure_keeps: "keeps m \<Longrightarrow> clean_failure m"
  using keeps_apply by (auto simp: clean_failure_def)

lemma adds_keeps: "keeps m \<Longrightarrow> adds 0 m"
  using keeps_apply by (auto simp: adds_def)

lemma clean_failure_bind:
  assumes "keeps m" "\<And>t t' x. m t = (t', Inr x) \<Longrightarrow> clean_failure (f x)"
  shows "clean_failure (act_bind m f)"
  unfolding clean_failure_def
proof (intro allI impI)
  fix t t' e
  assume "act_bind m f t = (t', Inl e)"
  then show "net_mounts t' = net_mounts t"
  proof (cases rule: act_bind_InlE)
    case 1
    then show ?thesis by (rule keeps_apply [OF assms(1)])
  next
    case (2 t1 x)
    then show ?thesis using assms(2) keeps_apply [OF assms(1)] unfolding clean_failure_def by metis
  qed
qed

lemma adds_bind:
  assumes "keeps m" "\<And>x. adds k (f x)"
  shows "adds k (act_bind m f)"
  unfolding adds_def
proof (intro allI impI)
  fix t t' y
  assume "act_bind m f t = (t', Inr y)"
  then obtain t1 x where x: "m t = (t1, Inr x)" "f x t1 = (t', Inr y)" by (rule act_bind_InrE)
  then show "net_mounts t' = net_mounts t + k" using assms(2) keeps_apply [OF assms(1) x(1)] unfolding adds_def by metis
qed

lemma clean_failure_wrap: "clean_failure m \<Longrightarrow> clean_failure (act_context msg m)" "adds k m \<Longrightarrow> adds k (act_context msg m)"
  unfolding clean_failure_def adds_def act_context_def by (auto split: prod.splits sum.splits)

lemma net_mounts_snoc: "net_mounts (t @ [e]) = net_mounts t + mount_weight e"
  by (simp add: net_mounts_def)

lemma clean_failure_sys: "clean_failure (sys_unit os c msg)"
proof -
  have "mount_weight (c, a) = 0" if "a \<noteq> Done" for a
    using that by (cases "(c, a)" rule: mount_weight.cases) auto
  then show ?thesis
    by (auto simp: clean_failure_def sys_unit_def sys_def act_bind_def act_ok_def act_fail_def Let_def net_mounts_snoc)
qed

lemma adds_sys: "adds (mount_weight (c, Done)) (sys_unit os c msg)"
  by (auto simp: adds_def sys_unit_Inr net_mounts_snoc)

lemma adds_mount: "adds 1 (options_mount os mo flags)" and clean_failure_mount: "clean_failure (options_mount os mo flags)"
  using adds_sys [of "Nmount (option_iov mo) flags"] by (simp_all add: options_mount_def clean_failure_sys)

lemma adds_unmount: "adds (- 1) (unmount_filesystem os f force)" and clean_failure_unmount: "clean_failure (unmount_filesystem os f force)"
  using adds_sys [of "Unmount (fsid_text f) (MNT_BYFSID OR (if force then MNT_FORCE else 0))"]
  by (simp_all add: unmount_filesystem_def clean_failure_sys)

lemma keeps_anchor: "keeps (anchor_mount_target os d)"
  by (rule keeps_quiet) (simp add: anchor_mount_target_def emits_intros)

lemma nullfs_mounts:
  "adds 1 (nmount_nullfs os source d name read_only)" "clean_failure (nmount_nullfs os source d name read_only)"
  unfolding nmount_nullfs_def Let_def
  by (intro adds_bind clean_failure_bind keeps_anchor adds_mount clean_failure_mount; rule keeps_harmless; intro emits_intros)+

lemma special_mounts: "clean_failure (nmount_special os d fs source)"
  unfolding nmount_special_def
  by (intro clean_failure_bind keeps_anchor clean_failure_mount; rule keeps_harmless; intro emits_intros)

lemma file_unmounts:
  "adds (- 1) (unmount_regular_file_target os d expected force)" "clean_failure (unmount_regular_file_target os d expected force)"
  unfolding unmount_regular_file_target_def
  by (intro adds_bind clean_failure_bind adds_unmount clean_failure_unmount; rule keeps_harmless; intro emits_intros)+

lemma directory_unmounts: "clean_failure (unmount_directory_target os d target force)"
  unfolding unmount_directory_target_def
  by (intro clean_failure_bind clean_failure_sys; rule keeps_quiet; intro emits_intros; simp)

lemma rollback_mounts:
  "adds (- 1) (rollback_regular_file_mount os parent name expected)" "clean_failure (rollback_regular_file_mount os parent name expected)"
  unfolding rollback_regular_file_mount_def
  by (intro adds_bind clean_failure_bind clean_failure_wrap file_unmounts; rule keeps_harmless; intro emits_intros)+

lemma protected_mounts:
  "adds 1 (mount_protected_file os source parent name u g read_only)"
  "clean_failure (mount_protected_file os source parent name u g read_only)"
  unfolding mount_protected_file_def
  by (intro adds_bind clean_failure_bind nullfs_mounts; rule keeps_harmless; intro emits_intros)+

lemma finish_failure:
  assumes m: "adds 1 m" "clean_failure m" and keep: "keeps restore_it" and undo: "adds (- 1) rollback" "clean_failure rollback"
  shows "clean_failure (finish_regular_file_mount os m restore_it rollback)"
  unfolding clean_failure_def
proof (intro allI impI)
  fix t t' e
  assume run: "finish_regular_file_mount os m restore_it rollback t = (t', Inl e)"
  obtain t1 r1 where r1: "m t = (t1, r1)" by (cases "m t")
  obtain t2 r2 where r2: "restore_it t1 = (t2, r2)" by (cases "restore_it t1")
  obtain t3 r3 where r3: "rollback t2 = (t3, r3)" by (cases "rollback t2")
  obtain t4 r4 where r4: "restore_it t3 = (t4, r4)" by (cases "restore_it t3")
  have n2: "net_mounts t2 = net_mounts t1" and n4: "net_mounts t4 = net_mounts t3"
    using keeps_apply [OF keep] r2 r4 by blast+
  note step = run [unfolded finish_regular_file_mount_def] and eval = act_bind_def act_try_def act_ok_def act_fail_def bail_def
  show "net_mounts t' = net_mounts t"
  proof (cases r1)
    case (Inl e1)
    then have "net_mounts t1 = net_mounts t" using m(2) r1 unfolding clean_failure_def by blast
    moreover have "t' = t2" using step Inl r1 r2 by (cases r2) (simp_all add: eval)
    ultimately show ?thesis using n2 by simp
  next
    case (Inr u)
    then have n1: "net_mounts t1 = net_mounts t + 1" using m(1) r1 unfolding adds_def by blast
    obtain e2 where r2': "r2 = Inl e2" using step Inr r1 r2 by (cases r2) (simp_all add: eval)
    have "t' = t4 \<and> (\<exists>u. r3 = Inr u)"
      using step Inr r2' r1 r2 r3 r4 by (cases r3; cases r4) (simp_all add: eval)
    moreover from this have "net_mounts t3 = net_mounts t2 - 1" using undo(1) r3 unfolding adds_def by fastforce
    ultimately show ?thesis using n1 n2 n4 by simp
  qed
qed

lemma regular_file_failure: "clean_failure (nmount_regular_file_nullfs os source root root_fd target u g read_only)"
proof -
  have fin: "clean_failure (act_bind (finish_regular_file_mount os (mount_protected_file os source parent name u g read_only)
      (restore os parent protection) (rollback_regular_file_mount os parent name expected)) (\<lambda>_. act_ok ()))"
    for parent name protection expected
  proof -
    have "clean_failure (finish_regular_file_mount os (mount_protected_file os source parent name u g read_only)
      (restore os parent protection) (rollback_regular_file_mount os parent name expected))"
      by (intro finish_failure protected_mounts rollback_mounts keeps_quiet quiet_restore)
    then show ?thesis by (auto simp: clean_failure_def act_ok_def elim!: act_bind_InlE)
  qed
  have "clean_failure (act_bind (protect_regular_file_parent os parent) (\<lambda>protection.
      act_bind (finish_regular_file_mount os (mount_protected_file os source parent name u g read_only)
        (restore os parent protection) (rollback_regular_file_mount os parent name expected)) (\<lambda>_. act_ok ())))"
    for parent name expected
    by (rule clean_failure_bind [OF keeps_quiet [OF quiet_protect]]) (rule fin)
  then show ?thesis
    unfolding nmount_regular_file_nullfs_def
    by (intro clean_failure_bind keeps_harmless emits_opens) (simp split: prod.splits)
qed

lemma clean_failure_pure: "clean_failure (act_ok x)" "clean_failure (act_fail e)" "clean_failure (bail msg)"
  by (simp_all add: clean_failure_def act_ok_def act_fail_def bail_def)

lemma clean_failure_required:
  assumes "\<And>a rest. args = a # rest \<Longrightarrow> clean_failure (f a rest)"
  shows "clean_failure (act_bind (required_arg label args) (case_prod f))"
proof (rule clean_failure_bind)
  show "clean_failure (case_prod f x)" if "required_arg label args t = (t', Inr x)" for t t' x
    using that assms by (cases x) auto
qed (intro keeps_harmless emits_intros)

lemma clean_failure_harmless: "emits harmless m \<Longrightarrow> (\<And>x. clean_failure (f x)) \<Longrightarrow> clean_failure (act_bind m f)"
  by (rule clean_failure_bind [OF keeps_harmless])

lemma emits_prepare [emits_intros]: "emits P m \<Longrightarrow> emits P (prepare_target target m)"
  by (simp add: prepare_target_def emits_intros)

lemma helper_nullfs_failure: "clean_failure (helper_nullfs os root root_fd i target args)"
proof -
  have "clean_failure (if kind = S_IFDIR then
       act_bind (prepare_target target (chase_and_mkdir os root_fd (parse_path target) 0x1ED u g)) (\<lambda>d. nmount_nullfs os source d ''.'' read_only)
     else prepare_target target (nmount_regular_file_nullfs os source root root_fd target u g read_only))" for kind u g source read_only
    using clean_failure_harmless [OF emits_prepare [OF emits_opens(5)], of "\<lambda>d. nmount_nullfs os source d ''.'' read_only"]
      nullfs_mounts(2) clean_failure_wrap(1) [OF regular_file_failure] by (simp add: prepare_target_def)
  then show ?thesis
    unfolding helper_nullfs_def
    by (intro clean_failure_required clean_failure_harmless) (auto intro!: emits_intros split: option.splits)
qed

lemma helper_special_failure: "clean_failure (helper_special os root_fd i target args)"
  unfolding helper_special_def
  by (intro clean_failure_required clean_failure_harmless special_mounts) (auto intro!: emits_intros)

lemma helper_unmount_failure: "clean_failure (helper_unmount os root root_fd target args)"
  unfolding helper_unmount_def
  by (intro clean_failure_required clean_failure_harmless)
    (auto intro!: emits_intros simp: file_unmounts directory_unmounts clean_failure_pure)

lemma recover_failure: "clean_failure (recover_orphaned_document_unmount os args caller)"
  unfolding recover_orphaned_document_unmount_def
  by (intro clean_failure_required clean_failure_harmless clean_failure_unmount) (auto intro!: emits_intros)

lemma run_mount_helper_failure:
  assumes "hd (tl args) \<noteq> ''tmpfs''"
  shows "clean_failure (run_mount_helper os args)"
  unfolding run_mount_helper_def
proof (rule clean_failure_harmless, intro emits_intros, rule clean_failure_harmless, intro emits_intros, rule clean_failure_required)
  fix operation rest
  assume "tl args = operation # rest"
  with assms have "operation \<noteq> ''tmpfs''" by simp
  then have "clean_failure (helper_operation os operation root root_fd i target args)" for root root_fd i target args
    using helper_nullfs_failure helper_special_failure helper_unmount_failure
    by (simp add: helper_operation_def clean_failure_pure)
  then have "clean_failure (act_bind (required_arg ''sandbox root'' rest) (\<lambda>(root, args).
       act_bind (required_arg ''sandbox root device'' args) (\<lambda>(dev, args).
       act_bind (required_arg ''sandbox root inode'' args) (\<lambda>(ino, args).
       act_bind (FileIdentity_parse dev ino) (\<lambda>expected_root.
       act_bind (required_arg ''sandbox-relative target'' args) (\<lambda>(target, args).
       act_bind (act_context (''open sandbox root '' @ root) (open_absolute_dir os root)) (\<lambda>root_fd.
       act_bind (verify os expected_root root_fd ''sandbox root'') (\<lambda>_.
       act_bind (FileIdentity_from_fd os root_fd) (\<lambda>root_identity.
       act_bind (validate_mount_root os root root_fd (real_uid os)) (\<lambda>_.
       helper_operation os operation root root_fd root_identity target args))))))))))"
    by (intro clean_failure_required clean_failure_harmless) (auto intro!: emits_intros)
  with recover_failure show "clean_failure
      (if operation = ''recover-orphaned-document-unmount'' then recover_orphaned_document_unmount os rest (real_uid os)
       else
       act_bind (required_arg ''sandbox root'' rest) (\<lambda>(root, args).
       act_bind (required_arg ''sandbox root device'' args) (\<lambda>(dev, args).
       act_bind (required_arg ''sandbox root inode'' args) (\<lambda>(ino, args).
       act_bind (FileIdentity_parse dev ino) (\<lambda>expected_root.
       act_bind (required_arg ''sandbox-relative target'' args) (\<lambda>(target, args).
       act_bind (act_context (''open sandbox root '' @ root) (open_absolute_dir os root)) (\<lambda>root_fd.
       act_bind (verify os expected_root root_fd ''sandbox root'') (\<lambda>_.
       act_bind (FileIdentity_from_fd os root_fd) (\<lambda>root_identity.
       act_bind (validate_mount_root os root root_fd (real_uid os)) (\<lambda>_.
       helper_operation os operation root root_fd root_identity target args))))))))))"
    by simp
qed


section \<open>Properties\<close>


text \<open>A kernel that finds everything in place and answers the calls in \<open>broken\<close> with an error.\<close>

definition demo_kernel :: "(call \<Rightarrow> bool) \<Rightarrow> trace \<Rightarrow> call \<Rightarrow> answer" where
  "demo_kernel broken t c =
     (if broken c then Failed (Errno 5)
      else case c of
        Canonicalize p \<Rightarrow> PathIs p
      | Metadata p \<Rightarrow> Stats \<lparr>st_dev = 1, st_ino = 1, st_uid = 7, st_gid = 7, st_mode = S_IFDIR\<rparr>
      | Fstat (Child n d name) \<Rightarrow>
          Stats \<lparr>st_dev = 1, st_ino = 2, st_uid = 7, st_gid = 7, st_mode = if name = ''.flatpak-info'' then S_IFREG else S_IFDIR\<rparr>
      | _ \<Rightarrow> Done)"

definition demo_os :: "(call \<Rightarrow> bool) \<Rightarrow> mount_os" where
  "demo_os broken = \<lparr>kernel = demo_kernel broken, effective_uid = 0, real_uid = 7, strerror = (\<lambda>_. ''error'')\<rparr>"

definition demo_args :: "string list" where
  "demo_args = [MOUNT_HELPER_PATH, ''tmpfs'', ''/r/chroots/a/i'', nat_digits 1, nat_digits 2, ''tmp'', ''mode=700'']"

lemma demo_command: "tmpfs_command ''/r/chroots/a/i'' (1, 2) ''tmp'' ''mode=700'' = Some demo_args"
proof -
  have "relative_ok ''tmp''" by code_simp
  then show ?thesis by (simp add: tmpfs_command_def demo_args_def identity_text_def)
qed

lemma demo_paths:
  "parse_path ''/r/chroots/a/i'' = [RootDir, Normal ''r'', Normal ''chroots'', Normal ''a'', Normal ''i'']"
  "parse_path ''tmp'' = [Normal ''tmp'']"
  "split_on (CHR '','') ''mode=700'' = [''mode=700'']" "split_once (CHR ''='') ''mode=700'' = Some (''mode'', ''700'')"
  by code_simp+

lemma demo_mode: "parse_octal 4294967295 ''700'' = Some 448"
  by (simp add: parse_octal_def Let_def is_octal_digit_def is_ascii_digit_def digit_value_def)

lemmas demo_eval = run_mount_helper_def demo_args_def demo_os_def demo_kernel_def act_bind_def act_ok_def act_fail_def bail_def
  ensure_def required_arg_def reject_extra_args_def FileIdentity_parse_def parse_u64_def act_option_def act_context_def
  open_absolute_dir_def open_absolute_path_def demo_paths is_absolute_def sys_open_def sys_def sys_unit_def sys_stat_def
  open_child_dir_def open_child_dir_cstr_def c_string_def verify_def FileIdentity_from_fd_def validate_mount_root_def
  sys_canonicalize_def path_parent_def file_name_def private_to_def S_IFDIR_def S_IFREG_def S_IFMT_def helper_operation_def
  helper_tmpfs_def prepare_target_def chase_and_mkdir_def relative_path_ok_def duplicate_dir_def make_child_def nmount_tmpfs_def
  anchor_mount_target_def option_value_def option_value_cstr_def option_flag_def MountOptions_new_def tmpfs_option_def parse_mode_def
  demo_mode options_mount_def open_relative_dir_def tmpfs_metadata_def Let_def

lemma demo_run:
  "\<exists>t. run_mount_helper (demo_os (\<lambda>_. False)) demo_args [] = (t, Inr ()) \<and> 18 < length t \<and> mounting (fst (t ! 18))"
  by (simp add: demo_eval)


text \<open>
  C15. A request that fails leaves nothing mounted: when the helper returns an error for a nullfs, special,
  unmount or recovery request, every mount it made was undone, so a caller that records a mount exactly when
  the helper succeeds never loses one. In particular a regular-file mount whose directory cannot be restored
  is either rolled back and reported as an error, or kept and reported as a success.
\<close>

theorem failed_request_leaves_no_mount:
  assumes "run_mount_helper os args [] = (t, Inl e)" and "hd (tl args) \<noteq> ''tmpfs''"
  shows "net_mounts t = 0"
  using run_mount_helper_failure [OF assms(2)] assms(1) unfolding clean_failure_def net_mounts_def by fastforce

definition demo_special_args :: "string list" where
  "demo_special_args = [MOUNT_HELPER_PATH, ''special'', ''/r/chroots/a/i'', nat_digits 1, nat_digits 2, ''tmp'', ''devfs'', ''devfs'']"

fun is_chmod :: "call \<Rightarrow> bool" where
  "is_chmod (Fchmod _ _) = True"
| "is_chmod _ = False"

theorem failed_request_leaves_no_mount_witness:
  "\<exists>t e. run_mount_helper (demo_os mounting) demo_special_args [] = (t, Inl e) \<and> 18 < length t \<and> net_mounts t = 0"
proof -
  have "\<exists>t e. run_mount_helper (demo_os mounting) demo_special_args [] = (t, Inl e) \<and> 18 < length t"
    by (simp add: demo_eval demo_special_args_def helper_special_def special_filesystems_def nmount_special_def)
  moreover have "hd (tl demo_special_args) \<noteq> ''tmpfs''" by (simp add: demo_special_args_def)
  ultimately show ?thesis using failed_request_leaves_no_mount by blast
qed

text \<open>
  A tmpfs request can fail and leave its mount behind: when the mode of the new file system cannot be
  set after \<^verbatim>\<open>nmount\<close> succeeded, the helper returns an error with the tmpfs still mounted.
\<close>

theorem tmpfs_failure_leaves_mount:
  "\<exists>t e. run_mount_helper (demo_os is_chmod) demo_args [] = (t, Inl e) \<and> net_mounts t = 1"
  by (simp add: demo_eval net_mounts_def)

text \<open>
  C32. The options of a mount stay in bounds: every option built with \<^verbatim>\<open>value\<close> and \<^verbatim>\<open>flag\<close> refers to strings that
  exist, and the vector handed to \<^verbatim>\<open>nmount\<close> grows by exactly the name and the value (or the null pointer of a flag).
\<close>

theorem mount_options_in_bounds:
  assumes "options_ok mo"
  shows "options_ok (option_value_cstr name v mo)
    \<and> option_iov (option_value_cstr name v mo) = option_iov mo @ [Some name, Some v]
    \<and> (\<forall>t t' mo'. option_flag name mo t = (t', Inr mo') \<longrightarrow> options_ok mo' \<and> option_iov mo' = option_iov mo @ [Some name, None])
    \<and> length (option_iov mo) = 2 * length (pairs mo)"
proof -
  have "length (option_iov mo) = 2 * length (pairs mo)"
    unfolding option_iov_def by (induction "pairs mo" arbitrary: mo) (simp_all add: length_concat o_def split_def sum_list_triv)
  then show ?thesis using option_value_cstr_iov [OF assms] option_flag_iov(2,3) [OF assms] by blast
qed

theorem mount_options_in_bounds_witness:
  "options_ok (option_value_cstr ''fstype'' ''tmpfs'' MountOptions_new)
    \<and> option_iov (option_value_cstr ''fstype'' ''tmpfs'' MountOptions_new) = [Some ''fstype'', Some ''tmpfs'']"
  using mount_options_in_bounds [OF options_ok_new(1), of "''fstype''" "''tmpfs''"] by simp

end
