(* ===== verification/Spec2Isabelle.thy ===== *)
theory Spec2Isabelle
  imports Flatpak_Ref Filesystem_Grants Checkout_Activation Spawn_Handler Remotes Generation_Cleanup Extensions Kill Secure_Mount
begin

text \<open>
  A verification of the core of \<^verbatim>\<open>freebsd-flatpak\<close>.
\<close>

end
